(* ===== verification/Prelude.thy ===== *)
theory Prelude
  imports Complex_Main "HOL-Library.Char_ord" "HOL-Library.List_Lexorder"
    "HOL-Library.Product_Lexorder" "HOL-Library.AList" "HOL-Library.Multiset"
    "HOL-Library.State_Monad"
begin

text \<open>
  The vocabulary the component theories share: the part of the Python runtime the program
  relies on and that is taken as an argument (\<open>py\<close>), exceptions as values, JSON values,
  Python's string operations, insertion-ordered dictionaries as association lists, and the
  rules with which state-passing code is verified.

  Text is a list of characters (\<open>string\<close>), compared by code point as Python compares
  \<open>str\<close> (\<open>Char_ord\<close> and \<open>List_Lexorder\<close>). Encoding to UTF-8 is the identity on it.
\<close>

section \<open>The runtime the program is linked with\<close>

text \<open>
  \<open>datetime.fromisoformat\<close> answers with an instant (microseconds since the epoch) and
  whether the text carried a zone; \<open>None\<close> is its \<open>ValueError\<close>. \<open>hexdigest\<close> is
  \<open>hashlib.sha256(...).hexdigest()\<close>, \<open>repr_float\<close> is \<open>float.__repr__\<close>, and \<open>trunc_float\<close> is
  \<open>int(x)\<close> of the float whose text is given (\<open>None\<close> for an infinity or not-a-number).
  Every theorem holds for all of them, unless it names what it assumes.
\<close>

datatype stamp = Naive int | Aware int

record py =
  hexdigest :: "string \<Rightarrow> string"
  fromisoformat :: "string \<Rightarrow> stamp option"
  repr_float :: "rat \<Rightarrow> string"
  trunc_float :: "string \<Rightarrow> int option"

text \<open>Two different texts with one digest: what a forger of a hash chain has to find.\<close>

definition digest_collision :: "py \<Rightarrow> bool" where
  "digest_collision P \<longleftrightarrow> (\<exists>a b. a \<noteq> b \<and> hexdigest P a = hexdigest P b)"

lemma digest_collisionI: "hexdigest P a = hexdigest P b \<Longrightarrow> a \<noteq> b \<Longrightarrow> digest_collision P"
  by (auto simp: digest_collision_def)

lemma digest_eqD: "hexdigest P a = hexdigest P b \<Longrightarrow> \<not> digest_collision P \<Longrightarrow> a = b"
  by (auto simp: digest_collision_def)

section \<open>Exceptions as values\<close>

datatype err =
    ValueError string
  | KeyError string
  | IndexError
  | TypeError
  | AttributeError
  | ExecutorRefused string
  | FileError string

type_synonym 'a result = "err + 'a"

definition is_ok :: "'a result \<Rightarrow> bool" where
  "is_ok r = (case r of Inl _ \<Rightarrow> False | Inr _ \<Rightarrow> True)"

lemma is_ok_simps [simp]: "\<not> is_ok (Inl e)" "is_ok (Inr v)"
  by (simp_all add: is_ok_def)

text \<open>Sequencing of results, for code that raises but keeps no state.\<close>

definition and_then :: "'a result \<Rightarrow> ('a \<Rightarrow> 'b result) \<Rightarrow> 'b result" where
  "and_then r f = (case r of Inl e \<Rightarrow> Inl e | Inr x \<Rightarrow> f x)"

lemma and_then_simps [simp]: "and_then (Inl e) f = Inl e" "and_then (Inr x) f = f x"
  by (simp_all add: and_then_def)

lemma and_then_InrE:
  assumes "and_then r f = Inr y"
  obtains x where "r = Inr x" and "f x = Inr y"
  using assms by (auto simp: and_then_def split: sum.splits)

text \<open>
  A validator that raises the code of the first condition that fails, written as the list of its
  conditions with their codes, in the order the code tests them.
\<close>

fun first_failure :: "(bool \<times> string) list \<Rightarrow> unit result" where
  "first_failure [] = Inr ()"
| "first_failure ((b, code) # rest) = (if b then first_failure rest else Inl (ValueError code))"

lemma first_failure_ok: "first_failure cs = Inr u \<longleftrightarrow> list_all fst cs"
  by (induction cs rule: first_failure.induct) auto

lemma first_failure_code: "first_failure cs = Inl e \<Longrightarrow> \<exists>code. e = ValueError code \<and> (False, code) \<in> set cs"
  by (induction cs rule: first_failure.induct) (auto split: if_splits)

section \<open>Collections of facts\<close>

named_theorems keeps \<open>rules saying that an operation keeps a predicate of the state\<close>
named_theorems dict_simps \<open>lookups in insertion-ordered dictionaries\<close>

lemma list_all2_in1: "list_all2 Q xs ys \<Longrightarrow> x \<in> set xs \<Longrightarrow> \<exists>y \<in> set ys. Q x y"
  by (induction rule: list_all2_induct) auto

lemma list_all2_in2: "list_all2 Q xs ys \<Longrightarrow> y \<in> set ys \<Longrightarrow> \<exists>x \<in> set xs. Q x y"
  by (induction rule: list_all2_induct) auto

lemma list_all2_map_eq: "list_all2 Q xs ys \<Longrightarrow> (\<And>x y. Q x y \<Longrightarrow> f x = g y) \<Longrightarrow> map f xs = map g ys"
  by (induction rule: list_all2_induct) auto

section \<open>State-passing code\<close>

text \<open>
  \<open>keeps I m\<close>: from every state in which \<open>I\<close> holds, running \<open>m\<close> ends in one in which it
  holds. The rules below follow the structure of the code.
\<close>

definition keeps :: "('s \<Rightarrow> bool) \<Rightarrow> ('s, 'a) state \<Rightarrow> bool" where
  "keeps I m \<longleftrightarrow> (\<forall>s. I s \<longrightarrow> I (snd (run_state m s)))"

lemma keepsI: "(\<And>s. I s \<Longrightarrow> I (snd (run_state m s))) \<Longrightarrow> keeps I m"
  by (auto simp: keeps_def)

lemma keepsD: "keeps I m \<Longrightarrow> I s \<Longrightarrow> run_state m s = (x, t) \<Longrightarrow> I t"
  by (force simp: keeps_def)

lemma keeps_return [keeps]: "keeps I (State_Monad.return x)"
  by (auto simp: keeps_def)

lemma keeps_bind [keeps]:
  assumes "keeps I m" and "\<And>x. keeps I (f x)"
  shows "keeps I (State_Monad.bind m f)"
  using assms by (fastforce simp: keeps_def split: prod.splits)

lemma keeps_get [keeps]: "keeps I State_Monad.get"
  by (auto simp: keeps_def)

lemma keeps_if [keeps]: "keeps I m \<Longrightarrow> keeps I n \<Longrightarrow> keeps I (if b then m else n)"
  by simp

lemma keeps_option [keeps]:
  "keeps I m \<Longrightarrow> (\<And>x. keeps I (f x)) \<Longrightarrow> keeps I (case y of None \<Rightarrow> m | Some x \<Rightarrow> f x)"
  by (cases y) auto

lemma keeps_sum [keeps]:
  "(\<And>x. keeps I (f x)) \<Longrightarrow> (\<And>x. keeps I (g x)) \<Longrightarrow>
   keeps I (case y of Inl x \<Rightarrow> f x | Inr x \<Rightarrow> g x)"
  by (cases y) auto

lemma keeps_prod [keeps]: "(\<And>x y. keeps I (f x y)) \<Longrightarrow> keeps I (case z of (x, y) \<Rightarrow> f x y)"
  by (cases z) auto

lemma keeps_list [keeps]:
  "keeps I m \<Longrightarrow> (\<And>x xs. keeps I (f x xs)) \<Longrightarrow> keeps I (case ys of [] \<Rightarrow> m | x # xs \<Rightarrow> f x xs)"
  by (cases ys) auto

lemma keeps_let [keeps]: "(\<And>x. keeps I (f x)) \<Longrightarrow> keeps I (let x = y in f x)"
  by simp

text \<open>
  A computation that may raise ends in \<open>Inl\<close> and leaves the state as it was at that point;
  what follows it does not run. A loop is a computation over a list that stops at the first error.
\<close>

definition try_bind :: "('s, 'a result) state \<Rightarrow> ('a \<Rightarrow> ('s, 'b result) state) \<Rightarrow> ('s, 'b result) state" where
  "try_bind m f = State_Monad.bind m (\<lambda>r. case r of Inl e \<Rightarrow> State_Monad.return (Inl e) | Inr x \<Rightarrow> f x)"

definition succeed :: "('s, 'a) state \<Rightarrow> ('s, 'a result) state" where
  "succeed m = State_Monad.bind m (\<lambda>x. State_Monad.return (Inr x))"

definition raise :: "err \<Rightarrow> ('s, 'a result) state" where
  "raise e = State_Monad.return (Inl e)"

definition from_result :: "'a result \<Rightarrow> ('s, 'a result) state" where
  "from_result r = State_Monad.return r"

fun for_each :: "('a \<Rightarrow> ('s, 'b) state) \<Rightarrow> 'a list \<Rightarrow> ('s, 'b list) state" where
  "for_each f [] = State_Monad.return []"
| "for_each f (x # xs) = do { y \<leftarrow> f x; ys \<leftarrow> for_each f xs; State_Monad.return (y # ys) }"

fun map_try :: "('a \<Rightarrow> ('s, 'b result) state) \<Rightarrow> 'a list \<Rightarrow> ('s, 'b list result) state" where
  "map_try f [] = State_Monad.return (Inr [])"
| "map_try f (x # xs) = try_bind (f x) (\<lambda>y. try_bind (map_try f xs) (\<lambda>ys. State_Monad.return (Inr (y # ys))))"

lemma keeps_try_bind [keeps]: "keeps I m \<Longrightarrow> (\<And>x. keeps I (f x)) \<Longrightarrow> keeps I (try_bind m f)"
  unfolding try_bind_def by (intro keeps)

lemma keeps_succeed [keeps]: "keeps I m \<Longrightarrow> keeps I (succeed m)"
  unfolding succeed_def by (intro keeps)

lemma keeps_raise [keeps]: "keeps I (raise e)"
  unfolding raise_def by (intro keeps)

lemma keeps_from_result [keeps]: "keeps I (from_result r)"
  unfolding from_result_def by (intro keeps)

lemma keeps_for_each [keeps]: "(\<And>x. keeps I (f x)) \<Longrightarrow> keeps I (for_each f xs)"
  by (induction xs) (auto intro!: keeps)

lemma keeps_map_try [keeps]: "(\<And>x. keeps I (f x)) \<Longrightarrow> keeps I (map_try f xs)"
  by (induction xs) (auto intro!: keeps)

lemma run_try_bind:
  "run_state (try_bind m f) s =
     (case run_state m s of (Inl e, t) \<Rightarrow> (Inl e, t) | (Inr x, t) \<Rightarrow> run_state (f x) t)"
  by (simp add: try_bind_def split: prod.splits sum.splits)

lemma run_succeed: "run_state (succeed m) s = (Inr (fst (run_state m s)), snd (run_state m s))"
  by (simp add: succeed_def split: prod.splits)

lemma run_raise: "run_state (raise e) s = (Inl e, s)"
  by (simp add: raise_def)

lemma run_from_result: "run_state (from_result r) s = (r, s)"
  by (simp add: from_result_def)

lemma run_bind: "run_state (State_Monad.bind m f) s = run_state (f (fst (run_state m s))) (snd (run_state m s))"
  by (simp split: prod.splits)

text \<open>What a loop gives: a relation each round establishes and no later round destroys.\<close>

lemma for_each_rel: "(\<And>x s. Q x (fst (run_state (f x) s))) \<Longrightarrow> list_all2 Q xs (fst (run_state (for_each f xs) s))"
  by (induction xs arbitrary: s) (auto simp: split_beta)

lemma try_bind_InrE:
  assumes "run_state (try_bind m f) s = (Inr y, t)"
  obtains x u where "run_state m s = (Inr x, u)" and "run_state (f x) u = (Inr y, t)"
  using assms by (auto simp: run_try_bind split: prod.splits sum.splits)

lemma map_try_rel:
  assumes step: "\<And>x s y t. run_state (f x) s = (Inr y, t) \<Longrightarrow> J s \<Longrightarrow> J t \<and> R x y t"
    and stable: "\<And>x y z v s t. run_state (f z) s = (Inr v, t) \<Longrightarrow> J s \<Longrightarrow> R x y s \<Longrightarrow> R x y t"
  shows "run_state (map_try f xs) s = (Inr ys, t) \<Longrightarrow> J s \<Longrightarrow> J t \<and> list_all2 (\<lambda>x y. R x y t) xs ys"
proof (induction xs arbitrary: s ys)
  case (Cons x xs)
  from Cons.prems(1) obtain y u zs where y: "run_state (f x) s = (Inr y, u)" and zs: "run_state (map_try f xs) u = (Inr zs, t)"
    and ys: "ys = y # zs"
    by (auto elim!: try_bind_InrE)
  have u: "J u" "R x y u" using step [OF y Cons.prems(2)] by simp_all
  have "R x y t" using zs u
  proof (induction xs arbitrary: u zs)
    case (Cons z xs)
    then show ?case using step stable by (auto elim!: try_bind_InrE)
  qed auto
  with Cons.IH [OF zs u(1)] ys show ?case by simp
qed auto

lemmas run_simps = run_bind run_try_bind run_succeed run_raise run_from_result

end
