(* ===== verification/Py_Json.thy ===== *)
theory Py_Json
  imports Py_Text
begin

text \<open>
  JSON values as Python builds them, and \<open>json.dumps(obj, sort_keys=True,
  separators=(",", ":"), ensure_ascii=False)\<close>, the encoding every digest of the program is
  taken over. A float is kept as the token \<open>float.__repr__\<close> prints. The result of the theory
  is that the encoding is uniquely readable: two values with one encoding differ at most in
  the order of their keys.
\<close>

section \<open>Values and their encoding\<close>

datatype json =
    JNull
  | JBool bool
  | JInt int
  | JFloat string
  | JStr string
  | JList "json list"
  | JObj "(string \<times> json) list"

type_synonym row = "(string \<times> json) list"

definition hex_char :: "nat \<Rightarrow> char" where
  "hex_char d = (if d < 10 then char_of (48 + d) else char_of (87 + d))"

definition esc :: "char \<Rightarrow> string" where
  "esc c = (if c = CHR 0x22 then [CHR 0x5C, CHR 0x22]
     else if c = CHR 0x5C then [CHR 0x5C, CHR 0x5C]
     else if c = CHR 0x0A then [CHR 0x5C, CHR ''n'']
     else if c = CHR 0x0D then [CHR 0x5C, CHR ''r'']
     else if c = CHR 0x09 then [CHR 0x5C, CHR ''t'']
     else if c = CHR 0x0C then [CHR 0x5C, CHR ''f'']
     else if c = CHR 0x08 then [CHR 0x5C, CHR ''b'']
     else if of_char c < (32 :: nat)
       then [CHR 0x5C, CHR ''u'', CHR ''0'', CHR ''0'', hex_char (of_char c div 16), hex_char (of_char c mod 16)]
     else [c])"

lemma esc_code [code]:
  "esc c = (if c = CHR 0x22 then [CHR 0x5C, CHR 0x22]
     else if c = CHR 0x5C then [CHR 0x5C, CHR 0x5C]
     else if CHR 0x20 \<le> c then [c]
     else if c = CHR 0x0A then [CHR 0x5C, CHR ''n'']
     else if c = CHR 0x0D then [CHR 0x5C, CHR ''r'']
     else if c = CHR 0x09 then [CHR 0x5C, CHR ''t'']
     else if c = CHR 0x0C then [CHR 0x5C, CHR ''f'']
     else if c = CHR 0x08 then [CHR 0x5C, CHR ''b'']
     else [CHR 0x5C, CHR ''u'', CHR ''0'', CHR ''0'', hex_char (of_char c div 16), hex_char (of_char c mod 16)])"
  by (auto simp: esc_def less_eq_char_def)

definition quote :: "string \<Rightarrow> string" where
  "quote s = [CHR 0x22] @ concat (map esc s) @ [CHR 0x22]"

fun dumps :: "json \<Rightarrow> string" where
  "dumps JNull = ''null''"
| "dumps (JBool b) = (if b then ''true'' else ''false'')"
| "dumps (JInt i) = int_str i"
| "dumps (JFloat s) = s"
| "dumps (JStr s) = quote s"
| "dumps (JList xs) = ''['' @ join_with '','' (map dumps xs) @ '']''"
| "dumps (JObj kvs) =
     [CHR 0x7B] @ join_with '','' (map (\<lambda>(k, v). quote k @ '':'' @ dumps v) kvs) @ [CHR 0x7D]"

fun sort_keys :: "json \<Rightarrow> json" where
  "sort_keys (JList xs) = JList (map sort_keys xs)"
| "sort_keys (JObj kvs) = JObj (sort_key fst (map (\<lambda>(k, v). (k, sort_keys v)) kvs))"
| "sort_keys j = j"

definition canonical_json :: "json \<Rightarrow> string" where
  "canonical_json j = dumps (sort_keys j)"

text \<open>
  What Python can hold: dictionary keys are distinct, and the token of a finite float has a
  point or an exponent and no other characters.
\<close>

definition float_token :: "string \<Rightarrow> bool" where
  "float_token s \<longleftrightarrow> (CHR ''.'' \<in> set s \<or> CHR ''e'' \<in> set s) \<and>
     set s \<subseteq> set ''0123456789.e+-'' \<and> hd s \<in> set ''0123456789-''"

fun wf_json :: "json \<Rightarrow> bool" where
  "wf_json (JFloat s) = float_token s"
| "wf_json (JList xs) = list_all wf_json xs"
| "wf_json (JObj kvs) = (distinct (map fst kvs) \<and> list_all (\<lambda>(k, v). wf_json v) kvs)"
| "wf_json j = True"

section \<open>Strings are uniquely readable\<close>

definition hex_val :: "char \<Rightarrow> nat" where
  "hex_val c = (let n = of_char c in if n < 58 then n - 48 else n - 87)"

definition unesc :: "string \<Rightarrow> char \<times> string" where
  "unesc s = (if hd s \<noteq> CHR 0x5C then (hd s, tl s)
     else (let d = hd (tl s); r = tl (tl s) in
       if d = CHR 0x22 then (CHR 0x22, r)
       else if d = CHR 0x5C then (CHR 0x5C, r)
       else if d = CHR ''n'' then (CHR 0x0A, r)
       else if d = CHR ''r'' then (CHR 0x0D, r)
       else if d = CHR ''t'' then (CHR 0x09, r)
       else if d = CHR ''f'' then (CHR 0x0C, r)
       else if d = CHR ''b'' then (CHR 0x08, r)
       else (char_of (16 * hex_val (r ! 2) + hex_val (r ! 3)), drop 4 r)))"

lemma hex_val_hex_char: "d < 16 \<Longrightarrow> hex_val (hex_char d) = d"
  by (auto simp: hex_char_def hex_val_def of_char_of Let_def)

lemma unesc_unicode:
  "unesc ([CHR 0x5C, CHR ''u'', CHR ''0'', CHR ''0'', hex_char (of_char c div 16), hex_char (of_char c mod 16)] @ x) = (c, x)"
proof -
  have "(of_char c :: nat) < 16 * 16" using nat_of_char_less_256 [of c] by simp
  then have "(of_char c :: nat) div 16 < 16" by (rule less_mult_imp_div_less)
  then have "unesc ([CHR 0x5C, CHR ''u'', CHR ''0'', CHR ''0'', hex_char (of_char c div 16), hex_char (of_char c mod 16)] @ x)
      = (char_of (16 * (of_char c div 16) + of_char c mod 16 :: nat), x)"
    by (simp add: unesc_def hex_val_hex_char)
  also have "16 * (of_char c div 16) + of_char c mod 16 = (of_char c :: nat)" by simp
  finally show ?thesis by simp
qed

lemma unesc_esc: "unesc (esc c @ x) = (c, x)"
proof (cases "c \<in> {CHR 0x22, CHR 0x5C, CHR 0x0A, CHR 0x0D, CHR 0x09, CHR 0x0C, CHR 0x08}")
  case True
  then show ?thesis by (elim insertE) (simp_all add: unesc_def esc_def)
next
  case False
  show ?thesis
  proof (cases "of_char c < (32 :: nat)")
    case True
    with False have "esc c = [CHR 0x5C, CHR ''u'', CHR ''0'', CHR ''0'',
        hex_char (of_char c div 16), hex_char (of_char c mod 16)]"
      by (simp add: esc_def)
    then show ?thesis by (simp only: unesc_unicode)
  next
    case nonctrl: False
    with False have "esc c = [c]" by (simp add: esc_def)
    with False show ?thesis by (simp add: unesc_def)
  qed
qed

lemma esc_inject: "esc c @ x = esc d @ y \<Longrightarrow> c = d \<and> x = y"
  by (metis unesc_esc prod.inject)

lemma esc_shape [simp]: "esc c \<noteq> []" "hd (esc c) \<noteq> CHR 0x22"
  by (auto simp: esc_def)

lemma esc_not_quote: "esc c @ x \<noteq> CHR 0x22 # y"
  by (metis esc_shape hd_append list.sel(1))

lemma quote_inject: "quote s @ x = quote t @ y \<Longrightarrow> s = t \<and> x = y"
proof -
  have "concat (map esc s) @ CHR 0x22 # x = concat (map esc t) @ CHR 0x22 # y \<Longrightarrow> s = t \<and> x = y"
  proof (induction s arbitrary: t)
    case Nil
    then show ?case by (cases t) (auto simp: esc_not_quote esc_not_quote [symmetric])
  next
    case (Cons c s)
    then show ?case
      by (cases t) (auto simp: esc_not_quote dest: esc_inject)
  qed
  then show "quote s @ x = quote t @ y \<Longrightarrow> s = t \<and> x = y"
    by (simp add: quote_def)
qed

section \<open>Tokens, lists and objects\<close>

definition delim :: "char \<Rightarrow> bool" where
  "delim c \<longleftrightarrow> c = CHR '','' \<or> c = CHR '']'' \<or> c = CHR 0x7D"

definition ends :: "string \<Rightarrow> bool" where
  "ends r \<longleftrightarrow> r = [] \<or> delim (hd r)"

lemma ends_simps [simp]: "ends []" "ends (c # r) = delim c"
  by (simp_all add: ends_def)

lemma delim_simps [simp]: "delim (CHR '','')" "delim (CHR '']'')" "delim (CHR 0x7D)"
  by (simp_all add: delim_def)

lemma token_inject:
  assumes "\<forall>c \<in> set a. \<not> delim c" and "\<forall>c \<in> set b. \<not> delim c"
    and "ends r" and "ends r'" and eq: "a @ r = b @ r'"
  shows "a = b \<and> r = r'"
proof -
  have "takeWhile (\<lambda>c. \<not> delim c) (a @ r) = a"
    using assms(1,3) by (cases r) (auto simp: takeWhile_append)
  moreover have "takeWhile (\<lambda>c. \<not> delim c) (b @ r') = b"
    using assms(2,4) by (cases r') (auto simp: takeWhile_append)
  ultimately show ?thesis using eq by simp
qed

lemma is_digit_not_delim: "is_digit c \<Longrightarrow> \<not> delim c"
  by (auto simp: is_digit_def delim_def)

lemma int_str_chars: "c \<in> set (int_str i) \<Longrightarrow> is_digit c \<or> c = CHR ''-''"
  by (auto simp: int_str_def dest: nat_str_digits split: if_splits)

lemma minus_not_digit [simp]: "\<not> is_digit (CHR ''-'')"
  by (simp add: is_digit_def)

lemma nat_str_not_minus: "nat_str n \<noteq> CHR ''-'' # s"
  by (metis list.set_intros(1) minus_not_digit nat_str_digits)

lemma int_str_inject [simp]: "int_str i = int_str j \<longleftrightarrow> i = j"
  by (auto simp: int_str_def nat_str_not_minus nat_str_not_minus [symmetric])

lemma int_str_nonempty [simp]: "int_str i \<noteq> []"
  by (simp add: int_str_def)

definition atomic :: "json \<Rightarrow> bool" where
  "atomic j = (case j of JStr _ \<Rightarrow> False | JList _ \<Rightarrow> False | JObj _ \<Rightarrow> False | _ \<Rightarrow> True)"

lemma int_str_no_delim: "\<forall>c \<in> set (int_str i). \<not> delim c"
  using int_str_chars is_digit_not_delim by (fastforce simp: delim_def)

lemma float_token_no_delim: "float_token s \<Longrightarrow> \<forall>c \<in> set s. \<not> delim c"
  by (auto simp: float_token_def delim_def)

lemma atomic_no_delim: "atomic j \<Longrightarrow> wf_json j \<Longrightarrow> \<forall>c \<in> set (dumps j). \<not> delim c"
  by (cases j) (simp_all add: atomic_def int_str_no_delim float_token_no_delim, simp_all add: delim_def)

lemma float_token_not_int: "float_token s \<Longrightarrow> int_str i \<noteq> s"
proof
  assume f: "float_token s" and "int_str i = s"
  then have "\<forall>c \<in> set s. is_digit c \<or> c = CHR ''-''" using int_str_chars by blast
  moreover have "\<not> is_digit (CHR ''.'')" "\<not> is_digit (CHR ''e'')" by (simp_all add: is_digit_def)
  ultimately show False using f by (auto simp: float_token_def)
qed

lemma int_str_hd: "is_digit (hd (int_str i)) \<or> hd (int_str i) = CHR ''-''"
  using int_str_chars [of "hd (int_str i)" i] by simp

lemma word_not_int: "\<not> is_digit c \<Longrightarrow> c \<noteq> CHR ''-'' \<Longrightarrow> int_str i \<noteq> c # w"
  using int_str_hd [of i] by (metis list.sel(1))

lemma word_not_float: "c \<notin> set ''0123456789-'' \<Longrightarrow> \<not> float_token (c # w)"
  by (auto simp: float_token_def)

lemma letters_not_digits [simp]: "\<not> is_digit (CHR ''n'')" "\<not> is_digit (CHR ''t'')" "\<not> is_digit (CHR ''f'')"
  by (simp_all add: is_digit_def)

lemma float_token_words [simp]: "\<not> float_token ''null''" "\<not> float_token ''true''" "\<not> float_token ''false''"
  by (simp_all add: word_not_float)

lemma atomic_inject:
  "atomic i \<Longrightarrow> atomic j \<Longrightarrow> wf_json i \<Longrightarrow> wf_json j \<Longrightarrow> dumps i = dumps j \<Longrightarrow> i = j"
  by (cases i; cases j)
    (auto simp: atomic_def word_not_int word_not_int [symmetric] float_token_not_int
      float_token_not_int [symmetric] split: if_splits)

lemma dumps_hd:
  assumes "wf_json j"
  shows "dumps j \<noteq> []" "\<not> delim (hd (dumps j))"
    "hd (dumps j) = CHR 0x22 \<longleftrightarrow> (\<exists>s. j = JStr s)"
    "hd (dumps j) = CHR ''['' \<longleftrightarrow> (\<exists>xs. j = JList xs)"
    "hd (dumps j) = CHR 0x7B \<longleftrightarrow> (\<exists>kvs. j = JObj kvs)"
  using assms int_str_hd [of "case j of JInt i \<Rightarrow> i | _ \<Rightarrow> 0"]
  by (cases j; auto simp: quote_def float_token_def delim_def is_digit_def)+

lemma join_with_Cons: "ps \<noteq> [] \<Longrightarrow> join_with sep (p # ps) = p @ sep @ join_with sep ps"
  by (cases ps) auto

lemma join_inject:
  assumes "\<And>x y r r'. x \<in> set xs \<Longrightarrow> y \<in> set ys \<Longrightarrow> f x @ r = f y @ r' \<Longrightarrow> ends r \<Longrightarrow> ends r' \<Longrightarrow> x = y \<and> r = r'"
    and "\<And>x. x \<in> set xs \<union> set ys \<Longrightarrow> f x \<noteq> [] \<and> hd (f x) \<noteq> close"
    and "delim close" and "close \<noteq> CHR '',''"
    and "join_with '','' (map f xs) @ close # r = join_with '','' (map f ys) @ close # r'"
  shows "xs = ys \<and> r = r'"
  using assms(1,2,5)
proof (induction xs arbitrary: ys)
  case Nil
  show ?case
  proof (cases ys)
    case (Cons y ys')
    then have "hd (join_with '','' (map f ys) @ close # r') = hd (f y)"
      using Nil.prems(2) by (cases ys') auto
    then show ?thesis using Nil.prems Cons by (metis join_with.simps(1) list.map(1) list.sel(1) append_Nil Un_iff list.set_intros(1))
  qed (use Nil in simp)
next
  case (Cons x xs)
  show ?case
  proof (cases ys)
    case Nil
    have "hd (join_with '','' (map f (x # xs)) @ close # r) = hd (f x)"
      using Cons.prems(2) by (cases xs) auto
    then show ?thesis using Cons.prems Nil by (metis join_with.simps(1) list.map(1) list.sel(1) append_Nil Un_iff list.set_intros(1))
  next
    case ys: (Cons y ys')
    let ?t = "\<lambda>zs q. if zs = [] then close # q else CHR '','' # join_with '','' (map f zs) @ close # q"
    have "f x @ ?t xs r = f y @ ?t ys' r'"
      using Cons.prems(3) ys by (auto simp: join_with_Cons split: if_splits)
    moreover have "ends (?t xs r)" "ends (?t ys' r')" using assms(3) by auto
    ultimately have "x = y \<and> ?t xs r = ?t ys' r'" by (rule Cons.prems(1) [rotated 2]) (simp_all add: ys)
    then have xy: "x = y" and t: "?t xs r = ?t ys' r'" by auto
    from t assms(4) have "xs = ys' \<and> r = r'"
    proof (cases "xs = [] \<or> ys' = []")
      case False
      with t have "join_with '','' (map f xs) @ close # r = join_with '','' (map f ys') @ close # r'" by simp
      then show ?thesis by (intro Cons.IH) (use Cons.prems ys in auto)
    qed (auto split: if_splits)
    with xy ys show ?thesis by simp
  qed
qed

section \<open>The encoding is uniquely readable\<close>

lemma atomic_prefix_inject:
  assumes "atomic i" "wf_json i" "wf_json j" "dumps i @ r = dumps j @ r'" "ends r" "ends r'"
  shows "i = j \<and> r = r'"
proof -
  have "hd (dumps i) = hd (dumps j)"
    using assms(4) dumps_hd(1) [OF assms(2)] dumps_hd(1) [OF assms(3)] by (metis hd_append2)
  then have "atomic j"
    using dumps_hd [OF assms(2)] dumps_hd [OF assms(3)] assms(1)
    by (cases j) (auto simp: atomic_def)
  then have "dumps i = dumps j \<and> r = r'"
    using assms by (intro token_inject atomic_no_delim)
  with assms \<open>atomic j\<close> show ?thesis by (auto intro: atomic_inject)
qed

lemma dumps_prefix_inject:
  assumes "wf_json i" "wf_json j" "dumps i @ r = dumps j @ r'" "ends r" "ends r'"
  shows "i = j \<and> r = r'"
  using assms
proof (induction i arbitrary: j r r')
  case (JStr s)
  then obtain t where "j = JStr t"
    using dumps_hd [of "JStr s"] dumps_hd [of j] by (metis hd_append2)
  with JStr show ?case by (auto dest: quote_inject)
next
  case (JList xs)
  then obtain ys where j: "j = JList ys"
    using dumps_hd [of "JList xs"] dumps_hd [of j] by (metis hd_append2)
  have "xs = ys \<and> r = r'"
  proof (rule join_inject [where f = dumps and close = "CHR '']''"])
    show "x = y \<and> q = q'" if "x \<in> set xs" "y \<in> set ys" "dumps x @ q = dumps y @ q'" "ends q" "ends q'" for x y q q'
      using JList that j by (auto simp: list_all_iff)
    show "dumps x \<noteq> [] \<and> hd (dumps x) \<noteq> CHR '']''" if "x \<in> set xs \<union> set ys" for x
      using JList.prems j that dumps_hd [of x] by (auto simp: list_all_iff)
    show "join_with '','' (map dumps xs) @ CHR '']'' # r = join_with '','' (map dumps ys) @ CHR '']'' # r'"
      using JList.prems j by simp
  qed simp_all
  with j show ?case by simp
next
  case (JObj kvs)
  let ?f = "\<lambda>(k, v). quote k @ '':'' @ dumps v"
  obtain kws where j: "j = JObj kws"
    using JObj.prems dumps_hd [of "JObj kvs"] dumps_hd [of j] by (metis hd_append2)
  have "kvs = kws \<and> r = r'"
  proof (rule join_inject [where f = ?f and close = "CHR 0x7D"])
    show "x = y \<and> q = q'" if "x \<in> set kvs" "y \<in> set kws" "?f x @ q = ?f y @ q'" "ends q" "ends q'" for x y q q'
    proof -
      obtain k v k' v' where xy: "x = (k, v)" "y = (k', v')" by fastforce
      with that have "k = k'" "dumps v @ q = dumps v' @ q'" by (auto dest: quote_inject)
      moreover have "wf_json v" "wf_json v'" using JObj.prems j that xy by (auto simp: list_all_iff)
      moreover have "v \<in> Basic_BNFs.snds x" using xy by simp
      ultimately have "v = v' \<and> q = q'" using that by (intro JObj.IH [of x v])
      with \<open>k = k'\<close> xy show ?thesis by simp
    qed
    show "?f x \<noteq> [] \<and> hd (?f x) \<noteq> CHR 0x7D" for x by (cases x) (simp add: quote_def)
    show "join_with '','' (map ?f kvs) @ CHR 0x7D # r = join_with '','' (map ?f kws) @ CHR 0x7D # r'"
      using JObj.prems j by simp
  qed simp_all
  with j show ?case by simp
qed (rule atomic_prefix_inject; simp add: atomic_def)+

theorem dumps_inject: "wf_json i \<Longrightarrow> wf_json j \<Longrightarrow> dumps i = dumps j \<longleftrightarrow> i = j"
  using dumps_prefix_inject [of i j "[]" "[]"] by auto

lemma map_fst_sort_keys: "map fst (map (\<lambda>(k, v). (k, sort_keys v)) kvs) = map fst kvs"
  by (induction kvs) auto

lemma wf_json_sort_keys [simp]: "wf_json (sort_keys j) = wf_json j"
proof (induction j)
  case (JObj kvs)
  let ?kws = "map (\<lambda>(k, v). (k, sort_keys v)) kvs"
  have "distinct (map fst (sort_key fst ?kws)) = distinct (map fst ?kws)"
    by (rule mset_eq_imp_distinct_iff) (simp only: mset_map mset_sort)
  moreover have "list_all (\<lambda>(k, v). wf_json v) ?kws = list_all (\<lambda>(k, v). wf_json v) kvs"
    using JObj by (fastforce simp: list_all_iff)
  ultimately show ?case by (simp add: map_fst_sort_keys list_all_iff del: map_map)
qed (auto simp: list_all_iff)

lemma sort_keys_idem [simp]: "sort_keys (sort_keys j) = sort_keys j"
proof (induction j)
  case (JObj kvs)
  let ?f = "\<lambda>(k, v). (k, sort_keys v)"
  have "map ?f (sort_key fst (map ?f kvs)) = sort_key fst (map ?f kvs)"
    by (rule map_idI) (use JObj in fastforce)
  then show ?case by (simp add: sort_key_id_if_sorted)
qed auto

text \<open>
  Canonical texts are equal exactly when the values are, up to the order of the keys. This is
  what lets a digest of the text stand for the value.
\<close>

theorem canonical_json_inject:
  "wf_json i \<Longrightarrow> wf_json j \<Longrightarrow> canonical_json i = canonical_json j \<longleftrightarrow> sort_keys i = sort_keys j"
  by (simp add: canonical_json_def dumps_inject)

section \<open>Python's printed forms\<close>

text \<open>\<open>repr\<close> of a string, for the messages.\<close>

definition repr_char :: "char \<Rightarrow> char \<Rightarrow> string" where
  "repr_char q c = (let n = of_char c :: nat in
     if c = q \<or> c = CHR 0x5C then [CHR 0x5C, c]
     else if n = 10 then [CHR 0x5C, CHR ''n'']
     else if n = 13 then [CHR 0x5C, CHR ''r'']
     else if n = 9 then [CHR 0x5C, CHR ''t'']
     else if n < 32 \<or> (127 \<le> n \<and> n \<le> 160) \<or> n = 173
       then [CHR 0x5C, CHR ''x'', hex_char (n div 16), hex_char (n mod 16)]
     else [c])"

definition repr_str :: "string \<Rightarrow> string" where
  "repr_str s = (let q = (if CHR 0x27 \<in> set s \<and> CHR 0x22 \<notin> set s then CHR 0x22 else CHR 0x27)
     in [q] @ concat (map (repr_char q) s) @ [q])"

text \<open>\<open>repr\<close> and \<open>str\<close> of a decoded JSON value, as an f-string prints it.\<close>

fun py_repr :: "json \<Rightarrow> string" where
  "py_repr JNull = ''None''"
| "py_repr (JBool b) = (if b then ''True'' else ''False'')"
| "py_repr (JInt i) = int_str i"
| "py_repr (JFloat t) = t"
| "py_repr (JStr s) = repr_str s"
| "py_repr (JList js) = ''['' @ join_with '', '' (map py_repr js) @ '']''"
| "py_repr (JObj kvs) = [CHR 0x7B] @ join_with '', '' (map (\<lambda>(k, v). repr_str k @ '': '' @ py_repr v) kvs) @ [CHR 0x7D]"

fun py_str :: "json \<Rightarrow> string" where
  "py_str (JStr s) = s"
| "py_str j = py_repr j"

text \<open>\<open>int(x)\<close> of a decoded JSON value.\<close>

definition int_of_text :: "string \<Rightarrow> int result" where
  "int_of_text s =
     (let t = strip s;
          (neg, body) = (case t of c # r \<Rightarrow> if c = CHR ''-'' then (True, r) else if c = CHR ''+'' then (False, r) else (False, t)
                                 | [] \<Rightarrow> (False, []));
          parts = split_on (CHR ''_'') body
      in if list_all (\<lambda>p. p \<noteq> [] \<and> list_all is_digit p) parts
         then Inr ((if neg then -1 else 1) * int (digits_val (concat parts)))
         else Inl (ValueError ''invalid literal for int()''))"

fun py_int :: "py \<Rightarrow> json \<Rightarrow> int result" where
  "py_int P (JInt i) = Inr i"
| "py_int P (JBool b) = Inr (if b then 1 else 0)"
| "py_int P (JFloat t) = (case trunc_float P t of Some i \<Rightarrow> Inr i | None \<Rightarrow> Inl (ValueError ''cannot convert float''))"
| "py_int P (JStr s) = int_of_text s"
| "py_int P _ = Inl TypeError"

end
