(* ===== verification/Schemas.thy ===== *)
theory Schemas
  imports Py_Json
begin

text \<open>
  The domain model of \<open>app/schemas\<close>: the enumerations with their wire values, one record per
  Pydantic class with the class's fields in order (each field prefixed by its record, since
  HOL field names are global), and \<open>model_dump\<close> of each as a JSON object. Confidences are
  rationals; \<open>repr_float\<close> gives their JSON token.
\<close>

section \<open>Enumerations\<close>

datatype Severity = SEV_INFO | SEV_LOW | SEV_MEDIUM | SEV_HIGH | SEV_CRITICAL

fun severity_value :: "Severity \<Rightarrow> string" where
  "severity_value SEV_INFO = ''info''"
| "severity_value SEV_LOW = ''low''"
| "severity_value SEV_MEDIUM = ''medium''"
| "severity_value SEV_HIGH = ''high''"
| "severity_value SEV_CRITICAL = ''critical''"

datatype RiskBand = BAND_INFORMATIONAL | BAND_LOW | BAND_MEDIUM | BAND_HIGH | BAND_CRITICAL

fun risk_band_value :: "RiskBand \<Rightarrow> string" where
  "risk_band_value BAND_INFORMATIONAL = ''informational''"
| "risk_band_value BAND_LOW = ''low''"
| "risk_band_value BAND_MEDIUM = ''medium''"
| "risk_band_value BAND_HIGH = ''high''"
| "risk_band_value BAND_CRITICAL = ''critical''"

datatype RiskLevel = RISK_LOW | RISK_MEDIUM | RISK_HIGH

fun risk_level_value :: "RiskLevel \<Rightarrow> string" where
  "risk_level_value RISK_LOW = ''low''"
| "risk_level_value RISK_MEDIUM = ''medium''"
| "risk_level_value RISK_HIGH = ''high''"

datatype Disposition = ESCALATE | MONITOR | SUPPRESS_CANDIDATE | FALSE_POSITIVE

fun disposition_value :: "Disposition \<Rightarrow> string" where
  "disposition_value ESCALATE = ''escalate''"
| "disposition_value MONITOR = ''monitor''"
| "disposition_value SUPPRESS_CANDIDATE = ''suppress_candidate''"
| "disposition_value FALSE_POSITIVE = ''false_positive''"

datatype AutonomyLevel =
  REPORT_ONLY | SUGGEST_ONLY | CREATE_PATCH | EXECUTE_AFTER_APPROVAL | AUTO_FIX_LOW_RISK | LAB_FULL_AUTONOMY

fun autonomy_int :: "AutonomyLevel \<Rightarrow> int" where
  "autonomy_int REPORT_ONLY = 0"
| "autonomy_int SUGGEST_ONLY = 1"
| "autonomy_int CREATE_PATCH = 2"
| "autonomy_int EXECUTE_AFTER_APPROVAL = 3"
| "autonomy_int AUTO_FIX_LOW_RISK = 4"
| "autonomy_int LAB_FULL_AUTONOMY = 5"

datatype FlowStatus =
  FLOW_CREATED | FLOW_QUEUED | FLOW_RUNNING | FLOW_WAITING_FOR_APPROVAL | FLOW_COMPLETED | FLOW_FAILED | FLOW_CANCELLED

fun flow_status_value :: "FlowStatus \<Rightarrow> string" where
  "flow_status_value FLOW_CREATED = ''created''"
| "flow_status_value FLOW_QUEUED = ''queued''"
| "flow_status_value FLOW_RUNNING = ''running''"
| "flow_status_value FLOW_WAITING_FOR_APPROVAL = ''waiting_for_approval''"
| "flow_status_value FLOW_COMPLETED = ''completed''"
| "flow_status_value FLOW_FAILED = ''failed''"
| "flow_status_value FLOW_CANCELLED = ''cancelled''"

datatype RunStatus = RUN_QUEUED | RUN_RUNNING | RUN_OK | RUN_ERROR

fun run_status_value :: "RunStatus \<Rightarrow> string" where
  "run_status_value RUN_QUEUED = ''queued''"
| "run_status_value RUN_RUNNING = ''running''"
| "run_status_value RUN_OK = ''ok''"
| "run_status_value RUN_ERROR = ''error''"

datatype ActionPlanStatus =
  PLAN_DRAFT | PLAN_PROPOSED | PLAN_APPROVED | PLAN_REJECTED | PLAN_EXECUTED | PLAN_VERIFIED | PLAN_ROLLED_BACK

fun plan_status_value :: "ActionPlanStatus \<Rightarrow> string" where
  "plan_status_value PLAN_DRAFT = ''draft''"
| "plan_status_value PLAN_PROPOSED = ''proposed''"
| "plan_status_value PLAN_APPROVED = ''approved''"
| "plan_status_value PLAN_REJECTED = ''rejected''"
| "plan_status_value PLAN_EXECUTED = ''executed''"
| "plan_status_value PLAN_VERIFIED = ''verified''"
| "plan_status_value PLAN_ROLLED_BACK = ''rolled_back''"

datatype PolicyEffect = ALLOW | DENY

fun policy_effect_value :: "PolicyEffect \<Rightarrow> string" where
  "policy_effect_value ALLOW = ''allow''"
| "policy_effect_value DENY = ''deny''"

section \<open>JSON helpers\<close>

abbreviation JStrs :: "string list \<Rightarrow> json" where
  "JStrs xs \<equiv> JList (map JStr xs)"

definition opt_str :: "string option \<Rightarrow> json" where
  "opt_str v = (case v of None \<Rightarrow> JNull | Some s \<Rightarrow> JStr s)"

lemma opt_str_simps [simp]: "opt_str None = JNull" "opt_str (Some s) = JStr s"
  by (simp_all add: opt_str_def)

lemma opt_str_inject [simp]: "opt_str a = opt_str b \<longleftrightarrow> a = b"
  by (cases a; cases b) simp_all

lemma wf_opt_str [simp]: "wf_json (opt_str v)"
  by (cases v) simp_all

lemma wf_JStrs [simp]: "wf_json (JStrs xs)"
  by (simp add: list_all_iff)

lemma sort_keys_JStrs [simp]: "sort_keys (JStrs xs) = JStrs xs"
  by simp

section \<open>Evidence and assets\<close>

record Evidence =
  ev_evidence_id :: string
  ev_kind :: string
  ev_content_hash :: string
  ev_media_type :: string
  ev_size_bytes :: int
  ev_source :: string
  ev_source_type :: "string option"
  ev_captured_at :: string
  ev_storage_ref :: string

definition dump_evidence :: "Evidence \<Rightarrow> row" where
  "dump_evidence e = [(''evidence_id'', JStr (ev_evidence_id e)), (''kind'', JStr (ev_kind e)),
     (''content_hash'', JStr (ev_content_hash e)), (''media_type'', JStr (ev_media_type e)),
     (''size_bytes'', JInt (ev_size_bytes e)), (''source'', JStr (ev_source e)),
     (''source_type'', opt_str (ev_source_type e)), (''captured_at'', JStr (ev_captured_at e)),
     (''storage_ref'', JStr (ev_storage_ref e))]"

section \<open>SOC: alerts, groups, triage, incidents\<close>

record Alert =
  al_alert_id :: string
  al_source :: string
  al_signature :: string
  al_title :: string
  al_asset_id :: string
  al_host :: "string option"
  al_severity :: Severity
  al_event_time :: string
  al_dedup_key :: string
  al_evidence_ids :: "string list"

definition dump_alert :: "Alert \<Rightarrow> row" where
  "dump_alert a = [(''alert_id'', JStr (al_alert_id a)), (''source'', JStr (al_source a)),
     (''signature'', JStr (al_signature a)), (''title'', JStr (al_title a)),
     (''asset_id'', JStr (al_asset_id a)), (''host'', opt_str (al_host a)),
     (''severity'', JStr (severity_value (al_severity a))), (''event_time'', JStr (al_event_time a)),
     (''dedup_key'', JStr (al_dedup_key a)), (''evidence_ids'', JStrs (al_evidence_ids a))]"

record AlertGroup =
  ag_group_id :: string
  ag_dedup_key :: string
  ag_signature :: string
  ag_asset_id :: string
  ag_severity :: Severity
  ag_count :: int
  ag_alert_ids :: "string list"
  ag_evidence_ids :: "string list"
  ag_first_seen :: string
  ag_last_seen :: string
  ag_risk_score :: int
  ag_risk_band :: RiskBand

definition dump_alert_group :: "AlertGroup \<Rightarrow> row" where
  "dump_alert_group g = [(''group_id'', JStr (ag_group_id g)), (''dedup_key'', JStr (ag_dedup_key g)),
     (''signature'', JStr (ag_signature g)), (''asset_id'', JStr (ag_asset_id g)),
     (''severity'', JStr (severity_value (ag_severity g))), (''count'', JInt (ag_count g)),
     (''alert_ids'', JStrs (ag_alert_ids g)), (''evidence_ids'', JStrs (ag_evidence_ids g)),
     (''first_seen'', JStr (ag_first_seen g)), (''last_seen'', JStr (ag_last_seen g)),
     (''risk_score'', JInt (ag_risk_score g)), (''risk_band'', JStr (risk_band_value (ag_risk_band g)))]"

record AgentRun =
  ar_agent_run_id :: string
  ar_agent_name :: string
  ar_agent_version :: string
  ar_input_refs :: "string list"
  ar_output :: row
  ar_confidence :: rat
  ar_evidence_ids :: "string list"
  ar_status :: RunStatus
  ar_started_at :: string
  ar_finished_at :: string

definition dump_agent_run :: "py \<Rightarrow> AgentRun \<Rightarrow> row" where
  "dump_agent_run P r = [(''agent_run_id'', JStr (ar_agent_run_id r)), (''agent_name'', JStr (ar_agent_name r)),
     (''agent_version'', JStr (ar_agent_version r)), (''input_refs'', JStrs (ar_input_refs r)),
     (''output'', JObj (ar_output r)), (''confidence'', JFloat (repr_float P (ar_confidence r))),
     (''evidence_ids'', JStrs (ar_evidence_ids r)), (''status'', JStr (run_status_value (ar_status r))),
     (''started_at'', JStr (ar_started_at r)), (''finished_at'', JStr (ar_finished_at r))]"

record TriageRecommendation =
  tr_disposition :: Disposition
  tr_confidence :: rat
  tr_rationale :: string
  tr_evidence_ids :: "string list"
  tr_attack_techniques :: "string list"
  tr_recommended_action_types :: "string list"
  tr_produced_by :: string

record Incident =
  in_incident_id :: string
  in_title :: string
  in_severity :: Severity
  in_status :: string
  in_asset_id :: string
  in_alert_group_ids :: "string list"
  in_evidence_ids :: "string list"
  in_triage_ref :: "string option"
  in_attack_techniques :: "string list"
  in_created_at :: string

definition dump_incident :: "Incident \<Rightarrow> row" where
  "dump_incident i = [(''incident_id'', JStr (in_incident_id i)), (''title'', JStr (in_title i)),
     (''severity'', JStr (severity_value (in_severity i))), (''status'', JStr (in_status i)),
     (''asset_id'', JStr (in_asset_id i)), (''alert_group_ids'', JStrs (in_alert_group_ids i)),
     (''evidence_ids'', JStrs (in_evidence_ids i)), (''triage_ref'', opt_str (in_triage_ref i)),
     (''attack_techniques'', JStrs (in_attack_techniques i)), (''created_at'', JStr (in_created_at i))]"

section \<open>GRC: controls and risks\<close>

record Control =
  ct_control_id :: string
  ct_framework :: string
  ct_control_ref :: string
  ct_title :: string

definition dump_control :: "Control \<Rightarrow> row" where
  "dump_control c = [(''control_id'', JStr (ct_control_id c)), (''framework'', JStr (ct_framework c)),
     (''control_ref'', JStr (ct_control_ref c)), (''title'', JStr (ct_title c))]"

record ControlMapping =
  cm_mapping_id :: string
  cm_incident_id :: string
  cm_control_id :: string
  cm_confidence :: rat
  cm_rationale :: string
  cm_evidence_ids :: "string list"

definition dump_control_mapping :: "py \<Rightarrow> ControlMapping \<Rightarrow> row" where
  "dump_control_mapping P m = [(''mapping_id'', JStr (cm_mapping_id m)), (''incident_id'', JStr (cm_incident_id m)),
     (''control_id'', JStr (cm_control_id m)), (''confidence'', JFloat (repr_float P (cm_confidence m))),
     (''rationale'', JStr (cm_rationale m)), (''evidence_ids'', JStrs (cm_evidence_ids m))]"

record Risk =
  rk_risk_id :: string
  rk_title :: string
  rk_statement :: string
  rk_likelihood :: Severity
  rk_impact :: Severity
  rk_inherent_band :: RiskBand
  rk_owner :: "string option"
  rk_treatment_status :: string
  rk_residual_band :: "RiskBand option"
  rk_related_incident_id :: "string option"
  rk_evidence_ids :: "string list"

definition dump_risk :: "Risk \<Rightarrow> row" where
  "dump_risk r = [(''risk_id'', JStr (rk_risk_id r)), (''title'', JStr (rk_title r)),
     (''statement'', JStr (rk_statement r)), (''likelihood'', JStr (severity_value (rk_likelihood r))),
     (''impact'', JStr (severity_value (rk_impact r))), (''inherent_band'', JStr (risk_band_value (rk_inherent_band r))),
     (''owner'', opt_str (rk_owner r)), (''treatment_status'', JStr (rk_treatment_status r)),
     (''residual_band'', opt_str (map_option risk_band_value (rk_residual_band r))),
     (''related_incident_id'', opt_str (rk_related_incident_id r)), (''evidence_ids'', JStrs (rk_evidence_ids r))]"

section \<open>Remediation\<close>

record ActionPlan =
  ap_action_plan_id :: string
  ap_title :: string
  ap_action_type :: string
  ap_risk_level :: RiskLevel
  ap_status :: ActionPlanStatus
  ap_target :: row
  ap_parameters :: row
  ap_rollback :: string
  ap_requires_approval :: bool
  ap_created_from :: "string option"
  ap_evidence_ids :: "string list"
  ap_created_at :: string

definition dump_action_plan :: "ActionPlan \<Rightarrow> row" where
  "dump_action_plan p = [(''action_plan_id'', JStr (ap_action_plan_id p)), (''title'', JStr (ap_title p)),
     (''action_type'', JStr (ap_action_type p)), (''risk_level'', JStr (risk_level_value (ap_risk_level p))),
     (''status'', JStr (plan_status_value (ap_status p))), (''target'', JObj (ap_target p)),
     (''parameters'', JObj (ap_parameters p)), (''rollback'', JStr (ap_rollback p)),
     (''requires_approval'', JBool (ap_requires_approval p)), (''created_from'', opt_str (ap_created_from p)),
     (''evidence_ids'', JStrs (ap_evidence_ids p)), (''created_at'', JStr (ap_created_at p))]"

record Approval =
  apr_approval_id :: string
  apr_subject_ref :: string
  apr_decision :: string
  apr_approver :: string
  apr_plan_hash :: string
  apr_policy_hash :: string
  apr_decided_at :: string

definition dump_approval :: "Approval \<Rightarrow> row" where
  "dump_approval a = [(''approval_id'', JStr (apr_approval_id a)), (''subject_ref'', JStr (apr_subject_ref a)),
     (''decision'', JStr (apr_decision a)), (''approver'', JStr (apr_approver a)),
     (''plan_hash'', JStr (apr_plan_hash a)), (''policy_hash'', JStr (apr_policy_hash a)),
     (''decided_at'', JStr (apr_decided_at a))]"

text \<open>\<open>Approval(**row)\<close>: \<open>None\<close> is Pydantic's validation error.\<close>

definition row_str :: "row \<Rightarrow> string \<Rightarrow> string option" where
  "row_str r k = (case map_of r k of Some (JStr s) \<Rightarrow> Some s | _ \<Rightarrow> None)"

definition approval_of_row :: "row \<Rightarrow> Approval option" where
  "approval_of_row r =
     (case (row_str r ''approval_id'', row_str r ''subject_ref'', row_str r ''decision'', row_str r ''approver'',
            row_str r ''plan_hash'', row_str r ''policy_hash'', row_str r ''decided_at'') of
        (Some i, Some s, Some d, Some a, Some p, Some q, Some t) \<Rightarrow>
          Some \<lparr>apr_approval_id = i, apr_subject_ref = s, apr_decision = d, apr_approver = a,
                apr_plan_hash = p, apr_policy_hash = q, apr_decided_at = t\<rparr>
      | _ \<Rightarrow> None)"

lemma approval_roundtrip [simp]: "approval_of_row (dump_approval a) = Some a"
  by (simp add: approval_of_row_def dump_approval_def row_str_def)

section \<open>Authorization and policy\<close>

record AssessmentScope =
  sc_scope_id :: string
  sc_scope_version :: int
  sc_policy_hash :: string
  sc_approved :: bool
  sc_autonomy_level :: AutonomyLevel
  sc_allowed_actors :: "string list"
  sc_target_allowlist :: "string list"
  sc_valid_from :: "string option"
  sc_valid_until :: "string option"

record ActionRequest =
  rq_request_id :: string
  rq_actor :: string
  rq_action_type :: string
  rq_risk_level :: RiskLevel
  rq_target :: string
  rq_action_plan_id :: "string option"
  rq_has_approval :: bool
  rq_at :: "string option"
  rq_claimed :: row

record PolicyDecision =
  pd_effect :: PolicyEffect
  pd_reason_code :: string
  pd_message :: string
  pd_request_ref :: string
  pd_policy_hash :: string
  pd_evaluated_at :: string

definition dump_policy_decision :: "PolicyDecision \<Rightarrow> row" where
  "dump_policy_decision d = [(''effect'', JStr (policy_effect_value (pd_effect d))),
     (''reason_code'', JStr (pd_reason_code d)), (''message'', JStr (pd_message d)),
     (''request_ref'', JStr (pd_request_ref d)), (''policy_hash'', JStr (pd_policy_hash d)),
     (''evaluated_at'', JStr (pd_evaluated_at d))]"

section \<open>Workflow records and audit events\<close>

record ToolCall =
  tc_tool_call_id :: string
  tc_tool_name :: string
  tc_input :: row
  tc_output :: row
  tc_status :: RunStatus
  tc_error :: "string option"
  tc_evidence_ids :: "string list"
  tc_agent_run_ref :: "string option"
  tc_at :: string

definition dump_tool_call :: "ToolCall \<Rightarrow> row" where
  "dump_tool_call c = [(''tool_call_id'', JStr (tc_tool_call_id c)), (''tool_name'', JStr (tc_tool_name c)),
     (''input'', JObj (tc_input c)), (''output'', JObj (tc_output c)),
     (''status'', JStr (run_status_value (tc_status c))), (''error'', opt_str (tc_error c)),
     (''evidence_ids'', JStrs (tc_evidence_ids c)), (''agent_run_ref'', opt_str (tc_agent_run_ref c)),
     (''at'', JStr (tc_at c))]"

record Step =
  st_step_id :: string
  st_name :: string
  st_kind :: string
  st_status :: RunStatus
  st_tool_call_ids :: "string list"
  st_at :: string

definition dump_step :: "Step \<Rightarrow> row" where
  "dump_step s = [(''step_id'', JStr (st_step_id s)), (''name'', JStr (st_name s)), (''kind'', JStr (st_kind s)),
     (''status'', JStr (run_status_value (st_status s))), (''tool_call_ids'', JStrs (st_tool_call_ids s)),
     (''at'', JStr (st_at s))]"

record Task =
  tk_task_id :: string
  tk_name :: string
  tk_status :: RunStatus
  tk_step_ids :: "string list"

definition dump_task :: "Task \<Rightarrow> row" where
  "dump_task t = [(''task_id'', JStr (tk_task_id t)), (''name'', JStr (tk_name t)),
     (''status'', JStr (run_status_value (tk_status t))), (''step_ids'', JStrs (tk_step_ids t))]"

record Artifact =
  af_artifact_id :: string
  af_kind :: string
  af_ref :: string
  af_at :: string

definition dump_artifact :: "Artifact \<Rightarrow> row" where
  "dump_artifact a = [(''artifact_id'', JStr (af_artifact_id a)), (''kind'', JStr (af_kind a)),
     (''ref'', JStr (af_ref a)), (''at'', JStr (af_at a))]"

record Flow =
  fl_flow_id :: string
  fl_flow_type :: string
  fl_title :: string
  fl_status :: FlowStatus
  fl_created_at :: string
  fl_updated_at :: string
  fl_task_ids :: "string list"
  fl_artifact_ids :: "string list"
  fl_related_alert_group_ids :: "string list"
  fl_related_incident_id :: "string option"

definition dump_flow :: "Flow \<Rightarrow> row" where
  "dump_flow f = [(''flow_id'', JStr (fl_flow_id f)), (''flow_type'', JStr (fl_flow_type f)),
     (''title'', JStr (fl_title f)), (''status'', JStr (flow_status_value (fl_status f))),
     (''created_at'', JStr (fl_created_at f)), (''updated_at'', JStr (fl_updated_at f)),
     (''task_ids'', JStrs (fl_task_ids f)), (''artifact_ids'', JStrs (fl_artifact_ids f)),
     (''related_alert_group_ids'', JStrs (fl_related_alert_group_ids f)),
     (''related_incident_id'', opt_str (fl_related_incident_id f))]"

record AuditEvent =
  au_event_id :: string
  au_event_type :: string
  au_actor :: string
  au_flow_id :: "string option"
  au_subject_ref :: "string option"
  au_payload :: row
  au_recorded_at :: string
  au_prev_hash :: string
  au_entry_hash :: string

definition dump_audit_event :: "AuditEvent \<Rightarrow> row" where
  "dump_audit_event e = [(''event_id'', JStr (au_event_id e)), (''event_type'', JStr (au_event_type e)),
     (''actor'', JStr (au_actor e)), (''flow_id'', opt_str (au_flow_id e)),
     (''subject_ref'', opt_str (au_subject_ref e)), (''payload'', JObj (au_payload e)),
     (''recorded_at'', JStr (au_recorded_at e)), (''prev_hash'', JStr (au_prev_hash e)),
     (''entry_hash'', JStr (au_entry_hash e))]"

end
