(* ===== verification/Py_Dict.thy ===== *)
theory Py_Dict
  imports Py_Text
begin

text \<open>
  Python dictionaries as association lists in insertion order: storing under a key that is
  present keeps its place (\<open>AList.update\<close>), \<open>d.setdefault(k, []).append(x)\<close> is
  \<open>group_add\<close>, and the program's many group-by loops are \<open>group_by\<close>. Also the first
  maximum \<open>max(xs, key=f)\<close> returns, sorting without duplicates, and the order of
  zero-padded numerals.
\<close>

section \<open>Storing\<close>

abbreviation dict_set :: "'k \<Rightarrow> 'v \<Rightarrow> ('k \<times> 'v) list \<Rightarrow> ('k \<times> 'v) list" where
  "dict_set \<equiv> AList.update"

lemma map_of_dict_set [simp, dict_simps]: "map_of (dict_set k v d) = (map_of d)(k \<mapsto> v)"
  by (rule update_conv')

lemma dict_set_fresh: "k \<notin> fst ` set d \<Longrightarrow> dict_set k v d = d @ [(k, v)]"
  by (induction d) auto

lemma fst_set_dict_set: "fst ` set (dict_set k v d) = insert k (fst ` set d)"
  by (induction d) auto

lemma map_snd_dict_set_fresh: "k \<notin> fst ` set d \<Longrightarrow> map snd (dict_set k v d) = map snd d @ [v]"
  by (simp add: dict_set_fresh)

section \<open>Grouping\<close>

definition group_add :: "'k \<Rightarrow> 'a \<Rightarrow> ('k \<times> 'a list) list \<Rightarrow> ('k \<times> 'a list) list" where
  "group_add k x d = map_default k [x] (\<lambda>xs. xs @ [x]) d"

definition group_by :: "('a \<Rightarrow> 'k) \<Rightarrow> 'a list \<Rightarrow> ('k \<times> 'a list) list" where
  "group_by f xs = foldl (\<lambda>d x. group_add (f x) x d) [] xs"

lemma group_by_Nil [simp]: "group_by f [] = []"
  by (simp add: group_by_def)

lemma group_by_snoc [simp]: "group_by f (xs @ [x]) = group_add (f x) x (group_by f xs)"
  by (simp add: group_by_def)

lemma map_of_group_add:
  "map_of (group_add k x d) = (map_of d)(k \<mapsto> (case map_of d k of None \<Rightarrow> [] | Some xs \<Rightarrow> xs) @ [x])"
  by (auto simp: group_add_def map_of_map_default split: option.splits)

lemma fst_set_group_add: "fst ` set (group_add k x d) = insert k (fst ` set d)"
  by (simp add: group_add_def dom_map_default)

lemma distinct_group_add: "distinct (map fst d) \<Longrightarrow> distinct (map fst (group_add k x d))"
  by (simp add: group_add_def distinct_map_default)

lemma distinct_group_by [simp]: "distinct (map fst (group_by f xs))"
  by (induction xs rule: rev_induct) (auto simp: distinct_group_add)

lemma fst_set_group_by: "fst ` set (group_by f xs) = f ` set xs"
  by (induction xs rule: rev_induct) (auto simp: fst_set_group_add)

lemma filter_key_absent: "k \<notin> f ` set xs \<Longrightarrow> filter (\<lambda>x. f x = k) xs = []"
  by (auto simp: filter_empty_conv)

lemma map_of_group_by [dict_simps]:
  "map_of (group_by f xs) k = (if k \<in> f ` set xs then Some (filter (\<lambda>x. f x = k) xs) else None)"
  by (induction xs rule: rev_induct) (auto simp: map_of_group_add filter_key_absent)

lemma group_by_mem_iff:
  "(k, ys) \<in> set (group_by f xs) \<longleftrightarrow> k \<in> f ` set xs \<and> ys = filter (\<lambda>x. f x = k) xs"
  using map_of_eq_Some_iff [OF distinct_group_by, of f xs k ys] by (auto simp: map_of_group_by split: if_splits)

lemma group_by_members:
  assumes "(k, ys) \<in> set (group_by f xs)"
  shows "ys \<noteq> []" and "x \<in> set ys \<Longrightarrow> f x = k" and "x \<in> set ys \<Longrightarrow> x \<in> set xs"
  using assms by (auto simp: group_by_mem_iff filter_empty_conv)

lemma mset_group_add: "mset (concat (map snd (group_add k x d))) = add_mset x (mset (concat (map snd d)))"
  unfolding group_add_def by (induction d) auto

text \<open>Grouping neither loses nor repeats an element.\<close>

lemma mset_group_by: "mset (concat (map snd (group_by f xs))) = mset xs"
  by (induction xs rule: rev_induct) (auto simp: mset_group_add)

section \<open>Extremes and sorting\<close>

text \<open>\<open>max(xs, key=f)\<close> on a non-empty list: the first element with the greatest key.\<close>

fun max_by :: "('a \<Rightarrow> 'b::linorder) \<Rightarrow> 'a \<Rightarrow> 'a list \<Rightarrow> 'a" where
  "max_by f best [] = best"
| "max_by f best (x # xs) = max_by f (if f best < f x then x else best) xs"

lemma max_by_in: "max_by f b xs \<in> insert b (set xs)"
  by (induction xs arbitrary: b) (auto split: if_splits)

lemma max_by_ge: "x \<in> insert b (set xs) \<Longrightarrow> f x \<le> f (max_by f b xs)"
proof (induction xs arbitrary: b x)
  case (Cons y ys)
  let ?b = "if f b < f y then y else b"
  have "f b \<le> f ?b" "f y \<le> f ?b" by auto
  moreover have "f ?b \<le> f (max_by f ?b ys)" by (rule Cons.IH) simp
  ultimately have "f b \<le> f (max_by f ?b ys)" "f y \<le> f (max_by f ?b ys)" by (meson order_trans)+
  with Cons show ?case by (auto simp del: if_split)
qed simp

text \<open>\<open>sorted(set(xs))\<close>.\<close>

definition sorted_set :: "'a::linorder list \<Rightarrow> 'a list" where
  "sorted_set xs = sort (remdups xs)"

lemma set_sorted_set [simp]: "set (sorted_set xs) = set xs"
  by (simp add: sorted_set_def)

lemma sorted_set_props [simp]: "sorted (sorted_set xs)" "distinct (sorted_set xs)"
  by (simp_all add: sorted_set_def)

lemma sorted_set_cong: "set xs = set ys \<Longrightarrow> sorted_set xs = sorted_set ys"
  by (rule sorted_distinct_set_unique) auto

lemma sorted_set_empty_iff [simp]: "sorted_set xs = [] \<longleftrightarrow> xs = []"
  by (metis set_empty set_sorted_set)

section \<open>Text order of numerals of one width\<close>

lemma digits_val_Cons: "digits_val (c # s) = digit_val c * 10 ^ length s + digits_val s"
proof (induction s rule: rev_induct)
  case (snoc d s)
  have "digits_val (c # s @ [d]) = 10 * digits_val (c # s) + digit_val d"
    using digits_val_snoc [of "c # s" d] by simp
  with snoc show ?case by (simp add: digits_val_snoc algebra_simps)
qed (simp add: digits_val_def)

lemma digits_val_bound: "list_all is_digit s \<Longrightarrow> digits_val s < 10 ^ length s"
proof (induction s)
  case (Cons c s)
  then have "digit_val c \<le> 9" "digits_val s < 10 ^ length s" by (auto simp: is_digit_def Let_def)
  then have "digit_val c * 10 ^ length s + digits_val s < 9 * 10 ^ length s + 10 ^ length s"
    by (meson add_le_less_mono mult_le_mono1)
  then show ?case by (simp add: digits_val_Cons)
qed (simp add: digits_val_def)

lemma digits_less_iff:
  "length s = length t \<Longrightarrow> list_all is_digit s \<Longrightarrow> list_all is_digit t \<Longrightarrow>
   s < t \<longleftrightarrow> digits_val s < digits_val t"
proof (induction s t rule: list_induct2)
  case (Cons c s d t)
  let ?p = "10 ^ length s :: nat"
  have b: "digits_val s < ?p" "digits_val t < ?p" using Cons.prems Cons.hyps(1) digits_val_bound [of s] digits_val_bound [of t] by simp_all
  have dig: "48 \<le> (of_char c :: nat)" "48 \<le> (of_char d :: nat)" using Cons.prems by (auto simp: is_digit_def Let_def)
  consider "c = d" | "c < d" | "d < c" by (rule linorder_cases) auto
  then show ?case
  proof cases
    case 1
    with Cons show ?thesis by (simp add: digits_val_Cons Cons.hyps)
  next
    case 2
    then have "Suc (digit_val c) \<le> digit_val d" using dig by (simp add: less_char_def)
    then have "Suc (digit_val c) * ?p \<le> digit_val d * ?p" by (rule mult_le_mono1)
    with b 2 Cons.hyps show ?thesis by (simp add: digits_val_Cons)
  next
    case 3
    then have "Suc (digit_val d) \<le> digit_val c" using dig by (simp add: less_char_def)
    then have "Suc (digit_val d) * ?p \<le> digit_val c * ?p" by (rule mult_le_mono1)
    with b 3 Cons.hyps show ?thesis by (auto simp: digits_val_Cons)
  qed
qed simp

lemma digits_val_replicate_zero: "digits_val (replicate k (CHR ''0'') @ s) = digits_val s"
  by (induction k) (simp_all add: digits_val_Cons)

lemma digits_val_zero_pad [simp]: "digits_val (zero_pad w n) = n"
  by (simp add: zero_pad_def Let_def digits_val_replicate_zero digits_val_nat_str)

lemma zero_pad_inject [simp]: "zero_pad w m = zero_pad w n \<longleftrightarrow> m = n"
  by (metis digits_val_zero_pad)

lemma zero_pad_digits: "list_all is_digit (zero_pad w n)"
  by (auto simp: zero_pad_def Let_def list_all_iff dest: nat_str_digits) (simp add: is_digit_def)

lemma length_nat_str: "n < 10 ^ w \<Longrightarrow> 0 < w \<Longrightarrow> length (nat_str n) \<le> w"
proof (induction w arbitrary: n)
  case (Suc w)
  show ?case
  proof (cases "n < 10")
    case False
    with Suc.prems have "n div 10 < 10 ^ w" by (simp add: less_mult_imp_div_less mult.commute)
    with False Suc have "length (nat_str (n div 10)) \<le> w" by (cases w) auto
    with False show ?thesis by (simp add: nat_str.simps [of n])
  qed (simp add: nat_str.simps [of n])
qed simp

lemma length_zero_pad: "n < 10 ^ w \<Longrightarrow> 0 < w \<Longrightarrow> length (zero_pad w n) = w"
  by (simp add: zero_pad_def Let_def length_nat_str)

lemma zero_pad_less_iff:
  "m < 10 ^ w \<Longrightarrow> n < 10 ^ w \<Longrightarrow> 0 < w \<Longrightarrow> zero_pad w m < zero_pad w n \<longleftrightarrow> m < n"
  by (simp add: digits_less_iff length_zero_pad zero_pad_digits)

lemma append_less_iff: "(p @ s < p @ t) = (s < (t :: string))"
  by (induction p) simp_all

end
