(* ===== verification/Core.thy ===== *)
theory Core
  imports Schemas Py_Dict
begin

text \<open>
  \<open>app/core\<close>: content addressing and policy hashes (\<open>hashing.py\<close>), sequential identifiers
  (\<open>ids.py\<close>) and the injectable clock (\<open>clock.py\<close>). A moment is a number of microseconds
  since 1970-01-01 in UTC, \<open>datetime\<close>'s own resolution.
\<close>

section \<open>Hashing\<close>

definition content_hash :: "py \<Rightarrow> string \<Rightarrow> string" where
  "content_hash P data = ''sha256:'' @ hexdigest P data"

definition policy_hash :: "py \<Rightarrow> row \<Rightarrow> string" where
  "policy_hash P policy = ''sha256:'' @ hexdigest P (canonical_json (JObj policy))"

lemma map_of_sort_key:
  assumes "distinct (map fst kvs)"
  shows "map_of (sort_key fst kvs) = map_of kvs"
proof (rule map_of_eqI)
  show "set (map fst (sort_key fst kvs)) = set (map fst kvs)" by simp
  have "distinct (map fst (sort_key fst kvs))"
    using assms by (subst mset_eq_imp_distinct_iff [where ys = "map fst kvs"]) (simp_all only: mset_map mset_sort)
  then have "map_of (sort_key fst kvs) k = Some v \<longleftrightarrow> map_of kvs k = Some v" for k v
    using assms by (simp add: map_of_eq_Some_iff)
  then show "\<forall>k \<in> set (map fst (sort_key fst kvs)). map_of (sort_key fst kvs) k = map_of kvs k"
    by (metis not_None_eq)
qed

lemma map_of_map_sort_keys: "map_of (map (\<lambda>(k, v). (k, sort_keys v)) kvs) k = map_option sort_keys (map_of kvs k)"
  by (induction kvs) auto

lemma sort_keys_fields:
  assumes "sort_keys (JObj a) = sort_keys (JObj b)" and "distinct (map fst a)" and "distinct (map fst b)"
  shows "map_option sort_keys (map_of a k) = map_option sort_keys (map_of b k)"
proof -
  let ?s = "\<lambda>kvs. map (\<lambda>(k, v). (k, sort_keys v)) kvs"
  have "map_of (sort_key fst (?s a)) = map_of (sort_key fst (?s b))" using assms(1) by simp
  moreover have "distinct (map fst (?s a))" "distinct (map fst (?s b))"
    using assms(2,3) by (simp_all only: map_fst_sort_keys)
  ultimately have "map_of (?s a) k = map_of (?s b) k" by (simp add: map_of_sort_key del: map_map)
  then show ?thesis by (simp add: map_of_map_sort_keys)
qed

text \<open>Digests are equal only for objects that agree up to key order, or there is a collision.\<close>

lemma policy_hash_eqD:
  assumes "policy_hash P a = policy_hash P b" and "wf_json (JObj a)" and "wf_json (JObj b)"
    and "\<not> digest_collision P"
  shows "sort_keys (JObj a) = sort_keys (JObj b)"
  using assms digest_eqD canonical_json_inject unfolding policy_hash_def by blast

lemma content_hash_eqD: "content_hash P a = content_hash P b \<Longrightarrow> \<not> digest_collision P \<Longrightarrow> a = b"
  by (auto simp: content_hash_def dest: digest_eqD)

section \<open>Identifiers\<close>

type_synonym id_factory = "string \<Rightarrow> nat"

definition empty_ids :: id_factory where
  "empty_ids = (\<lambda>_. 0)"

definition id_of :: "string \<Rightarrow> nat \<Rightarrow> string" where
  "id_of prefix n = prefix @ ''-'' @ zero_pad 4 n"

definition ids_next :: "string \<Rightarrow> id_factory \<Rightarrow> string \<times> id_factory" where
  "ids_next prefix ids = (let n = Suc (ids prefix) in (id_of prefix n, ids(prefix := n)))"

lemma no_dash_zero_pad: "CHR ''-'' \<notin> set (zero_pad w n)"
  using zero_pad_digits [of w n] by (auto simp: list_all_iff)

lemma dash_split:
  "CHR ''-'' \<notin> set s \<Longrightarrow> CHR ''-'' \<notin> set t \<Longrightarrow> p @ CHR ''-'' # s = q @ CHR ''-'' # t \<Longrightarrow> p = q \<and> s = t"
  by (auto simp: append_eq_append_conv2 append_eq_Cons_conv Cons_eq_append_conv)

lemma id_of_inject [simp]: "id_of p m = id_of q n \<longleftrightarrow> p = q \<and> m = n"
  using dash_split [OF no_dash_zero_pad no_dash_zero_pad, of p 4 m q 4 n] by (auto simp: id_of_def)

lemma id_of_less_iff: "m < 10000 \<Longrightarrow> n < 10000 \<Longrightarrow> id_of p m < id_of p n \<longleftrightarrow> m < n"
  using zero_pad_less_iff [of m 4 n] by (simp add: id_of_def append_less_iff)

section \<open>The clock\<close>

text \<open>
  \<open>SystemClock\<close> is an external input: the sequence of the readings it gives, and how many were
  taken. A naive start of the other two is read as UTC by their constructors.
\<close>

datatype clock =
    FixedClock int
  | SteppingClock int int
  | SystemClock "nat \<Rightarrow> int" nat

fun clock_now :: "clock \<Rightarrow> int \<times> clock" where
  "clock_now (FixedClock moment) = (moment, FixedClock moment)"
| "clock_now (SteppingClock next_moment step) = (next_moment, SteppingClock (next_moment + step) step)"
| "clock_now (SystemClock readings k) = (readings k, SystemClock readings (Suc k))"

text \<open>The proleptic Gregorian date of a day number (0 is 1970-01-01).\<close>

definition civil_from_days :: "int \<Rightarrow> int \<times> int \<times> int" where
  "civil_from_days days =
     (let z = days + 719468;
          era = z div 146097;
          doe = z mod 146097;
          yoe = (doe - doe div 1460 + doe div 36524 - doe div 146096) div 365;
          doy = doe - (365 * yoe + yoe div 4 - yoe div 100);
          mp = (5 * doy + 2) div 153;
          d = doy - (153 * mp + 2) div 5 + 1;
          m = (if mp < 10 then mp + 3 else mp - 9);
          y = yoe + era * 400 + (if m \<le> 2 then 1 else 0)
      in (y, m, d))"

definition isoformat :: "int \<Rightarrow> string" where
  "isoformat moment =
     (let secs = moment div 1000000;
          (y, m, d) = civil_from_days (secs div 86400);
          s = secs mod 86400
      in zero_pad 4 (nat y) @ ''-'' @ zero_pad 2 (nat m) @ ''-'' @ zero_pad 2 (nat d) @ ''T'' @
         zero_pad 2 (nat (s div 3600)) @ '':'' @ zero_pad 2 (nat (s mod 3600 div 60)) @ '':'' @
         zero_pad 2 (nat (s mod 60)) @ ''Z'')"

text \<open>A reading is reported to the second: moments of one second have one text.\<close>

lemma isoformat_truncates: "m div 1000000 = n div 1000000 \<Longrightarrow> isoformat m = isoformat n"
  by (simp add: isoformat_def)

section \<open>A concrete runtime\<close>

text \<open>
  An instance of the runtime on which theorems are exercised: digests that are the text after a letter
  (so no two texts collide), timestamps read by their digits (so later is greater), and one
  float token.
\<close>

definition sample_py :: py where
  "sample_py = \<lparr>hexdigest = (\<lambda>s. CHR ''d'' # s),
     fromisoformat = (\<lambda>s. if filter is_digit s = [] then None
        else Some (Aware (int (digits_val (filter is_digit s))))),
     repr_float = (\<lambda>q. int_str (fst (quotient_of q)) @ ''.0''),
     trunc_float = (\<lambda>s. None)\<rparr>"

lemma sample_py_no_collision: "\<not> digest_collision sample_py"
  by (simp add: digest_collision_def sample_py_def)

end
