(* ===== verification/Storage.thy ===== *)
theory Storage
  imports Core
begin

text \<open>
  \<open>app/storage\<close>: the content-addressed evidence vault, the two object repositories behind one
  interface (a locale, interpreted on each), and the hash-chained audit log with the check
  that works on exported rows.
\<close>

section \<open>Evidence vault\<close>

type_synonym vault = "(string \<times> string) list"

definition vault_put :: "py \<Rightarrow> string \<Rightarrow> vault \<Rightarrow> string \<times> vault" where
  "vault_put P data blobs = (let ref = content_hash P data in (ref, dict_set ref data blobs))"

definition vault_get :: "string \<Rightarrow> vault \<Rightarrow> string result" where
  "vault_get ref blobs = (case map_of blobs ref of None \<Rightarrow> Inl (KeyError ref) | Some data \<Rightarrow> Inr data)"

definition vault_verify :: "py \<Rightarrow> string \<Rightarrow> vault \<Rightarrow> bool" where
  "vault_verify P ref blobs =
     (case map_of blobs ref of None \<Rightarrow> False | Some data \<Rightarrow> content_hash P data = ref)"

text \<open>Every stored blob hashes to its key; the operations keep that.\<close>

definition vault_ok :: "py \<Rightarrow> vault \<Rightarrow> bool" where
  "vault_ok P blobs \<longleftrightarrow> (\<forall>ref data. map_of blobs ref = Some data \<longrightarrow> content_hash P data = ref)"

lemma vault_ok_empty [simp]: "vault_ok P []"
  by (simp add: vault_ok_def)

lemma vault_ok_put: "vault_ok P blobs \<Longrightarrow> vault_ok P (snd (vault_put P data blobs))"
  by (auto simp: vault_ok_def vault_put_def Let_def)

lemma vault_get_put_same: "vault_get (fst (vault_put P data blobs)) (snd (vault_put P data blobs)) = Inr data"
  by (simp add: vault_get_def vault_put_def Let_def)

text \<open>Storing more evidence never replaces other bytes, short of a digest collision.\<close>

lemma vault_get_put_other:
  assumes "vault_ok P blobs" and "\<not> digest_collision P" and "vault_get ref blobs = Inr old"
  shows "vault_get ref (snd (vault_put P data blobs)) = Inr old"
proof -
  have old: "map_of blobs ref = Some old" "content_hash P old = ref"
    using assms(1,3) by (auto simp: vault_get_def vault_ok_def split: option.splits)
  then show ?thesis
    using content_hash_eqD [OF _ assms(2)] by (auto simp: vault_get_def vault_put_def Let_def)
qed

section \<open>The repository contract\<close>

text \<open>
  \<open>entries c r\<close> are the objects of a collection with their ids in the order \<open>list\<close> returns
  them. Saving under a known id replaces in place; saving under an id greater than all others
  adds at the end. Nothing is promised about where a smaller new id goes: there the backends differ.
\<close>

locale repository =
  fixes empty :: 'r
    and save :: "string \<Rightarrow> string \<Rightarrow> row \<Rightarrow> 'r \<Rightarrow> 'r"
    and get :: "string \<Rightarrow> string \<Rightarrow> 'r \<Rightarrow> row option"
    and entries :: "string \<Rightarrow> 'r \<Rightarrow> (string \<times> row) list"
    and invar :: "'r \<Rightarrow> bool"
  assumes entries_empty: "entries c empty = []"
    and invar_empty: "invar empty"
    and invar_save: "invar r \<Longrightarrow> invar (save c i d r)"
    and get_entries: "invar r \<Longrightarrow> get c i r = map_of (entries c r) i"
    and distinct_entries: "invar r \<Longrightarrow> distinct (map fst (entries c r))"
    and entries_other: "invar r \<Longrightarrow> c' \<noteq> c \<Longrightarrow> entries c (save c' i d r) = entries c r"
    and lookup_save: "invar r \<Longrightarrow> map_of (entries c (save c i d r)) = (map_of (entries c r))(i \<mapsto> d)"
    and entries_save: "invar r \<Longrightarrow> i \<in> fst ` set (entries c r) \<or> (\<forall>j \<in> fst ` set (entries c r). j < i) \<Longrightarrow>
      entries c (save c i d r) = dict_set i d (entries c r)"
begin

fun save_all :: "(string \<times> string \<times> row) list \<Rightarrow> 'r \<Rightarrow> 'r" where
  "save_all [] r = r"
| "save_all ((c, i, d) # ops) r = save_all ops (save c i d r)"

lemma get_save: "invar r \<Longrightarrow> get c i (save c' j d r) = (if c = c' \<and> i = j then Some d else get c i r)"
  by (cases "c' = c") (auto simp: get_entries invar_save lookup_save entries_other)

lemma invar_save_all: "invar r \<Longrightarrow> invar (save_all ops r)"
  by (induction ops r rule: save_all.induct) (auto simp: invar_save)

lemma get_save_all:
  "invar r \<Longrightarrow> get c i (save_all ops r) =
     (case map_of (rev (map (\<lambda>(c, i, d). ((c, i), d)) ops)) (c, i) of None \<Rightarrow> get c i r | Some d \<Rightarrow> Some d)"
  by (induction ops r rule: save_all.induct)
    (auto simp: invar_save get_save map_add_def split: option.splits)

end

text \<open>The ids a collection is given, each id new only if it is greater than the ones before.\<close>

fun ascending_saves :: "string \<Rightarrow> string list \<Rightarrow> (string \<times> string \<times> row) list \<Rightarrow> bool" where
  "ascending_saves c known [] = True"
| "ascending_saves c known ((c', i, d) # ops) =
     (if c' \<noteq> c then ascending_saves c known ops
      else (i \<in> set known \<or> (\<forall>j \<in> set known. j < i)) \<and> ascending_saves c (i # known) ops)"

fun collected :: "string \<Rightarrow> (string \<times> string \<times> row) list \<Rightarrow> (string \<times> row) list \<Rightarrow> (string \<times> row) list" where
  "collected c [] es = es"
| "collected c ((c', i, d) # ops) es = collected c ops (if c' = c then dict_set i d es else es)"

context repository
begin

lemma entries_save_all:
  "invar r \<Longrightarrow> set known = fst ` set (entries c r) \<Longrightarrow> ascending_saves c known ops \<Longrightarrow>
   entries c (save_all ops r) = collected c ops (entries c r)"
proof (induction ops arbitrary: r known)
  case (Cons op ops)
  obtain c' i d where op: "op = (c', i, d)" by (cases op)
  show ?case
  proof (cases "c' = c")
    case True
    with Cons.prems op have s: "entries c (save c i d r) = dict_set i d (entries c r)"
      by (intro entries_save) auto
    have "entries c (save_all ops (save c i d r)) = collected c ops (entries c (save c i d r))"
      by (rule Cons.IH [of _ "i # known"]) (use Cons.prems op True in \<open>auto simp: invar_save s fst_set_dict_set\<close>)
    with op True s show ?thesis by simp
  next
    case False
    with Cons op show ?thesis by (auto simp: invar_save entries_other)
  qed
qed simp

end

section \<open>In memory\<close>

type_synonym mem_repo = "(string \<times> (string \<times> row) list) list"

definition mem_entries :: "string \<Rightarrow> mem_repo \<Rightarrow> (string \<times> row) list" where
  "mem_entries c data = (case map_of data c of None \<Rightarrow> [] | Some objs \<Rightarrow> objs)"

definition mem_save :: "string \<Rightarrow> string \<Rightarrow> row \<Rightarrow> mem_repo \<Rightarrow> mem_repo" where
  "mem_save c i obj data = dict_set c (dict_set i obj (mem_entries c data)) data"

definition mem_get :: "string \<Rightarrow> string \<Rightarrow> mem_repo \<Rightarrow> row option" where
  "mem_get c i data = map_of (mem_entries c data) i"

definition mem_list :: "string \<Rightarrow> mem_repo \<Rightarrow> row list" where
  "mem_list c data = map snd (mem_entries c data)"

definition mem_invar :: "mem_repo \<Rightarrow> bool" where
  "mem_invar data \<longleftrightarrow> (\<forall>c. distinct (map fst (mem_entries c data)))"

lemma mem_entries_save: "mem_entries c (mem_save c' i d r) = (if c = c' then dict_set i d (mem_entries c r) else mem_entries c r)"
  by (auto simp: mem_entries_def mem_save_def)

interpretation mem: repository "[]" mem_save mem_get mem_entries mem_invar
  by unfold_locales
    (auto simp: mem_entries_save mem_get_def mem_invar_def distinct_update, simp_all add: mem_entries_def)

section \<open>SQLite\<close>

text \<open>
  The \<open>objects\<close> table as its rows; \<open>INSERT OR REPLACE\<close> deletes the row with the same primary
  key and adds the new one, \<open>ORDER BY obj_id\<close> compares text by code point.
\<close>

type_synonym sql_repo = "((string \<times> string) \<times> row) list"

definition sql_save :: "string \<Rightarrow> string \<Rightarrow> row \<Rightarrow> sql_repo \<Rightarrow> sql_repo" where
  "sql_save c i obj rows = filter (\<lambda>(k, _). k \<noteq> (c, i)) rows @ [((c, i), obj)]"

definition sql_get :: "string \<Rightarrow> string \<Rightarrow> sql_repo \<Rightarrow> row option" where
  "sql_get c i rows = map_of rows (c, i)"

definition sql_entries :: "string \<Rightarrow> sql_repo \<Rightarrow> (string \<times> row) list" where
  "sql_entries c rows = sort_key fst [(i, d). ((c', i), d) \<leftarrow> rows, c' = c]"

definition sql_list :: "string \<Rightarrow> sql_repo \<Rightarrow> row list" where
  "sql_list c rows = map snd (sql_entries c rows)"

definition sql_invar :: "sql_repo \<Rightarrow> bool" where
  "sql_invar rows \<longleftrightarrow> distinct (map fst rows)"

abbreviation sql_rows :: "string \<Rightarrow> sql_repo \<Rightarrow> (string \<times> row) list" where
  "sql_rows c rows \<equiv> [(i, d). ((c', i), d) \<leftarrow> rows, c' = c]"

lemma sql_rows_append [simp]: "sql_rows c (a @ b) = sql_rows c a @ sql_rows c b"
  by simp

lemma fst_sql_rows: "i \<in> fst ` set (sql_rows c rows) \<longleftrightarrow> (c, i) \<in> fst ` set rows"
  by (induction rows) auto

lemma distinct_sql_rows: "distinct (map fst rows) \<Longrightarrow> distinct (map fst (sql_rows c rows))"
  using fst_sql_rows by (induction rows) (fastforce simp: image_iff)+

lemma map_of_sql_rows: "map_of (sql_rows c rows) i = map_of rows (c, i)"
  by (induction rows) auto

lemma sql_rows_filter:
  "sql_rows c (filter (\<lambda>(k, _). k \<noteq> (c', i)) rows) =
     (if c = c' then filter (\<lambda>(j, _). j \<noteq> i) (sql_rows c rows) else sql_rows c rows)"
proof (induction rows)
  case (Cons row rows)
  obtain a j d where "row = ((a, j), d)" by (metis prod.collapse)
  with Cons.IH show ?case by (cases "a = c") auto
qed simp

lemma sql_save_rows:
  "sql_rows c (sql_save c' i d rows) =
     (if c = c' then filter (\<lambda>(j, _). j \<noteq> i) (sql_rows c rows) @ [(i, d)] else sql_rows c rows)"
  unfolding sql_save_def sql_rows_append sql_rows_filter by auto

lemma sql_invar_save: "sql_invar rows \<Longrightarrow> sql_invar (sql_save c i d rows)"
  by (auto simp: sql_invar_def sql_save_def distinct_map inj_on_def split: prod.splits)

lemma map_of_filter_neq: "map_of (filter (\<lambda>(j, _). j \<noteq> i) kvs) k = (if k = i then None else map_of kvs k)"
  by (induction kvs) auto

lemma map_of_sql_entries: "sql_invar rows \<Longrightarrow> map_of (sql_entries c rows) i = map_of rows (c, i)"
  using map_of_sort_key [OF distinct_sql_rows] by (simp add: sql_entries_def sql_invar_def map_of_sql_rows)

text \<open>A sorted list of distinct keys is determined by its entries, so the row order does not matter.\<close>

lemma sort_key_fst_unique:
  assumes "distinct (map fst a)" and "map_of a = map_of b" and "distinct (map fst b)" and "sorted (map fst b)"
  shows "sort_key fst a = b"
proof -
  have "set a = set b" using assms(1-3) by (metis map_of_inject_set)
  moreover have "distinct a" "distinct b" using assms by (simp_all add: distinct_map)
  ultimately have "mset a = mset b" by (simp add: set_eq_iff_mset_eq_distinct)
  then show ?thesis using assms(1,4) by (intro sort_key_inj_key_eq) (simp_all add: distinct_map)
qed

lemma distinct_sort_key_fst: "distinct (map fst (sort_key fst a)) \<longleftrightarrow> distinct (map fst a)"
  by (rule mset_eq_imp_distinct_iff) (simp only: mset_map mset_sort)

lemma sorted_sql_entries [simp]: "sorted (map fst (sql_entries c rows))"
  by (simp add: sql_entries_def)

lemma distinct_sql_entries: "sql_invar rows \<Longrightarrow> distinct (map fst (sql_entries c rows))"
  unfolding sql_entries_def sql_invar_def by (simp only: distinct_sort_key_fst distinct_sql_rows)

lemma sql_entries_save_other: "c \<noteq> c' \<Longrightarrow> sql_entries c (sql_save c' i d rows) = sql_entries c rows"
  unfolding sql_entries_def sql_save_rows by simp

lemma map_of_sql_entries_save:
  assumes "sql_invar rows"
  shows "map_of (sql_entries c (sql_save c i d rows)) = (map_of (sql_entries c rows))(i \<mapsto> d)"
proof
  fix k
  have "map_of (sql_rows c (sql_save c i d rows)) k = (if k = i then Some d else map_of (sql_rows c rows) k)"
    unfolding sql_save_rows by (simp add: map_add_def map_of_filter_neq split: option.splits)
  then show "map_of (sql_entries c (sql_save c i d rows)) k = ((map_of (sql_entries c rows))(i \<mapsto> d)) k"
    using assms by (simp add: map_of_sql_entries sql_invar_save map_of_sql_rows)
qed

lemma sorted_dict_set:
  assumes "sorted (map fst es)" and "i \<in> fst ` set es \<or> (\<forall>j \<in> fst ` set es. j < i)"
  shows "sorted (map fst (dict_set i d es))"
proof (cases "i \<in> fst ` set es")
  case True
  then show ?thesis using assms(1) by (simp add: update_keys)
next
  case False
  with assms show ?thesis by (auto simp: dict_set_fresh sorted_append less_imp_le)
qed

lemma sql_entries_save:
  assumes "sql_invar rows" and "i \<in> fst ` set (sql_entries c rows) \<or> (\<forall>j \<in> fst ` set (sql_entries c rows). j < i)"
  shows "sql_entries c (sql_save c i d rows) = dict_set i d (sql_entries c rows)"
proof -
  let ?s = "sql_save c i d rows"
  have "sort_key fst (sql_entries c ?s) = dict_set i d (sql_entries c rows)"
    using assms by (intro sort_key_fst_unique)
      (simp_all add: distinct_sql_entries sql_invar_save map_of_sql_entries_save distinct_update update_conv'
        sorted_dict_set)
  then show ?thesis by (simp add: sort_key_id_if_sorted)
qed

interpretation sql: repository "[]" sql_save sql_get sql_entries sql_invar
proof unfold_locales
  show "sql_entries c [] = []" for c by (simp add: sql_entries_def)
  show "sql_invar []" by (simp add: sql_invar_def)
qed (auto simp: sql_invar_save sql_get_def map_of_sql_entries distinct_sql_entries sql_entries_save_other
    map_of_sql_entries_save sql_entries_save)

section \<open>Either backend\<close>

datatype repo = InMemory mem_repo | Sqlite sql_repo

fun repo_save :: "string \<Rightarrow> string \<Rightarrow> row \<Rightarrow> repo \<Rightarrow> repo" where
  "repo_save c i d (InMemory r) = InMemory (mem_save c i d r)"
| "repo_save c i d (Sqlite r) = Sqlite (sql_save c i d r)"

fun repo_get :: "string \<Rightarrow> string \<Rightarrow> repo \<Rightarrow> row option" where
  "repo_get c i (InMemory r) = mem_get c i r"
| "repo_get c i (Sqlite r) = sql_get c i r"

fun repo_entries :: "string \<Rightarrow> repo \<Rightarrow> (string \<times> row) list" where
  "repo_entries c (InMemory r) = mem_entries c r"
| "repo_entries c (Sqlite r) = sql_entries c r"

fun repo_list :: "string \<Rightarrow> repo \<Rightarrow> row list" where
  "repo_list c (InMemory r) = mem_list c r"
| "repo_list c (Sqlite r) = sql_list c r"

fun repo_invar :: "repo \<Rightarrow> bool" where
  "repo_invar (InMemory r) = mem_invar r"
| "repo_invar (Sqlite r) = sql_invar r"

lemma repo_list_entries: "repo_list c r = map snd (repo_entries c r)"
  by (cases r) (simp_all add: mem_list_def sql_list_def)

lemma repo_cases_laws:
  shows "repo_invar r \<Longrightarrow> repo_invar (repo_save c i d r)"
    and "repo_invar r \<Longrightarrow> repo_get c i r = map_of (repo_entries c r) i"
    and "repo_invar r \<Longrightarrow> distinct (map fst (repo_entries c r))"
    and "repo_invar r \<Longrightarrow> c' \<noteq> c \<Longrightarrow> repo_entries c (repo_save c' i d r) = repo_entries c r"
    and "repo_invar r \<Longrightarrow> map_of (repo_entries c (repo_save c i d r)) = (map_of (repo_entries c r))(i \<mapsto> d)"
    and "repo_invar r \<Longrightarrow> i \<in> fst ` set (repo_entries c r) \<or> (\<forall>j \<in> fst ` set (repo_entries c r). j < i) \<Longrightarrow>
      repo_entries c (repo_save c i d r) = dict_set i d (repo_entries c r)"
  by (cases r; simp add: mem.invar_save sql.invar_save mem.get_entries sql.get_entries mem.distinct_entries
      sql.distinct_entries mem.entries_other sql.entries_other mem.lookup_save sql.lookup_save
      mem.entries_save sql.entries_save)+

interpretation in_memory: repository "InMemory []" repo_save repo_get repo_entries repo_invar
  by unfold_locales (simp_all add: repo_cases_laws mem.entries_empty mem.invar_empty)

interpretation sqlite: repository "Sqlite []" repo_save repo_get repo_entries repo_invar
  by unfold_locales (simp_all add: repo_cases_laws sql.entries_empty sql.invar_empty)

fun run_saves :: "(string \<times> string \<times> row) list \<Rightarrow> repo \<Rightarrow> repo" where
  "run_saves [] r = r"
| "run_saves ((c, i, d) # ops) r = run_saves ops (repo_save c i d r)"

lemma run_saves_in_memory: "run_saves ops r = in_memory.save_all ops r"
  by (induction ops r rule: run_saves.induct) simp_all

lemma run_saves_sqlite: "run_saves ops r = sqlite.save_all ops r"
  by (induction ops r rule: run_saves.induct) simp_all

definition last_saved :: "(string \<times> string \<times> row) list \<Rightarrow> string \<Rightarrow> string \<Rightarrow> row option" where
  "last_saved ops c i = map_of (rev (map (\<lambda>(c, i, d). ((c, i), d)) ops)) (c, i)"

text \<open>
  C22: the two repositories answer every \<open>get\<close> alike after any sequence of saves, with the object saved
  last under that collection and id.
\<close>

theorem repositories_answer_alike:
  "repo_get c i (run_saves ops (InMemory [])) = last_saved ops c i
   \<and> repo_get c i (run_saves ops (Sqlite [])) = last_saved ops c i"
proof -
  have "repo_get c i (in_memory.save_all ops (InMemory [])) = last_saved ops c i"
    by (subst in_memory.get_save_all) (auto simp: last_saved_def mem_invar_def mem_entries_def mem_get_def split: option.splits)
  moreover have "repo_get c i (sqlite.save_all ops (Sqlite [])) = last_saved ops c i"
    by (subst sqlite.get_save_all) (auto simp: last_saved_def sql_invar_def sql_get_def split: option.splits)
  ultimately show ?thesis by (simp add: run_saves_in_memory [symmetric] run_saves_sqlite [symmetric])
qed

text \<open>
  If every id a collection is given is known or greater than the ones before, as sequential ids
  below 10000 are, the two repositories also list that collection in one order.
\<close>

theorem repositories_list_alike:
  assumes "ascending_saves c [] ops"
  shows "repo_list c (run_saves ops (InMemory [])) = repo_list c (run_saves ops (Sqlite []))"
proof -
  have "repo_entries c (in_memory.save_all ops (InMemory [])) = collected c ops []"
    using in_memory.entries_save_all [of "InMemory []" "[]"] assms
    by (simp add: in_memory.invar_empty in_memory.entries_empty del: repo_entries.simps repo_invar.simps)
  moreover have "repo_entries c (sqlite.save_all ops (Sqlite [])) = collected c ops []"
    using sqlite.entries_save_all [of "Sqlite []" "[]"] assms
    by (simp add: sqlite.invar_empty sqlite.entries_empty del: repo_entries.simps repo_invar.simps)
  ultimately show ?thesis
    by (simp add: repo_list_entries run_saves_in_memory [symmetric] run_saves_sqlite [symmetric])
qed

theorem repositories_list_alike_witness:
  "ascending_saves ''risks'' [] [(''risks'', ''RISK-0001'', []), (''risks'', ''RISK-0002'', []), (''risks'', ''RISK-0001'', [(''title'', JNull)])]
   \<and> repo_list ''risks'' (run_saves [(''risks'', ''RISK-0001'', []), (''risks'', ''RISK-0002'', []), (''risks'', ''RISK-0001'', [(''title'', JNull)])] (InMemory []))
     = repo_list ''risks'' (run_saves [(''risks'', ''RISK-0001'', []), (''risks'', ''RISK-0002'', []), (''risks'', ''RISK-0001'', [(''title'', JNull)])] (Sqlite []))"
proof
  show *: "ascending_saves ''risks'' [] [(''risks'', ''RISK-0001'', []), (''risks'', ''RISK-0002'', []), (''risks'', ''RISK-0001'', [(''title'', JNull)])]"
    by (simp add: less_char_def)
  show "repo_list ''risks'' (run_saves [(''risks'', ''RISK-0001'', []), (''risks'', ''RISK-0002'', []), (''risks'', ''RISK-0001'', [(''title'', JNull)])] (InMemory []))
     = repo_list ''risks'' (run_saves [(''risks'', ''RISK-0001'', []), (''risks'', ''RISK-0002'', []), (''risks'', ''RISK-0001'', [(''title'', JNull)])] (Sqlite []))"
    by (rule repositories_list_alike [OF *])
qed

text \<open>
  In general the listings differ, although the module calls the backends interchangeable: SQLite
  sorts ids as text, so a tenth-thousandth id comes before smaller numbers.
\<close>

theorem repositories_list_differently:
  "\<exists>ops. map (\<lambda>r. row_str r ''n'') (repo_list ''alerts'' (run_saves ops (InMemory []))) = [Some ''9999'', Some ''10000'']
   \<and> map (\<lambda>r. row_str r ''n'') (repo_list ''alerts'' (run_saves ops (Sqlite []))) = [Some ''10000'', Some ''9999'']"
  by (rule exI [of _ "[(''alerts'', ''ALT-9999'', [(''n'', JStr ''9999'')]), (''alerts'', ''ALT-10000'', [(''n'', JStr ''10000'')])]"])
    (simp add: mem_list_def mem_entries_def mem_save_def sql_list_def sql_entries_def sql_save_def row_str_def less_char_def)

section \<open>Audit log\<close>

definition GENESIS :: string where
  "GENESIS = ''sha256:'' @ replicate 64 (CHR ''0'')"

definition audit_body :: "string \<Rightarrow> string \<Rightarrow> string \<Rightarrow> string option \<Rightarrow> string option \<Rightarrow> row \<Rightarrow> string \<Rightarrow> string \<Rightarrow> row" where
  "audit_body event_id event_type actor flow_id subject_ref payload recorded_at prev_hash =
     [(''event_id'', JStr event_id), (''event_type'', JStr event_type), (''actor'', JStr actor),
      (''flow_id'', opt_str flow_id), (''subject_ref'', opt_str subject_ref), (''payload'', JObj payload),
      (''recorded_at'', JStr recorded_at), (''prev_hash'', JStr prev_hash)]"

record audit_log =
  log_clock :: clock
  log_ids :: id_factory
  log_events :: "AuditEvent list"

definition last_hash :: "AuditEvent list \<Rightarrow> string" where
  "last_hash es = (if es = [] then GENESIS else au_entry_hash (last es))"

definition audit_record ::
    "py \<Rightarrow> string \<Rightarrow> string \<Rightarrow> string option \<Rightarrow> string option \<Rightarrow> row \<Rightarrow> audit_log \<Rightarrow> AuditEvent \<times> audit_log" where
  "audit_record P event_type actor flow_id subject_ref payload lg =
     (let prev_hash = last_hash (log_events lg);
          (moment, clock') = clock_now (log_clock lg);
          recorded_at = isoformat moment;
          (event_id, ids') = ids_next ''AUD'' (log_ids lg);
          body = audit_body event_id event_type actor flow_id subject_ref payload recorded_at prev_hash;
          entry_hash = content_hash P (canonical_json (JObj body));
          event = \<lparr>au_event_id = event_id, au_event_type = event_type, au_actor = actor, au_flow_id = flow_id,
                   au_subject_ref = subject_ref, au_payload = payload, au_recorded_at = recorded_at,
                   au_prev_hash = prev_hash, au_entry_hash = entry_hash\<rparr>
      in (event, \<lparr>log_clock = clock', log_ids = ids', log_events = log_events lg @ [event]\<rparr>))"

fun break_from :: "py \<Rightarrow> string \<Rightarrow> nat \<Rightarrow> row list \<Rightarrow> nat option" where
  "break_from P prev index [] = None"
| "break_from P prev index (r # rows) =
     (let body = filter (\<lambda>(key, _). key \<noteq> ''entry_hash'') r;
          expected = content_hash P (canonical_json (JObj (dict_set ''prev_hash'' (JStr prev) body)))
      in if map_of r ''entry_hash'' \<noteq> Some (JStr expected) \<or> map_of r ''prev_hash'' \<noteq> Some (JStr prev)
         then Some index else break_from P expected (Suc index) rows)"

definition first_break :: "py \<Rightarrow> row list \<Rightarrow> nat option" where
  "first_break P rows = break_from P GENESIS 0 rows"

definition verify_chain :: "py \<Rightarrow> AuditEvent list \<Rightarrow> bool" where
  "verify_chain P events = (first_break P (map dump_audit_event events) = None)"

text \<open>How a chain extends: the check of a longer chain is the check of its prefix, then of the rest.\<close>

fun chain_head :: "string \<Rightarrow> row list \<Rightarrow> string" where
  "chain_head prev [] = prev"
| "chain_head prev (r # rows) = chain_head (case row_str r ''entry_hash'' of None \<Rightarrow> [] | Some h \<Rightarrow> h) rows"

lemma break_from_append:
  "break_from P prev k (a @ b) =
     (case break_from P prev k a of Some i \<Rightarrow> Some i | None \<Rightarrow> break_from P (chain_head prev a) (k + length a) b)"
  by (induction a arbitrary: prev k) (auto simp: Let_def row_str_def split: option.splits)

lemma chain_head_append: "chain_head prev (a @ b) = chain_head (chain_head prev a) b"
  by (induction a arbitrary: prev) auto

lemma chain_head_dump: "chain_head GENESIS (map dump_audit_event es) = last_hash es"
  by (induction es rule: rev_induct) (auto simp: chain_head_append last_hash_def dump_audit_event_def row_str_def)

lemma break_from_dump:
  assumes "au_prev_hash e = prev"
    and "au_entry_hash e = content_hash P (canonical_json (JObj (audit_body (au_event_id e) (au_event_type e)
      (au_actor e) (au_flow_id e) (au_subject_ref e) (au_payload e) (au_recorded_at e) prev)))"
  shows "break_from P prev k [dump_audit_event e] = None"
  using assms by (simp add: dump_audit_event_def audit_body_def)

lemma verify_chain_empty [simp]: "verify_chain P []"
  by (simp add: verify_chain_def first_break_def)

lemma audit_record_event:
  fixes P ty ac fl sr pl lg
  defines "e \<equiv> fst (audit_record P ty ac fl sr pl lg)"
  shows "log_events (snd (audit_record P ty ac fl sr pl lg)) = log_events lg @ [e]"
    and "au_prev_hash e = last_hash (log_events lg)"
    and "au_entry_hash e = content_hash P (canonical_json (JObj (audit_body (au_event_id e) (au_event_type e)
      (au_actor e) (au_flow_id e) (au_subject_ref e) (au_payload e) (au_recorded_at e) (last_hash (log_events lg)))))"
    and "au_event_type e = ty" "au_actor e = ac" "au_flow_id e = fl" "au_subject_ref e = sr" "au_payload e = pl"
  by (simp_all add: e_def audit_record_def Let_def split_beta)

lemma verify_chain_record:
  assumes "verify_chain P (log_events lg)"
  shows "verify_chain P (log_events (snd (audit_record P ty ac fl sr pl lg)))"
proof -
  let ?e = "fst (audit_record P ty ac fl sr pl lg)"
  have "break_from P (last_hash (log_events lg)) k [dump_audit_event ?e] = None" for k
    by (intro break_from_dump audit_record_event)
  with assms show ?thesis
    by (simp add: audit_record_event(1) verify_chain_def first_break_def break_from_append chain_head_dump
        del: break_from.simps)
qed

text \<open>
  C8: recording an event keeps the chain intact: a log whose chain verifies still verifies afterwards,
  and it is the old log with one event, of the given type, actor, references and payload, at its end.
\<close>

theorem audit_record_keeps_chain:
  assumes "verify_chain P (log_events lg)"
  shows "verify_chain P (log_events (snd (audit_record P ty ac fl sr pl lg)))
    \<and> (\<exists>e. log_events (snd (audit_record P ty ac fl sr pl lg)) = log_events lg @ [e]
         \<and> au_event_type e = ty \<and> au_actor e = ac \<and> au_flow_id e = fl \<and> au_subject_ref e = sr \<and> au_payload e = pl)"
  by (intro conjI exI [of _ "fst (audit_record P ty ac fl sr pl lg)"] verify_chain_record assms audit_record_event)

theorem audit_record_keeps_chain_witness:
  "verify_chain sample_py []
   \<and> verify_chain sample_py (log_events (snd (audit_record sample_py ''flow.started'' ''system'' None None []
       \<lparr>log_clock = FixedClock 0, log_ids = empty_ids, log_events = []\<rparr>)))"
  using audit_record_keeps_chain [of sample_py "\<lparr>log_clock = FixedClock 0, log_ids = empty_ids, log_events = []\<rparr>"
      "''flow.started''" "''system''" None None "[]"] by simp

section \<open>Tamper evidence\<close>

lemma break_from_Cons_None:
  assumes "break_from P prev k (r # rows) = None"
  obtains h where "map_of r ''entry_hash'' = Some (JStr h)" and "map_of r ''prev_hash'' = Some (JStr prev)"
    and "h = content_hash P (canonical_json (JObj (dict_set ''prev_hash'' (JStr prev) (filter (\<lambda>(key, _). key \<noteq> ''entry_hash'') r))))"
    and "break_from P h (Suc k) rows = None"
  using assms by (auto simp: Let_def split: if_splits)

lemma dict_set_same: "map_of d k = Some v \<Longrightarrow> dict_set k v d = d"
  by (induction d) (auto split: if_splits)

definition entry_body :: "row \<Rightarrow> row" where
  "entry_body r = filter (\<lambda>(key, _). key \<noteq> ''entry_hash'') r"

lemma map_of_entry_body: "map_of (entry_body r) k = (if k = ''entry_hash'' then None else map_of r k)"
  unfolding entry_body_def by (rule map_of_filter_neq)

lemma wf_entry_body:
  assumes "wf_json (JObj r)"
  shows "wf_json (JObj (entry_body r))"
proof -
  have "set (entry_body r) \<subseteq> set r" by (auto simp: entry_body_def)
  moreover have "distinct (map fst (entry_body r))" using assms by (simp add: entry_body_def distinct_map_filter)
  ultimately show ?thesis using assms by (auto simp: list_all_iff)
qed

text \<open>The last row of an intact chain carries the digest of the rest of it, its link included.\<close>

lemma break_from_snoc_None:
  assumes "break_from P prev k (rows @ [r]) = None"
  shows "break_from P prev k rows = None"
    and "map_of r ''prev_hash'' = Some (JStr (chain_head prev rows))"
    and "map_of r ''entry_hash'' = Some (JStr (content_hash P (canonical_json (JObj (entry_body r)))))"
proof -
  let ?p = "chain_head prev rows"
  show "break_from P prev k rows = None" using assms by (auto simp: break_from_append split: option.splits)
  then have one: "break_from P ?p (k + length rows) [r] = None" using assms by (simp add: break_from_append)
  then obtain h where h: "map_of r ''entry_hash'' = Some (JStr h)" "map_of r ''prev_hash'' = Some (JStr ?p)"
    "h = content_hash P (canonical_json (JObj (dict_set ''prev_hash'' (JStr ?p) (entry_body r))))"
    by (rule break_from_Cons_None) (auto simp: entry_body_def)
  moreover have "map_of (entry_body r) ''prev_hash'' = Some (JStr ?p)" using h(2) by (simp add: map_of_entry_body)
  ultimately show "map_of r ''prev_hash'' = Some (JStr ?p)"
    "map_of r ''entry_hash'' = Some (JStr (content_hash P (canonical_json (JObj (entry_body r)))))"
    by (simp_all add: dict_set_same)
qed

lemma chain_head_snoc:
  "break_from P prev k (rows @ [r]) = None \<Longrightarrow>
   chain_head prev (rows @ [r]) = content_hash P (canonical_json (JObj (entry_body r)))"
  using break_from_snoc_None(3) [of P prev k rows r] by (simp add: chain_head_append row_str_def)

lemma sort_keys_eqI:
  assumes "distinct (map fst a)" and "distinct (map fst b)"
    and "\<And>k. map_option sort_keys (map_of a k) = map_option sort_keys (map_of b k)"
  shows "sort_keys (JObj a) = sort_keys (JObj b)"
proof -
  let ?s = "\<lambda>kvs. map (\<lambda>(k, v). (k, sort_keys v)) kvs"
  have d: "distinct (map fst (?s a))" "distinct (map fst (?s b))"
    using assms(1,2) by (simp_all only: map_fst_sort_keys)
  have "map_of (?s a) = map_of (?s b)" using assms(3) by (auto simp: map_of_map_sort_keys)
  then have "sort_key fst (?s a) = sort_key fst (?s b)"
    using d by (intro sort_key_fst_unique) (simp_all add: map_of_sort_key distinct_sort_key_fst del: map_map)
  then show ?thesis by simp
qed

lemma intact_rows_eq:
  assumes "wf_json (JObj r)" and "wf_json (JObj r')"
    and "map_of r ''entry_hash'' = map_of r' ''entry_hash''"
    and "sort_keys (JObj (entry_body r)) = sort_keys (JObj (entry_body r'))"
  shows "sort_keys (JObj r) = sort_keys (JObj r')"
proof (rule sort_keys_eqI)
  show "distinct (map fst r)" "distinct (map fst r')" using assms(1,2) by simp_all
  fix k
  have "map_option sort_keys (map_of (entry_body r) k) = map_option sort_keys (map_of (entry_body r') k)"
    using assms wf_entry_body [of r] wf_entry_body [of r'] by (intro sort_keys_fields) simp_all
  then show "map_option sort_keys (map_of r k) = map_option sort_keys (map_of r' k)"
    using assms(3) by (cases "k = ''entry_hash''") (simp_all add: map_of_entry_body)
qed

text \<open>No text has the all-zero digest the first entry links to.\<close>

definition genesis_preimage :: "py \<Rightarrow> bool" where
  "genesis_preimage P \<longleftrightarrow> (\<exists>t. hexdigest P t = replicate 64 (CHR ''0''))"

lemma content_hash_not_genesis: "\<not> genesis_preimage P \<Longrightarrow> content_hash P t \<noteq> GENESIS"
  by (auto simp: genesis_preimage_def GENESIS_def content_hash_def)

lemma genesis_head_empty:
  assumes "break_from P GENESIS 0 b = None" and "chain_head GENESIS b = GENESIS" and "\<not> genesis_preimage P"
  shows "b = []"
proof (cases b rule: rev_cases)
  case (snoc b' r)
  then show ?thesis using assms chain_head_snoc [of P GENESIS 0 b' r] content_hash_not_genesis by metis
qed

lemma chains_agree:
  assumes "\<not> digest_collision P" and "\<not> genesis_preimage P"
  shows "break_from P GENESIS 0 a = None \<Longrightarrow> break_from P GENESIS 0 b = None \<Longrightarrow>
    list_all (\<lambda>r. wf_json (JObj r)) a \<Longrightarrow> list_all (\<lambda>r. wf_json (JObj r)) b \<Longrightarrow>
    chain_head GENESIS a = chain_head GENESIS b \<Longrightarrow>
    map (\<lambda>r. sort_keys (JObj r)) a = map (\<lambda>r. sort_keys (JObj r)) b"
proof (induction a arbitrary: b rule: rev_induct)
  case Nil
  then show ?case using genesis_head_empty [OF Nil.prems(2) _ assms(2)] by simp
next
  case (snoc r a)
  note r = break_from_snoc_None [OF snoc.prems(1)] and head = chain_head_snoc [OF snoc.prems(1)]
  show ?case
  proof (cases b rule: rev_cases)
    case Nil
    then show ?thesis using head snoc.prems(5) content_hash_not_genesis [OF assms(2)] by (metis chain_head.simps(1))
  next
    case (snoc b' r')
    note r' = break_from_snoc_None [OF snoc.prems(2) [unfolded snoc]]
    have eq: "content_hash P (canonical_json (JObj (entry_body r))) = content_hash P (canonical_json (JObj (entry_body r')))"
      using head chain_head_snoc [OF snoc.prems(2) [unfolded snoc]] snoc.prems(5) snoc by simp
    have wf: "wf_json (JObj r)" "wf_json (JObj r')" using snoc.prems(3,4) snoc by simp_all
    have body: "sort_keys (JObj (entry_body r)) = sort_keys (JObj (entry_body r'))"
      using content_hash_eqD [OF eq assms(1)] canonical_json_inject wf_entry_body wf by blast
    have "map_option sort_keys (map_of (entry_body r) ''prev_hash'') = map_option sort_keys (map_of (entry_body r') ''prev_hash'')"
      using sort_keys_fields [OF body] wf_entry_body [OF wf(1)] wf_entry_body [OF wf(2)] by simp
    then have "chain_head GENESIS a = chain_head GENESIS b'" using r(2) r'(2) by (simp add: map_of_entry_body)
    moreover have "list_all (\<lambda>r. wf_json (JObj r)) a" "list_all (\<lambda>r. wf_json (JObj r)) b'"
      using snoc.prems(3,4) snoc by simp_all
    ultimately have "map (\<lambda>r. sort_keys (JObj r)) a = map (\<lambda>r. sort_keys (JObj r)) b'"
      using r(1) r'(1) by (intro snoc.IH)
    then show ?thesis using intact_rows_eq [OF wf _ body] r(3) r'(3) eq snoc by simp
  qed
qed

text \<open>
  C7: the log is tamper evident. Two exported chains that both verify and end in the same entry hash
  hold the same entries in the same order, up to the order of keys inside an object, unless
  SHA-256 collides or the all-zero digest has a preimage.
\<close>

theorem chain_tamper_evident:
  assumes "first_break P a = None" and "first_break P b = None"
    and "list_all (\<lambda>r. wf_json (JObj r)) a" and "list_all (\<lambda>r. wf_json (JObj r)) b"
    and "chain_head GENESIS a = chain_head GENESIS b"
    and "\<not> digest_collision P" and "\<not> genesis_preimage P"
  shows "map (\<lambda>r. sort_keys (JObj r)) a = map (\<lambda>r. sort_keys (JObj r)) b"
  using assms chains_agree unfolding first_break_def by blast

definition sample_chain :: "row list" where
  "sample_chain = map dump_audit_event (log_events (snd (audit_record sample_py ''flow.started'' ''system'' None None []
       \<lparr>log_clock = FixedClock 0, log_ids = empty_ids, log_events = []\<rparr>)))"

lemma sample_chain_intact: "first_break sample_py sample_chain = None"
  unfolding sample_chain_def verify_chain_def [symmetric] by (rule verify_chain_record) simp

lemma sample_chain_wf: "list_all (\<lambda>r. wf_json (JObj r)) sample_chain"
  by (simp add: sample_chain_def audit_record_def Let_def split_beta dump_audit_event_def)

lemma sample_no_preimage: "\<not> genesis_preimage sample_py"
  by (auto simp: genesis_preimage_def sample_py_def dest: arg_cong [where f = hd])

theorem chain_tamper_evident_witness:
  "first_break sample_py sample_chain = None \<and> chain_head GENESIS sample_chain = chain_head GENESIS sample_chain
   \<and> \<not> digest_collision sample_py \<and> \<not> genesis_preimage sample_py
   \<and> map (\<lambda>r. sort_keys (JObj r)) sample_chain = map (\<lambda>r. sort_keys (JObj r)) sample_chain"
  using chain_tamper_evident [OF sample_chain_intact sample_chain_intact sample_chain_wf sample_chain_wf refl
      sample_py_no_collision sample_no_preimage] sample_chain_intact sample_py_no_collision sample_no_preimage by simp

lemma break_from_bounds: "break_from P prev k rows = Some i \<Longrightarrow> k \<le> i \<and> i < k + length rows"
  by (induction P prev k rows rule: break_from.induct) (fastforce simp: Let_def split: if_splits)+

lemma break_from_take:
  "break_from P prev k rows = Some i \<Longrightarrow> break_from P prev k (take n rows) = (if k + n \<le> i then None else Some i)"
proof (induction P prev k rows arbitrary: n rule: break_from.induct)
  case (2 P prev k r rows)
  then show ?case using break_from_bounds by (cases n) (fastforce simp: Let_def split: if_splits)+
qed simp

text \<open>
  The index \<open>first_break\<close> gives is the first at which the chain fails: it is an index of the list,
  the rows before it form an intact chain, and every longer prefix breaks at the same index.
\<close>

lemma first_break_is_first:
  assumes "first_break P rows = Some i"
  shows "i < length rows \<and> first_break P (take i rows) = None \<and> (\<forall>n > i. first_break P (take n rows) = Some i)"
  using assms break_from_bounds [of P GENESIS 0 rows i] by (auto simp: first_break_def break_from_take)

text \<open>
  The chain alone does not show a deletion at its end: every prefix of an intact chain is intact,
  although the module says any later deletion is detectable by walking it.
\<close>

theorem truncation_undetected:
  assumes "first_break P rows = None"
  shows "first_break P (take n rows) = None"
  using assms break_from_append [of P GENESIS 0 "take n rows" "drop n rows"]
  by (auto simp: first_break_def split: option.splits)

theorem truncation_undetected_witness:
  "first_break sample_py sample_chain = None \<and> first_break sample_py (take 0 sample_chain) = None"
  using truncation_undetected [OF sample_chain_intact, of 0] sample_chain_intact by simp

end
