(* ===== verification/Services.thy ===== *)
theory Services
  imports Storage
begin

text \<open>
  \<open>app/services.py\<close>, \<open>app/runtime/workflow.py\<close> and \<open>app/agents/contract.py\<close>: the bundle of
  services as one state, the operations every stage of the pipeline is written with (read
  the clock, take an id, save an object, store bytes, record an event), the workflow runtime
  over them and the agent registry. The clock and the id counters are shared by the audit log
  and the stages, as in the code. A flow, task or step that Python mutates is passed in and
  returned.

  Every operation is shown to keep the facts of the platform: the audit chain verifies, the
  log only grows, stored evidence hashes to its key, and the repository is well formed.
\<close>

section \<open>State\<close>

record AgentResult =
  res_output :: row
  res_confidence :: rat
  res_evidence_ids :: "string list"
  res_rationale :: string

record agent =
  agent_name :: string
  agent_version :: string
  agent_run :: "row \<Rightarrow> AgentResult result"

record svc =
  sv_repo :: repo
  sv_vault :: vault
  sv_clock :: clock
  sv_ids :: id_factory
  sv_events :: "AuditEvent list"
  sv_agents :: "(string \<times> agent) list"

definition services_create :: "repo \<Rightarrow> clock \<Rightarrow> agent \<Rightarrow> svc" where
  "services_create r c triage = \<lparr>sv_repo = r, sv_vault = [], sv_clock = c, sv_ids = empty_ids,
     sv_events = [], sv_agents = [(agent_name triage, triage)]\<rparr>"

section \<open>Agent registry\<close>

definition register :: "agent \<Rightarrow> (string \<times> agent) list \<Rightarrow> (string \<times> agent) list" where
  "register a agents = dict_set (agent_name a) a agents"

definition resolve :: "string \<Rightarrow> string option \<Rightarrow> (string \<times> agent) list \<Rightarrow> agent result" where
  "resolve name version agents =
     (case map_of agents name of
        None \<Rightarrow> Inl (KeyError name)
      | Some a \<Rightarrow> (case version of
          None \<Rightarrow> Inr a
        | Some v \<Rightarrow> if agent_version a \<noteq> v then Inl (KeyError name) else Inr a))"

lemma resolve_register: "resolve n v (register a agents) =
    (if n = agent_name a then (if v \<in> {None, Some (agent_version a)} then Inr a else Inl (KeyError n))
     else resolve n v agents)"
  by (auto simp: resolve_def register_def split: option.splits)

section \<open>Primitive operations\<close>

definition now :: "('z svc_scheme, string) state" where
  "now = State (\<lambda>s. let (m, c) = clock_now (sv_clock s) in (isoformat m, s\<lparr>sv_clock := c\<rparr>))"

definition next_id :: "string \<Rightarrow> ('z svc_scheme, string) state" where
  "next_id prefix = State (\<lambda>s. let (i, ids') = ids_next prefix (sv_ids s) in (i, s\<lparr>sv_ids := ids'\<rparr>))"

definition save :: "string \<Rightarrow> string \<Rightarrow> row \<Rightarrow> ('z svc_scheme, unit) state" where
  "save c i d = State (\<lambda>s. ((), s\<lparr>sv_repo := repo_save c i d (sv_repo s)\<rparr>))"

definition put_evidence :: "py \<Rightarrow> string \<Rightarrow> ('z svc_scheme, string) state" where
  "put_evidence P data = State (\<lambda>s. let (ref, v) = vault_put P data (sv_vault s) in (ref, s\<lparr>sv_vault := v\<rparr>))"

definition log_view :: "'z svc_scheme \<Rightarrow> audit_log" where
  "log_view s = \<lparr>log_clock = sv_clock s, log_ids = sv_ids s, log_events = sv_events s\<rparr>"

definition record_event ::
    "py \<Rightarrow> string \<Rightarrow> string \<Rightarrow> string option \<Rightarrow> string option \<Rightarrow> row \<Rightarrow> ('z svc_scheme, AuditEvent) state" where
  "record_event P event_type actor flow_id subject_ref payload = State (\<lambda>s.
     let (e, lg) = audit_record P event_type actor flow_id subject_ref payload (log_view s)
     in (e, s\<lparr>sv_clock := log_clock lg, sv_ids := log_ids lg, sv_events := log_events lg\<rparr>))"

lemma run_save: "run_state (save c i d) s = ((), s\<lparr>sv_repo := repo_save c i d (sv_repo s)\<rparr>)"
  by (simp add: save_def)

lemma run_now: "run_state now s = (isoformat (fst (clock_now (sv_clock s))), s\<lparr>sv_clock := snd (clock_now (sv_clock s))\<rparr>)"
  by (simp add: now_def split_beta)

lemma run_next_id:
  "run_state (next_id p) s = (id_of p (Suc (sv_ids s p)), s\<lparr>sv_ids := (sv_ids s)(p := Suc (sv_ids s p))\<rparr>)"
  by (simp add: next_id_def ids_next_def Let_def)

lemma run_put_evidence:
  "run_state (put_evidence P d) s = (content_hash P d, s\<lparr>sv_vault := dict_set (content_hash P d) d (sv_vault s)\<rparr>)"
  by (simp add: put_evidence_def vault_put_def Let_def)

lemma run_record_event:
  "snd (run_state (record_event P ty ac fl sr pl) s) =
     s\<lparr>sv_clock := snd (clock_now (sv_clock s)), sv_ids := (sv_ids s)(''AUD'' := Suc (sv_ids s ''AUD'')),
       sv_events := sv_events s @ [fst (audit_record P ty ac fl sr pl (log_view s))]\<rparr>"
  by (simp add: record_event_def split_beta audit_record_event(1))
    (simp add: audit_record_def log_view_def ids_next_def Let_def split_beta)

section \<open>What every operation keeps\<close>

text \<open>
  Facts about one part of the state are kept by operations on the other parts; each fact below
  names its part through a predicate, so that one rule per primitive serves all of them.
\<close>

definition on_repo :: "(repo \<Rightarrow> bool) \<Rightarrow> 'z svc_scheme \<Rightarrow> bool" where
  "on_repo Q s = Q (sv_repo s)"

definition on_vault :: "(vault \<Rightarrow> bool) \<Rightarrow> 'z svc_scheme \<Rightarrow> bool" where
  "on_vault Q s = Q (sv_vault s)"

definition on_events :: "(AuditEvent list \<Rightarrow> bool) \<Rightarrow> 'z svc_scheme \<Rightarrow> bool" where
  "on_events Q s = Q (sv_events s)"

definition on_agents :: "((string \<times> agent) list \<Rightarrow> bool) \<Rightarrow> 'z svc_scheme \<Rightarrow> bool" where
  "on_agents Q s = Q (sv_agents s)"

lemmas on_defs = on_repo_def on_vault_def on_events_def on_agents_def

lemma keeps_clock: "keeps (on_repo Q) now" "keeps (on_vault R) now" "keeps (on_events S) now" "keeps (on_agents T) now"
  by (rule keepsI; simp add: on_defs run_now)+

lemma keeps_ids:
  "keeps (on_repo Q) (next_id p)" "keeps (on_vault R) (next_id p)" "keeps (on_events S) (next_id p)" "keeps (on_agents T) (next_id p)"
  by (rule keepsI; simp add: on_defs run_next_id)+

lemma keeps_save:
  "keeps (on_vault R) (save c i d)" "keeps (on_events S) (save c i d)" "keeps (on_agents T) (save c i d)"
  by (rule keepsI; simp add: on_defs run_save)+

lemma keeps_put_evidence:
  "keeps (on_repo Q) (put_evidence P d)" "keeps (on_events S) (put_evidence P d)" "keeps (on_agents T) (put_evidence P d)"
  by (rule keepsI; simp add: on_defs run_put_evidence)+

lemma keeps_record:
  "keeps (on_repo Q) (record_event P ty ac fl sr pl)" "keeps (on_vault R) (record_event P ty ac fl sr pl)"
  "keeps (on_agents T) (record_event P ty ac fl sr pl)"
  by (rule keepsI; simp add: on_defs run_record_event)+

text \<open>The platform invariants themselves.\<close>

abbreviation chain_intact :: "py \<Rightarrow> 'z svc_scheme \<Rightarrow> bool" where
  "chain_intact P \<equiv> on_events (verify_chain P)"

abbreviation log_extends :: "AuditEvent list \<Rightarrow> 'z svc_scheme \<Rightarrow> bool" where
  "log_extends es \<equiv> on_events (\<lambda>fs. \<exists>more. fs = es @ more)"

abbreviation repo_ok :: "'z svc_scheme \<Rightarrow> bool" where
  "repo_ok \<equiv> on_repo repo_invar"

abbreviation evidence_ok :: "py \<Rightarrow> 'z svc_scheme \<Rightarrow> bool" where
  "evidence_ok P \<equiv> on_vault (vault_ok P)"

abbreviation listing :: "string \<Rightarrow> (string \<times> row) list \<Rightarrow> 'z svc_scheme \<Rightarrow> bool" where
  "listing c es \<equiv> on_repo (\<lambda>r. repo_invar r \<and> repo_entries c r = es)"

text \<open>
  A fact that survives the primitives survives everything written with them. \<open>quiet_fact\<close> is
  for code that stores no evidence and saves only in \<open>cols\<close>; \<open>kept_fact\<close> adds storing. The stages
  prove their operations once in these locales; the interpretations below make each invariant
  an instance.
\<close>

locale quiet_fact =
  fixes P :: py and I :: "'z svc_scheme \<Rightarrow> bool" and cols :: "string set"
  assumes now_keeps [keeps]: "keeps I now"
    and next_id_keeps [keeps]: "keeps I (next_id p)"
    and record_keeps [keeps]: "keeps I (record_event P ty ac fl sr pl)"
    and save_keeps [keeps]: "c \<in> cols \<Longrightarrow> keeps I (save c i d)"

locale kept_fact = quiet_fact +
  assumes put_keeps [keeps]: "keeps I (put_evidence P b)"

lemma keeps_chain_record: "keeps (chain_intact P) (record_event P ty ac fl sr pl)"
proof (rule keepsI)
  fix s :: "'a svc_scheme"
  assume "chain_intact P s"
  then show "chain_intact P (snd (run_state (record_event P ty ac fl sr pl) s))"
    using verify_chain_record [of P "log_view s" ty ac fl sr pl] audit_record_event(1) [of P ty ac fl sr pl "log_view s"]
    by (simp add: on_events_def run_record_event log_view_def)
qed

interpretation chain: kept_fact P "chain_intact P" UNIV for P
  by unfold_locales (simp_all add: keeps_clock keeps_ids keeps_save keeps_put_evidence keeps_chain_record)

lemma keeps_log_record: "keeps (log_extends es) (record_event P ty ac fl sr pl)"
  by (rule keepsI) (auto simp: on_events_def run_record_event)

interpretation append_only: kept_fact P "log_extends es" UNIV for P es
  by unfold_locales (simp_all add: keeps_clock keeps_ids keeps_save keeps_put_evidence keeps_log_record)

lemma keeps_repo_save: "keeps repo_ok (save c i d)"
  by (rule keepsI) (simp add: on_repo_def run_save in_memory.invar_save)

interpretation repo_wf: kept_fact P repo_ok UNIV for P
  by unfold_locales (simp_all add: keeps_clock keeps_ids keeps_record keeps_put_evidence keeps_repo_save)

lemma keeps_vault_put: "keeps (evidence_ok P) (put_evidence P d)"
  by (rule keepsI) (use vault_ok_put in \<open>fastforce simp: on_vault_def run_put_evidence vault_put_def Let_def\<close>)

interpretation evidence: kept_fact P "evidence_ok P" UNIV for P
  by unfold_locales (simp_all add: keeps_clock keeps_ids keeps_save keeps_record keeps_vault_put)

lemma keeps_listing_save: "c' \<noteq> c \<Longrightarrow> keeps (listing c es) (save c' i d)"
  by (rule keepsI) (auto simp: on_repo_def run_save in_memory.invar_save in_memory.entries_other)

interpretation other_collections: kept_fact P "listing c es" "- {c}" for P c es
  by unfold_locales (simp_all add: keeps_clock keeps_ids keeps_record keeps_put_evidence keeps_listing_save)

interpretation vault_untouched: quiet_fact P "on_vault Q" UNIV for P Q
  by unfold_locales (simp_all add: keeps_clock keeps_ids keeps_save keeps_record)

text \<open>Bytes once stored stay, unless the digest collides.\<close>

abbreviation stored :: "py \<Rightarrow> string \<Rightarrow> string \<Rightarrow> 'z svc_scheme \<Rightarrow> bool" where
  "stored P ref b \<equiv> on_vault (\<lambda>v. vault_ok P v \<and> vault_get ref v = Inr b)"

lemma stored_kept:
  assumes "\<not> digest_collision P"
  shows "kept_fact P (stored P ref b) UNIV"
proof unfold_locales
  fix d
  show "keeps (stored P ref b) (put_evidence P d)"
    using vault_ok_put [of P _ d] vault_get_put_other [OF _ assms, of _ ref b d]
    by (intro keepsI) (simp add: on_vault_def run_put_evidence vault_put_def Let_def)
qed

interpretation agents_untouched: kept_fact P "on_agents Q" UNIV for P Q
  by unfold_locales (simp_all add: keeps_clock keeps_ids keeps_save keeps_record keeps_put_evidence)

section \<open>Workflow runtime\<close>

definition start_flow :: "py \<Rightarrow> string \<Rightarrow> string \<Rightarrow> ('z svc_scheme, Flow) state" where
  "start_flow P flow_type title = do {
     t \<leftarrow> now;
     i \<leftarrow> next_id ''FLOW'';
     let flow = \<lparr>fl_flow_id = i, fl_flow_type = flow_type, fl_title = title, fl_status = FLOW_RUNNING,
                 fl_created_at = t, fl_updated_at = t, fl_task_ids = [], fl_artifact_ids = [],
                 fl_related_alert_group_ids = [], fl_related_incident_id = None\<rparr>;
     save ''flows'' i (dump_flow flow);
     record_event P ''flow.started'' ''system'' (Some i) None
       [(''flow_type'', JStr flow_type), (''title'', JStr title)];
     State_Monad.return flow }"

definition set_flow_status :: "py \<Rightarrow> Flow \<Rightarrow> FlowStatus \<Rightarrow> ('z svc_scheme, Flow) state" where
  "set_flow_status P flow status = do {
     t \<leftarrow> now;
     let flow' = flow\<lparr>fl_status := status, fl_updated_at := t\<rparr>;
     save ''flows'' (fl_flow_id flow') (dump_flow flow');
     record_event P ''flow.status_changed'' ''system'' (Some (fl_flow_id flow')) None
       [(''status'', JStr (flow_status_value status))];
     State_Monad.return flow' }"

definition add_task :: "py \<Rightarrow> Flow \<Rightarrow> string \<Rightarrow> ('z svc_scheme, Flow \<times> Task) state" where
  "add_task P flow name = do {
     i \<leftarrow> next_id ''TASK'';
     let task = \<lparr>tk_task_id = i, tk_name = name, tk_status = RUN_OK, tk_step_ids = []\<rparr>;
     save ''tasks'' i (dump_task task);
     let flow' = flow\<lparr>fl_task_ids := fl_task_ids flow @ [i]\<rparr>;
     save ''flows'' (fl_flow_id flow') (dump_flow flow');
     record_event P ''task.started'' ''system'' (Some (fl_flow_id flow')) (Some i) [(''name'', JStr name)];
     State_Monad.return (flow', task) }"

definition add_step :: "py \<Rightarrow> Flow \<Rightarrow> Task \<Rightarrow> string \<Rightarrow> string \<Rightarrow> ('z svc_scheme, Task \<times> Step) state" where
  "add_step P flow task name kind = do {
     i \<leftarrow> next_id ''STEP'';
     t \<leftarrow> now;
     let step = \<lparr>st_step_id = i, st_name = name, st_kind = kind, st_status = RUN_OK, st_tool_call_ids = [], st_at = t\<rparr>;
     save ''steps'' i (dump_step step);
     let task' = task\<lparr>tk_step_ids := tk_step_ids task @ [i]\<rparr>;
     save ''tasks'' (tk_task_id task') (dump_task task');
     record_event P ''step.ran'' ''system'' (Some (fl_flow_id flow)) (Some i) [(''name'', JStr name), (''kind'', JStr kind)];
     State_Monad.return (task', step) }"

definition tool_call ::
    "py \<Rightarrow> Flow \<Rightarrow> Step \<Rightarrow> string \<Rightarrow> row \<Rightarrow> row \<Rightarrow> string list \<Rightarrow> string option \<Rightarrow> RunStatus \<Rightarrow>
     ('z svc_scheme, Step \<times> ToolCall) state" where
  "tool_call P flow step tool_name inp out evidence_ids agent_run_ref status = do {
     i \<leftarrow> next_id ''TC'';
     t \<leftarrow> now;
     let call = \<lparr>tc_tool_call_id = i, tc_tool_name = tool_name, tc_input = inp, tc_output = out, tc_status = status,
                 tc_error = None, tc_evidence_ids = evidence_ids, tc_agent_run_ref = agent_run_ref, tc_at = t\<rparr>;
     save ''tool_calls'' i (dump_tool_call call);
     let step' = step\<lparr>st_tool_call_ids := st_tool_call_ids step @ [i]\<rparr>;
     save ''steps'' (st_step_id step') (dump_step step');
     record_event P ''tool.called'' (case agent_run_ref of None \<Rightarrow> ''system'' | Some r \<Rightarrow> if r = [] then ''system'' else r)
       (Some (fl_flow_id flow)) (Some i) [(''tool'', JStr tool_name), (''status'', JStr (run_status_value status))];
     State_Monad.return (step', call) }"

definition add_artifact :: "py \<Rightarrow> Flow \<Rightarrow> string \<Rightarrow> string \<Rightarrow> ('z svc_scheme, Flow \<times> Artifact) state" where
  "add_artifact P flow kind ref = do {
     i \<leftarrow> next_id ''ART'';
     t \<leftarrow> now;
     let artifact = \<lparr>af_artifact_id = i, af_kind = kind, af_ref = ref, af_at = t\<rparr>;
     save ''artifacts'' i (dump_artifact artifact);
     let flow' = flow\<lparr>fl_artifact_ids := fl_artifact_ids flow @ [i]\<rparr>;
     save ''flows'' (fl_flow_id flow') (dump_flow flow');
     State_Monad.return (flow', artifact) }"

text \<open>The collections the runtime saves in.\<close>

definition runtime_collections :: "string set" where
  "runtime_collections = {''flows'', ''tasks'', ''steps'', ''tool_calls'', ''artifacts''}"

context quiet_fact
begin

lemma save_runtime_keeps:
  assumes "runtime_collections \<subseteq> cols"
  shows "keeps I (save ''flows'' i d)" "keeps I (save ''tasks'' i d)" "keeps I (save ''steps'' i d)"
    "keeps I (save ''tool_calls'' i d)" "keeps I (save ''artifacts'' i d)"
  using assms save_keeps by (auto simp: runtime_collections_def)

lemma runtime_keeps [keeps]:
  assumes "runtime_collections \<subseteq> cols"
  shows "keeps I (start_flow P ft ti)" "keeps I (set_flow_status P fl st)" "keeps I (add_task P fl nm)"
    "keeps I (add_step P fl tk nm ki)" "keeps I (tool_call P fl sp tn inp out ev ar rs)" "keeps I (add_artifact P fl ki rf)"
  unfolding start_flow_def set_flow_status_def add_task_def add_step_def tool_call_def add_artifact_def
  by (intro keeps save_runtime_keeps assms)+

end

end
