(* ===== verification/Reference.thy ===== *)
theory Reference
  imports Core
begin

text \<open>
  \<open>app/reference.py\<close>: the fixed tables behind scoring, enrichment and control mapping.
\<close>

definition ASSET_CRITICALITY :: "(string \<times> Severity) list" where
  "ASSET_CRITICALITY = [(''web-01'', SEV_MEDIUM)]"

fun SEVERITY_WEIGHT :: "Severity \<Rightarrow> int" where
  "SEVERITY_WEIGHT SEV_INFO = 5"
| "SEVERITY_WEIGHT SEV_LOW = 20"
| "SEVERITY_WEIGHT SEV_MEDIUM = 45"
| "SEVERITY_WEIGHT SEV_HIGH = 70"
| "SEVERITY_WEIGHT SEV_CRITICAL = 90"

fun CRITICALITY_BONUS :: "Severity \<Rightarrow> int" where
  "CRITICALITY_BONUS SEV_INFO = 0"
| "CRITICALITY_BONUS SEV_LOW = 0"
| "CRITICALITY_BONUS SEV_MEDIUM = 10"
| "CRITICALITY_BONUS SEV_HIGH = 20"
| "CRITICALITY_BONUS SEV_CRITICAL = 30"

definition band_for_score :: "int \<Rightarrow> RiskBand" where
  "band_for_score score =
     (if score \<ge> 80 then BAND_CRITICAL else if score \<ge> 60 then BAND_HIGH
      else if score \<ge> 40 then BAND_MEDIUM else if score \<ge> 20 then BAND_LOW else BAND_INFORMATIONAL)"

definition ATTACK_TECHNIQUES :: "(string \<times> string list) list" where
  "ATTACK_TECHNIQUES = [(''ssh_failed_password'', [''T1110'']), (''suspicious_outbound_tls'', [''T1071.001''])]"

definition CONTROL_LIBRARY :: "(string \<times> Control) list" where
  "CONTROL_LIBRARY =
     [(''AC-7'', \<lparr>ct_control_id = ''AC-7'', ct_framework = ''NIST SP 800-53'', ct_control_ref = ''AC-7'',
        ct_title = ''Unsuccessful Logon Attempts''\<rparr>),
      (''SI-4'', \<lparr>ct_control_id = ''SI-4'', ct_framework = ''NIST SP 800-53'', ct_control_ref = ''SI-4'',
        ct_title = ''System Monitoring''\<rparr>)]"

definition SIGNATURE_TO_CONTROL :: "(string \<times> string) list" where
  "SIGNATURE_TO_CONTROL = [(''ssh_failed_password'', ''AC-7''), (''suspicious_outbound_tls'', ''SI-4'')]"

text \<open>Bands are ordered as scores are: a higher score is never in a lower band.\<close>

fun band_rank :: "RiskBand \<Rightarrow> nat" where
  "band_rank BAND_INFORMATIONAL = 0"
| "band_rank BAND_LOW = 1"
| "band_rank BAND_MEDIUM = 2"
| "band_rank BAND_HIGH = 3"
| "band_rank BAND_CRITICAL = 4"

lemma band_for_score_mono: "a \<le> b \<Longrightarrow> band_rank (band_for_score a) \<le> band_rank (band_for_score b)"
  by (simp add: band_for_score_def)

text \<open>Every control a signature maps to is in the library under its own id.\<close>

lemma control_library_closed:
  "map_of SIGNATURE_TO_CONTROL sig = Some c \<Longrightarrow> \<exists>ctl. map_of CONTROL_LIBRARY c = Some ctl \<and> ct_control_id ctl = c"
  by (auto simp: SIGNATURE_TO_CONTROL_def CONTROL_LIBRARY_def split: if_splits)

end
