(* ===== verification/Ingest.thy ===== *)
theory Ingest
  imports Services Reference
begin

text \<open>
  \<open>app/pipeline/ingest.py\<close>: raw sources are stored by content, parsed into alerts, grouped by
  dedup key and scored. The regular expression of the sshd parser is written out as the scan it
  performs (its repetitions are over disjoint character classes, so it never backtracks), and
  \<open>json.loads\<close> is an argument (\<open>None\<close> is its \<open>ValueError\<close>).
\<close>

section \<open>Parsing\<close>

record RawSource =
  rs_name :: string
  rs_source_type :: string
  rs_media_type :: string
  rs_data :: string

definition MONTHS :: "(string \<times> nat) list" where
  "MONTHS = [(''Jan'', 1), (''Feb'', 2), (''Mar'', 3), (''Apr'', 4), (''May'', 5), (''Jun'', 6),
     (''Jul'', 7), (''Aug'', 8), (''Sep'', 9), (''Oct'', 10), (''Nov'', 11), (''Dec'', 12)]"

definition DEFAULT_YEAR :: nat where
  "DEFAULT_YEAR = 2026"

definition syslog_iso :: "string \<Rightarrow> string \<Rightarrow> string \<Rightarrow> string result" where
  "syslog_iso mon day time =
     (case map_of MONTHS mon of
        None \<Rightarrow> Inl (KeyError mon)
      | Some m \<Rightarrow> Inr (zero_pad 4 DEFAULT_YEAR @ ''-'' @ zero_pad 2 m @ ''-'' @ zero_pad 2 (digits_val day) @ ''T'' @ time @ ''Z''))"

definition ipv4 :: "string \<Rightarrow> (string \<times> string) option" where
  "ipv4 s = do {
     (a, s) \<leftarrow> run1 is_digit s; s \<leftarrow> literal ''.'' s;
     (b, s) \<leftarrow> run1 is_digit s; s \<leftarrow> literal ''.'' s;
     (c, s) \<leftarrow> run1 is_digit s; s \<leftarrow> literal ''.'' s;
     (d, s) \<leftarrow> run1 is_digit s;
     Some (a @ ''.'' @ b @ ''.'' @ c @ ''.'' @ d, s) }"

record ssh_fields =
  sf_mon :: string
  sf_day :: string
  sf_time :: string
  sf_host :: string
  sf_user :: string
  sf_ip :: string

definition SSH_RE :: "string \<Rightarrow> ssh_fields option" where
  "SSH_RE s = do {
     mon \<leftarrow> (if length (take 3 s) = 3 \<and> list_all is_word (take 3 s) then Some (take 3 s) else None);
     (_, s) \<leftarrow> run1 is_space (drop 3 s);
     (day, s) \<leftarrow> run1 is_digit s;
     (_, s) \<leftarrow> run1 is_space s;
     (time, s) \<leftarrow> run1 (\<lambda>c. is_digit c \<or> c = CHR '':'') s;
     (_, s) \<leftarrow> run1 is_space s;
     (host, s) \<leftarrow> run1 (\<lambda>c. \<not> is_space c) s;
     (_, s) \<leftarrow> run1 is_space s;
     s \<leftarrow> literal ''sshd['' s;
     (_, s) \<leftarrow> run1 is_digit s;
     s \<leftarrow> literal '']:'' s;
     (_, s) \<leftarrow> run1 is_space s;
     s \<leftarrow> literal ''Failed password for '' s;
     (user, s) \<leftarrow> run1 (\<lambda>c. \<not> is_space c) s;
     s \<leftarrow> literal '' from '' s;
     (ip, s) \<leftarrow> ipv4 s;
     Some \<lparr>sf_mon = mon, sf_day = day, sf_time = time, sf_host = host, sf_user = user, sf_ip = ip\<rparr> }"

definition asset_criticality :: "string \<Rightarrow> Severity" where
  "asset_criticality asset_id = (case map_of ASSET_CRITICALITY asset_id of None \<Rightarrow> SEV_LOW | Some c \<Rightarrow> c)"

definition store_evidence :: "py \<Rightarrow> RawSource \<Rightarrow> ('z svc_scheme, Evidence) state" where
  "store_evidence P source = do {
     storage_ref \<leftarrow> put_evidence P (rs_data source);
     i \<leftarrow> next_id ''EVID'';
     t \<leftarrow> now;
     let evidence = \<lparr>ev_evidence_id = i, ev_kind = ''raw_alert'', ev_content_hash = storage_ref,
                     ev_media_type = rs_media_type source, ev_size_bytes = int (length (rs_data source)),
                     ev_source = rs_name source, ev_source_type = Some (rs_source_type source),
                     ev_captured_at = t, ev_storage_ref = storage_ref\<rparr>;
     save ''evidence'' i (dump_evidence evidence);
     State_Monad.return evidence }"

definition linux_auth_line :: "string \<Rightarrow> string \<Rightarrow> ('z svc_scheme, Alert list result) state" where
  "linux_auth_line evidence_id line =
     (case SSH_RE (strip line) of
        None \<Rightarrow> State_Monad.return (Inr [])
      | Some m \<Rightarrow> do {
          i \<leftarrow> next_id ''ALERT'';
          try_bind (from_result (syslog_iso (sf_mon m) (sf_day m) (sf_time m))) (\<lambda>event_time.
            State_Monad.return (Inr [\<lparr>al_alert_id = i, al_source = ''linux_auth'', al_signature = ''ssh_failed_password'',
              al_title = ''Failed SSH password for '' @ sf_user m @ '' from '' @ sf_ip m,
              al_asset_id = sf_host m, al_host = Some (sf_host m), al_severity = SEV_MEDIUM, al_event_time = event_time,
              al_dedup_key = ''ssh_failed_password:'' @ sf_host m @ '':'' @ sf_ip m,
              al_evidence_ids = [evidence_id]\<rparr>])) })"

definition parse_linux_auth :: "string \<Rightarrow> string \<Rightarrow> ('z svc_scheme, Alert list result) state" where
  "parse_linux_auth data evidence_id =
     try_bind (map_try (linux_auth_line evidence_id) (splitlines data)) (\<lambda>as. State_Monad.return (Inr (concat as)))"

definition SURICATA_SEVERITY :: "(int \<times> Severity) list" where
  "SURICATA_SEVERITY = [(1, SEV_HIGH), (2, SEV_MEDIUM), (3, SEV_LOW)]"

text \<open>\<open>d.get(k, default)\<close> of a decoded value that should be an object, and a field a model requires to be text.\<close>

definition json_get :: "json \<Rightarrow> string \<Rightarrow> json \<Rightarrow> json result" where
  "json_get j k dflt = (case j of JObj kvs \<Rightarrow> Inr (case map_of kvs k of None \<Rightarrow> dflt | Some v \<Rightarrow> v)
     | _ \<Rightarrow> Inl AttributeError)"

definition text_field :: "json \<Rightarrow> string result" where
  "text_field j = (case j of JStr s \<Rightarrow> Inr s | _ \<Rightarrow> Inl (ValueError ''Input should be a valid string''))"

definition text_method :: "json \<Rightarrow> string result" where
  "text_method j = (case j of JStr s \<Rightarrow> Inr s | _ \<Rightarrow> Inl AttributeError)"

definition suricata_line :: "py \<Rightarrow> (string \<Rightarrow> json option) \<Rightarrow> string \<Rightarrow> string \<Rightarrow> ('z svc_scheme, Alert list result) state" where
  "suricata_line P loads evidence_id raw =
     (let line = strip raw in
      if line = [] then State_Monad.return (Inr [])
      else case loads line of
        None \<Rightarrow> raise (ValueError ''json'')
      | Some rec \<Rightarrow>
          try_bind (from_result (json_get rec ''event_type'' JNull)) (\<lambda>event_type.
          if event_type \<noteq> JStr ''alert'' then State_Monad.return (Inr [])
          else
          try_bind (from_result (json_get rec ''alert'' (JObj []))) (\<lambda>alert_meta.
          try_bind (from_result (json_get alert_meta ''severity'' (JInt 3))) (\<lambda>sv.
          try_bind (from_result (py_int P sv)) (\<lambda>n.
          try_bind (from_result (json_get rec ''src_ip'' (JStr ''unknown''))) (\<lambda>src_ip.
          try_bind (from_result (json_get rec ''dest_ip'' (JStr ''unknown''))) (\<lambda>dest_ip.
          try_bind (from_result (json_get alert_meta ''signature_id'' (JStr ''0''))) (\<lambda>sig_id.
          try_bind (succeed (next_id ''ALERT'')) (\<lambda>i.
          try_bind (from_result (json_get alert_meta ''signature'' (JStr ''Suricata alert''))) (\<lambda>title.
          try_bind (from_result (json_get rec ''timestamp'' (JStr []))) (\<lambda>ts.
          try_bind (from_result (text_method ts)) (\<lambda>stamp.
          try_bind (from_result (text_field title)) (\<lambda>title_s.
          try_bind (from_result (text_field src_ip)) (\<lambda>src.
            State_Monad.return (Inr [\<lparr>al_alert_id = i, al_source = ''suricata_eve'', al_signature = ''suspicious_outbound_tls'',
              al_title = title_s, al_asset_id = src, al_host = Some src,
              al_severity = (case map_of SURICATA_SEVERITY n of None \<Rightarrow> SEV_LOW | Some v \<Rightarrow> v),
              al_event_time = replace_str ''+0000'' ''Z'' stamp,
              al_dedup_key = ''suspicious_outbound_tls:'' @ py_str sig_id @ '':'' @ src @ '':'' @ py_str dest_ip,
              al_evidence_ids = [evidence_id]\<rparr>])))))))))))))))"

definition parse_suricata_eve :: "py \<Rightarrow> (string \<Rightarrow> json option) \<Rightarrow> string \<Rightarrow> string \<Rightarrow> ('z svc_scheme, Alert list result) state" where
  "parse_suricata_eve P loads data evidence_id =
     try_bind (map_try (suricata_line P loads evidence_id) (splitlines data)) (\<lambda>as. State_Monad.return (Inr (concat as)))"

section \<open>Grouping and scoring\<close>

definition score :: "Severity \<Rightarrow> int \<Rightarrow> string \<Rightarrow> int \<times> RiskBand" where
  "score group_severity cnt asset_id =
     (let base = SEVERITY_WEIGHT group_severity;
          count_bonus = min cnt 5 * 5;
          asset_bonus = CRITICALITY_BONUS (asset_criticality asset_id);
          total = min 100 (base + count_bonus + asset_bonus)
      in (total, band_for_score total))"

definition make_group :: "string \<Rightarrow> string \<Rightarrow> Alert list \<Rightarrow> AlertGroup" where
  "make_group group_id key members =
     (let first = hd members;
          severity = max_by SEVERITY_WEIGHT (al_severity first) (map al_severity (tl members));
          (total, band) = score severity (int (length members)) (al_asset_id first)
      in \<lparr>ag_group_id = group_id, ag_dedup_key = key, ag_signature = al_signature first, ag_asset_id = al_asset_id first,
          ag_severity = severity, ag_count = int (length members), ag_alert_ids = map al_alert_id members,
          ag_evidence_ids = sorted_set (concat (map al_evidence_ids members)),
          ag_first_seen = fold min (map al_event_time (tl members)) (al_event_time first),
          ag_last_seen = fold max (map al_event_time (tl members)) (al_event_time first),
          ag_risk_score = total, ag_risk_band = band\<rparr>)"

definition save_group :: "string \<times> Alert list \<Rightarrow> ('z svc_scheme, AlertGroup) state" where
  "save_group kms = (case kms of (key, members) \<Rightarrow> do {
     i \<leftarrow> next_id ''AG'';
     let group = make_group i key members;
     for_each (\<lambda>a. save ''alerts'' (al_alert_id a) (dump_alert a)) members;
     save ''alert_groups'' i (dump_alert_group group);
     State_Monad.return group })"

record IngestResult =
  ir_evidences :: "Evidence list"
  ir_alerts :: "Alert list"
  ir_groups :: "AlertGroup list"

definition ingest_source :: "py \<Rightarrow> (string \<Rightarrow> json option) \<Rightarrow> RawSource \<Rightarrow> ('z svc_scheme, (Evidence \<times> Alert list) result) state" where
  "ingest_source P loads source =
     (if rs_source_type source = ''linux_auth'' \<or> rs_source_type source = ''suricata_eve'' then do {
        evidence \<leftarrow> store_evidence P source;
        try_bind (if rs_source_type source = ''linux_auth''
                  then parse_linux_auth (rs_data source) (ev_evidence_id evidence)
                  else parse_suricata_eve P loads (rs_data source) (ev_evidence_id evidence))
          (\<lambda>alerts. State_Monad.return (Inr (evidence, alerts))) }
      else raise (ValueError (''No parser for source_type '' @ repr_str (rs_source_type source))))"

definition ingest :: "py \<Rightarrow> (string \<Rightarrow> json option) \<Rightarrow> RawSource list \<Rightarrow> ('z svc_scheme, IngestResult result) state" where
  "ingest P loads sources =
     try_bind (map_try (ingest_source P loads) sources) (\<lambda>parsed.
       let alerts = concat (map snd parsed) in
       try_bind (succeed (for_each save_group (group_by al_dedup_key alerts))) (\<lambda>groups.
         State_Monad.return (Inr \<lparr>ir_evidences = map fst parsed, ir_alerts = alerts, ir_groups = groups\<rparr>)))"

section \<open>What ingestion keeps\<close>

definition ingest_collections :: "string set" where
  "ingest_collections = {''evidence'', ''alerts'', ''alert_groups''}"

lemma keeps_suricata_line [keeps]: "keeps I (next_id ''ALERT'') \<Longrightarrow> keeps I (suricata_line P loads e l)"
  unfolding suricata_line_def by (intro keeps)

lemma keeps_linux_auth_line [keeps]: "keeps I (next_id ''ALERT'') \<Longrightarrow> keeps I (linux_auth_line e l)"
  unfolding linux_auth_line_def by (intro keeps)

context quiet_fact
begin

lemma save_group_keeps:
  assumes "{''alerts'', ''alert_groups''} \<subseteq> cols"
  shows "keeps I (for_each save_group gs)"
  unfolding save_group_def by (intro keeps) (use assms in auto)

end

context kept_fact
begin

lemma ingest_source_keeps [keeps]:
  assumes "ingest_collections \<subseteq> cols"
  shows "keeps I (ingest_source P loads src)"
  unfolding ingest_source_def store_evidence_def parse_linux_auth_def parse_suricata_eve_def
  by (intro keeps) (use assms in \<open>simp add: ingest_collections_def\<close>)

lemma ingest_keeps [keeps]:
  assumes "ingest_collections \<subseteq> cols"
  shows "keeps I (ingest P loads srcs)"
  unfolding ingest_def by (intro keeps save_group_keeps assms) (use assms in \<open>simp add: ingest_collections_def\<close>)

end

section \<open>Groups\<close>

lemma score_bounds: "0 \<le> n \<Longrightarrow> 0 \<le> fst (score sv n a) \<and> fst (score sv n a) \<le> 100"
  by (cases sv; cases "asset_criticality a") (simp_all add: score_def Let_def)

lemma score_band: "snd (score sv n a) = band_for_score (fst (score sv n a))"
  by (simp add: score_def Let_def)

lemma CRITICALITY_BONUS_nonneg: "0 \<le> CRITICALITY_BONUS c"
  by (cases c) simp_all

text \<open>
  An alert group is scored within 0 to 100 in the band of its score; more alerts or a heavier severity
  never lower the score or the band.
\<close>

lemma score_monotone:
  assumes "0 \<le> n" and "n \<le> m" and "SEVERITY_WEIGHT sv \<le> SEVERITY_WEIGHT sw"
  shows "0 \<le> fst (score sv n a) \<and> fst (score sv n a) \<le> fst (score sw m a) \<and> fst (score sw m a) \<le> 100
    \<and> band_rank (snd (score sv n a)) \<le> band_rank (snd (score sw m a))
    \<and> snd (score sv n a) = band_for_score (fst (score sv n a))"
proof -
  have "fst (score sv n a) \<le> fst (score sw m a)"
    using assms by (simp add: score_def Let_def)
  with assms score_bounds [of n sv a] score_bounds [of m sw a] show ?thesis
    by (simp add: score_band band_for_score_mono)
qed

definition group_of :: "string \<times> Alert list \<Rightarrow> AlertGroup \<Rightarrow> bool" where
  "group_of kms g \<longleftrightarrow> (\<exists>i. g = make_group i (fst kms) (snd kms))"

lemma run_save_group: "group_of kms (fst (run_state (save_group kms) s))"
  by (cases kms) (auto simp: save_group_def group_of_def run_bind Let_def simp del: run_state_bind)

lemma groups_of: "list_all2 group_of gs (fst (run_state (for_each save_group gs) s))"
  by (rule for_each_rel) (rule run_save_group)

lemma ingest_parts:
  assumes "run_state (ingest P loads srcs) s = (Inr r, t)"
  obtains parsed u where "run_state (map_try (ingest_source P loads) srcs) s = (Inr parsed, u)"
    and "ir_evidences r = map fst parsed" and "ir_alerts r = concat (map snd parsed)"
    and "list_all2 group_of (group_by al_dedup_key (ir_alerts r)) (ir_groups r)"
    and "t = snd (run_state (for_each save_group (group_by al_dedup_key (ir_alerts r))) u)"
  using assms unfolding ingest_def
  by (auto simp: Let_def run_succeed groups_of elim!: try_bind_InrE)

lemma make_group_fields:
  "ag_dedup_key (make_group i k ms) = k" "ag_alert_ids (make_group i k ms) = map al_alert_id ms"
  "ag_count (make_group i k ms) = int (length ms)" "ag_evidence_ids (make_group i k ms) = sorted_set (concat (map al_evidence_ids ms))"
  "ag_risk_score (make_group i k ms) = fst (score (ag_severity (make_group i k ms)) (int (length ms)) (ag_asset_id (make_group i k ms)))"
  "ag_risk_band (make_group i k ms) = band_for_score (ag_risk_score (make_group i k ms))"
  by (simp_all add: make_group_def Let_def split_beta score_band)

text \<open>What a group says about the alerts of a run.\<close>

definition well_grouped :: "Alert list \<Rightarrow> AlertGroup \<Rightarrow> bool" where
  "well_grouped alerts g \<longleftrightarrow>
     (let ms = filter (\<lambda>a. al_dedup_key a = ag_dedup_key g) alerts in
        ms \<noteq> [] \<and> ag_alert_ids g = map al_alert_id ms \<and> ag_count g = int (length ms)
      \<and> set (ag_evidence_ids g) = (\<Union>a \<in> set ms. set (al_evidence_ids a))
      \<and> 0 \<le> ag_risk_score g \<and> ag_risk_score g \<le> 100 \<and> ag_risk_band g = band_for_score (ag_risk_score g))"

lemma group_of_well_grouped:
  assumes "(k, ms) \<in> set (group_by al_dedup_key alerts)"
  shows "well_grouped alerts (make_group i k ms)"
proof -
  from assms have "ms = filter (\<lambda>a. al_dedup_key a = k) alerts" and "ms \<noteq> []"
    by (auto simp: group_by_mem_iff filter_empty_conv)
  then show ?thesis using score_bounds [of "int (length ms)"]
    by (simp add: well_grouped_def make_group_fields(1-5) Let_def) (simp add: make_group_fields(5,6))
qed

text \<open>
  C18: ingestion neither loses nor repeats an alert. The groups' alert ids are the ids of all alerts, each as
  often as it was parsed; no two groups share a dedup key; every group's alerts are exactly the
  alerts with its key, counted, with their evidence, and scored within bounds.
\<close>

theorem ingest_partitions_alerts:
  assumes "run_state (ingest P loads srcs) s = (Inr r, t)"
  shows "mset (concat (map ag_alert_ids (ir_groups r))) = mset (map al_alert_id (ir_alerts r))
    \<and> distinct (map ag_dedup_key (ir_groups r)) \<and> list_all (well_grouped (ir_alerts r)) (ir_groups r)"
proof -
  let ?gs = "group_by al_dedup_key (ir_alerts r)"
  from assms obtain parsed u where rel: "list_all2 group_of ?gs (ir_groups r)" by (rule ingest_parts)
  have "map fst ?gs = map ag_dedup_key (ir_groups r)"
    using rel by (rule list_all2_map_eq) (auto simp: group_of_def make_group_fields)
  then have "distinct (map ag_dedup_key (ir_groups r))" using distinct_group_by by metis
  moreover have "map (\<lambda>kms. map al_alert_id (snd kms)) ?gs = map ag_alert_ids (ir_groups r)"
    using rel by (rule list_all2_map_eq) (auto simp: group_of_def make_group_fields)
  then have "concat (map ag_alert_ids (ir_groups r)) = map al_alert_id (concat (map snd ?gs))"
    by (metis (no_types, lifting) map_concat map_map comp_apply map_eq_conv)
  moreover have "well_grouped (ir_alerts r) g" if g: "g \<in> set (ir_groups r)" for g
  proof -
    obtain kms where "kms \<in> set ?gs" and "group_of kms g"
      using list_all2_in2 [OF rel g] by blast
    then show ?thesis by (cases kms) (auto simp: group_of_def group_of_well_grouped)
  qed
  ultimately show ?thesis by (simp add: mset_map mset_group_by list_all_iff)
qed

definition sample_source :: RawSource where
  "sample_source = \<lparr>rs_name = ''auth.log'', rs_source_type = ''linux_auth'', rs_media_type = ''text/plain'',
     rs_data = ''Jul 6 1:2 w sshd[9]: Failed password for u from 1.2.3.4''\<rparr>"

definition sample_svc :: svc where
  "sample_svc = \<lparr>sv_repo = InMemory [], sv_vault = [], sv_clock = FixedClock 0, sv_ids = empty_ids, sv_events = [], sv_agents = []\<rparr>"

lemma sample_ingest_groups:
  "(case fst (run_state (ingest sample_py (\<lambda>_. None) [sample_source]) sample_svc) of Inl _ \<Rightarrow> False
     | Inr r \<Rightarrow> map ag_count (ir_groups r) = [1])"
  by code_simp

lemma sample_ingest:
  obtains r t where "run_state (ingest sample_py (\<lambda>_. None) [sample_source]) sample_svc = (Inr r, t)"
    and "map ag_count (ir_groups r) = [1]"
proof (cases "run_state (ingest sample_py (\<lambda>_. None) [sample_source]) sample_svc")
  case (Pair x t)
  then show ?thesis using that sample_ingest_groups by (auto split: sum.splits)
qed

theorem ingest_partitions_alerts_witness:
  "\<exists>r t. run_state (ingest sample_py (\<lambda>_. None) [sample_source]) sample_svc = (Inr r, t)
     \<and> map ag_count (ir_groups r) = [1] \<and> list_all (well_grouped (ir_alerts r)) (ir_groups r)"
proof -
  obtain r t where run: "run_state (ingest sample_py (\<lambda>_. None) [sample_source]) sample_svc = (Inr r, t)"
    and one: "map ag_count (ir_groups r) = [1]" by (rule sample_ingest)
  then show ?thesis using ingest_partitions_alerts [OF run] by (intro exI [of _ r] exI [of _ t]) simp
qed

section \<open>Evidence\<close>

lemma linux_auth_line_evidence:
  "run_state (linux_auth_line e l) s = (Inr as, t) \<Longrightarrow> a \<in> set as \<Longrightarrow> al_evidence_ids a = [e]"
  by (auto simp: linux_auth_line_def run_bind run_from_result simp del: run_state_bind
      split: option.splits elim!: try_bind_InrE)

lemma suricata_line_evidence:
  "run_state (suricata_line P loads e l) s = (Inr as, t) \<Longrightarrow> a \<in> set as \<Longrightarrow> al_evidence_ids a = [e]"
  by (auto simp: suricata_line_def Let_def run_raise split: option.splits if_splits elim!: try_bind_InrE)

lemma lines_evidence:
  assumes line: "\<And>l s as t a. run_state (f l) s = (Inr as, t) \<Longrightarrow> a \<in> set as \<Longrightarrow> al_evidence_ids a = [e]"
    and "run_state (try_bind (map_try f ls) (\<lambda>as. State_Monad.return (Inr (concat as)))) s = (Inr as, t)" and "a \<in> set as"
  shows "al_evidence_ids a = [e]"
proof -
  obtain ass where run: "run_state (map_try f ls) s = (Inr ass, t)" and as: "as = concat ass"
    using assms(2) by (auto elim!: try_bind_InrE)
  have "list_all2 (\<lambda>l as. \<forall>a \<in> set as. al_evidence_ids a = [e]) ls ass"
    using map_try_rel [OF _ _ run, where J = "\<lambda>_. True" and R = "\<lambda>l as _. \<forall>a \<in> set as. al_evidence_ids a = [e]"] line
    by blast
  then show ?thesis using as assms(3) by (auto dest: list_all2_in2)
qed

definition retained :: "py \<Rightarrow> RawSource \<Rightarrow> Evidence \<times> Alert list \<Rightarrow> bool" where
  "retained P src ea \<longleftrightarrow>
     ev_content_hash (fst ea) = content_hash P (rs_data src) \<and> ev_storage_ref (fst ea) = content_hash P (rs_data src)
   \<and> ev_source (fst ea) = rs_name src \<and> ev_source_type (fst ea) = Some (rs_source_type src)
   \<and> ev_media_type (fst ea) = rs_media_type src
   \<and> (\<forall>a \<in> set (snd ea). al_evidence_ids a = [ev_evidence_id (fst ea)])"

lemma keeps_parsers:
  assumes "keeps I (next_id ''ALERT'')"
  shows "keeps I (parse_linux_auth b e)" "keeps I (parse_suricata_eve P loads b e)"
  unfolding parse_linux_auth_def parse_suricata_eve_def by (intro keeps assms)+

lemma run_store_evidence:
  assumes "run_state (store_evidence P src) s = (e, t)"
  shows "retained P src (e, [])" and "sv_vault t = snd (vault_put P (rs_data src) (sv_vault s))"
  using assms by (auto simp: store_evidence_def retained_def Let_def run_put_evidence run_next_id run_now run_save
      vault_put_def)

lemma ingest_source_retains:
  assumes "run_state (ingest_source P loads src) s = (Inr ea, t)" and "evidence_ok P s"
  shows "retained P src ea" and "stored P (content_hash P (rs_data src)) (rs_data src) t"
proof -
  let ?linux = "rs_source_type src = ''linux_auth''"
  obtain e u where store: "run_state (store_evidence P src) s = (e, u)" by fastforce
  let ?parse = "if ?linux then parse_linux_auth (rs_data src) (ev_evidence_id e)
     else parse_suricata_eve P loads (rs_data src) (ev_evidence_id e)"
  obtain as where parse: "run_state ?parse u = (Inr as, t)" and ea: "ea = (e, as)"
    using assms(1) store by (auto simp: ingest_source_def run_raise split: if_splits elim!: try_bind_InrE)
  have "al_evidence_ids a = [ev_evidence_id e]" if "a \<in> set as" for a
  proof (cases ?linux)
    case True
    with parse have "run_state (parse_linux_auth (rs_data src) (ev_evidence_id e)) u = (Inr as, t)" by simp
    from lines_evidence [OF _ this [unfolded parse_linux_auth_def] that] show ?thesis by (blast intro: linux_auth_line_evidence)
  next
    case False
    with parse have "run_state (parse_suricata_eve P loads (rs_data src) (ev_evidence_id e)) u = (Inr as, t)" by simp
    from lines_evidence [OF _ this [unfolded parse_suricata_eve_def] that] show ?thesis by (blast intro: suricata_line_evidence)
  qed
  with run_store_evidence(1) [OF store] show "retained P src ea" by (simp add: retained_def ea)
  have "stored P (content_hash P (rs_data src)) (rs_data src) u"
    using assms(2) vault_ok_put vault_get_put_same [of P "rs_data src" "sv_vault s"]
    by (simp add: on_vault_def run_store_evidence(2) [OF store]) (simp add: vault_put_def Let_def)
  moreover have "keeps (stored P (content_hash P (rs_data src)) (rs_data src)) ?parse"
    by (intro keeps keeps_parsers keeps_ids)
  ultimately show "stored P (content_hash P (rs_data src)) (rs_data src) t" using keepsD [OF _ _ parse] by blast
qed

lemma ingest_sources_retained:
  assumes "run_state (map_try (ingest_source P loads) srcs) s = (Inr eas, u)" and "evidence_ok P s" and "\<not> digest_collision P"
  shows "list_all2 (\<lambda>src ea. retained P src ea \<and> stored P (content_hash P (rs_data src)) (rs_data src) u) srcs eas"
proof -
  let ?R = "\<lambda>src ea t. retained P src ea \<and> stored P (content_hash P (rs_data src)) (rs_data src) t"
  note kept = kept_fact.ingest_source_keeps [OF stored_kept [OF assms(3)]] evidence.ingest_source_keeps
  have "evidence_ok P u \<and> list_all2 (\<lambda>x y. ?R x y u) srcs eas"
    using assms(1)
  proof (rule map_try_rel [where J = "evidence_ok P" and R = ?R, rotated 2])
    show "evidence_ok P s" by (rule assms(2))
  qed (use ingest_source_retains keepsD [OF kept(1)] keepsD [OF kept(2)] in \<open>auto simp: ingest_collections_def\<close>)
  then show ?thesis ..
qed

text \<open>
  Ingestion is evidence first. Every source's bytes are in the vault under their digest when it ends
  and were recorded with the source's name and types, in the order given; every alert refers to
  the evidence record of the source it was parsed from.
\<close>

theorem ingest_retains_evidence:
  assumes "run_state (ingest P loads srcs) s = (Inr r, t)" and "vault_ok P (sv_vault s)" and "\<not> digest_collision P"
  shows "list_all2 (\<lambda>src e. vault_get (ev_storage_ref e) (sv_vault t) = Inr (rs_data src)
      \<and> ev_content_hash e = content_hash P (rs_data src) \<and> ev_source e = rs_name src
      \<and> ev_source_type e = Some (rs_source_type src) \<and> ev_media_type e = rs_media_type src) srcs (ir_evidences r)
    \<and> (\<forall>a \<in> set (ir_alerts r). \<exists>e \<in> set (ir_evidences r). al_evidence_ids a = [ev_evidence_id e])"
proof -
  from assms(1) obtain parsed u where run: "run_state (map_try (ingest_source P loads) srcs) s = (Inr parsed, u)"
    and r: "ir_evidences r = map fst parsed" "ir_alerts r = concat (map snd parsed)"
    and t: "t = snd (run_state (for_each save_group (group_by al_dedup_key (ir_alerts r))) u)"
    by (rule ingest_parts)
  have all: "list_all2 (\<lambda>src ea. retained P src ea \<and> stored P (content_hash P (rs_data src)) (rs_data src) u) srcs parsed"
    using run _ assms(3) by (rule ingest_sources_retained) (use assms(2) in \<open>simp add: on_vault_def\<close>)
  have "keeps (on_vault (\<lambda>v. v = sv_vault u)) (for_each save_group (group_by al_dedup_key (ir_alerts r)))"
    by (rule vault_untouched.save_group_keeps) simp
  then have "sv_vault t = sv_vault u" unfolding t by (force simp: keeps_def on_vault_def)
  then have "list_all2 (\<lambda>src e. vault_get (ev_storage_ref e) (sv_vault t) = Inr (rs_data src)
      \<and> ev_content_hash e = content_hash P (rs_data src) \<and> ev_source e = rs_name src
      \<and> ev_source_type e = Some (rs_source_type src) \<and> ev_media_type e = rs_media_type src) srcs (ir_evidences r)"
    using all by (auto simp: r list_all2_map2 retained_def on_vault_def elim: list_all2_mono)
  moreover have "\<exists>e \<in> set (ir_evidences r). al_evidence_ids a = [ev_evidence_id e]" if a: "a \<in> set (ir_alerts r)" for a
  proof -
    obtain ea where ea: "ea \<in> set parsed" "a \<in> set (snd ea)" using a by (auto simp: r)
    then obtain src where "retained P src ea" using list_all2_in2 [OF all] by blast
    with ea show ?thesis by (auto simp: r retained_def)
  qed
  ultimately show ?thesis by blast
qed

theorem ingest_retains_evidence_witness:
  "\<exists>r t. run_state (ingest sample_py (\<lambda>_. None) [sample_source]) sample_svc = (Inr r, t) \<and> length (ir_evidences r) = 1
     \<and> \<not> digest_collision sample_py"
proof -
  obtain r t where run: "run_state (ingest sample_py (\<lambda>_. None) [sample_source]) sample_svc = (Inr r, t)"
    by (rule sample_ingest)
  then have "length [sample_source] = length (ir_evidences r)"
    using ingest_retains_evidence [OF run _ sample_py_no_collision] list_all2_lengthD by (force simp: sample_svc_def)
  with run sample_py_no_collision show ?thesis by auto
qed

end
