(* ===== verification/Policy.thy ===== *)
theory Policy
  imports Core
begin

text \<open>
  The policy engine (\<open>app/policy/engine.py\<close>, \<open>reason_codes.py\<close>) and the construction of
  hash-bound scopes (\<open>app/authorization.py\<close>). The engine's gates are \<open>decide\<close>, in the
  order of the code; \<open>permits\<close> is what an operator reading the scope expects, stated over
  instants and domain labels, and the engine is proved to allow exactly that.
\<close>

section \<open>The shapes a scope may use\<close>

definition label_char :: "char \<Rightarrow> bool" where
  "label_char c = (is_lower c \<or> is_digit c)"

definition is_label :: "string \<Rightarrow> bool" where
  "is_label s = (s \<noteq> [] \<and> length s \<le> 63 \<and> label_char (hd s) \<and> label_char (last s) \<and>
     list_all (\<lambda>c. label_char c \<or> c = CHR ''-'') s)"

definition HOSTNAME :: "string \<Rightarrow> bool" where
  "HOSTNAME s = list_all is_label (split_on (CHR ''.'') s)"

definition WILDCARD :: "string \<Rightarrow> bool" where
  "WILDCARD s = (startswith s ''*.'' \<and> HOSTNAME (drop 2 s) \<and> 2 \<le> length (split_on (CHR ''.'') (drop 2 s)))"

definition actor_start :: "char \<Rightarrow> bool" where
  "actor_start c = (is_lower c \<or> is_upper c \<or> is_digit c)"

definition ACTOR :: "string \<Rightarrow> bool" where
  "ACTOR s = (s \<noteq> [] \<and> length s \<le> 128 \<and> actor_start (hd s) \<and>
     list_all (\<lambda>c. actor_start c \<or> c \<in> set ''._@:-'') (tl s))"

definition hostname :: "string \<Rightarrow> bool" where
  "hostname value = (length value \<le> 253 \<and> HOSTNAME value)"

definition instant :: "py \<Rightarrow> string option \<Rightarrow> int option" where
  "instant P value = (case value of None \<Rightarrow> None
     | Some s \<Rightarrow> (case fromisoformat P s of Some (Aware t) \<Rightarrow> Some t | _ \<Rightarrow> None))"

definition scope_problems :: "py \<Rightarrow> AssessmentScope \<Rightarrow> string list" where
  "scope_problems P scope =
     (let start = sc_valid_from scope; stop = sc_valid_until scope in
      [''actor '' @ repr_str entry @ '' is not a plain name''. entry \<leftarrow> sc_allowed_actors scope, \<not> ACTOR entry] @
      [''target '' @ repr_str entry @ '' is not a host name or a '' @ [CHR 0x27] @ ''*.'' @ [CHR 0x27] @
         '' wildcard over two or more labels''.
         entry \<leftarrow> sc_target_allowlist scope, \<not> (hostname entry \<or> WILDCARD entry)] @
      (case start of Some v \<Rightarrow> if instant P start = None
           then [''valid_from '' @ repr_str v @ '' is not a timestamp with a zone''] else [] | None \<Rightarrow> []) @
      (case stop of Some v \<Rightarrow> if instant P stop = None
           then [''valid_until '' @ repr_str v @ '' is not a timestamp with a zone''] else [] | None \<Rightarrow> []) @
      (case (instant P start, instant P stop) of
         (Some a, Some b) \<Rightarrow> if a \<ge> b then [''valid_from is not before valid_until''] else []
       | _ \<Rightarrow> []))"

fun target_allowed_loop :: "string \<Rightarrow> string list \<Rightarrow> bool" where
  "target_allowed_loop target [] = False"
| "target_allowed_loop target (entry # rest) =
     (if entry = target then True
      else if startswith entry ''*.'' \<and> endswith target (drop 1 entry) \<and> target \<noteq> drop 2 entry then True
      else target_allowed_loop target rest)"

definition target_allowed :: "string \<Rightarrow> string list \<Rightarrow> bool" where
  "target_allowed target allowlist = (if \<not> hostname target then False else target_allowed_loop target allowlist)"

definition min_autonomy :: "RiskLevel \<Rightarrow> bool \<Rightarrow> AutonomyLevel" where
  "min_autonomy risk_level has_approval =
     (if risk_level = RISK_LOW \<and> \<not> has_approval then AUTO_FIX_LOW_RISK else EXECUTE_AFTER_APPROVAL)"

section \<open>The gates\<close>

datatype ReasonCode =
    ALLOW_OK
  | SCOPE_NOT_APPROVED
  | SCOPE_UNBOUND
  | SCOPE_EMPTY
  | SCOPE_AMBIGUOUS
  | SCOPE_WINDOW_INVALID
  | SCOPE_EXPIRED
  | ACTOR_NOT_PERMITTED
  | TARGET_NOT_IN_SCOPE
  | APPROVAL_REQUIRED
  | AUTONOMY_LEVEL_INSUFFICIENT

fun reason_value :: "ReasonCode \<Rightarrow> string" where
  "reason_value ALLOW_OK = ''ALLOW_OK''"
| "reason_value SCOPE_NOT_APPROVED = ''SCOPE_NOT_APPROVED''"
| "reason_value SCOPE_UNBOUND = ''SCOPE_UNBOUND''"
| "reason_value SCOPE_EMPTY = ''SCOPE_EMPTY''"
| "reason_value SCOPE_AMBIGUOUS = ''SCOPE_AMBIGUOUS''"
| "reason_value SCOPE_WINDOW_INVALID = ''SCOPE_WINDOW_INVALID''"
| "reason_value SCOPE_EXPIRED = ''SCOPE_EXPIRED''"
| "reason_value ACTOR_NOT_PERMITTED = ''ACTOR_NOT_PERMITTED''"
| "reason_value TARGET_NOT_IN_SCOPE = ''TARGET_NOT_IN_SCOPE''"
| "reason_value APPROVAL_REQUIRED = ''APPROVAL_REQUIRED''"
| "reason_value AUTONOMY_LEVEL_INSUFFICIENT = ''AUTONOMY_LEVEL_INSUFFICIENT''"

fun reason_message :: "ReasonCode \<Rightarrow> string" where
  "reason_message ALLOW_OK = ''Action permitted by policy.''"
| "reason_message SCOPE_NOT_APPROVED = ''Scope is not approved.''"
| "reason_message SCOPE_UNBOUND = ''Scope is not bound to a canonical policy hash.''"
| "reason_message SCOPE_EMPTY = ''Scope names no actor or no target; a blank scope never means unrestricted.''"
| "reason_message SCOPE_AMBIGUOUS = ''Scope has an entry that can be read more than one way; it fails closed.''"
| "reason_message SCOPE_WINDOW_INVALID = ''No valid decision time or before the scope validity window.''"
| "reason_message SCOPE_EXPIRED = ''Authorization window has expired.''"
| "reason_message ACTOR_NOT_PERMITTED = ''Actor is not on the scope actor allowlist.''"
| "reason_message TARGET_NOT_IN_SCOPE = ''Target is not covered by the scope allowlist.''"
| "reason_message APPROVAL_REQUIRED = ''Action risk requires an explicit approval record.''"
| "reason_message AUTONOMY_LEVEL_INSUFFICIENT = ''Configured autonomy level is below what this action requires.''"

text \<open>
  A bound that is set and non-empty is compared as an instant; gate 4 has already refused a
  bound that is not one, so the \<open>None\<close> cases of the comparisons are not reached.
\<close>

definition before_start :: "py \<Rightarrow> int \<Rightarrow> string option \<Rightarrow> bool" where
  "before_start P moment bound = (bound \<noteq> None \<and> bound \<noteq> Some [] \<and>
     (case instant P bound of Some t \<Rightarrow> moment < t | None \<Rightarrow> False))"

definition after_end :: "py \<Rightarrow> int \<Rightarrow> string option \<Rightarrow> bool" where
  "after_end P moment bound = (bound \<noteq> None \<and> bound \<noteq> Some [] \<and>
     (case instant P bound of Some t \<Rightarrow> moment > t | None \<Rightarrow> False))"

definition decide :: "py \<Rightarrow> ActionRequest \<Rightarrow> AssessmentScope \<Rightarrow> ReasonCode" where
  "decide P request scope =
     (if \<not> sc_approved scope then SCOPE_NOT_APPROVED
      else if sc_policy_hash scope = [] then SCOPE_UNBOUND
      else if sc_allowed_actors scope = [] \<or> sc_target_allowlist scope = [] then SCOPE_EMPTY
      else if scope_problems P scope \<noteq> [] then SCOPE_AMBIGUOUS
      else case instant P (rq_at request) of
        None \<Rightarrow> SCOPE_WINDOW_INVALID
      | Some moment \<Rightarrow>
          if before_start P moment (sc_valid_from scope) then SCOPE_WINDOW_INVALID
          else if after_end P moment (sc_valid_until scope) then SCOPE_EXPIRED
          else if rq_actor request \<notin> set (sc_allowed_actors scope) then ACTOR_NOT_PERMITTED
          else if \<not> target_allowed (rq_target request) (sc_target_allowlist scope) then TARGET_NOT_IN_SCOPE
          else if rq_risk_level request \<in> {RISK_MEDIUM, RISK_HIGH} \<and> \<not> rq_has_approval request
            then APPROVAL_REQUIRED
          else if autonomy_int (sc_autonomy_level scope)
              < autonomy_int (min_autonomy (rq_risk_level request) (rq_has_approval request))
            then AUTONOMY_LEVEL_INSUFFICIENT
          else ALLOW_OK)"

definition evaluate :: "py \<Rightarrow> clock \<Rightarrow> ActionRequest \<Rightarrow> AssessmentScope \<Rightarrow> PolicyDecision \<times> clock" where
  "evaluate P clk request scope =
     (let code = decide P request scope;
          effect = (if code = ALLOW_OK then ALLOW else DENY);
          (moment, clk') = clock_now clk
      in (\<lparr>pd_effect = effect, pd_reason_code = reason_value code, pd_message = reason_message code,
           pd_request_ref = rq_request_id request, pd_policy_hash = sc_policy_hash scope,
           pd_evaluated_at = isoformat moment\<rparr>, clk'))"

section \<open>Hash-bound scopes\<close>

definition policy_relevant :: "int \<Rightarrow> AutonomyLevel \<Rightarrow> string list \<Rightarrow> string list \<Rightarrow> string option \<Rightarrow> string option \<Rightarrow> row" where
  "policy_relevant version level actors targets start stop =
     [(''scope_version'', JInt version), (''autonomy_level'', JInt (autonomy_int level)),
      (''allowed_actors'', JStrs (sort actors)), (''target_allowlist'', JStrs (sort targets)),
      (''valid_from'', opt_str start), (''valid_until'', opt_str stop)]"

definition make_scope :: "py \<Rightarrow> string \<Rightarrow> int \<Rightarrow> AutonomyLevel \<Rightarrow> string list \<Rightarrow> string list \<Rightarrow>
    string option \<Rightarrow> string option \<Rightarrow> bool \<Rightarrow> AssessmentScope" where
  "make_scope P scope_id version level actors targets start stop approved =
     \<lparr>sc_scope_id = scope_id, sc_scope_version = version,
      sc_policy_hash = policy_hash P (policy_relevant version level actors targets start stop),
      sc_approved = approved, sc_autonomy_level = level, sc_allowed_actors = actors,
      sc_target_allowlist = targets, sc_valid_from = start, sc_valid_until = stop\<rparr>"

section \<open>What a scope means\<close>

text \<open>
  An entry without a wildcard covers the host it names. A wildcard \<open>*.base\<close> covers the names
  with at least one more label in front of the labels of \<open>base\<close>; the base has two labels or more.
\<close>

abbreviation labels :: "string \<Rightarrow> string list" where
  "labels \<equiv> split_on (CHR ''.'')"

definition covers :: "string \<Rightarrow> string \<Rightarrow> bool" where
  "covers entry target \<longleftrightarrow> hostname target \<and>
     (target = entry \<or>
      (\<exists>base sub. entry = ''*.'' @ base \<and> 2 \<le> length (labels base) \<and> sub \<noteq> [] \<and>
         labels target = sub @ labels base))"

definition in_window :: "py \<Rightarrow> AssessmentScope \<Rightarrow> int \<Rightarrow> bool" where
  "in_window P scope moment \<longleftrightarrow>
     (\<forall>v. sc_valid_from scope = Some v \<longrightarrow> (\<exists>t. instant P (Some v) = Some t \<and> t \<le> moment)) \<and>
     (\<forall>v. sc_valid_until scope = Some v \<longrightarrow> (\<exists>t. instant P (Some v) = Some t \<and> moment \<le> t))"

definition readable :: "py \<Rightarrow> AssessmentScope \<Rightarrow> bool" where
  "readable P scope \<longleftrightarrow>
     sc_allowed_actors scope \<noteq> [] \<and> sc_target_allowlist scope \<noteq> [] \<and>
     (\<forall>a \<in> set (sc_allowed_actors scope). ACTOR a) \<and>
     (\<forall>t \<in> set (sc_target_allowlist scope). hostname t \<or> WILDCARD t) \<and>
     (sc_valid_from scope \<noteq> None \<longrightarrow> instant P (sc_valid_from scope) \<noteq> None) \<and>
     (sc_valid_until scope \<noteq> None \<longrightarrow> instant P (sc_valid_until scope) \<noteq> None) \<and>
     (\<forall>a b. instant P (sc_valid_from scope) = Some a \<longrightarrow> instant P (sc_valid_until scope) = Some b \<longrightarrow> a < b)"

definition authority :: "ActionRequest \<Rightarrow> AssessmentScope \<Rightarrow> bool" where
  "authority request scope \<longleftrightarrow>
     (if rq_has_approval request then 3 \<le> autonomy_int (sc_autonomy_level scope)
      else rq_risk_level request = RISK_LOW \<and> 4 \<le> autonomy_int (sc_autonomy_level scope))"

definition permits :: "py \<Rightarrow> ActionRequest \<Rightarrow> AssessmentScope \<Rightarrow> bool" where
  "permits P request scope \<longleftrightarrow>
     sc_approved scope \<and> sc_policy_hash scope \<noteq> [] \<and> readable P scope \<and>
     (\<exists>moment. instant P (rq_at request) = Some moment \<and> in_window P scope moment) \<and>
     rq_actor request \<in> set (sc_allowed_actors scope) \<and>
     (\<exists>entry \<in> set (sc_target_allowlist scope). covers entry (rq_target request)) \<and>
     authority request scope"

section \<open>The engine allows exactly what the scope permits\<close>

lemma labels_append: "split_on c (r @ c # s) = split_on c r @ split_on c s"
  by (induction r) (auto split: list.splits)

lemma join_with_append: "ps \<noteq> [] \<Longrightarrow> qs \<noteq> [] \<Longrightarrow> join_with s (ps @ qs) = join_with s ps @ s @ join_with s qs"
proof (induction ps)
  case (Cons p ps)
  then show ?case by (cases ps) (auto simp: join_with_Cons)
qed simp

lemma star_not_hostname: "startswith e ''*.'' \<Longrightarrow> \<not> hostname e"
  by (auto simp: startswith_iff hostname_def HOSTNAME_def is_label_def label_char_def is_lower_def is_digit_def
      split: list.splits)

lemma entry_covers_iff:
  assumes "hostname entry \<or> WILDCARD entry" and target: "hostname target"
  shows "(entry = target \<or> (startswith entry ''*.'' \<and> endswith target (drop 1 entry) \<and> target \<noteq> drop 2 entry))
    \<longleftrightarrow> covers entry target" (is "?l \<longleftrightarrow> ?r")
proof
  assume ?l
  then show ?r
  proof
    assume w: "startswith entry ''*.'' \<and> endswith target (drop 1 entry) \<and> target \<noteq> drop 2 entry"
    then obtain base r where e: "entry = ''*.'' @ base" and t: "target = r @ CHR ''.'' # base"
      by (auto simp: startswith_iff endswith_iff)
    have "2 \<le> length (labels base)"
      using assms(1) w star_not_hostname e by (auto simp: WILDCARD_def)
    moreover have "labels target = labels r @ labels base" by (simp add: t labels_append)
    ultimately show ?thesis using e target split_on_nonempty unfolding covers_def by blast
  qed (use target in \<open>simp add: covers_def\<close>)
next
  assume ?r
  then consider "target = entry"
    | base sub where "entry = ''*.'' @ base" "sub \<noteq> []" "labels target = sub @ labels base"
    unfolding covers_def by blast
  then show ?l
  proof cases
    case 2
    then have "target = join_with ''.'' sub @ CHR ''.'' # base"
      using join_with_append [of sub "labels base" "''.''"] join_split_on [of "CHR ''.''"] split_on_nonempty
      by (metis append_Cons append_Nil)
    then have "endswith target (CHR ''.'' # base)" "length target > length base"
      by (auto simp: endswith_iff)
    with 2 show ?thesis by (auto simp: startswith_iff)
  qed simp
qed

lemma target_allowed_iff:
  assumes "\<forall>e \<in> set allowlist. hostname e \<or> WILDCARD e"
  shows "target_allowed target allowlist \<longleftrightarrow> (\<exists>e \<in> set allowlist. covers e target)"
proof (cases "hostname target")
  case True
  have "target_allowed_loop target allowlist \<longleftrightarrow> (\<exists>e \<in> set allowlist. covers e target)"
    using assms by (induction allowlist) (auto simp: entry_covers_iff [OF _ True, symmetric])
  with True show ?thesis by (simp add: target_allowed_def)
qed (simp add: target_allowed_def covers_def)

lemma complaints_empty_iff: "[f e. e \<leftarrow> xs, \<not> Q e] = [] \<longleftrightarrow> (\<forall>e \<in> set xs. Q e)"
  by (induction xs) auto

lemma scope_problems_empty_iff:
  "scope_problems P scope = [] \<and> sc_allowed_actors scope \<noteq> [] \<and> sc_target_allowlist scope \<noteq> []
    \<longleftrightarrow> readable P scope"
  unfolding scope_problems_def readable_def Let_def append_is_Nil_conv complaints_empty_iff
  by (auto simp: instant_def split: option.splits if_splits)

lemma instant_empty: "fromisoformat P [] = None \<Longrightarrow> instant P (Some []) = None"
  by (simp add: instant_def)

lemma window_gates:
  assumes "fromisoformat P [] = None" and "readable P scope"
  shows "\<not> before_start P t (sc_valid_from scope) \<and> \<not> after_end P t (sc_valid_until scope)
    \<longleftrightarrow> in_window P scope t"
  using assms(2) instant_empty [OF assms(1)]
  by (cases "sc_valid_from scope"; cases "sc_valid_until scope")
    (auto simp: before_start_def after_end_def in_window_def readable_def)

lemma authority_gates:
  "(rq_risk_level request \<in> {RISK_MEDIUM, RISK_HIGH} \<longrightarrow> rq_has_approval request) \<and>
   autonomy_int (min_autonomy (rq_risk_level request) (rq_has_approval request)) \<le> autonomy_int (sc_autonomy_level scope)
   \<longleftrightarrow> authority request scope"
  by (cases "rq_risk_level request") (auto simp: authority_def min_autonomy_def)

lemma decide_allow_gates:
  "decide P request scope = ALLOW_OK \<longleftrightarrow>
     sc_approved scope \<and> sc_policy_hash scope \<noteq> [] \<and> readable P scope \<and>
     (\<exists>t. instant P (rq_at request) = Some t \<and> \<not> before_start P t (sc_valid_from scope) \<and> \<not> after_end P t (sc_valid_until scope)) \<and>
     rq_actor request \<in> set (sc_allowed_actors scope) \<and>
     target_allowed (rq_target request) (sc_target_allowlist scope) \<and>
     authority request scope"
  unfolding scope_problems_empty_iff [symmetric] authority_gates [symmetric] decide_def
  by (cases "instant P (rq_at request)") (auto simp: not_less)

lemma decide_allow_iff:
  assumes "fromisoformat P [] = None"
  shows "decide P request scope = ALLOW_OK \<longleftrightarrow> permits P request scope"
proof (cases "readable P scope")
  case True
  then have "\<forall>e \<in> set (sc_target_allowlist scope). hostname e \<or> WILDCARD e"
    by (simp add: readable_def)
  then show ?thesis
    using window_gates [OF assms True]
    unfolding decide_allow_gates permits_def by (simp add: target_allowed_iff)
qed (simp add: decide_allow_gates permits_def)

text \<open>
  C1. The policy engine fails closed: it answers ALLOW exactly when the scope permits the
  request, that is, when the scope is approved, hash-bound and can be read one way only, the
  decision time is an instant inside the window, the actor is listed, some entry covers the
  target (the host itself, or a wildcard over at least two labels with at least one label in
  front), and the risk is covered by an approval record (autonomy level 3 or above) or is low
  under unattended autonomy (level 4 or above). The hypothesis is the documented
  \<open>ValueError\<close> of \<open>datetime.fromisoformat\<close> on the empty text.
\<close>

theorem evaluate_allows_iff_permits:
  assumes "fromisoformat P [] = None"
  shows "pd_effect (fst (evaluate P clk request scope)) = ALLOW \<longleftrightarrow> permits P request scope"
  by (simp add: evaluate_def Let_def decide_allow_iff [OF assms, symmetric] split: prod.split)

definition sample_scope :: AssessmentScope where
  "sample_scope = make_scope sample_py ''SCOPE-1'' 1 EXECUTE_AFTER_APPROVAL [''security-operator'']
     [''web-01'', ''*.example.internal''] (Some ''2026-07-01T00:00:00Z'') (Some ''2026-07-31T00:00:00Z'') True"

definition sample_request :: ActionRequest where
  "sample_request = \<lparr>rq_request_id = ''REQ-0001'', rq_actor = ''security-operator'',
     rq_action_type = ''harden_ssh_access'', rq_risk_level = RISK_MEDIUM, rq_target = ''db.example.internal'',
     rq_action_plan_id = Some ''AP-0001'', rq_has_approval = True, rq_at = Some ''2026-07-06T21:15:00Z'',
     rq_claimed = []\<rparr>"

lemma sample_names:
  "ACTOR ''security-operator''" "hostname ''web-01''" "hostname ''db.example.internal''"
  "WILDCARD ''*.example.internal''" "endswith ''db.example.internal'' ''.example.internal''"
  "startswith ''*.example.internal'' ''*.''"
  by code_simp+

lemma sample_instants:
  "instant sample_py (Some ''2026-07-01T00:00:00Z'') = Some 20260701000000"
  "instant sample_py (Some ''2026-07-31T00:00:00Z'') = Some 20260731000000"
  "instant sample_py (Some ''2026-07-06T21:15:00Z'') = Some 20260706211500"
  by (simp_all add: instant_def sample_py_def is_digit_def digits_val_def)

lemma sample_allowed: "decide sample_py sample_request sample_scope = ALLOW_OK"
  unfolding decide_allow_gates
  by (simp add: sample_scope_def sample_request_def make_scope_def policy_hash_def readable_def sample_names
      sample_instants before_start_def after_end_def target_allowed_def authority_def)

theorem evaluate_allows_iff_permits_witness:
  "fromisoformat sample_py [] = None \<and> permits sample_py sample_request sample_scope \<and>
   pd_effect (fst (evaluate sample_py (FixedClock 0) sample_request sample_scope)) = ALLOW"
proof -
  have h: "fromisoformat sample_py [] = None" by (simp add: sample_py_def)
  have "pd_effect (fst (evaluate sample_py (FixedClock 0) sample_request sample_scope)) = ALLOW"
    by (simp add: evaluate_def sample_allowed)
  with evaluate_allows_iff_permits [OF h] h show ?thesis by blast
qed

text \<open>
  Assertions carry no authority: whatever a request claims in free text, whatever action and
  plan it names, the decision is the one for the same actor, risk, target, approval flag and time.
\<close>

lemma evaluate_ignores_claims:
  "evaluate P clk (request\<lparr>rq_claimed := c, rq_action_type := a, rq_action_plan_id := i\<rparr>) scope
   = evaluate P clk request scope"
proof -
  have "decide P (request\<lparr>rq_claimed := c, rq_action_type := a, rq_action_plan_id := i\<rparr>) scope = decide P request scope"
    by (cases request) (auto simp: decide_def split: option.split)
  then show ?thesis by (simp add: evaluate_def)
qed

section \<open>The policy hash binds the policy\<close>

lemma autonomy_int_inject [simp]: "autonomy_int a = autonomy_int b \<longleftrightarrow> a = b"
  by (cases a; cases b) simp_all

lemma wf_policy_relevant: "wf_json (JObj (policy_relevant v l a t s e))"
  by (simp add: policy_relevant_def list_all_iff)

lemma sort_eq_iff_mset: "sort xs = sort ys \<longleftrightarrow> mset xs = mset (ys :: string list)"
  by (metis mset_sort properties_for_sort sorted_sort)

lemma policy_relevant_eqD:
  assumes "sort_keys (JObj (policy_relevant v l a t s e)) = sort_keys (JObj (policy_relevant v' l' a' t' s' e'))"
  shows "v = v' \<and> l = l' \<and> mset a = mset a' \<and> mset t = mset t' \<and> s = s' \<and> e = e'"
proof -
  have inj: "map (sort_keys \<circ> JStr) xs = map (sort_keys \<circ> JStr) ys \<longleftrightarrow> xs = ys" for xs ys
    by (rule inj_map_eq_map) (simp add: inj_def)
  have so: "sort_keys (opt_str x) = opt_str x" for x by (cases x) simp_all
  have d: "distinct (map fst (policy_relevant v l a t s e))" for v l a t s e
    by (simp add: policy_relevant_def)
  note f = sort_keys_fields [OF assms d d]
  show ?thesis
    using f [of "''scope_version''"] f [of "''autonomy_level''"] f [of "''allowed_actors''"]
      f [of "''target_allowlist''"] f [of "''valid_from''"] f [of "''valid_until''"]
    by (simp add: policy_relevant_def inj so sort_eq_iff_mset)
qed

text \<open>
  C2. Unless two texts with one SHA-256 digest are known, scopes carry one policy hash exactly
  when they agree on version, autonomy level, window and (in any order) actors and targets: no
  material change keeps the hash an approval was bound to, and the order entries are written in
  does not change it.
\<close>

theorem scope_hash_binds_policy:
  assumes "\<not> digest_collision P"
  shows "sc_policy_hash (make_scope P i v l a t s e ok) = sc_policy_hash (make_scope P i' v' l' a' t' s' e' ok')
    \<longleftrightarrow> v = v' \<and> l = l' \<and> mset a = mset a' \<and> mset t = mset t' \<and> s = s' \<and> e = e'"
proof
  assume "sc_policy_hash (make_scope P i v l a t s e ok) = sc_policy_hash (make_scope P i' v' l' a' t' s' e' ok')"
  then have "policy_hash P (policy_relevant v l a t s e) = policy_hash P (policy_relevant v' l' a' t' s' e')"
    by (simp add: make_scope_def)
  from policy_hash_eqD [OF this wf_policy_relevant wf_policy_relevant assms]
  show "v = v' \<and> l = l' \<and> mset a = mset a' \<and> mset t = mset t' \<and> s = s' \<and> e = e'"
    by (rule policy_relevant_eqD)
next
  assume *: "v = v' \<and> l = l' \<and> mset a = mset a' \<and> mset t = mset t' \<and> s = s' \<and> e = e'"
  then have "sort a = sort a'" "sort t = sort t'" by (simp_all add: sort_eq_iff_mset)
  with * show "sc_policy_hash (make_scope P i v l a t s e ok) = sc_policy_hash (make_scope P i' v' l' a' t' s' e' ok')"
    by (simp add: make_scope_def policy_relevant_def)
qed

theorem scope_hash_binds_policy_witness:
  "\<not> digest_collision sample_py \<and>
   sc_policy_hash (make_scope sample_py ''S'' 1 SUGGEST_ONLY [''a''] [''web-01''] None None True)
     \<noteq> sc_policy_hash (make_scope sample_py ''S'' 1 SUGGEST_ONLY [''a''] [''web-02''] None None True)"
  using scope_hash_binds_policy [OF sample_py_no_collision, of "''S''" 1 SUGGEST_ONLY "[''a'']" "[''web-01'']" None None True
      "''S''" 1 SUGGEST_ONLY "[''a'']" "[''web-02'']" None None True] sample_py_no_collision
  by simp

end
