(* ===== verification/Harden.thy ===== *)
theory Harden
  imports Services
begin

text \<open>
  The typed executor and its verifier: \<open>app/tools/sshd_config.py\<close> (what sshd would use, read
  from the host), \<open>app/tools/harden_ssh.py\<close> (the edit, its backup, verification and rollback)
  and \<open>app/tools/registry.py\<close>.

  A host is the files under its root, by path relative to it. What the operating system and
  \<open>difflib\<close> answer is an argument (\<open>os\<close>): whether a path or its parent resolves inside the root,
  the names a glob pattern matches, and the lines of a unified diff. Distinct paths name
  distinct files. Includes nest at most 16 deep in the code, so the recursion here runs on a
  depth budget of 17 files and is total. The target of a symbolic link is not modelled: reading the
  bytes of a main configuration that is one is an error here, where the code reads through it and
  returns a verification that fails on the link as a problem.
\<close>

section \<open>Hosts\<close>

datatype node = RegularFile string | SymbolicLink

type_synonym files = "string \<Rightarrow> node option"

record os =
  os_inside :: "files \<Rightarrow> string \<Rightarrow> bool"
  os_parent_inside :: "files \<Rightarrow> string \<Rightarrow> bool"
  os_glob :: "files \<Rightarrow> string \<Rightarrow> string list"
  unified_diff :: "string list \<Rightarrow> string list \<Rightarrow> string \<Rightarrow> string \<Rightarrow> string list"

record host = svc +
  hs_root :: string
  hs_files :: files

definition regular :: "files \<Rightarrow> string \<Rightarrow> string option" where
  "regular fs path = (case fs path of Some (RegularFile b) \<Rightarrow> Some b | _ \<Rightarrow> None)"

lemma regular_update [simp]:
  "regular (fs(p \<mapsto> RegularFile b)) q = (if q = p then Some b else regular fs q)"
  by (simp add: regular_def)

section \<open>Reading sshd_config\<close>

definition MAIN :: string where
  "MAIN = ''etc/ssh/sshd_config''"

definition ALIASES :: "(string \<times> string) list" where
  "ALIASES = [(''challengeresponseauthentication'', ''kbdinteractiveauthentication'')]"

definition CANONICAL :: "(string \<times> string) list" where
  "CANONICAL = [(''permitrootlogin'', ''PermitRootLogin''), (''passwordauthentication'', ''PasswordAuthentication''),
     (''kbdinteractiveauthentication'', ''KbdInteractiveAuthentication''), (''pubkeyauthentication'', ''PubkeyAuthentication'')]"

definition DEFAULTS :: "(string \<times> string) list" where
  "DEFAULTS = [(''permitrootlogin'', ''prohibit-password''), (''passwordauthentication'', ''yes''),
     (''kbdinteractiveauthentication'', ''yes''), (''pubkeyauthentication'', ''yes'')]"

definition keyword :: "string \<Rightarrow> string" where
  "keyword w = (let l = lower w in case map_of ALIASES l of None \<Rightarrow> l | Some a \<Rightarrow> a)"

text \<open>
  \<open>_LINE.fullmatch\<close> on a stripped line: a word, then either an equals sign or white space, then
  the value.
\<close>

definition is_alpha :: "char \<Rightarrow> bool" where
  "is_alpha c = (is_lower c \<or> is_upper c)"

definition is_alnum :: "char \<Rightarrow> bool" where
  "is_alnum c = (is_alpha c \<or> is_digit c)"

definition config_line :: "string \<Rightarrow> (string \<times> string) option" where
  "config_line text =
     (let word = takeWhile is_alnum text;
          after_word = dropWhile is_alnum text;
          rest = dropWhile is_space after_word
      in if word = [] \<or> \<not> is_alpha (hd word) then None
         else if rest \<noteq> [] \<and> hd rest = CHR ''='' then Some (word, strip (tl rest))
         else if rest \<noteq> after_word then Some (word, rest)
         else None)"

record Directive =
  di_keyword :: string
  di_value :: string
  di_file :: string
  di_line :: nat
  di_match :: "string option"

definition di_where :: "Directive \<Rightarrow> string" where
  "di_where d = di_file d @ '':'' @ nat_str (di_line d)"

record Config =
  cf_directives :: "Directive list"
  cf_files :: "string list"
  cf_problems :: "string list"

definition empty_config :: Config where
  "empty_config = \<lparr>cf_directives = [], cf_files = [], cf_problems = []\<rparr>"

definition effective :: "Config \<Rightarrow> string \<Rightarrow> string \<times> string" where
  "effective cf name =
     (let n = keyword name in
      case filter (\<lambda>d. di_keyword d = n \<and> di_match d = None) (cf_directives cf) of
        d # _ \<Rightarrow> (lower (di_value d), di_where d)
      | [] \<Rightarrow> ((case map_of DEFAULTS n of None \<Rightarrow> [] | Some v \<Rightarrow> v), ''default''))"

definition conditional :: "Config \<Rightarrow> string \<Rightarrow> Directive list" where
  "conditional cf name = filter (\<lambda>d. di_keyword d = keyword name \<and> di_match d \<noteq> None) (cf_directives cf)"

definition add_problem :: "string \<Rightarrow> Config \<Rightarrow> Config" where
  "add_problem p cf = cf\<lparr>cf_problems := cf_problems cf @ [p]\<rparr>"

definition has_magic :: "string \<Rightarrow> bool" where
  "has_magic pattern = list_ex (\<lambda>c. c \<in> set ''*?['') pattern"

definition read_include ::
    "os \<Rightarrow> files \<Rightarrow> (string \<Rightarrow> string option \<Rightarrow> Config \<Rightarrow> Config) \<Rightarrow> string option \<Rightarrow> string \<Rightarrow> string \<Rightarrow> Config \<Rightarrow> Config" where
  "read_include S fs read_nested current whr pattern cf =
     (if startswith pattern ''~'' then add_problem (whr @ '': include '' @ repr_str pattern @ '' depends on a home directory'') cf
      else
        let base = (if startswith pattern ''/'' then lstrip_char (CHR ''/'') pattern else ''etc/ssh/'' @ pattern) in
        if \<not> os_parent_inside S fs base
        then add_problem (whr @ '': include '' @ repr_str pattern @ '' leaves the host root'') cf
        else
          let found = sort (os_glob S fs base);
              cf' = (if found = [] \<and> \<not> has_magic pattern
                     then add_problem (whr @ '': include '' @ repr_str pattern @ '' does not exist'') cf else cf)
          in fold (\<lambda>name c. read_nested name current c) found cf')"

definition read_line ::
    "os \<Rightarrow> files \<Rightarrow> (string \<Rightarrow> string option \<Rightarrow> Config \<Rightarrow> Config) \<Rightarrow> string \<Rightarrow> nat \<times> string \<Rightarrow>
     string option \<times> Config \<Rightarrow> string option \<times> Config" where
  "read_line S fs read_nested rel = (\<lambda>(number, raw) (current, cf).
     let text = strip raw; whr = rel @ '':'' @ nat_str number in
     if text = [] \<or> startswith text ''#'' then (current, cf)
     else case config_line text of
       None \<Rightarrow> (current, add_problem (whr @ '': sshd could not read '' @ repr_str text) cf)
     | Some (w, value) \<Rightarrow>
         if value = [] then (current, add_problem (whr @ '': sshd could not read '' @ repr_str text) cf)
         else if keyword w = ''match'' then (Some (''Match '' @ value), cf)
         else if keyword w = ''include'' then
           (current, fold (read_include S fs read_nested current whr) (words value) cf)
         else (current, cf\<lparr>cf_directives := cf_directives cf @
           [\<lparr>di_keyword = keyword w, di_value = strip_char (CHR 0x22) value, di_file = rel, di_line = number, di_match = current\<rparr>]\<rparr>))"

primrec read_file :: "nat \<Rightarrow> os \<Rightarrow> string \<Rightarrow> files \<Rightarrow> string \<Rightarrow> string option \<Rightarrow> Config \<Rightarrow> Config" where
  "read_file 0 S rt fs path m cf =
     add_problem ((if os_inside S fs path then path else rt @ ''/'' @ path) @ '': includes nested too deeply'') cf"
| "read_file (Suc n) S rt fs path m cf =
     (let rel = (if os_inside S fs path then path else rt @ ''/'' @ path) in
      case regular fs path of
        Some content \<Rightarrow>
          if \<not> os_inside S fs path then add_problem (rel @ '': not a regular file inside the host root'') cf
          else snd (fold (read_line S fs (read_file n S rt fs) rel) (enumerate 1 (splitlines content))
                 (m, cf\<lparr>cf_files := cf_files cf @ [rel]\<rparr>))
      | None \<Rightarrow> add_problem (rel @ '': not a regular file inside the host root'') cf)"

definition read_config :: "os \<Rightarrow> string \<Rightarrow> files \<Rightarrow> Config" where
  "read_config S rt fs = read_file 17 S rt fs MAIN None empty_config"

section \<open>The executor\<close>

definition ACTION_TYPE :: string where
  "ACTION_TYPE = ''harden_ssh_access''"

definition MARKER :: string where
  "MARKER = ''.riskops-lab''"

definition BACKUPS :: string where
  "BACKUPS = ''var/backups/riskops''"

definition PARAMETERS :: "string list" where
  "PARAMETERS = [''disable_root_login'', ''enforce_key_auth'']"

definition truthy :: "json option \<Rightarrow> bool" where
  "truthy v = (case v of Some (JBool b) \<Rightarrow> b | _ \<Rightarrow> False)"

definition desired :: "row \<Rightarrow> (string \<times> string) list result" where
  "desired parameters =
     (let unknown = sorted_set (filter (\<lambda>k. k \<notin> set PARAMETERS) (map fst parameters)) in
      if unknown \<noteq> [] then Inl (ExecutorRefused (''unknown parameters '' @ py_repr (JStrs unknown)))
      else if list_ex (\<lambda>name. case map_of parameters name of None \<Rightarrow> False | Some (JBool _) \<Rightarrow> False | _ \<Rightarrow> True) PARAMETERS
      then Inl (ExecutorRefused ''parameters must be true or false'')
      else
        let wanted = (if truthy (map_of parameters ''disable_root_login'') then [(''permitrootlogin'', ''no'')] else []) @
                     (if truthy (map_of parameters ''enforce_key_auth'')
                      then [(''passwordauthentication'', ''no''), (''kbdinteractiveauthentication'', ''no''), (''pubkeyauthentication'', ''yes'')]
                      else [])
        in if wanted = [] then Inl (ExecutorRefused ''the parameters ask for no change'') else Inr wanted)"

record Check =
  ck_setting :: string
  ck_expected :: string
  ck_effective :: string
  ck_source :: string
  ck_ok :: bool

record Verification =
  vf_ok :: bool
  vf_checks :: "Check list"
  vf_problems :: "string list"
  vf_file_sha256 :: string

definition dump_check :: "Check \<Rightarrow> row" where
  "dump_check c = [(''setting'', JStr (ck_setting c)), (''expected'', JStr (ck_expected c)),
     (''effective'', JStr (ck_effective c)), (''source'', JStr (ck_source c)), (''ok'', JBool (ck_ok c))]"

definition verification_to_dict :: "Verification \<Rightarrow> row" where
  "verification_to_dict v = [(''ok'', JBool (vf_ok v)), (''checks'', JList (map (\<lambda>c. JObj (dump_check c)) (vf_checks v))),
     (''problems'', JStrs (vf_problems v)), (''file_sha256'', JStr (vf_file_sha256 v))]"

record Change =
  ch_file :: string
  ch_before_sha256 :: string
  ch_after_sha256 :: string
  ch_backup :: string
  ch_edits :: "row list"
  ch_diff :: "string list"

record executor =
  ex_asset_id :: string
  ex_action_type :: string

definition executor_init :: "string \<Rightarrow> files \<Rightarrow> string \<Rightarrow> executor result" where
  "executor_init rt fs asset_id =
     (if rt = ''/'' then Inl (ExecutorRefused (rt @ '' is not a marked lab copy of a host''))
      else case regular fs MARKER of
        None \<Rightarrow> Inl (ExecutorRefused (rt @ '' is not a marked lab copy of a host''))
      | Some text \<Rightarrow> if strip text \<noteq> asset_id
          then Inl (ExecutorRefused (''the lab copy at '' @ rt @ '' is not '' @ asset_id))
          else Inr \<lparr>ex_asset_id = asset_id, ex_action_type = ACTION_TYPE\<rparr>)"

definition host_state :: "os \<Rightarrow> string \<Rightarrow> files \<Rightarrow> row" where
  "host_state S rt fs =
     (let cf = read_config S rt fs in
      map (\<lambda>(name, label). let (value, source) = effective cf name in
        (label, JObj [(''value'', JStr value), (''from'', JStr source)])) CANONICAL)"

text \<open>The editor: one pass to find the first global line of each keyword, then the rewrites.\<close>

fun scan_lines :: "nat \<Rightarrow> string list \<Rightarrow> (string \<times> nat) list \<Rightarrow> ((string \<times> nat) list \<times> nat option) result" where
  "scan_lines index [] first = Inr (first, None)"
| "scan_lines index (raw # rest) first =
     (let text = strip raw in
      if text = [] \<or> startswith text ''#'' then scan_lines (Suc index) rest first
      else case words (replace_char (CHR ''='') (CHR '' '') text) of
        [] \<Rightarrow> Inl IndexError
      | w # _ \<Rightarrow>
          if keyword w = ''match'' then Inr (first, Some index)
          else scan_lines (Suc index) rest (if map_of first (keyword w) = None then first @ [(keyword w, index)] else first))"

definition setting_line :: "string \<Rightarrow> string \<Rightarrow> string" where
  "setting_line name value = (case map_of CANONICAL name of None \<Rightarrow> [] | Some label \<Rightarrow> label) @ '' '' @ value"

fun edit_settings ::
    "(string \<times> nat) list \<Rightarrow> (string \<times> string) list \<Rightarrow> string list \<times> row list \<times> string list \<Rightarrow>
     string list \<times> row list \<times> string list" where
  "edit_settings first [] acc = acc"
| "edit_settings first ((name, value) # rest) (lines, edits, added) =
     (case map_of first name of
        Some index \<Rightarrow>
          let old = strip (lines ! index) in
          if tl (words (replace_char (CHR ''='') (CHR '' '') old)) = [value] then edit_settings first rest (lines, edits, added)
          else edit_settings first rest (lines[index := setting_line name value @ [CHR 0x0A]],
            edits @ [[(''line'', JInt (int index + 1)), (''from'', JStr old), (''to'', JStr (setting_line name value))]], added)
      | None \<Rightarrow> edit_settings first rest (lines, edits, added @ [setting_line name value @ [CHR 0x0A]]))"

definition insert_added :: "nat option \<Rightarrow> string list \<times> row list \<times> string list \<Rightarrow> string list \<times> row list" where
  "insert_added first_match acc = (case acc of (lines, edits, added) \<Rightarrow>
     if added = [] then (lines, edits)
     else
       let pos = (case first_match of Some k \<Rightarrow> k | None \<Rightarrow> length lines);
           lines' = (if pos > 0 \<and> \<not> endswith (lines ! (pos - 1)) [CHR 0x0A]
                     then lines[pos - 1 := lines ! (pos - 1) @ [CHR 0x0A]] else lines)
       in (take pos lines' @ added @ drop pos lines',
           edits @ map (\<lambda>(offset, line). [(''line'', JInt (int pos + int offset + 1)), (''from'', JNull), (''to'', JStr (strip line))])
             (enumerate 0 added)))"

definition edit_lines :: "string list \<Rightarrow> (string \<times> string) list \<Rightarrow> (string list \<times> row list) result" where
  "edit_lines lines wanted =
     (case scan_lines 0 lines [] of
        Inl e \<Rightarrow> Inl e
      | Inr (first, first_match) \<Rightarrow> Inr (insert_added first_match (edit_settings first wanted (lines, [], []))))"

definition backup_path :: "py \<Rightarrow> string \<Rightarrow> string \<Rightarrow> string" where
  "backup_path P plan_id before = BACKUPS @ ''/'' @ plan_id @ ''/sshd_config.'' @ take 12 (drop 7 (content_hash P before))"

definition executor_apply :: "py \<Rightarrow> os \<Rightarrow> string \<Rightarrow> string \<Rightarrow> row \<Rightarrow> files \<Rightarrow> (Change \<times> files) result" where
  "executor_apply P S rt plan_id parameters fs =
     (case desired parameters of
        Inl e \<Rightarrow> Inl e
      | Inr wanted \<Rightarrow> (case regular fs MAIN of
          None \<Rightarrow> Inl (ExecutorRefused ''sshd_config is missing or not a regular file'')
        | Some before \<Rightarrow>
            if cf_problems (read_config S rt fs) \<noteq> []
            then Inl (ExecutorRefused ''sshd_config cannot be read as it is; refusing to edit it'')
            else (case edit_lines (splitlines_keepends before) wanted of
                Inl e \<Rightarrow> Inl e
              | Inr (lines, edits) \<Rightarrow>
                  let after = concat lines;
                      backup = backup_path P plan_id before
                  in Inr (\<lparr>ch_file = MAIN, ch_before_sha256 = content_hash P before, ch_after_sha256 = content_hash P after,
                           ch_backup = backup, ch_edits = edits,
                           ch_diff = unified_diff S (splitlines before) (splitlines after) (''a/'' @ MAIN) (''b/'' @ MAIN)\<rparr>,
                          fs(backup \<mapsto> RegularFile before, MAIN \<mapsto> RegularFile after)))))"

definition setting_checks :: "Config \<Rightarrow> string \<times> string \<Rightarrow> Check list" where
  "setting_checks cf nv = (case nv of (name, value) \<Rightarrow>
     let label = (case map_of CANONICAL name of None \<Rightarrow> [] | Some l \<Rightarrow> l); (eff, source) = effective cf name in
     \<lparr>ck_setting = label, ck_expected = value, ck_effective = eff, ck_source = source, ck_ok = (eff = value)\<rparr> #
     [\<lparr>ck_setting = label, ck_expected = value, ck_effective = lower (di_value d),
       ck_source = di_where d @ '' ('' @ (case di_match d of None \<Rightarrow> ''None'' | Some m \<Rightarrow> m) @ '')'', ck_ok = False\<rparr>.
      d \<leftarrow> conditional cf name, lower (di_value d) \<noteq> value])"

definition executor_verify :: "py \<Rightarrow> os \<Rightarrow> string \<Rightarrow> row \<Rightarrow> files \<Rightarrow> Verification result" where
  "executor_verify P S rt parameters fs =
     (case desired parameters of
        Inl e \<Rightarrow> Inl e
      | Inr wanted \<Rightarrow>
          let cf = read_config S rt fs;
              checks = concat (map (setting_checks cf) wanted)
          in (case regular fs MAIN of
                None \<Rightarrow> Inl (FileError MAIN)
              | Some b \<Rightarrow> Inr \<lparr>vf_ok = (cf_problems cf = [] \<and> list_all ck_ok checks), vf_checks = checks,
                               vf_problems = cf_problems cf, vf_file_sha256 = content_hash P b\<rparr>))"

definition executor_rollback :: "py \<Rightarrow> Change \<Rightarrow> files \<Rightarrow> ((string \<times> bool) \<times> files) result" where
  "executor_rollback P change fs =
     (case regular fs (ch_backup change) of
        None \<Rightarrow> Inl (FileError (ch_backup change))
      | Some saved \<Rightarrow>
          if content_hash P saved \<noteq> ch_before_sha256 change
          then Inl (ExecutorRefused ''the backup does not match the recorded pre-change hash'')
          else
            let restored = content_hash P saved
            in Inr ((restored, restored = ch_before_sha256 change), fs(MAIN \<mapsto> RegularFile saved)))"

section \<open>Action catalog\<close>

record ActionSpec =
  as_action_type :: string
  as_title :: string
  as_risk_level :: RiskLevel
  as_rollback :: string
  as_default_parameters :: row

definition ACTION_CATALOG :: "(string \<times> ActionSpec) list" where
  "ACTION_CATALOG =
     [(''harden_ssh_access'', \<lparr>as_action_type = ''harden_ssh_access'',
        as_title = ''Harden SSH access (disable root login, enforce key auth)'', as_risk_level = RISK_MEDIUM,
        as_rollback = ''Restore the previous sshd_config from the pre-change backup and reload sshd.'',
        as_default_parameters = [(''disable_root_login'', JBool True), (''enforce_key_auth'', JBool True)]\<rparr>),
      (''add_security_headers'', \<lparr>as_action_type = ''add_security_headers'',
        as_title = ''Add baseline HTTP security headers'', as_risk_level = RISK_LOW,
        as_rollback = ''Remove the added header directives and reload the web server.'',
        as_default_parameters = [(''headers'', JStrs [''Content-Security-Policy'', ''X-Frame-Options'', ''X-Content-Type-Options''])]\<rparr>)]"

definition get_action_spec :: "string \<Rightarrow> ActionSpec option" where
  "get_action_spec action_type = map_of ACTION_CATALOG action_type"

section \<open>Edits, backups and rollback\<close>

lemma MAIN_not_backup [simp]: "backup_path P i b \<noteq> MAIN" "MAIN \<noteq> backup_path P i b"
  by (auto simp: backup_path_def MAIN_def BACKUPS_def)

lemma executor_applyD:
  assumes "executor_apply P S rt plan_id params fs = Inr (ch, fs')"
  obtains before lines edits wanted where "desired params = Inr wanted" and "regular fs MAIN = Some before"
    and "cf_problems (read_config S rt fs) = []"
    and "edit_lines (splitlines_keepends before) wanted = Inr (lines, edits)"
    and "ch_before_sha256 ch = content_hash P before" and "ch_after_sha256 ch = content_hash P (concat lines)"
    and "ch_backup ch = backup_path P plan_id before"
    and "fs' = fs(backup_path P plan_id before \<mapsto> RegularFile before, MAIN \<mapsto> RegularFile (concat lines))"
  using assms by (auto simp: executor_apply_def Let_def split: sum.splits option.splits if_splits prod.splits)

text \<open>
  C20: a change can always be undone. Whenever the executor edited a host, rolling the change back
  right after succeeds, reports the hash from before the change, and leaves every file as it was
  before except the backup, which holds the original bytes.
\<close>

theorem rollback_restores_host:
  assumes "executor_apply P S rt plan_id params fs = Inr (ch, fs')"
  shows "\<exists>b. regular fs MAIN = Some b
    \<and> executor_rollback P ch fs' = Inr ((content_hash P b, True), fs(ch_backup ch \<mapsto> RegularFile b, MAIN \<mapsto> RegularFile b))
    \<and> ch_before_sha256 ch = content_hash P b
    \<and> (\<forall>path. path \<noteq> MAIN \<and> path \<noteq> ch_backup ch \<longrightarrow> fs' path = fs path)"
  using assms by (rule executor_applyD) (auto simp: executor_rollback_def)

definition sample_os :: os where
  "sample_os = \<lparr>os_inside = (\<lambda>_ _. True), os_parent_inside = (\<lambda>_ _. True), os_glob = (\<lambda>_ _. []), unified_diff = (\<lambda>_ _ _ _. [])\<rparr>"

definition sample_files :: files where
  "sample_files = [MAIN \<mapsto> RegularFile ''Port 22'']"

lemma sample_apply_ok:
  "is_ok (executor_apply sample_py sample_os ''/lab'' ''AP-0001'' [(''disable_root_login'', JBool True)] sample_files)"
  by code_simp

theorem rollback_restores_host_witness:
  "\<exists>ch fs'. executor_apply sample_py sample_os ''/lab'' ''AP-0001'' [(''disable_root_login'', JBool True)] sample_files = Inr (ch, fs')
     \<and> is_ok (executor_rollback sample_py ch fs')"
proof (cases "executor_apply sample_py sample_os ''/lab'' ''AP-0001'' [(''disable_root_login'', JBool True)] sample_files")
  case (Inl e)
  then show ?thesis using sample_apply_ok by simp
next
  case (Inr cf)
  obtain ch fs' where cf: "cf = (ch, fs')" by (cases cf)
  from rollback_restores_host [OF Inr [unfolded cf]] show ?thesis using Inr cf by auto
qed

definition meets :: "Config \<Rightarrow> (string \<times> string) list \<Rightarrow> bool" where
  "meets cf wanted \<longleftrightarrow> cf_problems cf = [] \<and>
     (\<forall>(name, value) \<in> set wanted. fst (effective cf name) = value \<and> (\<forall>d \<in> set (conditional cf name). lower (di_value d) = value))"

lemma checks_ok: "list_all ck_ok (setting_checks cf (name, value)) \<longleftrightarrow>
    fst (effective cf name) = value \<and> (\<forall>d \<in> set (conditional cf name). lower (di_value d) = value)"
  by (auto simp: setting_checks_def Let_def list_all_iff split_beta)

lemma list_all_concat_map: "list_all Q (concat (map f xs)) \<longleftrightarrow> list_all (\<lambda>x. list_all Q (f x)) xs"
  by (induction xs) auto

text \<open>
  C21: a passing verification means what it says: the parameters are typed, nothing sshd reads was
  unreadable, every setting they require has the required value in the global section, and no
  conditional section gives it another; and verification passes whenever that holds.
\<close>

theorem verification_iff_settings_hold:
  assumes "executor_verify P S rt params fs = Inr v"
  shows "\<exists>wanted. desired params = Inr wanted \<and> wanted \<noteq> [] \<and> (vf_ok v \<longleftrightarrow> meets (read_config S rt fs) wanted)"
proof -
  obtain wanted where w: "desired params = Inr wanted" and v: "vf_ok v \<longleftrightarrow> cf_problems (read_config S rt fs) = []
      \<and> list_all ck_ok (concat (map (setting_checks (read_config S rt fs)) wanted))"
    using assms by (auto simp: executor_verify_def Let_def split: sum.splits option.splits)
  have "wanted \<noteq> []" using w by (auto simp: desired_def Let_def split: if_splits)
  moreover have "vf_ok v \<longleftrightarrow> meets (read_config S rt fs) wanted"
    unfolding v meets_def list_all_concat_map by (auto simp: list_all_iff [of _ wanted] checks_ok)
  ultimately show ?thesis using w by blast
qed

lemma sample_verify_ok: "is_ok (executor_verify sample_py sample_os ''/lab'' [(''disable_root_login'', JBool True)] sample_files)"
  by code_simp

theorem verification_iff_settings_hold_witness:
  "\<exists>v wanted. executor_verify sample_py sample_os ''/lab'' [(''disable_root_login'', JBool True)] sample_files = Inr v
     \<and> desired [(''disable_root_login'', JBool True)] = Inr wanted \<and> (vf_ok v \<longleftrightarrow> meets (read_config sample_os ''/lab'' sample_files) wanted)"
proof (cases "executor_verify sample_py sample_os ''/lab'' [(''disable_root_login'', JBool True)] sample_files")
  case (Inl e)
  then show ?thesis using sample_verify_ok by simp
next
  case (Inr v)
  from verification_iff_settings_hold [OF Inr] show ?thesis using Inr by auto
qed

end
