(* ===== verification/Soc.thy ===== *)
theory Soc
  imports Services Reference
begin

text \<open>
  The investigation stages after ingestion: the deterministic triage agent
  (\<open>app/agents/triage.py\<close>), the SOC stage with its skeptic check
  (\<open>app/pipeline/soc.py\<close>) and the GRC stage (\<open>app/pipeline/grc.py\<close>). Any agent may be registered
  under \<open>soc.triage\<close>; what it can cause is bounded by \<open>triage_group\<close>, and the theorems about
  that stage hold for every agent.
\<close>

section \<open>The triage agent\<close>

definition json_strs :: "json \<Rightarrow> string list result" where
  "json_strs j = (case j of
     JList js \<Rightarrow> if list_all (\<lambda>x. case x of JStr _ \<Rightarrow> True | _ \<Rightarrow> False) js
                 then Inr (map (\<lambda>x. case x of JStr s \<Rightarrow> s | _ \<Rightarrow> []) js) else Inl (ValueError ''list of strings'')
   | _ \<Rightarrow> Inl (ValueError ''list of strings''))"

lemma json_strs_JStrs [simp]: "json_strs (JStrs xs) = Inr xs"
  by (simp add: json_strs_def list_all_iff comp_def)

definition key :: "row \<Rightarrow> string \<Rightarrow> json result" where
  "key r k = (case map_of r k of None \<Rightarrow> Inl (KeyError k) | Some v \<Rightarrow> Inr v)"

definition get_or :: "row \<Rightarrow> string \<Rightarrow> json \<Rightarrow> json" where
  "get_or r k dflt = (case map_of r k of None \<Rightarrow> dflt | Some v \<Rightarrow> v)"

definition band_of_value :: "json \<Rightarrow> RiskBand result" where
  "band_of_value j =
     (case filter (\<lambda>b. j = JStr (risk_band_value b)) [BAND_INFORMATIONAL, BAND_LOW, BAND_MEDIUM, BAND_HIGH, BAND_CRITICAL] of
        [] \<Rightarrow> Inl (ValueError ''RiskBand'') | b # _ \<Rightarrow> Inr b)"

lemma band_of_value_value [simp]: "band_of_value (JStr (risk_band_value b)) = Inr b"
  by (cases b) (simp_all add: band_of_value_def)

definition disposition_of_value :: "json \<Rightarrow> Disposition result" where
  "disposition_of_value j =
     (case filter (\<lambda>d. j = JStr (disposition_value d)) [ESCALATE, MONITOR, SUPPRESS_CANDIDATE, FALSE_POSITIVE] of
        [] \<Rightarrow> Inl (ValueError ''Disposition'') | d # _ \<Rightarrow> Inr d)"

lemma disposition_of_value_value [simp]: "disposition_of_value (JStr (disposition_value d)) = Inr d"
  by (cases d) (simp_all add: disposition_of_value_def)

definition triage_output :: "Disposition \<Rightarrow> string list \<Rightarrow> string list \<Rightarrow> row" where
  "triage_output d techniques actions = [(''disposition'', JStr (disposition_value d)),
     (''attack_techniques'', JStrs techniques), (''recommended_action_types'', JStrs actions)]"

definition triage_decide :: "string list \<Rightarrow> json \<Rightarrow> RiskBand \<Rightarrow> int \<Rightarrow> AgentResult" where
  "triage_decide evidence_ids signature band cnt =
     (let techniques = (case signature of
            JStr sig \<Rightarrow> (case map_of ATTACK_TECHNIQUES sig of None \<Rightarrow> [] | Some t \<Rightarrow> t) | _ \<Rightarrow> []) in
      if evidence_ids = [] then
        \<lparr>res_output = triage_output MONITOR techniques [], res_confidence = 3/10, res_evidence_ids = [],
         res_rationale = ''No linked evidence; defaulting to monitor.''\<rparr>
      else if signature = JStr ''ssh_failed_password'' \<and> cnt \<ge> 3 then
        \<lparr>res_output = triage_output ESCALATE techniques [''harden_ssh_access''], res_confidence = 85/100,
         res_evidence_ids = evidence_ids,
         res_rationale = int_str cnt @ '' repeated SSH authentication failures for the same '' @
           ''source/host indicate credential brute force (T1110).''\<rparr>
      else if band = BAND_HIGH \<or> band = BAND_CRITICAL then
        \<lparr>res_output = triage_output ESCALATE techniques [], res_confidence = 7/10, res_evidence_ids = evidence_ids,
         res_rationale = ''Risk band '' @ risk_band_value band @ '' warrants analyst escalation.''\<rparr>
      else
        \<lparr>res_output = triage_output MONITOR techniques [], res_confidence = 6/10, res_evidence_ids = evidence_ids,
         res_rationale = ''Risk band '' @ risk_band_value band @ ''; monitor and enrich before escalation.''\<rparr>)"

definition triage_run :: "py \<Rightarrow> row \<Rightarrow> AgentResult result" where
  "triage_run P ctx =
     and_then (key ctx ''alert_group'') (\<lambda>g. case g of
       JObj grp \<Rightarrow>
         and_then (json_strs (get_or grp ''evidence_ids'' (JList []))) (\<lambda>evidence_ids.
         and_then (key grp ''signature'') (\<lambda>sig.
         and_then (key grp ''risk_band'') (\<lambda>rb.
         and_then (band_of_value rb) (\<lambda>band.
         and_then (key grp ''count'') (\<lambda>c.
         and_then (py_int P c) (\<lambda>cnt.
           (case sig of JList _ \<Rightarrow> Inl TypeError | JObj _ \<Rightarrow> Inl TypeError
            | _ \<Rightarrow> Inr (triage_decide evidence_ids sig band cnt))))))))
     | _ \<Rightarrow> Inl AttributeError)"

definition TriageAgent :: "py \<Rightarrow> agent" where
  "TriageAgent P = \<lparr>agent_name = ''soc.triage'', agent_version = ''0.2.0'', agent_run = triage_run P\<rparr>"

section \<open>The SOC stage\<close>

definition run_triage_agent :: "py \<Rightarrow> AlertGroup \<Rightarrow> ('z svc_scheme, (AgentRun \<times> TriageRecommendation) result) state" where
  "run_triage_agent P grp = do {
     started \<leftarrow> now;
     s \<leftarrow> State_Monad.get;
     try_bind (from_result (resolve ''soc.triage'' None (sv_agents s))) (\<lambda>a.
     try_bind (from_result (agent_run a [(''alert_group'', JObj (dump_alert_group grp))])) (\<lambda>result. do {
       finished \<leftarrow> now;
       i \<leftarrow> next_id ''AR'';
       let run = \<lparr>ar_agent_run_id = i, ar_agent_name = agent_name a, ar_agent_version = agent_version a,
                  ar_input_refs = [ag_group_id grp], ar_output = res_output result,
                  ar_confidence = res_confidence result, ar_evidence_ids = res_evidence_ids result,
                  ar_status = RUN_OK, ar_started_at = started, ar_finished_at = finished\<rparr>;
       save ''agent_runs'' i (dump_agent_run P run);
       try_bind (from_result (key (res_output result) ''disposition'')) (\<lambda>disposition. do {
         record_event P ''agent.run'' (agent_name a) None (Some i)
           [(''agent_version'', JStr (agent_version a)), (''input_refs'', JStrs (ar_input_refs run)),
            (''disposition'', disposition), (''confidence'', JFloat (repr_float P (res_confidence result))),
            (''evidence_ids'', JStrs (res_evidence_ids result)),
            (''recommended_action_types'', get_or (res_output result) ''recommended_action_types'' (JList []))];
         try_bind (from_result (disposition_of_value disposition)) (\<lambda>d.
         try_bind (from_result (json_strs (get_or (res_output result) ''attack_techniques'' (JList [])))) (\<lambda>techniques.
         try_bind (from_result (json_strs (get_or (res_output result) ''recommended_action_types'' (JList [])))) (\<lambda>actions.
           State_Monad.return (Inr (run,
             \<lparr>tr_disposition = d, tr_confidence = res_confidence result, tr_rationale = res_rationale result,
              tr_evidence_ids = res_evidence_ids result, tr_attack_techniques = techniques,
              tr_recommended_action_types = actions, tr_produced_by = i\<rparr>))))) }) })) }"

definition MIN_ESCALATION_CONFIDENCE :: rat where
  "MIN_ESCALATION_CONFIDENCE = 1/2"

definition skeptic_allows_escalation :: "TriageRecommendation \<Rightarrow> bool" where
  "skeptic_allows_escalation r = (tr_evidence_ids r \<noteq> [] \<and> tr_confidence r \<ge> MIN_ESCALATION_CONFIDENCE)"

definition triage_group :: "py \<Rightarrow> AlertGroup \<Rightarrow> ('z svc_scheme, (TriageRecommendation \<times> Incident option) result) state" where
  "triage_group P grp =
     try_bind (run_triage_agent P grp) (\<lambda>(_, r).
       if tr_disposition r \<noteq> ESCALATE \<or> \<not> skeptic_allows_escalation r then State_Monad.return (Inr (r, None))
       else do {
         i \<leftarrow> next_id ''INC'';
         t \<leftarrow> now;
         let incident = \<lparr>in_incident_id = i, in_title = ag_signature grp @ '' on '' @ ag_asset_id grp,
                         in_severity = ag_severity grp, in_status = ''open'', in_asset_id = ag_asset_id grp,
                         in_alert_group_ids = [ag_group_id grp], in_evidence_ids = ag_evidence_ids grp,
                         in_triage_ref = Some (tr_produced_by r), in_attack_techniques = tr_attack_techniques r,
                         in_created_at = t\<rparr>;
         save ''incidents'' i (dump_incident incident);
         State_Monad.return (Inr (r, Some incident)) })"

section \<open>The GRC stage\<close>

fun BAND_BY_SEVERITY :: "Severity \<Rightarrow> RiskBand" where
  "BAND_BY_SEVERITY SEV_INFO = BAND_INFORMATIONAL"
| "BAND_BY_SEVERITY SEV_LOW = BAND_LOW"
| "BAND_BY_SEVERITY SEV_MEDIUM = BAND_MEDIUM"
| "BAND_BY_SEVERITY SEV_HIGH = BAND_HIGH"
| "BAND_BY_SEVERITY SEV_CRITICAL = BAND_CRITICAL"

definition map_control :: "py \<Rightarrow> Incident \<Rightarrow> string \<Rightarrow> ('z svc_scheme, ControlMapping option) state" where
  "map_control P incident signature =
     (case map_of SIGNATURE_TO_CONTROL signature of
        None \<Rightarrow> State_Monad.return None
      | Some control_id \<Rightarrow> (case map_of CONTROL_LIBRARY control_id of
          None \<Rightarrow> State_Monad.return None
        | Some control \<Rightarrow> do {
            save ''controls'' (ct_control_id control) (dump_control control);
            i \<leftarrow> next_id ''MAP'';
            let mapping = \<lparr>cm_mapping_id = i, cm_incident_id = in_incident_id incident,
                           cm_control_id = ct_control_id control, cm_confidence = 8/10,
                           cm_rationale = ''Incident evidences control '' @ ct_control_ref control @ '' ('' @ ct_title control @ '').'',
                           cm_evidence_ids = in_evidence_ids incident\<rparr>;
            save ''control_mappings'' i (dump_control_mapping P mapping);
            State_Monad.return (Some mapping) }))"

definition map_incident :: "py \<Rightarrow> Incident \<Rightarrow> string \<Rightarrow> ('z svc_scheme, ControlMapping option \<times> Risk) state" where
  "map_incident P incident signature = do {
     mapping \<leftarrow> map_control P incident signature;
     i \<leftarrow> next_id ''RISK'';
     let techniques = join_with '', '' (in_attack_techniques incident);
     let risk = \<lparr>rk_risk_id = i, rk_title = ''Exposure from '' @ in_title incident,
                 rk_statement = ''Observed activity ('' @ (if techniques = [] then ''n/a'' else techniques) @ '') on '' @
                   in_asset_id incident @ '' could lead to compromise if unaddressed.'',
                 rk_likelihood = SEV_MEDIUM, rk_impact = in_severity incident,
                 rk_inherent_band = BAND_BY_SEVERITY (in_severity incident), rk_owner = None, rk_treatment_status = ''open'',
                 rk_residual_band = None, rk_related_incident_id = Some (in_incident_id incident),
                 rk_evidence_ids = in_evidence_ids incident\<rparr>;
     save ''risks'' i (dump_risk risk);
     State_Monad.return (mapping, risk) }"

section \<open>What the stages keep\<close>

definition soc_collections :: "string set" where
  "soc_collections = {''agent_runs'', ''incidents'', ''controls'', ''control_mappings'', ''risks''}"

context quiet_fact
begin

lemma triage_keeps [keeps]:
  assumes "soc_collections \<subseteq> cols"
  shows "keeps I (triage_group P g)"
  unfolding triage_group_def run_triage_agent_def
  by (intro keeps) (use assms in \<open>simp_all add: soc_collections_def\<close>)

lemma map_incident_keeps [keeps]:
  assumes "soc_collections \<subseteq> cols"
  shows "keeps I (map_incident P inc sig)"
  unfolding map_incident_def map_control_def
  by (intro keeps) (use assms in \<open>simp_all add: soc_collections_def\<close>)

end

section \<open>Which groups become incidents\<close>

definition should_escalate :: "AlertGroup \<Rightarrow> bool" where
  "should_escalate g \<longleftrightarrow> ag_evidence_ids g \<noteq> [] \<and>
     (ag_signature g = ''ssh_failed_password'' \<and> ag_count g \<ge> 3 \<or> ag_risk_band g \<in> {BAND_HIGH, BAND_CRITICAL})"

lemma triage_run_group:
  "triage_run P [(''alert_group'', JObj (dump_alert_group g))] =
     Inr (triage_decide (ag_evidence_ids g) (JStr (ag_signature g)) (ag_risk_band g) (ag_count g))"
  by (simp add: triage_run_def key_def dump_alert_group_def get_or_def)

lemma triage_decide_escalates:
  "should_escalate g \<Longrightarrow>
   \<exists>ts as. res_output (triage_decide (ag_evidence_ids g) (JStr (ag_signature g)) (ag_risk_band g) (ag_count g)) = triage_output ESCALATE ts as
     \<and> res_evidence_ids (triage_decide (ag_evidence_ids g) (JStr (ag_signature g)) (ag_risk_band g) (ag_count g)) = ag_evidence_ids g
     \<and> res_confidence (triage_decide (ag_evidence_ids g) (JStr (ag_signature g)) (ag_risk_band g) (ag_count g)) \<ge> 7/10"
  by (auto simp: triage_decide_def should_escalate_def Let_def)

lemma triage_decide_monitors:
  "\<not> should_escalate g \<Longrightarrow>
   \<exists>ts. res_output (triage_decide (ag_evidence_ids g) (JStr (ag_signature g)) (ag_risk_band g) (ag_count g)) = triage_output MONITOR ts []"
  by (auto simp: triage_decide_def should_escalate_def Let_def)

lemma disposition_of_output: "disposition_of_value (get_or (triage_output d ts as) ''disposition'' JNull) = Inr d"
  by (simp add: get_or_def triage_output_def)

lemmas run_prims = run_now run_next_id run_save run_put_evidence run_record_event

text \<open>The successful runs of the stage, for any agent.\<close>

lemma run_triage_agentD:
  assumes "run_state (run_triage_agent P g) s = (Inr (r, rec), t)"
  obtains a result where "resolve ''soc.triage'' None (sv_agents s) = Inr a"
    and "agent_run a [(''alert_group'', JObj (dump_alert_group g))] = Inr result"
    and "tr_confidence rec = res_confidence result" and "tr_evidence_ids rec = res_evidence_ids result"
    and "disposition_of_value (get_or (res_output result) ''disposition'' JNull) = Inr (tr_disposition rec)"
    and "\<exists>e. sv_events t = sv_events s @ [e] \<and> au_event_type e = ''agent.run'' \<and> au_subject_ref e = Some (tr_produced_by rec)"
proof -
  have k: "key row k = Inr v \<Longrightarrow> get_or row k JNull = v" for row k v by (auto simp: key_def get_or_def split: option.splits)
  show ?thesis
    using assms unfolding run_triage_agent_def
    by (auto simp: run_bind run_from_result run_prims Let_def audit_record_event k simp del: run_state_bind
        elim!: try_bind_InrE intro!: that)
qed

lemma triage_groupD:
  assumes "run_state (triage_group P g) s = (Inr (rec, inc), t)"
  obtains r u where "run_state (run_triage_agent P g) s = (Inr (r, rec), u)"
    and "inc = None \<longleftrightarrow> tr_disposition rec \<noteq> ESCALATE \<or> \<not> skeptic_allows_escalation rec"
    and "inc = None \<Longrightarrow> t = u"
    and "\<And>i. inc = Some i \<Longrightarrow> in_evidence_ids i = ag_evidence_ids g \<and> in_alert_group_ids i = [ag_group_id g]
           \<and> in_triage_ref i = Some (tr_produced_by rec) \<and> in_severity i = ag_severity g
           \<and> sv_events t = sv_events u \<and> sv_repo t = repo_save ''incidents'' (in_incident_id i) (dump_incident i) (sv_repo u)"
  using assms unfolding triage_group_def
  by (auto simp: run_bind run_prims Let_def simp del: run_state_bind elim!: try_bind_InrE split: if_splits intro!: that)

lemma triage_agent_runs:
  assumes "resolve ''soc.triage'' None (sv_agents s) = Inr (TriageAgent P)"
  shows "\<exists>rec inc t. run_state (triage_group P g) s = (Inr (rec, inc), t) \<and> (inc \<noteq> None \<longleftrightarrow> should_escalate g)"
proof -
  let ?res = "triage_decide (ag_evidence_ids g) (JStr (ag_signature g)) (ag_risk_band g) (ag_count g)"
  have run: "agent_run (TriageAgent P) [(''alert_group'', JObj (dump_alert_group g))] = Inr ?res"
    by (simp add: TriageAgent_def triage_run_group)
  have strs: "\<exists>d ts as. res_output ?res = triage_output d ts as" by (auto simp: triage_decide_def Let_def)
  have "\<exists>r rec u. run_state (run_triage_agent P g) s = (Inr (r, rec), u)"
    using strs run assms
    by (auto simp: run_triage_agent_def run_bind run_try_bind run_from_result run_prims Let_def key_def get_or_def
        triage_output_def simp del: run_state_bind)
  then obtain r rec u where r: "run_state (run_triage_agent P g) s = (Inr (r, rec), u)" by blast
  obtain inc t where t: "run_state (triage_group P g) s = (Inr (rec, inc), t)"
    using r by (cases "tr_disposition rec \<noteq> ESCALATE \<or> \<not> skeptic_allows_escalation rec")
      (auto simp: triage_group_def run_try_bind run_bind run_prims Let_def simp del: run_state_bind)
  have "tr_disposition rec = ESCALATE \<and> skeptic_allows_escalation rec \<longleftrightarrow> should_escalate g"
  proof (cases "should_escalate g")
    case True
    with triage_decide_escalates [OF True] show ?thesis using r
      by (elim run_triage_agentD) (auto simp: assms run disposition_of_output skeptic_allows_escalation_def
          MIN_ESCALATION_CONFIDENCE_def should_escalate_def)
  next
    case False
    with triage_decide_monitors [OF False] show ?thesis using r
      by (elim run_triage_agentD) (auto simp: assms run disposition_of_output)
  qed
  then have "inc \<noteq> None \<longleftrightarrow> should_escalate g" using triage_groupD [OF t] by blast
  with t show ?thesis by blast
qed

text \<open>
  C19: an agent cannot create an incident by itself. Whatever agent is registered, an incident comes only
  from a recommendation to escalate that names evidence and has at least the minimum confidence; it
  carries the group's evidence and severity, refers to the agent run it came from, that run is in the
  audit log, and the incident is the one saved.
\<close>

theorem incident_needs_grounded_escalation:
  assumes "run_state (triage_group P g) s = (Inr (rec, Some i), t)" and "repo_ok s"
  shows "tr_disposition rec = ESCALATE \<and> tr_evidence_ids rec \<noteq> [] \<and> tr_confidence rec \<ge> MIN_ESCALATION_CONFIDENCE
    \<and> in_evidence_ids i = ag_evidence_ids g \<and> in_severity i = ag_severity g
    \<and> repo_get ''incidents'' (in_incident_id i) (sv_repo t) = Some (dump_incident i)
    \<and> (\<exists>e. sv_events t = sv_events s @ [e] \<and> au_event_type e = ''agent.run'' \<and> au_subject_ref e = in_triage_ref i)"
proof -
  from assms(1) obtain r u where run: "run_state (run_triage_agent P g) s = (Inr (r, rec), u)"
    and dec: "tr_disposition rec = ESCALATE" "skeptic_allows_escalation rec"
    and i: "in_evidence_ids i = ag_evidence_ids g" "in_triage_ref i = Some (tr_produced_by rec)" "in_severity i = ag_severity g"
      "sv_events t = sv_events u" "sv_repo t = repo_save ''incidents'' (in_incident_id i) (dump_incident i) (sv_repo u)"
    by (rule triage_groupD) auto
  have "keeps repo_ok (run_triage_agent P g :: ('a svc_scheme, _) state)"
    unfolding run_triage_agent_def by (intro keeps repo_wf.now_keeps repo_wf.next_id_keeps repo_wf.record_keeps repo_wf.save_keeps) simp
  from keepsD [OF this assms(2) run] have "repo_invar (sv_repo u)" by (simp add: on_repo_def)
  then have "repo_get ''incidents'' (in_incident_id i) (sv_repo t) = Some (dump_incident i)"
    by (simp add: i in_memory.get_save)
  moreover obtain e where "sv_events u = sv_events s @ [e]" "au_event_type e = ''agent.run''"
      "au_subject_ref e = Some (tr_produced_by rec)"
    using run by (rule run_triage_agentD) auto
  ultimately show ?thesis using dec i by (auto simp: skeptic_allows_escalation_def)
qed

definition sample_group :: AlertGroup where
  "sample_group = \<lparr>ag_group_id = ''AG-0001'', ag_dedup_key = ''k'', ag_signature = ''ssh_failed_password'',
     ag_asset_id = ''web-01'', ag_severity = SEV_MEDIUM, ag_count = 3, ag_alert_ids = [''a'', ''b'', ''c''],
     ag_evidence_ids = [''EVID-0001''], ag_first_seen = [], ag_last_seen = [], ag_risk_score = 70, ag_risk_band = BAND_HIGH\<rparr>"

definition triage_svc :: svc where
  "triage_svc = services_create (InMemory []) (FixedClock 0) (TriageAgent sample_py)"

lemma triage_svc_agent: "resolve ''soc.triage'' None (sv_agents triage_svc) = Inr (TriageAgent sample_py)"
  by (simp add: triage_svc_def services_create_def resolve_def TriageAgent_def)

theorem incident_needs_grounded_escalation_witness:
  "\<exists>rec i t. run_state (triage_group sample_py sample_group) triage_svc = (Inr (rec, Some i), t)
     \<and> tr_disposition rec = ESCALATE \<and> in_evidence_ids i = [''EVID-0001'']"
proof -
  have ok: "repo_ok triage_svc" by (simp add: triage_svc_def services_create_def on_repo_def mem.invar_empty)
  obtain rec i t where run: "run_state (triage_group sample_py sample_group) triage_svc = (Inr (rec, Some i), t)"
    using triage_agent_runs [OF triage_svc_agent, of sample_group] by (auto simp: should_escalate_def sample_group_def)
  then show ?thesis using incident_needs_grounded_escalation [OF run ok] by (auto simp: sample_group_def)
qed

text \<open>
  With the platform's own triage agent the stage never raises, and a group becomes an incident exactly if
  it has evidence and is either three or more SSH password failures or in the high or critical band.
\<close>

theorem triage_agent_incident_iff:
  assumes "resolve ''soc.triage'' None (sv_agents s) = Inr (TriageAgent P)"
  shows "\<exists>rec inc t. run_state (triage_group P g) s = (Inr (rec, inc), t) \<and> (inc \<noteq> None \<longleftrightarrow> should_escalate g)"
  using assms by (rule triage_agent_runs)

theorem triage_agent_incident_iff_witness:
  "\<exists>rec inc t. run_state (triage_group sample_py sample_group) triage_svc = (Inr (rec, inc), t) \<and> inc \<noteq> None"
  using triage_agent_incident_iff [OF triage_svc_agent, of sample_group] by (simp add: should_escalate_def sample_group_def)

end
