(* ===== verification/Remediation.thy ===== *)
theory Remediation
  imports Policy Harden Soc
begin

text \<open>
  \<open>app/pipeline/remediation.py\<close>: plans, approvals bound to a plan's hash and a scope's policy
  hash, the policy gate, and execution with verification and automatic rollback. The state is the
  services together with the host's files. The theorems show that files of the host change only
  after the policy engine allowed exactly this plan, what an approval is bound to, and what is
  left when verification fails.
\<close>

section \<open>Plans\<close>

definition plan_hash :: "py \<Rightarrow> ActionPlan \<Rightarrow> string" where
  "plan_hash P plan = policy_hash P [(''action_plan_id'', JStr (ap_action_plan_id plan)), (''action_type'', JStr (ap_action_type plan)),
     (''risk_level'', JStr (risk_level_value (ap_risk_level plan))), (''target'', JObj (ap_target plan)),
     (''parameters'', JObj (ap_parameters plan)), (''rollback'', JStr (ap_rollback plan))]"

definition draft_plan :: "py \<Rightarrow> string \<Rightarrow> string \<Rightarrow> string \<Rightarrow> string list \<Rightarrow> ('z svc_scheme, ActionPlan option) state" where
  "draft_plan P action_type asset_id created_from evidence_ids =
     (case get_action_spec action_type of
        None \<Rightarrow> State_Monad.return None
      | Some spec \<Rightarrow> do {
          i \<leftarrow> next_id ''AP'';
          t \<leftarrow> now;
          let plan = \<lparr>ap_action_plan_id = i, ap_title = as_title spec, ap_action_type = as_action_type spec,
                      ap_risk_level = as_risk_level spec, ap_status = PLAN_PROPOSED, ap_target = [(''asset_id'', JStr asset_id)],
                      ap_parameters = as_default_parameters spec, ap_rollback = as_rollback spec, ap_requires_approval = True,
                      ap_created_from = Some created_from, ap_evidence_ids = evidence_ids, ap_created_at = t\<rparr>;
          save ''action_plans'' i (dump_action_plan plan);
          record_event P ''plan.created'' ''system'' None (Some i)
            [(''action_type'', JStr (ap_action_type plan)), (''target'', JStr asset_id),
             (''risk_level'', JStr (risk_level_value (ap_risk_level plan))), (''parameters'', JObj (ap_parameters plan)),
             (''created_from'', JStr created_from), (''plan_hash'', JStr (plan_hash P plan))];
          State_Monad.return (Some plan) })"

text \<open>The fixed response rules: hosts a never-before-seen source logged in to, with the logins.\<close>

record login =
  lg_host :: string
  lg_event_id :: string
  lg_source_had_logged_in_as_account_before :: bool

definition playbook :: "login list \<Rightarrow> string \<Rightarrow> (string \<times> string \<times> string list) list" where
  "playbook successful_logins verdict =
     (if verdict \<noteq> ''escalate'' then []
      else map (\<lambda>(h, logins). (''harden_ssh_access'', h, map lg_event_id logins))
        (sort_key fst (group_by lg_host (filter (\<lambda>l. \<not> lg_source_had_logged_in_as_account_before l) successful_logins))))"

definition build_action_plan :: "py \<Rightarrow> Incident \<Rightarrow> TriageRecommendation \<Rightarrow> ('z svc_scheme, ActionPlan option) state" where
  "build_action_plan P incident r =
     (case tr_recommended_action_types r of
        [] \<Rightarrow> State_Monad.return None
      | a # _ \<Rightarrow> draft_plan P a (in_asset_id incident) (in_incident_id incident) (in_evidence_ids incident))"

section \<open>Approvals\<close>

definition record_approval ::
    "py \<Rightarrow> ActionPlan \<Rightarrow> AssessmentScope \<Rightarrow> string \<Rightarrow> string \<Rightarrow> ('z svc_scheme, Approval result) state" where
  "record_approval P plan scope approver decision =
     (if decision \<noteq> ''approved'' \<and> decision \<noteq> ''rejected'' then raise (ValueError (''unknown decision '' @ repr_str decision))
      else if approver \<notin> set (sc_allowed_actors scope)
      then raise (ValueError (repr_str approver @ '' is not a permitted actor in '' @ sc_scope_id scope))
      else do {
        i \<leftarrow> next_id ''APR'';
        t \<leftarrow> now;
        let approval = \<lparr>apr_approval_id = i, apr_subject_ref = ap_action_plan_id plan, apr_decision = decision,
                        apr_approver = approver, apr_plan_hash = plan_hash P plan, apr_policy_hash = sc_policy_hash scope,
                        apr_decided_at = t\<rparr>;
        save ''approvals'' i (dump_approval approval);
        record_event P ''approval.recorded'' approver None (Some (ap_action_plan_id plan))
          [(''approval_id'', JStr i), (''decision'', JStr decision), (''approver'', JStr approver),
           (''plan_hash'', JStr (apr_plan_hash approval)), (''policy_hash'', JStr (apr_policy_hash approval))];
        State_Monad.return (Inr approval) })"

fun decisions_on :: "string \<Rightarrow> string \<Rightarrow> row list \<Rightarrow> Approval list result" where
  "decisions_on plan_id ph [] = Inr []"
| "decisions_on plan_id ph (r # rows) =
     and_then (key r ''subject_ref'') (\<lambda>subject.
       if subject \<noteq> JStr plan_id then decisions_on plan_id ph rows
       else and_then (key r ''policy_hash'') (\<lambda>h.
         if h \<noteq> JStr ph then decisions_on plan_id ph rows
         else (case approval_of_row r of
             None \<Rightarrow> Inl (ValueError ''Approval'')
           | Some a \<Rightarrow> and_then (decisions_on plan_id ph rows) (\<lambda>as. Inr (a # as)))))"

definition valid_approval :: "py \<Rightarrow> row list \<Rightarrow> ActionPlan \<Rightarrow> AssessmentScope \<Rightarrow> Approval option result" where
  "valid_approval P rows plan scope =
     and_then (decisions_on (ap_action_plan_id plan) (sc_policy_hash scope) rows) (\<lambda>ds.
       case ds of
         [] \<Rightarrow> Inr None
       | d # rest \<Rightarrow>
           let latest = max_by apr_approval_id d rest in
           if apr_decision latest \<noteq> ''approved'' \<or> apr_plan_hash latest \<noteq> plan_hash P plan then Inr None
           else Inr (Some latest))"

section \<open>The gate\<close>

definition asset_of :: "ActionPlan \<Rightarrow> string result" where
  "asset_of plan = (case map_of (ap_target plan) ''asset_id'' of
     None \<Rightarrow> Inr [] | Some (JStr a) \<Rightarrow> Inr a | Some _ \<Rightarrow> Inl (ValueError ''target''))"

definition make_request :: "string \<Rightarrow> string \<Rightarrow> ActionPlan \<Rightarrow> string \<Rightarrow> bool \<Rightarrow> string \<Rightarrow> ActionRequest" where
  "make_request request_id actor plan target approved t =
     \<lparr>rq_request_id = request_id, rq_actor = actor, rq_action_type = ap_action_type plan, rq_risk_level = ap_risk_level plan,
      rq_target = target, rq_action_plan_id = Some (ap_action_plan_id plan), rq_has_approval = approved, rq_at = Some t,
      rq_claimed = [(''note'', JStr ''auto-remediation suggested by triage agent''), (''pre_approved'', JBool True)]\<rparr>"

definition policy_evaluate :: "py \<Rightarrow> ActionRequest \<Rightarrow> AssessmentScope \<Rightarrow> ('z svc_scheme, PolicyDecision) state" where
  "policy_evaluate P request scope = State (\<lambda>s.
     let (d, c) = evaluate P (sv_clock s) request scope in (d, s\<lparr>sv_clock := c\<rparr>))"

definition list_rows :: "string \<Rightarrow> ('z svc_scheme, row list) state" where
  "list_rows c = State (\<lambda>s. (repo_list c (sv_repo s), s))"

definition evaluate_execution ::
    "py \<Rightarrow> ActionPlan \<Rightarrow> AssessmentScope \<Rightarrow> string \<Rightarrow> ('z svc_scheme, (PolicyDecision \<times> ActionPlan) result) state" where
  "evaluate_execution P plan scope actor = do {
     rows \<leftarrow> list_rows ''approvals'';
     try_bind (from_result (valid_approval P rows plan scope)) (\<lambda>approval. do {
       i \<leftarrow> next_id ''REQ'';
       t \<leftarrow> now;
       try_bind (from_result (asset_of plan)) (\<lambda>target. do {
         let request = make_request i actor plan target (approval \<noteq> None) t;
         decision \<leftarrow> policy_evaluate P request scope;
         save ''policy_decisions'' i (dump_policy_decision decision);
         record_event P ''policy.decision'' actor None (Some (ap_action_plan_id plan))
           [(''effect'', JStr (policy_effect_value (pd_effect decision))), (''reason_code'', JStr (pd_reason_code decision)),
            (''scope_id'', JStr (sc_scope_id scope)), (''policy_hash'', JStr (sc_policy_hash scope)),
            (''plan_hash'', JStr (plan_hash P plan)), (''approval_id'', opt_str (map_option apr_approval_id approval))];
         let plan' = plan\<lparr>ap_status := (if pd_effect decision = ALLOW then PLAN_APPROVED else PLAN_PROPOSED)\<rparr>;
         save ''action_plans'' (ap_action_plan_id plan') (dump_action_plan plan');
         State_Monad.return (Inr (decision, plan')) }) }) }"

section \<open>Execution\<close>

record Execution =
  xo_plan :: ActionPlan
  xo_decision :: PolicyDecision
  xo_approval :: "Approval option"
  xo_refused :: "string option"
  xo_change :: "Change option"
  xo_verification :: "Verification option"
  xo_rollback :: "row option"
  xo_states :: "(string \<times> row) list"

definition set_status :: "ActionPlan \<Rightarrow> ActionPlanStatus \<Rightarrow> ('z svc_scheme, ActionPlan) state" where
  "set_status plan status = do {
     let plan' = plan\<lparr>ap_status := status\<rparr>;
     save ''action_plans'' (ap_action_plan_id plan') (dump_action_plan plan');
     State_Monad.return plan' }"

definition set_files :: "files \<Rightarrow> ('z host_scheme, unit) state" where
  "set_files fs = State (\<lambda>s. ((), s\<lparr>hs_files := fs\<rparr>))"

definition refusal :: "executor \<Rightarrow> ActionPlan \<Rightarrow> json \<Rightarrow> string option" where
  "refusal ex plan target =
     (if ex_action_type ex \<noteq> ap_action_type plan \<or> JStr (ex_asset_id ex) \<noteq> target
      then Some (''executor for '' @ ex_action_type ex @ '' on '' @ ex_asset_id ex @ '' cannot run '' @ ap_action_type plan @ '' on '' @ py_str target)
      else None)"

text \<open>From the guard to the executor's edit: \<open>ExecutorRefused\<close> is caught, any other error propagates.\<close>

definition start_change ::
    "py \<Rightarrow> os \<Rightarrow> executor \<Rightarrow> ActionPlan \<Rightarrow> json \<Rightarrow> ('z host_scheme, (string \<times> (string \<times> row) list + row \<times> Change) result) state" where
  "start_change P S ex plan target =
     (case refusal ex plan target of
        Some msg \<Rightarrow> State_Monad.return (Inr (Inl (msg, [])))
      | None \<Rightarrow> do {
          s \<leftarrow> State_Monad.get;
          let before = host_state S (hs_root s) (hs_files s);
          (case executor_apply P S (hs_root s) (ap_action_plan_id plan) (ap_parameters plan) (hs_files s) of
             Inl (ExecutorRefused msg) \<Rightarrow> State_Monad.return (Inr (Inl (msg, [(''before'', before)])))
           | Inl e \<Rightarrow> raise e
           | Inr (change, fs) \<Rightarrow> do { set_files fs; State_Monad.return (Inr (Inr (before, change))) }) })"

definition put_file :: "py \<Rightarrow> string \<Rightarrow> ('z host_scheme, string result) state" where
  "put_file P path = do {
     s \<leftarrow> State_Monad.get;
     (case regular (hs_files s) path of None \<Rightarrow> raise (FileError path) | Some b \<Rightarrow> succeed (put_evidence P b)) }"

definition host_state_now :: "os \<Rightarrow> ('z host_scheme, row) state" where
  "host_state_now S = State (\<lambda>s. (host_state S (hs_root s) (hs_files s), s))"

definition run_verify :: "py \<Rightarrow> os \<Rightarrow> row \<Rightarrow> ('z host_scheme, Verification result) state" where
  "run_verify P S parameters = State (\<lambda>s. (executor_verify P S (hs_root s) parameters (hs_files s), s))"

definition run_rollback :: "py \<Rightarrow> Change \<Rightarrow> ('z host_scheme, (string \<times> bool) result) state" where
  "run_rollback P change = do {
     s \<leftarrow> State_Monad.get;
     (case executor_rollback P change (hs_files s) of
        Inl e \<Rightarrow> raise e
      | Inr (r, fs) \<Rightarrow> do { set_files fs; State_Monad.return (Inr r) }) }"

definition roll_back ::
    "py \<Rightarrow> os \<Rightarrow> string \<Rightarrow> json \<Rightarrow> ActionPlan \<Rightarrow> Verification \<Rightarrow> Change \<Rightarrow> Execution \<Rightarrow> ('z host_scheme, Execution result) state" where
  "roll_back P S name target plan verification change outcome =
     try_bind (run_rollback P change) (\<lambda>(restored_sha256, matches_before). do {
       restored \<leftarrow> host_state_now S;
       let same_state = (map_of (xo_states outcome) ''before'' = Some restored);
       let good = (matches_before \<and> same_state);
       record_event P ''rollback.applied'' name None (Some (ap_action_plan_id plan))
         [(''target'', target), (''reason'', JStr ''verification failed''),
          (''failed_checks'', JList (map (\<lambda>c. JObj (dump_check c)) (filter (\<lambda>c. \<not> ck_ok c) (vf_checks verification)))),
          (''backup'', JStr (ch_backup change)), (''restored_sha256'', JStr restored_sha256)];
       record_event P ''rollback.verified'' ''verifier.sshd_config'' None (Some (ap_action_plan_id plan))
         [(''target'', target), (''ok'', JBool good), (''file_matches_before'', JBool matches_before),
          (''state_matches_before'', JBool same_state), (''state_restored'', JObj restored)];
       plan' \<leftarrow> set_status (xo_plan outcome) PLAN_ROLLED_BACK;
       State_Monad.return (Inr (outcome\<lparr>xo_plan := plan', xo_states := xo_states outcome @ [(''restored'', restored)],
         xo_rollback := Some [(''file'', JStr (ch_file change)), (''restored_sha256'', JStr restored_sha256),
           (''matches_before'', JBool matches_before), (''state_matches_before'', JBool same_state), (''ok'', JBool good)]\<rparr>)) })"

definition finish_change ::
    "py \<Rightarrow> os \<Rightarrow> string \<Rightarrow> json \<Rightarrow> string \<Rightarrow> ActionPlan \<Rightarrow> row \<Rightarrow> Change \<Rightarrow> Execution \<Rightarrow> ('z host_scheme, Execution result) state" where
  "finish_change P S name target actor plan before change outcome =
     try_bind (put_file P (ch_backup change)) (\<lambda>_.
     try_bind (put_file P MAIN) (\<lambda>_. do {
       after \<leftarrow> host_state_now S;
       executed \<leftarrow> set_status plan PLAN_EXECUTED;
       record_event P ''execution.applied'' name None (Some (ap_action_plan_id plan))
         [(''target'', target), (''requested_by'', JStr actor), (''file'', JStr (ch_file change)),
          (''before_sha256'', JStr (ch_before_sha256 change)), (''after_sha256'', JStr (ch_after_sha256 change)),
          (''backup'', JStr (ch_backup change)), (''edits'', JList (map JObj (ch_edits change))), (''diff'', JStrs (ch_diff change)),
          (''state_before'', JObj before), (''state_after'', JObj after), (''reload'', JStr ''skipped: lab copy, no daemon'')];
       try_bind (run_verify P S (ap_parameters plan)) (\<lambda>verification. do {
         let report = verification_to_dict verification;
         ref \<leftarrow> put_evidence P (canonical_json (JObj report));
         record_event P ''execution.verified'' ''verifier.sshd_config'' None (Some (ap_action_plan_id plan))
           ((''target'', target) # report @ [(''report_ref'', JStr ref)]);
         let outcome' = outcome\<lparr>xo_plan := executed, xo_change := Some change, xo_verification := Some verification,
                               xo_states := [(''before'', before), (''after'', after)]\<rparr>;
         (if vf_ok verification
          then do { plan' \<leftarrow> set_status executed PLAN_VERIFIED; State_Monad.return (Inr (outcome'\<lparr>xo_plan := plan'\<rparr>)) }
          else roll_back P S name target plan verification change outcome') }) }))"

definition run_executor ::
    "py \<Rightarrow> os \<Rightarrow> executor \<Rightarrow> string \<Rightarrow> ActionPlan \<Rightarrow> Execution \<Rightarrow> ('z host_scheme, Execution result) state" where
  "run_executor P S ex actor plan outcome =
     (let name = ''executor.'' @ ap_action_type plan;
          target = get_or (ap_target plan) ''asset_id'' JNull
      in try_bind (start_change P S ex plan target) (\<lambda>started. case started of
           Inl (msg, states) \<Rightarrow> do {
             record_event P ''execution.refused'' name None (Some (ap_action_plan_id plan))
               [(''target'', target), (''reason'', JStr msg)];
             State_Monad.return (Inr (outcome\<lparr>xo_refused := Some msg, xo_states := states\<rparr>)) }
         | Inr (before, change) \<Rightarrow> finish_change P S name target actor plan before change outcome))"

definition execute_plan ::
    "py \<Rightarrow> os \<Rightarrow> ActionPlan \<Rightarrow> AssessmentScope \<Rightarrow> string \<Rightarrow> executor \<Rightarrow> ('z host_scheme, Execution result) state" where
  "execute_plan P S plan scope actor ex =
     try_bind (evaluate_execution P plan scope actor) (\<lambda>(decision, plan'). do {
       rows \<leftarrow> list_rows ''approvals'';
       try_bind (from_result (valid_approval P rows plan' scope)) (\<lambda>approval.
         let outcome = \<lparr>xo_plan = plan', xo_decision = decision, xo_approval = approval, xo_refused = None, xo_change = None,
                        xo_verification = None, xo_rollback = None, xo_states = []\<rparr>
         in if pd_effect decision \<noteq> ALLOW then State_Monad.return (Inr outcome)
            else run_executor P S ex actor plan' outcome) })"

section \<open>What the stage keeps\<close>

definition remediation_collections :: "string set" where
  "remediation_collections = {''action_plans'', ''approvals'', ''policy_decisions''}"

lemma run_policy_evaluate:
  "run_state (policy_evaluate P rq sc) s = (fst (evaluate P (sv_clock s) rq sc), s\<lparr>sv_clock := snd (clock_now (sv_clock s))\<rparr>)"
  by (simp add: policy_evaluate_def evaluate_def Let_def split_beta)

lemma run_list_rows: "run_state (list_rows c) s = (repo_list c (sv_repo s), s)"
  by (simp add: list_rows_def)

lemma keeps_list_rows [keeps]: "keeps I (list_rows c)"
  by (simp add: keeps_def list_rows_def)

context quiet_fact
begin

lemma policy_evaluate_keeps [keeps]: "keeps I (policy_evaluate P rq sc)"
  using now_keeps by (simp add: keeps_def run_policy_evaluate run_now)

lemma save_remediation_keeps:
  assumes "remediation_collections \<subseteq> cols"
  shows "keeps I (save ''action_plans'' i d)" "keeps I (save ''approvals'' i d)" "keeps I (save ''policy_decisions'' i d)"
  using assms save_keeps by (auto simp: remediation_collections_def)

lemma plans_keep [keeps]:
  assumes "remediation_collections \<subseteq> cols"
  shows "keeps I (build_action_plan P inc rec)" "keeps I (record_approval P pl sc ap de)"
    "keeps I (evaluate_execution P pl sc ac)" "keeps I (set_status pl st)"
  unfolding build_action_plan_def draft_plan_def record_approval_def evaluate_execution_def set_status_def
  by (intro keeps save_remediation_keeps assms)+

end

locale host_fact = kept_fact P I cols for P and I :: "'z host_scheme \<Rightarrow> bool" and cols +
  assumes set_files_keeps [keeps]: "keeps I (set_files fs)"
begin

lemma host_state_keeps [keeps]: "keeps I (host_state_now S)" "keeps I (run_verify P S ps)"
  by (simp_all add: keeps_def host_state_now_def run_verify_def)

lemma start_change_keeps [keeps]: "keeps I (start_change P S ex pl tg)"
  unfolding start_change_def by (intro keeps) (auto split: err.splits intro!: keeps)

lemma execute_plan_keeps [keeps]:
  assumes "remediation_collections \<subseteq> cols"
  shows "keeps I (execute_plan P S pl sc ac ex)"
  unfolding execute_plan_def run_executor_def finish_change_def roll_back_def run_rollback_def put_file_def
  by (intro keeps plans_keep assms)

end

lemma keeps_set_files:
  "keeps (on_repo Q) (set_files fs)" "keeps (on_vault R) (set_files fs)" "keeps (on_events E) (set_files fs)"
  by (simp_all add: keeps_def set_files_def on_defs)

interpretation host_chain: host_fact P "chain_intact P" UNIV for P
  by unfold_locales (rule keeps_set_files)

interpretation host_append_only: host_fact P "log_extends es" UNIV for P es
  by unfold_locales (rule keeps_set_files)

interpretation host_repo: host_fact P repo_ok UNIV for P
  by unfold_locales (rule keeps_set_files)

interpretation host_evidence: host_fact P "evidence_ok P" UNIV for P
  by unfold_locales (rule keeps_set_files)

definition on_files :: "(files \<Rightarrow> bool) \<Rightarrow> 'z host_scheme \<Rightarrow> bool" where
  "on_files Q s = Q (hs_files s)"

interpretation files_untouched: kept_fact P "on_files Q" UNIV for P Q
  by unfold_locales (simp_all add: keeps_def on_files_def run_prims)

text \<open>
  Whatever the outcome of executing a plan, also when it raises, the audit chain still verifies,
  the log before it is a prefix of the log after it, and stored evidence still hashes to its key.
\<close>

theorem execute_plan_keeps_platform:
  assumes "chain_intact P s" and "evidence_ok P s" and "repo_ok s"
    and "run_state (execute_plan P S plan scope actor ex) s = (r, t)"
  shows "chain_intact P t \<and> evidence_ok P t \<and> repo_ok t \<and> (\<exists>more. sv_events t = sv_events s @ more)"
proof -
  have "log_extends (sv_events s) s" by (simp add: on_events_def)
  from keepsD [OF host_append_only.execute_plan_keeps this assms(4)] have "log_extends (sv_events s) t" by simp
  moreover have "chain_intact P t" using keepsD [OF host_chain.execute_plan_keeps assms(1,4)] by simp
  moreover have "evidence_ok P t" using keepsD [OF host_evidence.execute_plan_keeps assms(2,4)] by simp
  moreover have "repo_ok t" using keepsD [OF host_repo.execute_plan_keeps assms(3,4)] by simp
  ultimately show ?thesis by (simp add: on_events_def)
qed

section \<open>No change without permission\<close>

text \<open>The request the gate is asked, with the id and the time it takes from the state.\<close>

definition gate_request :: "'z svc_scheme \<Rightarrow> string \<Rightarrow> ActionPlan \<Rightarrow> string \<Rightarrow> bool \<Rightarrow> ActionRequest" where
  "gate_request s actor plan target approved = make_request (id_of ''REQ'' (Suc (sv_ids s ''REQ''))) actor plan target approved
     (isoformat (fst (clock_now (sv_clock s))))"

lemma evaluate_executionD:
  assumes "run_state (evaluate_execution P plan scope actor) s = (Inr (d, plan'), t)"
  obtains approval a c where "valid_approval P (repo_list ''approvals'' (sv_repo s)) plan scope = Inr approval"
    and "asset_of plan = Inr a"
    and "d = fst (evaluate P c (gate_request s actor plan a (approval \<noteq> None)) scope)"
    and "plan' = plan\<lparr>ap_status := (if pd_effect d = ALLOW then PLAN_APPROVED else PLAN_PROPOSED)\<rparr>"
  using assms unfolding evaluate_execution_def
  by (auto simp: gate_request_def [symmetric] run_bind run_list_rows run_from_result run_prims run_policy_evaluate Let_def
      simp del: run_state_bind not_None_eq elim!: try_bind_InrE intro: that)

lemma evaluate_effect: "pd_effect (fst (evaluate P c rq sc)) = ALLOW \<longleftrightarrow> decide P rq sc = ALLOW_OK"
  by (simp add: evaluate_def Let_def split_beta)

lemma try_bind_cases:
  assumes "run_state (try_bind m f) s = (r, t)"
  obtains (error) e where "run_state m s = (Inl e, t)" and "r = Inl e"
    | (ok) x u where "run_state m s = (Inr x, u)" and "run_state (f x) u = (r, t)"
  using assms by (auto simp: run_try_bind split: prod.splits sum.splits)

text \<open>A mismatched executor does nothing to the host.\<close>

lemma run_executor_guard:
  assumes "run_state (run_executor P S ex actor plan outcome) s = (r, t)" and "hs_files t \<noteq> hs_files s"
  shows "ex_action_type ex = ap_action_type plan \<and> map_of (ap_target plan) ''asset_id'' = Some (JStr (ex_asset_id ex))"
proof (rule ccontr)
  assume "\<not> ?thesis"
  then have "refusal ex plan (get_or (ap_target plan) ''asset_id'' JNull) \<noteq> None"
    by (auto simp: refusal_def get_or_def split: option.splits)
  then obtain msg where "refusal ex plan (get_or (ap_target plan) ''asset_id'' JNull) = Some msg" by blast
  then have "hs_files t = hs_files s"
    using assms(1) by (auto simp: run_executor_def Let_def start_change_def run_try_bind run_bind run_record_event simp del: run_state_bind)
  with assms(2) show False ..
qed

text \<open>
  C3: no file of the host changes without permission. If executing a plan leaves any file different from
  before, however it ends, then the scope permits the request for exactly this plan, actor and host at the
  time read from the clock, with the approval on record at the start, and the executor is the one for the
  plan's action on the plan's host.
\<close>

theorem host_changes_only_when_permitted:
  assumes "run_state (execute_plan P S plan scope actor ex) s = (r, t)" and "hs_files t \<noteq> hs_files s"
    and "fromisoformat P [] = None"
  shows "\<exists>approval a. valid_approval P (repo_list ''approvals'' (sv_repo s)) plan scope = Inr approval
    \<and> asset_of plan = Inr a \<and> permits P (gate_request s actor plan a (approval \<noteq> None)) scope
    \<and> ex_action_type ex = ap_action_type plan \<and> map_of (ap_target plan) ''asset_id'' = Some (JStr (ex_asset_id ex))"
  using assms(1) unfolding execute_plan_def
proof (cases rule: try_bind_cases)
  case (error e)
  have "on_files (\<lambda>fs. fs = hs_files s) t"
    by (rule keepsD [OF files_untouched.plans_keep(3) _ error(1)]) (simp_all add: on_files_def)
  then show ?thesis using assms(2) by (simp add: on_files_def)
next
  case (ok x u)
  obtain d plan' where x: "x = (d, plan')" by (cases x)
  have "on_files (\<lambda>fs. fs = hs_files s) u"
    by (rule keepsD [OF files_untouched.plans_keep(3) _ ok(1)]) (simp_all add: on_files_def)
  then have files: "hs_files u = hs_files s" by (simp add: on_files_def)
  obtain approval a c where e: "valid_approval P (repo_list ''approvals'' (sv_repo s)) plan scope = Inr approval"
    "asset_of plan = Inr a" "d = fst (evaluate P c (gate_request s actor plan a (approval \<noteq> None)) scope)"
    and plan': "plan' = plan\<lparr>ap_status := (if pd_effect d = ALLOW then PLAN_APPROVED else PLAN_PROPOSED)\<rparr>"
    using ok(1) unfolding x by (rule evaluate_executionD)
  have allow: "pd_effect d = ALLOW" and run: "\<exists>outcome. run_state (run_executor P S ex actor plan' outcome) u = (r, t)"
    using ok(2) assms(2) files
    by (auto simp: x run_bind run_list_rows run_try_bind run_from_result Let_def simp del: run_state_bind split: sum.splits if_splits)
  have "ex_action_type ex = ap_action_type plan' \<and> map_of (ap_target plan') ''asset_id'' = Some (JStr (ex_asset_id ex))"
    using run run_executor_guard assms(2) files by metis
  moreover have "permits P (gate_request s actor plan a (approval \<noteq> None)) scope"
    using allow e(3) by (simp add: evaluate_effect decide_allow_iff [OF assms(3)])
  ultimately show ?thesis using e plan' by auto
qed

section \<open>What an approval is bound to\<close>

lemma decisions_on_sound:
  "decisions_on i h rows = Inr ds \<Longrightarrow> a \<in> set ds \<Longrightarrow> apr_subject_ref a = i \<and> apr_policy_hash a = h \<and> (\<exists>r \<in> set rows. approval_of_row r = Some a)"
proof (induction rows arbitrary: ds)
  case (Cons r rows)
  have row: "approval_of_row r = Some b \<Longrightarrow> key r ''subject_ref'' = Inr (JStr i) \<Longrightarrow> key r ''policy_hash'' = Inr (JStr h)
    \<Longrightarrow> apr_subject_ref b = i \<and> apr_policy_hash b = h" for b
    by (auto simp: approval_of_row_def row_str_def key_def split: option.splits json.splits)
  obtain sub where sub: "key r ''subject_ref'' = Inr sub" using Cons.prems(1) by (cases "key r ''subject_ref''") auto
  show ?case
  proof (cases "sub = JStr i \<and> key r ''policy_hash'' = Inr (JStr h)")
    case True
    then obtain b bs where "approval_of_row r = Some b" "decisions_on i h rows = Inr bs" "ds = b # bs"
      using Cons.prems(1) sub by (auto split: option.splits simp: and_then_def split: sum.splits)
    then show ?thesis using True sub row Cons.IH Cons.prems(2) by auto
  next
    case False
    then have "decisions_on i h rows = Inr ds"
      using Cons.prems(1) sub by (auto simp: and_then_def split: if_splits sum.splits)
    then show ?thesis using Cons.IH Cons.prems(2) by auto
  qed
qed simp

lemma plan_hash_eqD:
  assumes "plan_hash P a = plan_hash P b" and "\<not> digest_collision P"
    and "wf_json (JObj (ap_target a))" "wf_json (JObj (ap_parameters a))" "wf_json (JObj (ap_target b))" "wf_json (JObj (ap_parameters b))"
  shows "ap_action_plan_id a = ap_action_plan_id b \<and> ap_action_type a = ap_action_type b \<and> ap_risk_level a = ap_risk_level b
    \<and> ap_rollback a = ap_rollback b \<and> sort_keys (JObj (ap_target a)) = sort_keys (JObj (ap_target b))
    \<and> sort_keys (JObj (ap_parameters a)) = sort_keys (JObj (ap_parameters b))"
proof -
  have risk: "risk_level_value x = risk_level_value y \<Longrightarrow> x = y" for x y by (cases x; cases y) simp_all
  let ?r = "\<lambda>p. [(''action_plan_id'', JStr (ap_action_plan_id p)), (''action_type'', JStr (ap_action_type p)),
     (''risk_level'', JStr (risk_level_value (ap_risk_level p))), (''target'', JObj (ap_target p)),
     (''parameters'', JObj (ap_parameters p)), (''rollback'', JStr (ap_rollback p))]"
  have "sort_keys (JObj (?r a)) = sort_keys (JObj (?r b))"
    using assms by (intro policy_hash_eqD [of P]) (simp_all add: plan_hash_def)
  then have "map_option sort_keys (map_of (?r a) k) = map_option sort_keys (map_of (?r b) k)" for k
    by (rule sort_keys_fields) simp_all
  note f = this [of "''action_plan_id''"] this [of "''action_type''"] this [of "''risk_level''"] this [of "''target''"]
    this [of "''parameters''"] this [of "''rollback''"]
  from f show ?thesis by (simp add: risk)
qed

lemma plan_hash_eqI:
  assumes "ap_action_plan_id a = ap_action_plan_id b" "ap_action_type a = ap_action_type b" "ap_risk_level a = ap_risk_level b"
    "ap_rollback a = ap_rollback b" "sort_keys (JObj (ap_target a)) = sort_keys (JObj (ap_target b))"
    "sort_keys (JObj (ap_parameters a)) = sort_keys (JObj (ap_parameters b))"
  shows "plan_hash P a = plan_hash P b"
  using assms by (simp add: plan_hash_def policy_hash_def canonical_json_def)


section \<open>Every execution ends verified or rolled back\<close>

lemma put_file_ok:
  "regular (hs_files s) path = Some b \<Longrightarrow> run_state (put_file P path) s = (Inr (content_hash P b), snd (run_state (put_evidence P b) s))"
  by (simp add: put_file_def run_bind run_succeed run_put_evidence del: run_state_bind)

lemma run_set_status:
  "run_state (set_status plan st) s = (plan\<lparr>ap_status := st\<rparr>, s\<lparr>sv_repo := repo_save ''action_plans'' (ap_action_plan_id plan)
     (dump_action_plan (plan\<lparr>ap_status := st\<rparr>)) (sv_repo s)\<rparr>)"
  by (simp add: set_status_def Let_def run_bind run_save del: run_state_bind)

lemmas run_host = run_bind run_try_bind run_prims run_set_status put_file_ok host_state_now_def run_verify_def run_raise set_files_def

lemma roll_back_restores:
  assumes "executor_apply P S rt i ps fs = Inr (ch, fs')" and "hs_files s = fs'"
  shows "\<exists>out t. run_state (roll_back P S name target plan v ch outcome) s = (Inr out, t)
    \<and> ap_status (xo_plan out) = PLAN_ROLLED_BACK \<and> xo_change out = xo_change outcome \<and> xo_verification out = xo_verification outcome
    \<and> regular (hs_files t) MAIN = regular fs MAIN \<and> hs_files t (ch_backup ch) = fs' (ch_backup ch)
    \<and> (\<forall>p. p \<noteq> MAIN \<and> p \<noteq> ch_backup ch \<longrightarrow> hs_files t p = fs p)"
  using assms(1)
proof (rule executor_applyD)
  fix before lines edits wanted
  assume b: "regular fs MAIN = Some before" "ch_before_sha256 ch = content_hash P before" "ch_backup ch = backup_path P i before"
    "fs' = fs(backup_path P i before \<mapsto> RegularFile before, MAIN \<mapsto> RegularFile (concat lines))"
  then have "executor_rollback P ch fs' = Inr ((content_hash P before, True), fs'(MAIN \<mapsto> RegularFile before))"
    by (simp add: executor_rollback_def)
  then show ?thesis using b assms(2)
    by (simp add: roll_back_def run_rollback_def run_host Let_def del: run_state_bind fun_upd_apply) simp
qed

lemma finish_change_ends:
  assumes "executor_apply P S (hs_root s) (ap_action_plan_id plan) (ap_parameters plan) fs = Inr (ch, fs')" and "hs_files s = fs'"
  shows "\<exists>out t v. run_state (finish_change P S name target actor plan bf ch outcome) s = (Inr out, t)
    \<and> xo_change out = Some ch \<and> xo_verification out = Some v
    \<and> (if vf_ok v then ap_status (xo_plan out) = PLAN_VERIFIED \<and> hs_files t = fs'
       else ap_status (xo_plan out) = PLAN_ROLLED_BACK \<and> regular (hs_files t) MAIN = regular fs MAIN
         \<and> hs_files t (ch_backup ch) = fs' (ch_backup ch)
         \<and> (\<forall>p. p \<noteq> MAIN \<and> p \<noteq> ch_backup ch \<longrightarrow> hs_files t p = fs p))"
proof -
  obtain before lines edits wanted where b: "desired (ap_parameters plan) = Inr wanted" "regular fs MAIN = Some before"
    "ch_backup ch = backup_path P (ap_action_plan_id plan) before"
    "fs' = fs(backup_path P (ap_action_plan_id plan) before \<mapsto> RegularFile before, MAIN \<mapsto> RegularFile (concat lines))"
    using assms(1) by (rule executor_applyD)
  have reg: "regular fs' (ch_backup ch) = Some before" "regular fs' MAIN = Some (concat lines)" using b by simp_all
  obtain v where v: "executor_verify P S (hs_root s) (ap_parameters plan) fs' = Inr v"
    using b(1) reg(2) by (simp add: executor_verify_def Let_def)
  show ?thesis
  proof (cases "vf_ok v")
    case True
    then show ?thesis using assms(2) reg v
      by (simp add: finish_change_def run_host Let_def del: run_state_bind)
  next
    case False
    obtain outcome' u where "run_state (finish_change P S name target actor plan bf ch outcome) s
        = run_state (roll_back P S name target plan v ch outcome') u"
      and u: "hs_files u = fs'" "xo_change outcome' = Some ch" "xo_verification outcome' = Some v"
    proof
      show "run_state (finish_change P S name target actor plan bf ch outcome) s = run_state (roll_back P S name target plan v ch
          (outcome\<lparr>xo_plan := plan\<lparr>ap_status := PLAN_EXECUTED\<rparr>, xo_change := Some ch, xo_verification := Some v,
             xo_states := [(''before'', bf), (''after'', host_state S (hs_root s) fs')]\<rparr>)) (snd (run_state (do {
               put_evidence P before; put_evidence P (concat lines); set_status plan PLAN_EXECUTED;
               record_event P ''execution.applied'' name None (Some (ap_action_plan_id plan))
                 [(''target'', target), (''requested_by'', JStr actor), (''file'', JStr (ch_file ch)),
                  (''before_sha256'', JStr (ch_before_sha256 ch)), (''after_sha256'', JStr (ch_after_sha256 ch)),
                  (''backup'', JStr (ch_backup ch)), (''edits'', JList (map JObj (ch_edits ch))), (''diff'', JStrs (ch_diff ch)),
                  (''state_before'', JObj bf), (''state_after'', JObj (host_state S (hs_root s) fs')),
                  (''reload'', JStr ''skipped: lab copy, no daemon'')];
               ref \<leftarrow> put_evidence P (canonical_json (JObj (verification_to_dict v)));
               record_event P ''execution.verified'' ''verifier.sshd_config'' None (Some (ap_action_plan_id plan))
                 ((''target'', target) # verification_to_dict v @ [(''report_ref'', JStr ref)]) }) s))"
        using False assms(2) reg v by (simp add: finish_change_def run_host Let_def del: run_state_bind)
    qed (use assms(2) in \<open>simp_all add: run_host del: run_state_bind\<close>)
    with roll_back_restores [OF assms(1) u(1), of name target plan v outcome'] False show ?thesis by auto
  qed
qed

lemma plan_hash_status [simp]: "plan_hash P (plan\<lparr>ap_status := st\<rparr>) = plan_hash P plan"
  by (simp add: plan_hash_def)

lemma valid_approval_status [simp]: "valid_approval P rows (plan\<lparr>ap_status := st\<rparr>) scope = valid_approval P rows plan scope"
  unfolding valid_approval_def plan_hash_status by simp

text \<open>The gate's run when it allows: the approvals and the host are as before.\<close>

lemma evaluate_execution_allows:
  assumes "repo_ok s" and "valid_approval P (repo_list ''approvals'' (sv_repo s)) plan scope = Inr approval" and "asset_of plan = Inr a"
    and "decide P (gate_request s actor plan a (approval \<noteq> None)) scope = ALLOW_OK"
  shows "\<exists>d u. run_state (evaluate_execution P plan scope actor) s = (Inr (d, plan\<lparr>ap_status := PLAN_APPROVED\<rparr>), u)
    \<and> pd_effect d = ALLOW \<and> repo_list ''approvals'' (sv_repo u) = repo_list ''approvals'' (sv_repo s)
    \<and> hs_files u = hs_files (s :: 'z host_scheme) \<and> hs_root u = hs_root s"
proof -
  have "repo_entries ''approvals'' (repo_save ''action_plans'' j e (repo_save ''policy_decisions'' i d (sv_repo s)))
      = repo_entries ''approvals'' (sv_repo s)" for i j d e
    using assms(1) by (simp add: on_repo_def in_memory.entries_other in_memory.invar_save)
  then show ?thesis
    using assms(2-4) evaluate_effect [of P _ "gate_request s actor plan a (approval \<noteq> None)" scope]
    by (simp add: evaluate_execution_def run_bind run_try_bind run_list_rows run_from_result run_prims run_policy_evaluate
        gate_request_def [symmetric] repo_list_entries Let_def del: run_state_bind not_None_eq)
qed

lemma permitted_plan_runs:
  assumes "repo_ok s" and "valid_approval P (repo_list ''approvals'' (sv_repo s)) plan scope = Inr approval"
    and "map_of (ap_target plan) ''asset_id'' = Some (JStr (ex_asset_id ex))" and "ex_action_type ex = ap_action_type plan"
    and "permits P (gate_request s actor plan (ex_asset_id ex) (approval \<noteq> None)) scope" and "fromisoformat P [] = None"
    and "executor_apply P S (hs_root s) (ap_action_plan_id plan) (ap_parameters plan) (hs_files s) = Inr (ch, fs')"
  shows "\<exists>out t v. run_state (execute_plan P S plan scope actor ex) s = (Inr out, t)
    \<and> xo_change out = Some ch \<and> xo_verification out = Some v
    \<and> (if vf_ok v then ap_status (xo_plan out) = PLAN_VERIFIED \<and> hs_files t = fs'
       else ap_status (xo_plan out) = PLAN_ROLLED_BACK \<and> regular (hs_files t) MAIN = regular (hs_files s) MAIN
         \<and> hs_files t (ch_backup ch) = fs' (ch_backup ch)
         \<and> (\<forall>p. p \<noteq> MAIN \<and> p \<noteq> ch_backup ch \<longrightarrow> hs_files t p = hs_files s p))"
proof -
  have asset: "asset_of plan = Inr (ex_asset_id ex)" using assms(3) by (simp add: asset_of_def)
  let ?plan = "plan\<lparr>ap_status := PLAN_APPROVED\<rparr>"
  from evaluate_execution_allows [OF assms(1,2) asset, of actor] obtain d u where
    ev: "run_state (evaluate_execution P plan scope actor) s = (Inr (d, ?plan), u)" and d: "pd_effect d = ALLOW"
    and u: "repo_list ''approvals'' (sv_repo u) = repo_list ''approvals'' (sv_repo s)" "hs_files u = hs_files s" "hs_root u = hs_root s"
    using assms(5) decide_allow_iff [OF assms(6)] by blast
  let ?out = "\<lparr>xo_plan = ?plan, xo_decision = d, xo_approval = approval, xo_refused = None, xo_change = None,
    xo_verification = None, xo_rollback = None, xo_states = []\<rparr>"
  have "run_state (execute_plan P S plan scope actor ex) s = run_state (run_executor P S ex actor ?plan ?out) u"
    using d u assms(2) by (simp add: execute_plan_def run_bind run_try_bind run_list_rows run_from_result ev Let_def del: run_state_bind)
  also have "\<dots> = run_state (finish_change P S (''executor.'' @ ap_action_type plan) (JStr (ex_asset_id ex)) actor ?plan
      (host_state S (hs_root s) (hs_files s)) ch ?out) (u\<lparr>hs_files := fs'\<rparr>)"
    using assms(3,4,7) u by (simp add: run_executor_def start_change_def refusal_def get_or_def run_host Let_def del: run_state_bind)
  finally show ?thesis
    using finish_change_ends [of P S "u\<lparr>hs_files := fs'\<rparr>" ?plan "hs_files s" ch fs' "''executor.'' @ ap_action_type plan"
        "JStr (ex_asset_id ex)" actor "host_state S (hs_root s) (hs_files s)" ?out] assms(7) u
    by simp
qed

text \<open>
  C4: a permitted plan is carried out, and every execution that starts ends verified or rolled back.
  If the scope permits the plan with the approvals on record, the executor is the plan's and can apply
  its parameters, then executing returns; a passing verification leaves the executor's edit in place
  and the plan verified, a failing one leaves the plan rolled back with every file as before, except
  the backup.
\<close>

theorem permitted_plan_ends_verified_or_rolled_back:
  assumes "repo_ok s" and "valid_approval P (repo_list ''approvals'' (sv_repo s)) plan scope = Inr approval"
    and "map_of (ap_target plan) ''asset_id'' = Some (JStr (ex_asset_id ex))" and "ex_action_type ex = ap_action_type plan"
    and "permits P (gate_request s actor plan (ex_asset_id ex) (approval \<noteq> None)) scope" and "fromisoformat P [] = None"
    and "executor_apply P S (hs_root s) (ap_action_plan_id plan) (ap_parameters plan) (hs_files s) = Inr (ch, fs')"
  shows "\<exists>out t v. run_state (execute_plan P S plan scope actor ex) s = (Inr out, t)
    \<and> xo_change out = Some ch \<and> xo_verification out = Some v
    \<and> (if vf_ok v then ap_status (xo_plan out) = PLAN_VERIFIED \<and> hs_files t = fs'
       else ap_status (xo_plan out) = PLAN_ROLLED_BACK \<and> regular (hs_files t) MAIN = regular (hs_files s) MAIN
         \<and> hs_files t (ch_backup ch) = fs' (ch_backup ch)
         \<and> (\<forall>p. p \<noteq> MAIN \<and> p \<noteq> ch_backup ch \<longrightarrow> hs_files t p = hs_files s p))"
  using assms by (rule permitted_plan_runs)

section \<open>A worked execution\<close>

text \<open>A small instance: a constant digest, one instant, and the first second of year 1.\<close>

definition small_py :: py where
  "small_py = sample_py\<lparr>hexdigest := (\<lambda>_. ''0''), fromisoformat := (\<lambda>s. if s = [] then None else Some (Aware 0))\<rparr>"

definition small_scope :: AssessmentScope where
  "small_scope = \<lparr>sc_scope_id = ''S'', sc_scope_version = 1, sc_policy_hash = ''h'', sc_approved = True,
     sc_autonomy_level = EXECUTE_AFTER_APPROVAL, sc_allowed_actors = [''op''], sc_target_allowlist = [''web''],
     sc_valid_from = None, sc_valid_until = None\<rparr>"

definition small_plan :: ActionPlan where
  "small_plan = \<lparr>ap_action_plan_id = ''P'', ap_title = [], ap_action_type = ''harden_ssh_access'', ap_risk_level = RISK_MEDIUM,
     ap_status = PLAN_PROPOSED, ap_target = [(''asset_id'', JStr ''web'')], ap_parameters = [(''disable_root_login'', JBool True)],
     ap_rollback = [], ap_requires_approval = True, ap_created_from = None, ap_evidence_ids = [], ap_created_at = []\<rparr>"

definition small_approval :: Approval where
  "small_approval = \<lparr>apr_approval_id = ''A'', apr_subject_ref = ''P'', apr_decision = ''approved'', apr_approver = ''op'',
     apr_plan_hash = plan_hash small_py small_plan, apr_policy_hash = ''h'', apr_decided_at = []\<rparr>"

definition small_host :: host where
  "small_host = \<lparr>sv_repo = InMemory [(''approvals'', [(''A'', dump_approval small_approval)])], sv_vault = [],
     sv_clock = FixedClock (-62135596800000000), sv_ids = empty_ids, sv_events = [], sv_agents = [], hs_root = ''/lab'', hs_files = sample_files\<rparr>"

definition small_executor :: executor where
  "small_executor = \<lparr>ex_asset_id = ''web'', ex_action_type = ''harden_ssh_access''\<rparr>"

lemma small_allowed: "decide small_py (gate_request small_host ''op'' small_plan ''web'' True) small_scope = ALLOW_OK"
  by code_simp

lemma small_valid: "valid_approval small_py (repo_list ''approvals'' (sv_repo small_host)) small_plan small_scope = Inr (Some small_approval)"
  by code_simp

lemma small_apply:
  obtains ch fs' where "executor_apply small_py sample_os (hs_root small_host) (ap_action_plan_id small_plan) (ap_parameters small_plan)
    (hs_files small_host) = Inr (ch, fs')"
proof -
  have "is_ok (executor_apply small_py sample_os (hs_root small_host) (ap_action_plan_id small_plan) (ap_parameters small_plan)
    (hs_files small_host))" by code_simp
  then show ?thesis using that
    by (cases "executor_apply small_py sample_os (hs_root small_host) (ap_action_plan_id small_plan) (ap_parameters small_plan)
    (hs_files small_host)") auto
qed

lemma small_facts: "fromisoformat small_py [] = None" "repo_ok small_host"
  "map_of (ap_target small_plan) ''asset_id'' = Some (JStr (ex_asset_id small_executor))"
  "ex_action_type small_executor = ap_action_type small_plan"
  "permits small_py (gate_request small_host ''op'' small_plan (ex_asset_id small_executor) (Some small_approval \<noteq> None)) small_scope"
proof -
  show iso: "fromisoformat small_py [] = None" by (simp add: small_py_def)
  show "repo_ok small_host" by (simp add: small_host_def on_repo_def mem_invar_def mem_entries_def)
  show "map_of (ap_target small_plan) ''asset_id'' = Some (JStr (ex_asset_id small_executor))"
    by (simp add: small_plan_def small_executor_def)
  show "ex_action_type small_executor = ap_action_type small_plan" by (simp add: small_plan_def small_executor_def)
  show "permits small_py (gate_request small_host ''op'' small_plan (ex_asset_id small_executor) (Some small_approval \<noteq> None)) small_scope"
    using small_allowed by (simp add: decide_allow_iff [OF iso] small_executor_def)
qed

theorem permitted_plan_ends_verified_or_rolled_back_witness:
  "\<exists>out t v. run_state (execute_plan small_py sample_os small_plan small_scope ''op'' small_executor) small_host = (Inr out, t)
     \<and> xo_verification out = Some v \<and> ap_status (xo_plan out) \<in> {PLAN_VERIFIED, PLAN_ROLLED_BACK}"
proof -
  obtain ch fs' where "executor_apply small_py sample_os (hs_root small_host) (ap_action_plan_id small_plan) (ap_parameters small_plan)
    (hs_files small_host) = Inr (ch, fs')" by (rule small_apply)
  from permitted_plan_ends_verified_or_rolled_back [OF small_facts(2) small_valid small_facts(3,4,5,1) this]
  show ?thesis by (auto split: if_splits)
qed

theorem host_changes_only_when_permitted_witness:
  "\<exists>r t. run_state (execute_plan small_py sample_os small_plan small_scope ''op'' small_executor) small_host = (r, t)
     \<and> hs_files t \<noteq> hs_files small_host \<and> (\<exists>rq. permits small_py rq small_scope)"
proof -
  obtain ch fs' where ap: "executor_apply small_py sample_os (hs_root small_host) (ap_action_plan_id small_plan) (ap_parameters small_plan)
    (hs_files small_host) = Inr (ch, fs')" by (rule small_apply)
  from permitted_plan_runs [OF small_facts(2) small_valid small_facts(3,4,5,1) ap] obtain out t where
    run: "run_state (execute_plan small_py sample_os small_plan small_scope ''op'' small_executor) small_host = (Inr out, t)"
    and t: "hs_files t (ch_backup ch) = fs' (ch_backup ch)" by (auto split: if_splits)
  have "fs' (ch_backup ch) \<noteq> None" "hs_files small_host (ch_backup ch) = None"
    using ap by (auto elim!: executor_applyD simp: small_host_def sample_files_def)
  then have "hs_files t \<noteq> hs_files small_host" using t by metis
  with host_changes_only_when_permitted [OF run this small_facts(1)] run show ?thesis by blast
qed

theorem execute_plan_keeps_platform_witness:
  "chain_intact small_py small_host
   \<and> chain_intact small_py (snd (run_state (execute_plan small_py sample_os small_plan small_scope ''op'' small_executor) small_host))"
proof -
  have ok: "chain_intact small_py small_host" "evidence_ok small_py small_host" by (simp_all add: small_host_def on_defs)
  show ?thesis
    using execute_plan_keeps_platform [OF ok small_facts(2), of sample_os small_plan small_scope "''op''" small_executor
        "fst (run_state (execute_plan small_py sample_os small_plan small_scope ''op'' small_executor) small_host)"] ok(1)
    by (simp add: prod_eq_iff)
qed

definition sample_approval :: Approval where
  "sample_approval = small_approval\<lparr>apr_plan_hash := plan_hash sample_py small_plan\<rparr>"


section \<open>Recording a decision\<close>

definition approvals_ok :: "'z svc_scheme \<Rightarrow> bool" where
  "approvals_ok s \<longleftrightarrow> repo_ok s \<and>
     (\<exists>as. repo_entries ''approvals'' (sv_repo s) = map (\<lambda>a. (apr_approval_id a, dump_approval a)) as
        \<and> list_all (\<lambda>a. \<exists>n \<le> sv_ids s ''APR''. apr_approval_id a = id_of ''APR'' n) as)"

lemma decisions_on_dump:
  "decisions_on i h (map dump_approval as) = Inr (filter (\<lambda>a. apr_subject_ref a = i \<and> apr_policy_hash a = h) as)"
proof (induction as)
  case (Cons a as)
  have "key (dump_approval a) ''subject_ref'' = Inr (JStr (apr_subject_ref a))" "key (dump_approval a) ''policy_hash'' = Inr (JStr (apr_policy_hash a))"
    by (simp_all add: key_def dump_approval_def)
  with Cons show ?case by simp
qed simp

lemma max_by_snoc: "max_by f b (xs @ [x]) = (if f (max_by f b xs) < f x then x else max_by f b xs)"
  by (induction xs arbitrary: b) auto

lemma latest_is_last:
  assumes "\<forall>y \<in> set ys. f y < f x" and "ys @ [x] = d # rest"
  shows "max_by f d rest = x"
proof (cases ys)
  case (Cons y zs)
  with assms(2) have "d = y" "rest = zs @ [x]" by auto
  moreover have "f (max_by f y zs) < f x" using assms(1) max_by_in [of f y zs] Cons by auto
  ultimately show ?thesis by (simp add: max_by_snoc)
qed (use assms in simp)

lemma record_approval_runs:
  assumes "approver \<in> set (sc_allowed_actors scope)" and "decision = ''approved'' \<or> decision = ''rejected''"
  obtains a t where "run_state (record_approval P plan scope approver decision) s = (Inr a, t)"
    and "a = \<lparr>apr_approval_id = id_of ''APR'' (Suc (sv_ids s ''APR'')), apr_subject_ref = ap_action_plan_id plan, apr_decision = decision,
      apr_approver = approver, apr_plan_hash = plan_hash P plan, apr_policy_hash = sc_policy_hash scope,
      apr_decided_at = isoformat (fst (clock_now (sv_clock s)))\<rparr>"
    and "sv_repo t = repo_save ''approvals'' (apr_approval_id a) (dump_approval a) (sv_repo s)"
    and "sv_ids t ''APR'' = Suc (sv_ids s ''APR'')"
  using assms by (auto simp: record_approval_def run_bind run_prims Let_def simp del: run_state_bind)

lemma latest_decision_governs:
  assumes "approvals_ok s" and "sv_ids s ''APR'' < 9999" and "approver \<in> set (sc_allowed_actors scope)"
    and "decision = ''approved'' \<or> decision = ''rejected''"
  obtains a t where "run_state (record_approval P plan scope approver decision) s = (Inr a, t)" and "approvals_ok t"
    and "apr_approval_id a = id_of ''APR'' (Suc (sv_ids s ''APR''))" and "sv_ids t ''APR'' = Suc (sv_ids s ''APR'')"
    and "valid_approval P (repo_list ''approvals'' (sv_repo t)) plan scope = Inr (if decision = ''approved'' then Some a else None)"
proof -
  from assms(1) obtain as where inv: "repo_invar (sv_repo s)"
    and es: "repo_entries ''approvals'' (sv_repo s) = map (\<lambda>a. (apr_approval_id a, dump_approval a)) as"
    and ids: "\<forall>a \<in> set as. \<exists>n \<le> sv_ids s ''APR''. apr_approval_id a = id_of ''APR'' n"
    by (auto simp: approvals_ok_def on_repo_def list_all_iff)
  obtain a t where run: "run_state (record_approval P plan scope approver decision) s = (Inr a, t)"
    and a: "a = \<lparr>apr_approval_id = id_of ''APR'' (Suc (sv_ids s ''APR'')), apr_subject_ref = ap_action_plan_id plan, apr_decision = decision,
      apr_approver = approver, apr_plan_hash = plan_hash P plan, apr_policy_hash = sc_policy_hash scope,
      apr_decided_at = isoformat (fst (clock_now (sv_clock s)))\<rparr>"
    and t: "sv_repo t = repo_save ''approvals'' (apr_approval_id a) (dump_approval a) (sv_repo s)" "sv_ids t ''APR'' = Suc (sv_ids s ''APR'')"
    using assms(3,4) by (rule record_approval_runs)
  have new: "\<forall>x \<in> set as. apr_approval_id x < apr_approval_id a" using ids assms(2) by (auto simp: id_of_less_iff a)
  have ent: "repo_entries ''approvals'' (sv_repo t) = map (\<lambda>a. (apr_approval_id a, dump_approval a)) (as @ [a])"
  proof -
    have "apr_approval_id a \<notin> fst ` set (repo_entries ''approvals'' (sv_repo s))" using new by (auto simp: es)
    moreover have "repo_entries ''approvals'' (sv_repo t)
        = dict_set (apr_approval_id a) (dump_approval a) (repo_entries ''approvals'' (sv_repo s))"
      unfolding t by (rule in_memory.entries_save [OF inv]) (use new in \<open>auto simp: es\<close>)
    ultimately show ?thesis by (simp add: dict_set_fresh es)
  qed
  have "list_all (\<lambda>x. \<exists>n \<le> sv_ids t ''APR''. apr_approval_id x = id_of ''APR'' n) (as @ [a])"
    using ids unfolding list_all_iff t(2) by (auto intro: le_SucI simp: a)
  then have "approvals_ok t"
    unfolding approvals_ok_def on_repo_def using in_memory.invar_save [OF inv] ent t(1)
    by (intro conjI exI [of _ "as @ [a]"]) (simp_all only:)
  moreover have "valid_approval P (repo_list ''approvals'' (sv_repo t)) plan scope = Inr (if decision = ''approved'' then Some a else None)"
  proof -
    let ?m = "filter (\<lambda>a. apr_subject_ref a = ap_action_plan_id plan \<and> apr_policy_hash a = sc_policy_hash scope) as"
    obtain d rest where ds: "?m @ [a] = d # rest" by (cases "?m @ [a]") auto
    have "repo_list ''approvals'' (sv_repo t) = map dump_approval (as @ [a])" by (simp add: repo_list_entries ent)
    then have "decisions_on (ap_action_plan_id plan) (sc_policy_hash scope) (repo_list ''approvals'' (sv_repo t)) = Inr (d # rest)"
      using ds by (simp only: decisions_on_dump filter_append) (simp add: a)
    moreover have "max_by apr_approval_id d rest = a" using new by (intro latest_is_last [OF _ ds]) auto
    ultimately show ?thesis by (simp add: valid_approval_def Let_def a)
  qed
  ultimately show thesis using run t(2) by (intro that) (simp_all add: a)
qed

text \<open>
  C6: the gate acts on the latest recorded decision. As long as fewer than 9999 decisions were recorded,
  recording one keeps the approvals well formed, and afterwards the gate finds a valid approval for the plan under
  the scope exactly if the decision just recorded approves; a rejection withdraws any earlier approval.
\<close>

theorem recorded_decision_is_latest:
  assumes "approvals_ok s" and "sv_ids s ''APR'' < 9999" and "approver \<in> set (sc_allowed_actors scope)"
    and "decision = ''approved'' \<or> decision = ''rejected''"
  shows "\<exists>a t. run_state (record_approval P plan scope approver decision) s = (Inr a, t) \<and> approvals_ok t
    \<and> valid_approval P (repo_list ''approvals'' (sv_repo t)) plan scope = Inr (if decision = ''approved'' then Some a else None)"
proof -
  obtain a t where "run_state (record_approval P plan scope approver decision) s = (Inr a, t)" "approvals_ok t"
    "valid_approval P (repo_list ''approvals'' (sv_repo t)) plan scope = Inr (if decision = ''approved'' then Some a else None)"
    using assms by (rule latest_decision_governs)
  then show ?thesis by blast
qed

lemma small_host_approvals_ok: "approvals_ok (small_host\<lparr>sv_repo := InMemory []\<rparr>)"
  by (simp add: approvals_ok_def on_repo_def mem.invar_empty mem_entries_def)

theorem recorded_decision_is_latest_witness:
  "\<exists>a t. run_state (record_approval small_py small_plan small_scope ''op'' ''rejected'') (small_host\<lparr>sv_repo := InMemory []\<rparr>) = (Inr a, t)
     \<and> valid_approval small_py (repo_list ''approvals'' (sv_repo t)) small_plan small_scope = Inr None"
  using recorded_decision_is_latest [OF small_host_approvals_ok, of "''op''" small_scope "''rejected''" small_py small_plan]
  by (auto simp: small_host_def small_scope_def empty_ids_def)

section \<open>Beyond the ten-thousandth decision\<close>

text \<open>Decisions recorded one after the other; the first that is refused ends the history.\<close>

fun record_decisions :: "py \<Rightarrow> (ActionPlan \<times> AssessmentScope \<times> string \<times> string) list \<Rightarrow> ('z svc_scheme, Approval list result) state" where
  "record_decisions P [] = State_Monad.return (Inr [])"
| "record_decisions P ((plan, scope, approver, decision) # ds) = try_bind (record_approval P plan scope approver decision) (\<lambda>a.
     try_bind (record_decisions P ds) (\<lambda>as. State_Monad.return (Inr (a # as))))"

text \<open>The decisions on record are the members of a set, in whatever order the backend lists them.\<close>

definition decided :: "Approval set \<Rightarrow> 'z svc_scheme \<Rightarrow> bool" where
  "decided A s \<longleftrightarrow> repo_ok s \<and> (\<exists>as. repo_entries ''approvals'' (sv_repo s) = map (\<lambda>a. (apr_approval_id a, dump_approval a)) as \<and> set as = A)"

lemma dump_approval_inject: "dump_approval a = dump_approval b \<Longrightarrow> a = b"
  by (cases a; cases b) (simp add: dump_approval_def)

lemma set_of_new_key:
  assumes "map_of ys = (map_of xs)(k \<mapsto> v)" and "map_of xs k = None" and "distinct (map fst xs)" and "distinct (map fst ys)"
  shows "set ys = insert (k, v) (set xs)"
proof -
  have "(i, d) \<in> set ys \<longleftrightarrow> (i, d) \<in> insert (k, v) (set xs)" for i d
    using assms(2) by (cases "i = k")
      (auto simp: map_of_eq_Some_iff [OF assms(4), symmetric] map_of_eq_Some_iff [OF assms(3), symmetric] assms(1))
  then show ?thesis by auto
qed

lemma decided_new:
  assumes "decided A s" and "sv_repo t = repo_save ''approvals'' (apr_approval_id a) (dump_approval a) (sv_repo s)"
    and "apr_approval_id a \<notin> apr_approval_id ` A"
  shows "decided (insert a A) t"
proof -
  let ?e = "\<lambda>a. (apr_approval_id a, dump_approval a)"
  from assms(1) obtain as where inv: "repo_invar (sv_repo s)" and es: "repo_entries ''approvals'' (sv_repo s) = map ?e as" "set as = A"
    by (auto simp: decided_def on_repo_def)
  have inv': "repo_invar (sv_repo t)" using inv by (simp add: assms(2) in_memory.invar_save)
  have "map_of (repo_entries ''approvals'' (sv_repo t)) = (map_of (map ?e as))(apr_approval_id a \<mapsto> dump_approval a)"
    by (simp add: assms(2) in_memory.lookup_save [OF inv] es)
  moreover have "map_of (map ?e as) (apr_approval_id a) = None" using assms(3) es(2) by (auto simp: map_of_eq_None_iff)
  moreover have "distinct (map fst (map ?e as))" using in_memory.distinct_entries [OF inv, of "''approvals''"] by (simp add: es(1))
  ultimately have "set (repo_entries ''approvals'' (sv_repo t)) = insert (?e a) (set (map ?e as))"
    using in_memory.distinct_entries [OF inv', of "''approvals''"] by (intro set_of_new_key) (simp_all only:)
  then have img: "set (repo_entries ''approvals'' (sv_repo t)) = ?e ` insert a A" by (simp only: set_map es(2) image_insert)
  then have "\<forall>x \<in> set (repo_entries ''approvals'' (sv_repo t)). \<exists>b. x = ?e b" by (simp only:) blast
  then obtain bs where bs: "repo_entries ''approvals'' (sv_repo t) = map ?e bs" using ex_map_conv [of _ ?e] by blast
  then have "?e ` set bs = ?e ` insert a A" using img by (simp only: set_map)
  moreover have "inj ?e" by (auto intro!: injI dest: dump_approval_inject)
  ultimately have "set bs = insert a A" by (simp only: inj_image_eq_iff)
  then show ?thesis using inv' bs by (auto simp: decided_def on_repo_def)
qed

lemma decided_max:
  assumes "decided A s" and "a \<in> A" and "apr_subject_ref a = ap_action_plan_id plan" and "apr_policy_hash a = sc_policy_hash scope"
    and "\<forall>b \<in> A. b \<noteq> a \<and> apr_subject_ref b = ap_action_plan_id plan \<and> apr_policy_hash b = sc_policy_hash scope
      \<longrightarrow> apr_approval_id b < apr_approval_id a"
    and "apr_decision a = ''approved''" and "apr_plan_hash a = plan_hash P plan"
  shows "valid_approval P (repo_list ''approvals'' (sv_repo s)) plan scope = Inr (Some a)"
proof -
  from assms(1) obtain as where es: "repo_entries ''approvals'' (sv_repo s) = map (\<lambda>a. (apr_approval_id a, dump_approval a)) as" "set as = A"
    by (auto simp: decided_def)
  let ?m = "filter (\<lambda>a. apr_subject_ref a = ap_action_plan_id plan \<and> apr_policy_hash a = sc_policy_hash scope) as"
  have a: "a \<in> set ?m" using assms(2-4) es(2) by simp
  then obtain d rest where ds: "?m = d # rest" by (cases ?m) auto
  let ?x = "max_by apr_approval_id d rest"
  have "?x \<in> set ?m" using max_by_in [of apr_approval_id d rest] by (simp add: ds)
  moreover have "\<not> apr_approval_id ?x < apr_approval_id a"
    using max_by_ge [of a d rest apr_approval_id] a by (auto simp: ds not_less)
  ultimately have "?x = a" using assms(5) es(2) by auto
  moreover have "decisions_on (ap_action_plan_id plan) (sc_policy_hash scope) (repo_list ''approvals'' (sv_repo s)) = Inr (d # rest)"
    by (simp only: repo_list_entries es(1) map_map comp_def snd_conv decisions_on_dump ds)
  ultimately show ?thesis using assms(6,7) by (simp add: valid_approval_def Let_def)
qed

lemma decided_valid:
  assumes "decided A s" and "valid_approval P (repo_list ''approvals'' (sv_repo s)) plan scope = Inr (Some a)"
  shows "a \<in> A \<and> apr_subject_ref a = ap_action_plan_id plan \<and> apr_policy_hash a = sc_policy_hash scope
    \<and> apr_decision a = ''approved'' \<and> apr_plan_hash a = plan_hash P plan
    \<and> (\<forall>b \<in> A. b \<noteq> a \<and> apr_subject_ref b = ap_action_plan_id plan \<and> apr_policy_hash b = sc_policy_hash scope
      \<longrightarrow> apr_approval_id b < apr_approval_id a)"
proof -
  let ?e = "\<lambda>a. (apr_approval_id a, dump_approval a)"
  from assms(1) obtain as where inv: "repo_invar (sv_repo s)" and es: "repo_entries ''approvals'' (sv_repo s) = map ?e as" "set as = A"
    by (auto simp: decided_def on_repo_def)
  let ?m = "filter (\<lambda>a. apr_subject_ref a = ap_action_plan_id plan \<and> apr_policy_hash a = sc_policy_hash scope) as"
  have "decisions_on (ap_action_plan_id plan) (sc_policy_hash scope) (repo_list ''approvals'' (sv_repo s)) = Inr ?m"
    by (simp only: repo_list_entries es(1) map_map comp_def snd_conv decisions_on_dump)
  with assms(2) obtain d rest where ds: "?m = d # rest" and a: "a = max_by apr_approval_id d rest" "apr_decision a = ''approved''"
      "apr_plan_hash a = plan_hash P plan"
    by (auto simp: valid_approval_def and_then_def Let_def split: list.splits if_splits)
  have am: "a \<in> set ?m" using max_by_in [of apr_approval_id d rest] by (simp add: a(1) ds)
  have "distinct (map apr_approval_id as)"
    using in_memory.distinct_entries [OF inv, of "''approvals''"] by (simp add: es(1) comp_def)
  then have inj: "inj_on apr_approval_id A" by (simp add: distinct_map es(2))
  have "apr_approval_id b < apr_approval_id a" if "b \<in> set ?m" "b \<noteq> a" for b
  proof -
    have "apr_approval_id b \<le> apr_approval_id a" using max_by_ge [of b d rest apr_approval_id] that(1) by (simp add: a(1) ds)
    moreover have "apr_approval_id b \<noteq> apr_approval_id a" using inj that am es(2) by (auto dest: inj_onD)
    ultimately show ?thesis by simp
  qed
  then show ?thesis using am a(2,3) es(2) by auto
qed

lemma record_approval_allowed:
  assumes "run_state (record_approval P plan scope approver decision) s = (Inr a, t)"
  shows "approver \<in> set (sc_allowed_actors scope) \<and> (decision = ''approved'' \<or> decision = ''rejected'')"
  using assms by (auto simp: record_approval_def raise_def split: if_splits)

text \<open>Every accepted decision takes the next number and is on record under it.\<close>

definition numbered :: "Approval set \<Rightarrow> nat \<Rightarrow> bool" where
  "numbered A n \<longleftrightarrow> (\<forall>a \<in> A. \<exists>k \<le> n. apr_approval_id a = id_of ''APR'' k)"

lemma record_approval_numbered:
  assumes "run_state (record_approval P plan scope approver decision) s = (Inr a, t)" and "decided A s" and "numbered A (sv_ids s ''APR'')"
  shows "decided (insert a A) t \<and> numbered (insert a A) (sv_ids t ''APR'') \<and> sv_ids t ''APR'' = Suc (sv_ids s ''APR'')"
proof -
  from record_approval_allowed [OF assms(1)] have ok: "approver \<in> set (sc_allowed_actors scope)" "decision = ''approved'' \<or> decision = ''rejected''"
    by auto
  obtain a' t' where "run_state (record_approval P plan scope approver decision) s = (Inr a', t')"
    and "a' = \<lparr>apr_approval_id = id_of ''APR'' (Suc (sv_ids s ''APR'')), apr_subject_ref = ap_action_plan_id plan, apr_decision = decision,
      apr_approver = approver, apr_plan_hash = plan_hash P plan, apr_policy_hash = sc_policy_hash scope,
      apr_decided_at = isoformat (fst (clock_now (sv_clock s)))\<rparr>"
    and t': "sv_repo t' = repo_save ''approvals'' (apr_approval_id a') (dump_approval a') (sv_repo s)" "sv_ids t' ''APR'' = Suc (sv_ids s ''APR'')"
    by (rule record_approval_runs [OF ok])
  then have a: "apr_approval_id a = id_of ''APR'' (Suc (sv_ids s ''APR''))" and same: "a' = a" "t' = t"
    using assms(1) by simp_all
  note t = t' [unfolded same]
  have "apr_approval_id a \<notin> apr_approval_id ` A" using assms(3) by (auto simp: numbered_def a)
  with decided_new [OF assms(2) t(1)] have "decided (insert a A) t" .
  then show ?thesis using assms(3) t(2) a by (auto simp: numbered_def intro: le_SucI)
qed

lemma record_decisions_numbered:
  assumes "run_state (record_decisions P ds) s = (Inr as, t)" and "decided A s" and "numbered A (sv_ids s ''APR'')"
  shows "\<exists>B. decided B t \<and> numbered B (sv_ids t ''APR'') \<and> sv_ids t ''APR'' = sv_ids s ''APR'' + length ds"
  using assms
proof (induction P ds arbitrary: s as A rule: record_decisions.induct)
  case (1 P)
  then show ?case by auto
next
  case (2 P plan scope approver decision ds)
  from 2(2) obtain a u bs where u: "run_state (record_approval P plan scope approver decision) s = (Inr a, u)"
    and t: "run_state (record_decisions P ds) u = (Inr bs, t)"
    by (auto simp: run_try_bind simp del: run_state_bind split: prod.splits sum.splits)
  from record_approval_numbered [OF u 2(3,4)] have "decided (insert a A) u" "numbered (insert a A) (sv_ids u ''APR'')"
    "sv_ids u ''APR'' = Suc (sv_ids s ''APR'')" by auto
  from 2(1) [OF t this(1,2)] this(3) show ?case by auto
qed

lemma created_undecided:
  assumes "r = InMemory [] \<or> r = Sqlite []"
  shows "decided {} (services_create r clk ag)" and "numbered {} (sv_ids (services_create r clk ag) ''APR'')"
    and "sv_ids (services_create r clk ag) ''APR'' = 0"
  using assms in_memory.entries_empty sqlite.entries_empty in_memory.invar_empty sqlite.invar_empty
  by (auto simp: decided_def numbered_def on_repo_def services_create_def empty_ids_def simp del: repo_entries.simps repo_invar.simps)

text \<open>Ids are compared as text: the ten-thousandth is smaller than any from the thousand and first on.\<close>

lemma less_same_length: "(xs :: 'a :: linorder list) < ys \<Longrightarrow> length xs = length ys \<Longrightarrow> xs @ zs < ys"
  by (induction xs arbitrary: ys) (case_tac ys; force)+

lemma late_id_less:
  assumes "1000 < n" and "n < 10000"
  shows "id_of ''APR'' 10000 < id_of ''APR'' n"
proof -
  have "zero_pad 4 10000 = zero_pad 4 1000 @ ''0''"
    by (simp add: zero_pad_def nat_str.simps digit_char_def char_of_def bit_iff_odd)
  moreover have "zero_pad 4 1000 @ ''0'' < zero_pad 4 n"
    using assms by (intro less_same_length) (simp_all add: zero_pad_less_iff length_zero_pad)
  ultimately show ?thesis by (simp add: id_of_def append_less_iff)
qed

text \<open>
  C23: beyond that number the gate can act on a withdrawn approval. The decisions are compared by id as text,
  and the text of the ten-thousandth id is smaller than those of the 8999 before it. Whatever 9999 decisions were
  recorded on services freshly created over an empty repository of either backend: if the gate then finds an
  approval valid that is later than the thousandth decision, a permitted actor can still record a rejection of
  the plan under the scope, which is accepted and on record, and the gate goes on finding the approval valid.
\<close>

theorem late_rejection_is_ignored:
  assumes "r = InMemory [] \<or> r = Sqlite []"
    and "run_state (record_decisions P history) (services_create r clk ag) = (Inr as, s)" and "length history = 9999"
    and "valid_approval P (repo_list ''approvals'' (sv_repo s)) plan scope = Inr (Some a)" and "id_of ''APR'' 1000 < apr_approval_id a"
    and "approver \<in> set (sc_allowed_actors scope)"
  shows "\<exists>b t. run_state (record_approval P plan scope approver ''rejected'') s = (Inr b, t)
    \<and> apr_decision b = ''rejected'' \<and> apr_subject_ref b = ap_action_plan_id plan \<and> apr_policy_hash b = sc_policy_hash scope
    \<and> dump_approval b \<in> set (repo_list ''approvals'' (sv_repo t))
    \<and> valid_approval P (repo_list ''approvals'' (sv_repo t)) plan scope = Inr (Some a)"
proof -
  from record_decisions_numbered [OF assms(2) created_undecided(1,2)] assms(1,3) created_undecided(3) obtain B where
    B: "decided B s" "numbered B (sv_ids s ''APR'')" and n: "sv_ids s ''APR'' = 9999" by auto
  note a = decided_valid [OF B(1) assms(4)]
  then obtain k where "k \<le> 9999" and k: "apr_approval_id a = id_of ''APR'' k" using B(2) n by (auto simp: numbered_def)
  then have late: "id_of ''APR'' 10000 < apr_approval_id a"
    using assms(5) late_id_less [of k] by (simp add: id_of_less_iff)
  have rej: "''rejected'' = ''approved'' \<or> ''rejected'' = ''rejected''" by simp
  obtain b t where run: "run_state (record_approval P plan scope approver ''rejected'') s = (Inr b, t)"
    and b: "b = \<lparr>apr_approval_id = id_of ''APR'' (Suc (sv_ids s ''APR'')), apr_subject_ref = ap_action_plan_id plan, apr_decision = ''rejected'',
      apr_approver = approver, apr_plan_hash = plan_hash P plan, apr_policy_hash = sc_policy_hash scope,
      apr_decided_at = isoformat (fst (clock_now (sv_clock s)))\<rparr>"
    by (rule record_approval_runs [OF assms(6) rej])
  from record_approval_numbered [OF run B] have D: "decided (insert b B) t" by blast
  have "apr_approval_id b < apr_approval_id a" using late n by (simp add: b)
  then have "valid_approval P (repo_list ''approvals'' (sv_repo t)) plan scope = Inr (Some a)"
    using a by (intro decided_max [OF D]) auto
  moreover have "dump_approval b \<in> set (repo_list ''approvals'' (sv_repo t))"
    using D by (auto simp: decided_def repo_list_entries)
  ultimately show ?thesis using run b by auto
qed

lemma replicated_history:
  assumes "approvals_ok s" and "sv_ids s ''APR'' + n \<le> 9998"
  shows "\<exists>as t. run_state (record_decisions small_py (replicate n (small_plan, small_scope, ''op'', ''approved''))) s = (Inr as, t)
    \<and> approvals_ok t \<and> sv_ids t ''APR'' = sv_ids s ''APR'' + n"
  using assms
proof (induction n arbitrary: s)
  case (Suc n)
  have op: "''op'' \<in> set (sc_allowed_actors small_scope)" by (simp add: small_scope_def)
  obtain a t where "run_state (record_approval small_py small_plan small_scope ''op'' ''approved'') s = (Inr a, t)" "approvals_ok t"
    "sv_ids t ''APR'' = Suc (sv_ids s ''APR'')"
    using Suc.prems by (auto intro: latest_decision_governs [OF _ _ op, of s "''approved''" small_py small_plan])
  with Suc.IH [of t] Suc.prems show ?case
    by (auto simp: run_try_bind simp del: run_state_bind)
qed simp

lemma record_decisions_snoc:
  assumes "run_state (record_decisions P ds) s = (Inr as, t)" and "run_state (record_approval P plan scope approver decision) t = (Inr a, u)"
  shows "run_state (record_decisions P (ds @ [(plan, scope, approver, decision)])) s = (Inr (as @ [a]), u)"
  using assms
proof (induction P ds arbitrary: s as rule: record_decisions.induct)
  case (1 P)
  then show ?case by (simp add: run_try_bind)
next
  case (2 P pl sc ap de ds)
  then show ?case by (auto simp: run_try_bind simp del: run_state_bind split: prod.splits sum.splits)
qed

theorem late_rejection_is_ignored_witness:
  "\<exists>as s a b t. run_state (record_decisions small_py (replicate 9998 (small_plan, small_scope, ''op'', ''approved'')
        @ [(small_plan, small_scope, ''op'', ''approved'')])) (services_create (InMemory []) (FixedClock 0) (TriageAgent small_py)) = (Inr as, s)
     \<and> run_state (record_approval small_py small_plan small_scope ''op'' ''rejected'') s = (Inr b, t) \<and> apr_decision b = ''rejected''
     \<and> valid_approval small_py (repo_list ''approvals'' (sv_repo t)) small_plan small_scope = Inr (Some a)"
proof -
  let ?s = "services_create (InMemory []) (FixedClock 0) (TriageAgent small_py)"
  have op: "''op'' \<in> set (sc_allowed_actors small_scope)" by (simp add: small_scope_def)
  have "approvals_ok ?s" "sv_ids ?s ''APR'' = 0"
    by (simp_all add: approvals_ok_def on_repo_def mem.invar_empty mem_entries_def services_create_def empty_ids_def)
  with replicated_history [of ?s 9998] obtain as s where
    h: "run_state (record_decisions small_py (replicate 9998 (small_plan, small_scope, ''op'', ''approved''))) ?s = (Inr as, s)"
    and s: "approvals_ok s" "sv_ids s ''APR'' = 9998" by auto
  obtain a t where a: "run_state (record_approval small_py small_plan small_scope ''op'' ''approved'') s = (Inr a, t)"
    and i: "apr_approval_id a = id_of ''APR'' (Suc (sv_ids s ''APR''))"
    and v: "valid_approval small_py (repo_list ''approvals'' (sv_repo t)) small_plan small_scope = Inr (if ''approved'' = ''approved'' then Some a else None)"
    by (rule latest_decision_governs [OF s(1) _ op, of "''approved''" small_py small_plan]) (simp_all add: s(2))
  from late_rejection_is_ignored [OF _ record_decisions_snoc [OF h a] _ _ _ op, of small_plan a] v i s(2)
  obtain b u where "run_state (record_approval small_py small_plan small_scope ''op'' ''rejected'') t = (Inr b, u)" "apr_decision b = ''rejected''"
    "valid_approval small_py (repo_list ''approvals'' (sv_repo u)) small_plan small_scope = Inr (Some a)"
    by (auto simp: id_of_less_iff)
  with record_decisions_snoc [OF h a] show ?thesis by blast
qed

end
