(* ===== verification/Orchestrator.thy ===== *)
theory Orchestrator
  imports Ingest Remediation
begin

text \<open>
  \<open>app/orchestrator.py\<close> and \<open>app/replay.py\<close>: the stages composed into one auditable flow, and
  the replay of a finished flow from its retained evidence. The state is any extension of the
  services, so that a flow also runs beside a host. The theorems show that a flow keeps the
  platform invariants and never touches a host's files, how its final status comes about, and
  that a replay of a finished flow under the same clock and scope reproduces its whole state.
\<close>

section \<open>The flow\<close>

definition DEFAULT_ACTOR :: string where
  "DEFAULT_ACTOR = ''security-operator''"

record GroupOutcome =
  go_group_id :: string
  go_signature :: string
  go_risk_score :: int
  go_risk_band :: string
  go_recommendation :: TriageRecommendation
  go_incident :: "Incident option"
  go_control_mapping :: "ControlMapping option"
  go_risk :: "Risk option"
  go_action_plan :: "ActionPlan option"
  go_policy_decision :: "PolicyDecision option"

record FlowResult =
  fr_flow_id :: string
  fr_flow_status :: string
  fr_ingest :: IngestResult
  fr_outcomes :: "GroupOutcome list"

definition default_scope :: "py \<Rightarrow> AssessmentScope" where
  "default_scope P = make_scope P ''SCOPE-DEMO'' 1 SUGGEST_ONLY [DEFAULT_ACTOR] [''web-01'', ''*.example.internal''] None None True"

text \<open>Planning and gating for an incident: the flow, the outcome so far, and whether a plan was gated.\<close>

definition flow_remediate ::
    "py \<Rightarrow> AssessmentScope \<Rightarrow> string \<Rightarrow> Flow \<Rightarrow> Incident \<Rightarrow> TriageRecommendation \<Rightarrow> GroupOutcome \<Rightarrow>
     ('z svc_scheme, (Flow \<times> GroupOutcome \<times> bool) result) state" where
  "flow_remediate P scope actor flow incident r outcome = do {
     (flow, rem_task) \<leftarrow> add_task P flow (''Plan remediation for '' @ in_incident_id incident);
     (rem_task, _) \<leftarrow> add_step P flow rem_task ''build_action_plan'' ''deterministic'';
     plan \<leftarrow> build_action_plan P incident r;
     (case plan of
        None \<Rightarrow> State_Monad.return (Inr (flow, outcome, False))
      | Some plan \<Rightarrow> do {
          (flow, _) \<leftarrow> add_artifact P flow ''action_plan'' (ap_action_plan_id plan);
          (_, gate_step) \<leftarrow> add_step P flow rem_task ''policy_gate'' ''policy'';
          try_bind (evaluate_execution P plan scope actor) (\<lambda>(decision, plan). do {
            tool_call P flow gate_step ''policy.evaluate''
              [(''action_plan_id'', JStr (ap_action_plan_id plan)), (''action_type'', JStr (ap_action_type plan))]
              [(''effect'', JStr (policy_effect_value (pd_effect decision))), (''reason_code'', JStr (pd_reason_code decision))]
              [] None RUN_OK;
            State_Monad.return (Inr (flow, outcome\<lparr>go_action_plan := Some plan, go_policy_decision := Some decision\<rparr>, True)) }) }) }"

definition flow_incident ::
    "py \<Rightarrow> AssessmentScope \<Rightarrow> string \<Rightarrow> Flow \<Rightarrow> AlertGroup \<Rightarrow> Incident \<Rightarrow> TriageRecommendation \<Rightarrow> GroupOutcome \<Rightarrow>
     ('z svc_scheme, (Flow \<times> GroupOutcome \<times> bool) result) state" where
  "flow_incident P scope actor flow grp incident r outcome = do {
     (flow, _) \<leftarrow> add_artifact P (flow\<lparr>fl_related_incident_id := Some (in_incident_id incident)\<rparr>) ''incident'' (in_incident_id incident);
     (flow, grc_task) \<leftarrow> add_task P flow (''Map '' @ in_incident_id incident @ '' to controls and risk'');
     (_, grc_step) \<leftarrow> add_step P flow grc_task ''grc_mapping'' ''deterministic'';
     (mapping, risk) \<leftarrow> map_incident P incident (ag_signature grp);
     tool_call P flow grc_step ''grc.map_incident'' [(''incident_id'', JStr (in_incident_id incident))]
       [(''control'', opt_str (map_option cm_control_id mapping)), (''risk_id'', JStr (rk_risk_id risk))] [] None RUN_OK;
     flow_remediate P scope actor flow incident r
       (outcome\<lparr>go_incident := Some incident, go_control_mapping := mapping, go_risk := Some risk\<rparr>) }"

definition flow_group ::
    "py \<Rightarrow> AssessmentScope \<Rightarrow> string \<Rightarrow> Flow \<Rightarrow> AlertGroup \<Rightarrow> ('z svc_scheme, (Flow \<times> GroupOutcome \<times> bool) result) state" where
  "flow_group P scope actor flow grp = do {
     (flow, triage_task) \<leftarrow> add_task P flow (''Triage '' @ ag_group_id grp);
     (_, triage_step) \<leftarrow> add_step P flow triage_task ''ai_triage'' ''agent'';
     try_bind (triage_group P grp) (\<lambda>(r, incident). do {
       tool_call P flow triage_step ''soc.triage_group'' [(''group_id'', JStr (ag_group_id grp))]
         [(''disposition'', JStr (disposition_value (tr_disposition r))), (''confidence'', JFloat (repr_float P (tr_confidence r)))]
         (tr_evidence_ids r) (Some (tr_produced_by r)) RUN_OK;
       let outcome = \<lparr>go_group_id = ag_group_id grp, go_signature = ag_signature grp, go_risk_score = ag_risk_score grp,
                      go_risk_band = risk_band_value (ag_risk_band grp), go_recommendation = r, go_incident = None,
                      go_control_mapping = None, go_risk = None, go_action_plan = None, go_policy_decision = None\<rparr>;
       (case incident of
          None \<Rightarrow> State_Monad.return (Inr (flow, outcome, False))
        | Some inc \<Rightarrow> flow_incident P scope actor flow grp inc r outcome) }) }"

fun flow_groups ::
    "py \<Rightarrow> AssessmentScope \<Rightarrow> string \<Rightarrow> Flow \<Rightarrow> AlertGroup list \<Rightarrow> ('z svc_scheme, (Flow \<times> GroupOutcome list \<times> bool) result) state" where
  "flow_groups P scope actor flow [] = State_Monad.return (Inr (flow, [], False))"
| "flow_groups P scope actor flow (g # gs) =
     try_bind (flow_group P scope actor flow g) (\<lambda>(flow, o1, gated).
     try_bind (flow_groups P scope actor flow gs) (\<lambda>(flow, os, any). State_Monad.return (Inr (flow, o1 # os, gated \<or> any))))"

fun flow_artifacts :: "py \<Rightarrow> Flow \<Rightarrow> AlertGroup list \<Rightarrow> ('z svc_scheme, Flow) state" where
  "flow_artifacts P flow [] = State_Monad.return flow"
| "flow_artifacts P flow (g # gs) = do { (flow, _) \<leftarrow> add_artifact P flow ''alert_group'' (ag_group_id g); flow_artifacts P flow gs }"

definition flow_stages ::
    "py \<Rightarrow> RawSource list \<Rightarrow> AssessmentScope \<Rightarrow> string \<Rightarrow> Flow \<Rightarrow> Step \<Rightarrow> IngestResult \<Rightarrow> ('z svc_scheme, FlowResult result) state" where
  "flow_stages P sources scope actor flow ingest_step result = do {
     tool_call P flow ingest_step ''ingest.run'' [(''sources'', JStrs (map rs_name sources))]
       [(''alerts'', JInt (int (length (ir_alerts result)))), (''groups'', JInt (int (length (ir_groups result))))]
       (map ev_evidence_id (ir_evidences result)) None RUN_OK;
     flow \<leftarrow> flow_artifacts P flow (ir_groups result);
     try_bind (flow_groups P scope actor flow (ir_groups result)) (\<lambda>(flow, outcomes, any). do {
       let final_status = (if any then FLOW_WAITING_FOR_APPROVAL else FLOW_COMPLETED);
       flow \<leftarrow> set_flow_status P flow final_status;
       State_Monad.return (Inr \<lparr>fr_flow_id = fl_flow_id flow, fr_flow_status = flow_status_value final_status,
         fr_ingest = result, fr_outcomes = outcomes\<rparr>) }) }"

definition run_flow ::
    "py \<Rightarrow> (string \<Rightarrow> json option) \<Rightarrow> RawSource list \<Rightarrow> AssessmentScope \<Rightarrow> string \<Rightarrow> ('z svc_scheme, FlowResult result) state" where
  "run_flow P loads sources scope actor = do {
     flow \<leftarrow> start_flow P ''soc_investigation'' ''Ingest and triage authorized sample alerts'';
     (flow, ingest_task) \<leftarrow> add_task P flow ''Ingest and normalize alerts'';
     (_, ingest_step) \<leftarrow> add_step P flow ingest_task ''ingest_sources'' ''deterministic'';
     try_bind (ingest P loads sources) (flow_stages P sources scope actor flow ingest_step) }"

section \<open>Replay\<close>

definition VERIFIED_COLLECTIONS :: "string list" where
  "VERIFIED_COLLECTIONS = [''evidence'', ''alerts'', ''alert_groups'', ''agent_runs'', ''incidents'', ''control_mappings'',
     ''risks'', ''action_plans'', ''policy_decisions'']"

definition text_key :: "row \<Rightarrow> string \<Rightarrow> string result" where
  "text_key r k = and_then (key r k) (\<lambda>v. case v of JStr t \<Rightarrow> Inr t | _ \<Rightarrow> Inl TypeError)"

fun reconstruct :: "py \<Rightarrow> vault \<Rightarrow> row list \<Rightarrow> RawSource list result" where
  "reconstruct P v [] = Inr []"
| "reconstruct P v (r # rows) =
     and_then (text_key r ''storage_ref'') (\<lambda>ref.
     if \<not> vault_verify P ref v then Inl (ValueError (''Evidence integrity check failed for '' @ py_str (get_or r ''evidence_id'' JNull)))
     else
       and_then (text_key r ''source'') (\<lambda>name.
       and_then (text_key r ''source_type'') (\<lambda>source_type.
       and_then (text_key r ''media_type'') (\<lambda>media_type.
       and_then (vault_get ref v) (\<lambda>b.
       and_then (reconstruct P v rows) (\<lambda>rest.
         Inr (\<lparr>rs_name = name, rs_source_type = source_type, rs_media_type = media_type, rs_data = b\<rparr> # rest)))))))"

definition reconstruct_sources :: "py \<Rightarrow> 'z svc_scheme \<Rightarrow> RawSource list result" where
  "reconstruct_sources P original = reconstruct P (sv_vault original) (repo_list ''evidence'' (sv_repo original))"

definition replay :: "py \<Rightarrow> (string \<Rightarrow> json option) \<Rightarrow> 'z svc_scheme \<Rightarrow> clock \<Rightarrow> AssessmentScope \<Rightarrow> (svc \<times> FlowResult) result" where
  "replay P loads original clk scope =
     and_then (reconstruct_sources P original) (\<lambda>sources.
       case run_state (run_flow P loads sources scope ''security-operator'') (services_create (InMemory []) clk (TriageAgent P)) of
         (Inl e, _) \<Rightarrow> Inl e
       | (Inr r, s) \<Rightarrow> Inr (s, r))"

definition diff_collections :: "'z svc_scheme \<Rightarrow> 'y svc_scheme \<Rightarrow> (string \<times> string) list" where
  "diff_collections a b =
     concat (map (\<lambda>name. let rows_a = repo_list name (sv_repo a); rows_b = repo_list name (sv_repo b) in
       if rows_a \<noteq> rows_b
       then [(name, nat_str (length rows_a) @ '' vs '' @ nat_str (length rows_b) @ '' rows or differing content'')] else [])
       VERIFIED_COLLECTIONS)"

section \<open>What a flow keeps\<close>

definition stage_collections :: "string set" where
  "stage_collections = runtime_collections \<union> soc_collections \<union> remediation_collections"

context quiet_fact
begin

lemma flow_group_keeps [keeps]:
  assumes "stage_collections \<subseteq> cols"
  shows "keeps I (flow_group P sc ac fl g)"
proof -
  have c: "runtime_collections \<subseteq> cols" "soc_collections \<subseteq> cols" "remediation_collections \<subseteq> cols"
    using assms by (auto simp: stage_collections_def)
  show ?thesis
    unfolding flow_group_def flow_incident_def flow_remediate_def
    by (intro keeps runtime_keeps triage_keeps map_incident_keeps plans_keep c)
qed

lemma flow_groups_keeps [keeps]:
  assumes "stage_collections \<subseteq> cols"
  shows "keeps I (flow_groups P sc ac fl gs)"
  by (induction gs arbitrary: fl) (auto intro!: keeps assms)

lemma flow_artifacts_keeps [keeps]:
  assumes "runtime_collections \<subseteq> cols"
  shows "keeps I (flow_artifacts P fl gs)"
  by (induction gs arbitrary: fl) (auto intro!: keeps assms simp del: split_paired_All)

end

context quiet_fact
begin

lemma flow_stages_keeps [keeps]:
  assumes "stage_collections \<subseteq> cols"
  shows "keeps I (flow_stages P srcs sc ac fl st res)"
proof -
  have c: "runtime_collections \<subseteq> cols" using assms by (auto simp: stage_collections_def)
  show ?thesis unfolding flow_stages_def by (intro keeps runtime_keeps flow_artifacts_keeps flow_groups_keeps c assms)
qed

end

context kept_fact
begin

lemma run_flow_keeps [keeps]:
  assumes "stage_collections \<subseteq> cols" and "ingest_collections \<subseteq> cols"
  shows "keeps I (run_flow P loads srcs sc ac)"
proof -
  have c: "runtime_collections \<subseteq> cols" using assms by (auto simp: stage_collections_def)
  show ?thesis unfolding run_flow_def by (intro keeps runtime_keeps flow_stages_keeps ingest_keeps c assms)
qed

end

text \<open>
  C10: a whole flow, from any start, also if it raises, keeps the platform: the chain verifies, the log only
  grew, the vault's bytes hash to their keys, and not one file of the host has changed: a flow
  proposes and gates plans, it never executes them.
\<close>

theorem run_flow_keeps_platform:
  assumes "run_state (run_flow P loads srcs scope actor) (s :: 'z host_scheme) = (r, t)"
    and "chain_intact P s" and "evidence_ok P s" and "repo_ok s"
  shows "chain_intact P t \<and> evidence_ok P t \<and> repo_ok t \<and> (\<exists>more. sv_events t = sv_events s @ more) \<and> hs_files t = hs_files s"
proof -
  have "log_extends (sv_events s) s" "on_files (\<lambda>fs. fs = hs_files s) s" by (simp_all add: on_events_def on_files_def)
  then show ?thesis
    using keepsD [OF append_only.run_flow_keeps _ assms(1)] keepsD [OF files_untouched.run_flow_keeps _ assms(1)]
      keepsD [OF chain.run_flow_keeps assms(2,1)] keepsD [OF evidence.run_flow_keeps assms(3,1)]
      keepsD [OF repo_wf.run_flow_keeps assms(4,1)]
    by (fastforce simp: on_events_def on_files_def)
qed

section \<open>Outcomes and status\<close>

text \<open>
  A gated plan: drafted for the incident's host from the incident, decided on by the scope's policy for a request
  of the flow's actor about this plan, and approved exactly if the policy permits that request.
\<close>

definition gated_plan :: "py \<Rightarrow> AssessmentScope \<Rightarrow> string \<Rightarrow> Incident \<Rightarrow> ActionPlan \<Rightarrow> PolicyDecision \<Rightarrow> bool" where
  "gated_plan P scope actor inc plan d \<longleftrightarrow> ap_created_from plan = Some (in_incident_id inc)
     \<and> ap_target plan = [(''asset_id'', JStr (in_asset_id inc))] \<and> ap_evidence_ids plan = in_evidence_ids inc
     \<and> (\<exists>rq. rq_actor rq = actor \<and> rq_target rq = in_asset_id inc \<and> rq_action_type rq = ap_action_type plan
          \<and> rq_risk_level rq = ap_risk_level plan \<and> rq_action_plan_id rq = Some (ap_action_plan_id plan)
          \<and> pd_request_ref d = rq_request_id rq \<and> pd_policy_hash d = sc_policy_hash scope
          \<and> (pd_effect d = ALLOW \<longleftrightarrow> permits P rq scope))
     \<and> ap_status plan = (if pd_effect d = ALLOW then PLAN_APPROVED else PLAN_PROPOSED)"

definition known_action :: "TriageRecommendation \<Rightarrow> bool" where
  "known_action r \<longleftrightarrow> (case tr_recommended_action_types r of [] \<Rightarrow> False | a # _ \<Rightarrow> get_action_spec a \<noteq> None)"

text \<open>
  What one group's outcome says: it describes the group, holds an incident exactly for a grounded escalation,
  then also a risk, and a plan exactly if the first action recommended is in the catalog, never without the
  decision of the gate.
\<close>

definition outcome_ok :: "py \<Rightarrow> AssessmentScope \<Rightarrow> string \<Rightarrow> AlertGroup \<Rightarrow> GroupOutcome \<Rightarrow> bool" where
  "outcome_ok P scope actor g oc \<longleftrightarrow> go_group_id oc = ag_group_id g \<and> go_signature oc = ag_signature g
     \<and> go_risk_score oc = ag_risk_score g \<and> go_risk_band oc = risk_band_value (ag_risk_band g)
     \<and> (go_incident oc \<noteq> None \<longleftrightarrow> tr_disposition (go_recommendation oc) = ESCALATE \<and> skeptic_allows_escalation (go_recommendation oc))
     \<and> (go_risk oc \<noteq> None \<longleftrightarrow> go_incident oc \<noteq> None)
     \<and> (go_action_plan oc \<noteq> None \<longleftrightarrow> go_incident oc \<noteq> None \<and> known_action (go_recommendation oc))
     \<and> (go_policy_decision oc \<noteq> None \<longleftrightarrow> go_action_plan oc \<noteq> None)
     \<and> (\<forall>inc. go_incident oc = Some inc \<longrightarrow> in_alert_group_ids inc = [ag_group_id g] \<and> in_evidence_ids inc = ag_evidence_ids g)
     \<and> (\<forall>inc plan d. go_incident oc = Some inc \<and> go_action_plan oc = Some plan \<and> go_policy_decision oc = Some d
          \<longrightarrow> gated_plan P scope actor inc plan d)"

text \<open>With the platform's own agent the group alone decides what comes of it.\<close>

definition ssh_failures :: "AlertGroup \<Rightarrow> bool" where
  "ssh_failures g \<longleftrightarrow> ag_evidence_ids g \<noteq> [] \<and> ag_signature g = ''ssh_failed_password'' \<and> ag_count g \<ge> 3"

definition own_outcome :: "AlertGroup \<Rightarrow> GroupOutcome \<Rightarrow> bool" where
  "own_outcome g oc \<longleftrightarrow> (go_incident oc \<noteq> None \<longleftrightarrow> should_escalate g) \<and> (go_action_plan oc \<noteq> None \<longleftrightarrow> ssh_failures g)"

abbreviation own_agent :: "py \<Rightarrow> 'z svc_scheme \<Rightarrow> bool" where
  "own_agent P \<equiv> on_agents (\<lambda>as. resolve ''soc.triage'' None as = Inr (TriageAgent P))"

lemma bind_cases:
  assumes "run_state (State_Monad.bind m f) s = (r, t)"
  obtains x u where "run_state m s = (x, u)" and "run_state (f x) u = (r, t)"
  using assms by (auto split: prod.splits)

lemma build_action_plan_result:
  assumes "run_state (build_action_plan P inc r) s = (pl, t)"
  shows "(pl \<noteq> None \<longleftrightarrow> known_action r) \<and> (\<forall>p. pl = Some p \<longrightarrow> ap_created_from p = Some (in_incident_id inc)
    \<and> ap_target p = [(''asset_id'', JStr (in_asset_id inc))] \<and> ap_evidence_ids p = in_evidence_ids inc)"
  using assms
  by (auto simp: build_action_plan_def draft_plan_def known_action_def run_bind run_prims Let_def simp del: run_state_bind
      split: list.splits option.splits)

lemma gate_gates:
  assumes "run_state (evaluate_execution P p scope actor) s = (Inr (d, plan), t)" and "fromisoformat P [] = None"
    and "ap_created_from p = Some (in_incident_id inc) \<and> ap_target p = [(''asset_id'', JStr (in_asset_id inc))]
      \<and> ap_evidence_ids p = in_evidence_ids inc"
  shows "gated_plan P scope actor inc plan d"
proof -
  obtain approval a c where "valid_approval P (repo_list ''approvals'' (sv_repo s)) p scope = Inr approval"
    and a: "asset_of p = Inr a" and d: "d = fst (evaluate P c (gate_request s actor p a (approval \<noteq> None)) scope)"
    and plan: "plan = p\<lparr>ap_status := (if pd_effect d = ALLOW then PLAN_APPROVED else PLAN_PROPOSED)\<rparr>"
    using assms(1) by (rule evaluate_executionD)
  have "a = in_asset_id inc" using a assms(3) by (simp add: asset_of_def)
  then have "pd_effect d = ALLOW \<longleftrightarrow> permits P (gate_request s actor p (in_asset_id inc) (approval \<noteq> None)) scope"
    by (simp add: d evaluate_effect decide_allow_iff [OF assms(2)])
  moreover have "pd_request_ref d = rq_request_id (gate_request s actor p (in_asset_id inc) (approval \<noteq> None))"
    "pd_policy_hash d = sc_policy_hash scope"
    by (simp_all add: d evaluate_def Let_def split_beta \<open>a = in_asset_id inc\<close>)
  ultimately show ?thesis
    unfolding gated_plan_def using assms(3)
    by (intro conjI exI [of _ "gate_request s actor p (in_asset_id inc) (approval \<noteq> None)"])
      (simp_all add: plan gate_request_def make_request_def)
qed

lemma flow_remediate_outcome:
  assumes "run_state (flow_remediate P scope actor flow inc r oc) s = (Inr (flow', oc', gated), t)"
    and "fromisoformat P [] = None" and "go_action_plan oc = None" and "go_policy_decision oc = None"
  shows "gated = known_action r \<and> (if known_action r
    then \<exists>plan d. oc' = oc\<lparr>go_action_plan := Some plan, go_policy_decision := Some d\<rparr> \<and> gated_plan P scope actor inc plan d
    else oc' = oc)"
  using assms(1) unfolding flow_remediate_def
  by (auto elim!: bind_cases try_bind_InrE split: prod.splits option.splits simp del: run_state_bind
      dest!: build_action_plan_result) (blast intro: gate_gates [OF _ assms(2)])

lemma flow_incident_outcome:
  assumes "run_state (flow_incident P scope actor flow g inc r oc) s = (Inr (flow', oc', gated), t)"
    and "fromisoformat P [] = None" and "go_action_plan oc = None" and "go_policy_decision oc = None"
  shows "gated = known_action r \<and> (\<exists>m k. (if known_action r
    then \<exists>plan d. oc' = oc\<lparr>go_incident := Some inc, go_control_mapping := m, go_risk := Some k,
        go_action_plan := Some plan, go_policy_decision := Some d\<rparr> \<and> gated_plan P scope actor inc plan d
    else oc' = oc\<lparr>go_incident := Some inc, go_control_mapping := m, go_risk := Some k\<rparr>))"
proof -
  from assms(1) obtain m k f u where
    "run_state (flow_remediate P scope actor f inc r (oc\<lparr>go_incident := Some inc, go_control_mapping := m, go_risk := Some k\<rparr>)) u
      = (Inr (flow', oc', gated), t)"
    unfolding flow_incident_def by (auto elim!: bind_cases split: prod.splits simp del: run_state_bind)
  from flow_remediate_outcome [OF this assms(2)] assms(3,4) show ?thesis by fastforce
qed

lemma flow_group_cases:
  fixes s :: "'z svc_scheme"
  assumes "run_state (flow_group P scope actor flow g) s = (Inr (flow', oc, gated), t)"
  obtains r inc f oc0 and s1 s2 u :: "'z svc_scheme" where "run_state (triage_group P g) s1 = (Inr (r, inc), s2)" and "own_agent P s \<longrightarrow> own_agent P s1"
    and "oc0 = \<lparr>go_group_id = ag_group_id g, go_signature = ag_signature g, go_risk_score = ag_risk_score g,
      go_risk_band = risk_band_value (ag_risk_band g), go_recommendation = r, go_incident = None,
      go_control_mapping = None, go_risk = None, go_action_plan = None, go_policy_decision = None\<rparr>"
    and "case inc of None \<Rightarrow> oc = oc0 \<and> \<not> gated
      | Some i \<Rightarrow> run_state (flow_incident P scope actor f g i r oc0) u = (Inr (flow', oc, gated), t)"
proof -
  have k: "keeps (own_agent P) (add_task P fl nm)" "keeps (own_agent P) (add_step P fl tk nm ki)" for fl nm tk ki
    by (rule agents_untouched.runtime_keeps; simp)+
  from assms obtain x1 s0 x2 s1 r inc s2 f u where
    pre: "run_state (add_task P flow (''Triage '' @ ag_group_id g)) s = (x1, s0)"
      "run_state (add_step P (fst x1) (snd x1) ''ai_triage'' ''agent'') s0 = (x2, s1)"
    and tri: "run_state (triage_group P g) s1 = (Inr (r, inc), s2)"
    and rest: "case inc of None \<Rightarrow> oc = \<lparr>go_group_id = ag_group_id g, go_signature = ag_signature g, go_risk_score = ag_risk_score g,
      go_risk_band = risk_band_value (ag_risk_band g), go_recommendation = r, go_incident = None,
      go_control_mapping = None, go_risk = None, go_action_plan = None, go_policy_decision = None\<rparr> \<and> \<not> gated
      | Some i \<Rightarrow> run_state (flow_incident P scope actor f g i r \<lparr>go_group_id = ag_group_id g, go_signature = ag_signature g,
        go_risk_score = ag_risk_score g, go_risk_band = risk_band_value (ag_risk_band g), go_recommendation = r, go_incident = None,
        go_control_mapping = None, go_risk = None, go_action_plan = None, go_policy_decision = None\<rparr>) u = (Inr (flow', oc, gated), t)"
    unfolding flow_group_def Let_def
    by (fastforce elim!: bind_cases try_bind_InrE split: prod.splits option.splits simp del: run_state_bind)
  have own: "own_agent P s \<longrightarrow> own_agent P s1" using keepsD [OF k(1) _ pre(1)] keepsD [OF k(2) _ pre(2)] by blast
  show ?thesis by (rule that [OF tri own refl rest])
qed

lemma own_triage:
  assumes "run_state (triage_group P g) s = (Inr (r, inc), t)" and "own_agent P s"
  shows "(inc \<noteq> None \<longleftrightarrow> should_escalate g) \<and> (inc \<noteq> None \<longrightarrow> (known_action r \<longleftrightarrow> ssh_failures g))"
proof -
  let ?res = "triage_decide (ag_evidence_ids g) (JStr (ag_signature g)) (ag_risk_band g) (ag_count g)"
  have run: "agent_run (TriageAgent P) [(''alert_group'', JObj (dump_alert_group g))] = Inr ?res"
    by (simp add: TriageAgent_def triage_run_group)
  have own: "resolve ''soc.triage'' None (sv_agents s) = Inr (TriageAgent P)" using assms(2) by (simp add: on_agents_def)
  have esc: "inc \<noteq> None \<longleftrightarrow> should_escalate g" using triage_agent_runs [OF own, of g] assms(1) by auto
  obtain ar u where agent: "run_state (run_triage_agent P g) s = (Inr (ar, r), u)" using assms(1) by (rule triage_groupD)
  have rec: "json_strs (get_or (res_output ?res) ''recommended_action_types'' (JList [])) = Inr (if ssh_failures g then [''harden_ssh_access''] else [])"
    by (simp add: triage_decide_def triage_output_def ssh_failures_def get_or_def json_strs_def Let_def)
  have "tr_recommended_action_types r = (if ssh_failures g then [''harden_ssh_access''] else [])"
    using agent unfolding run_triage_agent_def
    by (auto simp: run_bind run_from_result run_prims Let_def own run rec simp del: run_state_bind elim!: try_bind_InrE)
  moreover have "get_action_spec ''harden_ssh_access'' \<noteq> None" by (simp add: get_action_spec_def ACTION_CATALOG_def)
  ultimately show ?thesis using esc by (auto simp: known_action_def)
qed

lemma ssh_failures_escalate: "ssh_failures g \<Longrightarrow> should_escalate g"
  by (simp add: ssh_failures_def should_escalate_def)

lemma flow_group_outcome:
  fixes s :: "'z svc_scheme"
  assumes "run_state (flow_group P scope actor flow g) s = (Inr (flow', oc, gated), t)" and "fromisoformat P [] = None"
  shows "outcome_ok P scope actor g oc \<and> gated = (go_action_plan oc \<noteq> None) \<and> (own_agent P s \<longrightarrow> own_outcome g oc)"
proof -
  obtain r inc f oc0 and s1 s2 u :: "'z svc_scheme" where tri: "run_state (triage_group P g) s1 = (Inr (r, inc), s2)"
    and own: "own_agent P s \<longrightarrow> own_agent P s1"
    and oc0: "oc0 = \<lparr>go_group_id = ag_group_id g, go_signature = ag_signature g, go_risk_score = ag_risk_score g,
      go_risk_band = risk_band_value (ag_risk_band g), go_recommendation = r, go_incident = None,
      go_control_mapping = None, go_risk = None, go_action_plan = None, go_policy_decision = None\<rparr>"
    and rest: "case inc of None \<Rightarrow> oc = oc0 \<and> \<not> gated
      | Some i \<Rightarrow> run_state (flow_incident P scope actor f g i r oc0) u = (Inr (flow', oc, gated), t)"
    using assms(1) by (rule flow_group_cases)
  have dec: "inc = None \<longleftrightarrow> tr_disposition r \<noteq> ESCALATE \<or> \<not> skeptic_allows_escalation r"
    and inc: "\<forall>i. inc = Some i \<longrightarrow> in_evidence_ids i = ag_evidence_ids g \<and> in_alert_group_ids i = [ag_group_id g]"
    using tri by (auto elim!: triage_groupD)
  have o: "own_agent P s \<longrightarrow> (inc \<noteq> None \<longleftrightarrow> should_escalate g) \<and> (inc \<noteq> None \<longrightarrow> (known_action r \<longleftrightarrow> ssh_failures g))"
    using own_triage [OF tri] own by blast
  show ?thesis
  proof (cases inc)
    case None
    then show ?thesis using rest dec o ssh_failures_escalate [of g] by (auto simp: oc0 outcome_ok_def own_outcome_def)
  next
    case (Some i)
    with rest have "run_state (flow_incident P scope actor f g i r oc0) u = (Inr (flow', oc, gated), t)" by simp
    from flow_incident_outcome [OF this assms(2)] have
      "gated = known_action r \<and> (\<exists>m k. (if known_action r
        then \<exists>plan d. oc = oc0\<lparr>go_incident := Some i, go_control_mapping := m, go_risk := Some k,
            go_action_plan := Some plan, go_policy_decision := Some d\<rparr> \<and> gated_plan P scope actor i plan d
        else oc = oc0\<lparr>go_incident := Some i, go_control_mapping := m, go_risk := Some k\<rparr>))" by (simp add: oc0)
    then show ?thesis using Some dec inc o by (auto simp: oc0 outcome_ok_def own_outcome_def split: if_splits)
  qed
qed

lemma flow_groups_outcomes:
  fixes s :: "'z svc_scheme"
  assumes "fromisoformat P [] = None"
  shows "run_state (flow_groups P scope actor flow gs) s = (Inr (flow', ocs, any), t) \<Longrightarrow>
    list_all2 (outcome_ok P scope actor) gs ocs \<and> (any \<longleftrightarrow> (\<exists>oc \<in> set ocs. go_action_plan oc \<noteq> None))
    \<and> (own_agent P s \<longrightarrow> list_all2 own_outcome gs ocs)"
proof (induction gs arbitrary: flow s ocs any)
  case (Cons g gs)
  from Cons.prems obtain flow1 oc gated u ocs1 any1 where one: "run_state (flow_group P scope actor flow g) s = (Inr (flow1, oc, gated), u)"
    and more: "run_state (flow_groups P scope actor flow1 gs) u = (Inr (flow', ocs1, any1), t)"
    and ocs: "ocs = oc # ocs1" "any = (gated \<or> any1)"
    by (auto elim!: try_bind_InrE split: prod.splits)
  have "own_agent P s \<Longrightarrow> own_agent P u"
    using keepsD [OF agents_untouched.flow_group_keeps _ one] by simp
  then show ?case using flow_group_outcome [OF one assms] Cons.IH [OF more] ocs by auto
qed auto

lemma run_flow_outcomes:
  fixes s :: "'z svc_scheme"
  assumes "run_state (run_flow P loads srcs scope actor) s = (Inr r, t)" and "fromisoformat P [] = None"
  shows "list_all2 (outcome_ok P scope actor) (ir_groups (fr_ingest r)) (fr_outcomes r)
    \<and> fr_flow_status r = flow_status_value
        (if \<exists>oc \<in> set (fr_outcomes r). go_action_plan oc \<noteq> None then FLOW_WAITING_FOR_APPROVAL else FLOW_COMPLETED)
    \<and> (own_agent P s \<longrightarrow> list_all2 own_outcome (ir_groups (fr_ingest r)) (fr_outcomes r))"
proof -
  from assms(1) obtain f s1 x s2 y s3 res s4 st f1 z s5 f2 s6 where
    pre: "run_state (start_flow P ''soc_investigation'' ''Ingest and triage authorized sample alerts'') s = (f, s1)"
      "run_state (add_task P f ''Ingest and normalize alerts'') s1 = (x, s2)"
      "run_state (add_step P (fst x) (snd x) ''ingest_sources'' ''deterministic'') s2 = (y, s3)"
      "run_state (ingest P loads srcs) s3 = (Inr res, s4)"
    and st: "run_state (flow_stages P srcs scope actor (fst x) (snd y) res) s4 = (Inr r, t)"
    unfolding run_flow_def by (fastforce elim!: bind_cases try_bind_InrE split: prod.splits simp del: run_state_bind)
  have "own_agent P s4" if "own_agent P s"
    using keepsD [OF agents_untouched.runtime_keeps(1) that pre(1)] keepsD [OF agents_untouched.runtime_keeps(3) _ pre(2)]
      keepsD [OF agents_untouched.runtime_keeps(4) _ pre(3)] keepsD [OF agents_untouched.ingest_keeps _ pre(4)] by simp
  moreover from st obtain z s5 f2 s6 f3 any s7 ocs where
      s5: "run_state (tool_call P (fst x) (snd y) ''ingest.run'' [(''sources'', JStrs (map rs_name srcs))]
       [(''alerts'', JInt (int (length (ir_alerts res)))), (''groups'', JInt (int (length (ir_groups res))))]
       (map ev_evidence_id (ir_evidences res)) None RUN_OK) s4 = (z, s5)"
    and s6: "run_state (flow_artifacts P (fst x) (ir_groups res)) s5 = (f2, s6)"
    and s7: "run_state (flow_groups P scope actor f2 (ir_groups res)) s6 = (Inr (f3, ocs, any), s7)"
    and r: "fr_ingest r = res" "fr_outcomes r = ocs" "fr_flow_status r = flow_status_value (if any then FLOW_WAITING_FOR_APPROVAL else FLOW_COMPLETED)"
    unfolding flow_stages_def by (auto elim!: bind_cases try_bind_InrE split: prod.splits simp: Let_def simp del: run_state_bind)
  moreover have "own_agent P s6" if "own_agent P s4"
    using keepsD [OF agents_untouched.runtime_keeps(5) that s5] keepsD [OF agents_untouched.flow_artifacts_keeps _ s6] by simp
  ultimately show ?thesis using flow_groups_outcomes [OF assms(2) s7] by simp
qed

text \<open>Below the level that executes after approval, the policy permits nothing.\<close>

lemma suggesting_scope_permits_nothing: "autonomy_int (sc_autonomy_level scope) < 3 \<Longrightarrow> \<not> permits P rq scope"
  by (auto simp: permits_def authority_def)

lemma outcome_plan_proposed:
  assumes "outcome_ok P scope actor g oc" and "go_action_plan oc = Some plan" and "autonomy_int (sc_autonomy_level scope) < 3"
  shows "ap_status plan = PLAN_PROPOSED \<and> (\<exists>d. go_policy_decision oc = Some d \<and> pd_effect d \<noteq> ALLOW)"
proof -
  from assms(1,2) obtain inc d where "go_incident oc = Some inc" "go_policy_decision oc = Some d" by (auto simp: outcome_ok_def)
  moreover from this have "gated_plan P scope actor inc plan d" using assms(1,2) unfolding outcome_ok_def by blast
  ultimately show ?thesis using suggesting_scope_permits_nothing [OF assms(3)] by (auto simp: gated_plan_def)
qed


section \<open>Replaying\<close>

text \<open>The evidence collection while sources are read: one record per source so far, in order, under sequential ids.\<close>

definition evidence_log :: "Evidence list \<Rightarrow> 'z svc_scheme \<Rightarrow> bool" where
  "evidence_log evs s \<longleftrightarrow> repo_ok s \<and> repo_entries ''evidence'' (sv_repo s) = map (\<lambda>e. (ev_evidence_id e, dump_evidence e)) evs
     \<and> sv_ids s ''EVID'' = length evs \<and> (\<forall>e \<in> set evs. \<exists>n \<le> length evs. ev_evidence_id e = id_of ''EVID'' n)"

lemma store_evidence_log:
  assumes "run_state (store_evidence P src) s = (e, t)" and "evidence_log evs s" and "length evs < 9999"
  shows "evidence_log (evs @ [e]) t"
proof -
  let ?i = "id_of ''EVID'' (Suc (length evs))"
  from assms(1,2) have e: "ev_evidence_id e = ?i"
    and t: "sv_repo t = repo_save ''evidence'' ?i (dump_evidence e) (sv_repo s)" "sv_ids t ''EVID'' = Suc (length evs)"
    by (auto simp: store_evidence_def evidence_log_def run_bind run_prims Let_def simp del: run_state_bind)
  have inv: "repo_invar (sv_repo s)" and ents: "repo_entries ''evidence'' (sv_repo s) = map (\<lambda>e. (ev_evidence_id e, dump_evidence e)) evs"
    and ids: "\<forall>e \<in> set evs. \<exists>n \<le> length evs. ev_evidence_id e = id_of ''EVID'' n"
    using assms(2) by (simp_all add: evidence_log_def on_repo_def)
  have new: "\<forall>x \<in> set evs. ev_evidence_id x < ?i" using ids assms(3) by (auto simp: id_of_less_iff)
  have "repo_entries ''evidence'' (sv_repo t) = dict_set ?i (dump_evidence e) (repo_entries ''evidence'' (sv_repo s))"
    unfolding t by (rule in_memory.entries_save [OF inv]) (use new in \<open>auto simp: ents\<close>)
  moreover have "?i \<notin> fst ` set (repo_entries ''evidence'' (sv_repo s))" using new by (auto simp: ents)
  ultimately have "repo_entries ''evidence'' (sv_repo t) = map (\<lambda>e. (ev_evidence_id e, dump_evidence e)) (evs @ [e])"
    by (simp add: dict_set_fresh ents e)
  moreover have "repo_ok t" using in_memory.invar_save [OF inv] by (simp add: on_repo_def t)
  moreover have "\<forall>x \<in> set (evs @ [e]). \<exists>n \<le> length (evs @ [e]). ev_evidence_id x = id_of ''EVID'' n"
    using ids e by (auto intro: le_SucI)
  ultimately show ?thesis by (simp add: evidence_log_def t)
qed

lemma ingest_source_log:
  assumes "run_state (ingest_source P loads src) s = (Inr ea, t)" and "evidence_log evs s" and "length evs < 9999"
  shows "evidence_log (evs @ [fst ea]) t"
proof -
  obtain e u where store: "run_state (store_evidence P src) s = (e, u)" by fastforce
  let ?parse = "if rs_source_type src = ''linux_auth'' then parse_linux_auth (rs_data src) (ev_evidence_id e)
     else parse_suricata_eve P loads (rs_data src) (ev_evidence_id e)"
  obtain as where parse: "run_state ?parse u = (Inr as, t)" and ea: "ea = (e, as)"
    using assms(1) store by (auto simp: ingest_source_def run_raise split: if_splits elim!: try_bind_InrE)
  have "keeps (evidence_log (evs @ [e])) (next_id ''ALERT'')"
    by (rule keepsI) (simp add: evidence_log_def run_next_id on_repo_def)
  then have "keeps (evidence_log (evs @ [e])) ?parse" by (intro keeps keeps_parsers)
  from keepsD [OF this store_evidence_log [OF store assms(2,3)] parse] show ?thesis by (simp add: ea)
qed

lemma ingest_sources_log:
  "run_state (map_try (ingest_source P loads) srcs) s = (Inr eas, t) \<Longrightarrow> evidence_log evs s \<Longrightarrow> length evs + length srcs < 10000 \<Longrightarrow>
   evidence_log (evs @ map fst eas) t"
proof (induction srcs arbitrary: s evs eas)
  case (Cons src srcs)
  from Cons.prems(1) obtain ea u eas' where one: "run_state (ingest_source P loads src) s = (Inr ea, u)"
    and more: "run_state (map_try (ingest_source P loads) srcs) u = (Inr eas', t)" and eas: "eas = ea # eas'"
    by (auto elim!: try_bind_InrE)
  have "evidence_log (evs @ [fst ea]) u" using ingest_source_log [OF one Cons.prems(2)] Cons.prems(3) by simp
  from Cons.IH [OF more this] show ?case using Cons.prems(3) by (simp add: eas)
qed auto

lemma reconstruct_dumps:
  "list_all2 (\<lambda>src e. vault_get (ev_storage_ref e) v = Inr (rs_data src) \<and> ev_storage_ref e = content_hash P (rs_data src)
      \<and> ev_source e = rs_name src \<and> ev_source_type e = Some (rs_source_type src) \<and> ev_media_type e = rs_media_type src) srcs evs \<Longrightarrow>
   reconstruct P v (map dump_evidence evs) = Inr (srcs :: RawSource list)"
proof (induction rule: list_all2_induct)
  case (Cons src srcs e evs)
  have k: "text_key (dump_evidence e) ''storage_ref'' = Inr (ev_storage_ref e)" "text_key (dump_evidence e) ''source'' = Inr (ev_source e)"
    "text_key (dump_evidence e) ''source_type'' = Inr (rs_source_type src)" "text_key (dump_evidence e) ''media_type'' = Inr (ev_media_type e)"
    using Cons.hyps(1) by (simp_all add: text_key_def key_def dump_evidence_def)
  have "vault_verify P (ev_storage_ref e) v"
    using Cons.hyps(1) by (auto simp: vault_verify_def vault_get_def split: option.splits)
  moreover have "vault_get (content_hash P (rs_data src)) v = Inr (rs_data src)" using Cons.hyps(1) by metis
  ultimately show ?case using k Cons by simp
qed simp

text \<open>A successful flow split at ingestion: what follows it stores no evidence.\<close>

lemma run_flow_split:
  assumes "run_state (run_flow P loads srcs scope actor) s = (Inr r, t)"
  obtains s1 s2 where "run_state (ingest P loads srcs) s1 = (Inr (fr_ingest r), s2)"
    and "s1 = snd (run_state (do { f \<leftarrow> start_flow P ''soc_investigation'' ''Ingest and triage authorized sample alerts'';
        (f, tk) \<leftarrow> add_task P f ''Ingest and normalize alerts''; add_step P f tk ''ingest_sources'' ''deterministic'' }) s)"
    and "\<forall>I cols. quiet_fact P I cols \<longrightarrow> stage_collections \<subseteq> cols \<longrightarrow> I s2 \<longrightarrow> I t"
proof -
  from assms obtain f s0 f1 tk sa tk1 st s1 res s2 where
    pre: "run_state (start_flow P ''soc_investigation'' ''Ingest and triage authorized sample alerts'') s = (f, s0)"
      "run_state (add_task P f ''Ingest and normalize alerts'') s0 = ((f1, tk), sa)"
      "run_state (add_step P f1 tk ''ingest_sources'' ''deterministic'') sa = ((tk1, st), s1)"
    and ing: "run_state (ingest P loads srcs) s1 = (Inr res, s2)"
    and rest: "run_state (flow_stages P srcs scope actor f1 st res) s2 = (Inr r, t)"
    unfolding run_flow_def by (auto elim!: bind_cases try_bind_InrE split: prod.splits simp del: run_state_bind)
  have res: "res = fr_ingest r" using rest unfolding flow_stages_def
    by (auto elim!: bind_cases try_bind_InrE split: prod.splits simp: Let_def simp del: run_state_bind)
  have kept: "\<forall>I cols. quiet_fact P I cols \<longrightarrow> stage_collections \<subseteq> cols \<longrightarrow> I s2 \<longrightarrow> I t"
    using keepsD [OF quiet_fact.flow_stages_keeps _ rest] by blast
  show ?thesis using pre by (intro that [OF ing [unfolded res] _ kept]) (simp add: run_bind)
qed

lemma fresh_start_log:
  assumes "s1 = snd (run_state (do { f \<leftarrow> start_flow P a b; (f, tk) \<leftarrow> add_task P f c; add_step P f tk d e })
      (services_create (InMemory []) clk ag))"
  shows "evidence_log [] s1" and "sv_vault s1 = []"
proof -
  let ?s = "services_create (InMemory []) clk ag"
  let ?m = "do { f \<leftarrow> start_flow P a b; (f, tk) \<leftarrow> add_task P f c; add_step P f tk d e }"
  have k: "keeps (listing ''evidence'' []) ?m" "keeps (on_vault (\<lambda>v. v = [])) ?m"
    by (intro keeps other_collections.runtime_keeps vault_untouched.runtime_keeps; simp add: runtime_collections_def)+
  have "listing ''evidence'' [] ?s" "on_vault (\<lambda>v. v = []) ?s"
    by (simp_all add: services_create_def on_defs mem.invar_empty mem_entries_def)
  then have l: "listing ''evidence'' [] s1" and v: "on_vault (\<lambda>v. v = []) s1" using k by (auto simp: keeps_def assms)
  have "sv_ids s1 ''EVID'' = 0"
    by (simp add: assms start_flow_def add_task_def add_step_def run_bind run_prims Let_def services_create_def empty_ids_def
        split_beta del: run_state_bind)
  with l v show "evidence_log [] s1" "sv_vault s1 = []" by (simp_all add: evidence_log_def on_defs)
qed

text \<open>
  C9: replay is faithful. Replaying a flow that ran on a fresh platform with an in-memory repository, under the
  same clock, scope and the default actor, reads back exactly the sources of the run and ends in exactly its state
  and result, so that no verified collection differs; for fewer than ten thousand sources and a digest without collisions.
\<close>

theorem replay_reproduces_flow:
  assumes "run_state (run_flow P loads srcs scope DEFAULT_ACTOR) (services_create (InMemory []) clk (TriageAgent P)) = (Inr r, t)"
    and "length srcs < 10000" and "\<not> digest_collision P"
  shows "reconstruct_sources P t = Inr srcs \<and> replay P loads t clk scope = Inr (t, r) \<and> diff_collections t t = []"
proof -
  from assms(1) obtain s1 s2 where ing: "run_state (ingest P loads srcs) s1 = (Inr (fr_ingest r), s2)"
    and s1: "s1 = snd (run_state (do { f \<leftarrow> start_flow P ''soc_investigation'' ''Ingest and triage authorized sample alerts'';
        (f, tk) \<leftarrow> add_task P f ''Ingest and normalize alerts''; add_step P f tk ''ingest_sources'' ''deterministic'' })
        (services_create (InMemory []) clk (TriageAgent P)))"
    and kept_all: "\<forall>I cols. quiet_fact P I cols \<longrightarrow> stage_collections \<subseteq> cols \<longrightarrow> I s2 \<longrightarrow> I t"
    by (rule run_flow_split)
  then have kept: "quiet_fact P I cols \<Longrightarrow> I s2 \<Longrightarrow> stage_collections \<subseteq> cols \<Longrightarrow> I t" for I cols by blast
  note fresh = fresh_start_log [OF s1]
  obtain eas u where eas: "run_state (map_try (ingest_source P loads) srcs) s1 = (Inr eas, u)" "ir_evidences (fr_ingest r) = map fst eas"
    and s2: "s2 = snd (run_state (for_each save_group (group_by al_dedup_key (ir_alerts (fr_ingest r)))) u)"
    using ing by (rule ingest_parts)
  let ?es = "map (\<lambda>e. (ev_evidence_id e, dump_evidence e)) (ir_evidences (fr_ingest r))"
  have "evidence_log (ir_evidences (fr_ingest r)) u"
    using ingest_sources_log [OF eas(1) fresh(1)] assms(2) by (simp add: eas(2))
  then have "listing ''evidence'' ?es u" by (simp add: evidence_log_def on_repo_def)
  moreover have "keeps (listing ''evidence'' ?es) (for_each save_group (group_by al_dedup_key (ir_alerts (fr_ingest r))) :: (svc, _) state)"
    by (rule other_collections.save_group_keeps) simp
  ultimately have "listing ''evidence'' ?es s2" by (simp add: keeps_def s2)
  then have "listing ''evidence'' ?es t"
    by (rule kept [OF other_collections.quiet_fact_axioms]) (auto simp: stage_collections_def runtime_collections_def soc_collections_def remediation_collections_def)
  then have rows: "repo_list ''evidence'' (sv_repo t) = map dump_evidence (ir_evidences (fr_ingest r))"
    by (simp add: on_repo_def repo_list_entries)
  have "keeps (on_vault (\<lambda>v. v = sv_vault u)) (for_each save_group (group_by al_dedup_key (ir_alerts (fr_ingest r))) :: (svc, _) state)"
    by (rule vault_untouched.save_group_keeps) simp
  then have "on_vault (\<lambda>v. v = sv_vault u) s2" by (simp add: keeps_def s2 on_vault_def)
  then have "on_vault (\<lambda>v. v = sv_vault u) t" by (rule kept [OF vault_untouched.quiet_fact_axioms]) simp
  then have vault: "sv_vault t = sv_vault u" by (simp add: on_vault_def)
  have "evidence_ok P s1" using fresh(2) by (simp add: on_vault_def)
  from ingest_sources_retained [OF eas(1) this assms(3)]
  have "list_all2 (\<lambda>src e. vault_get (ev_storage_ref e) (sv_vault t) = Inr (rs_data src) \<and> ev_storage_ref e = content_hash P (rs_data src)
      \<and> ev_source e = rs_name src \<and> ev_source_type e = Some (rs_source_type src) \<and> ev_media_type e = rs_media_type src)
      srcs (ir_evidences (fr_ingest r))"
    by (auto simp: eas(2) list_all2_map2 retained_def on_vault_def vault elim: list_all2_mono)
  then have src: "reconstruct_sources P t = Inr srcs" by (simp add: reconstruct_sources_def rows reconstruct_dumps)
  then have "replay P loads t clk scope = Inr (t, r)" using assms(1) by (simp add: replay_def DEFAULT_ACTOR_def)
  with src show ?thesis by (simp add: diff_collections_def)
qed

section \<open>Examples\<close>

lemma empty_flow_runs: "\<exists>r t. run_state (run_flow P loads [] scope actor) s = (Inr r, t)"
  by (simp add: run_flow_def flow_stages_def ingest_def run_bind run_try_bind run_succeed Let_def split_beta del: run_state_bind)

theorem run_flow_keeps_platform_witness:
  "\<exists>r t. run_state (run_flow small_py (\<lambda>_. None) [] (default_scope small_py) DEFAULT_ACTOR) small_host = (r, t)
     \<and> chain_intact small_py t \<and> hs_files t = sample_files"
proof -
  obtain r t where run: "run_state (run_flow small_py (\<lambda>_. None) [] (default_scope small_py) DEFAULT_ACTOR) small_host = (r, t)" by fastforce
  have "chain_intact small_py small_host" "evidence_ok small_py small_host" by (simp_all add: small_host_def on_defs)
  from run_flow_keeps_platform [OF run this small_facts(2)] run show ?thesis by (auto simp: small_host_def)
qed

text \<open>
  A flow over real lines: three failures from one source on one host. Operations that cannot raise once the
  platform's own agent is registered and no approval is on record.
\<close>

definition brute_line :: string where
  "brute_line = ''Jul 6 1:2 w sshd[9]: Failed password for u from 1.2.3.4''"

definition brute_source :: RawSource where
  "brute_source = \<lparr>rs_name = ''auth.log'', rs_source_type = ''linux_auth'', rs_media_type = ''text/plain'',
     rs_data = brute_line @ lf # brute_line @ lf # brute_line\<rparr>"

definition ready :: "py \<Rightarrow> 'z svc_scheme \<Rightarrow> bool" where
  "ready P s \<longleftrightarrow> own_agent P s \<and> listing ''approvals'' [] s"

lemma keeps_ready: "keeps (own_agent P) m \<Longrightarrow> keeps (listing ''approvals'' []) m \<Longrightarrow> keeps (ready P) m"
  by (auto simp: keeps_def ready_def)

interpretation readiness: kept_fact P "ready P" "- {''approvals''}" for P
proof unfold_locales
  show "keeps (ready P) now" by (rule keeps_ready; rule keeps_clock)
  show "keeps (ready P) (next_id p)" for p by (rule keeps_ready; rule keeps_ids)
  show "keeps (ready P) (record_event P ty ac fl sr pl)" for ty ac fl sr pl by (rule keeps_ready; rule keeps_record)
  show "keeps (ready P) (put_evidence P b)" for b by (rule keeps_ready; rule keeps_put_evidence)
  show "keeps (ready P) (save c i d)" if "c \<in> - {''approvals''}" for c i d
    using that by (intro keeps_ready keeps_listing_save keeps_save) simp
qed

definition returns :: "('s \<Rightarrow> bool) \<Rightarrow> ('s, 'a result) state \<Rightarrow> bool" where
  "returns I m \<longleftrightarrow> (\<forall>s. I s \<longrightarrow> is_ok (fst (run_state m s)))"

lemma returns_bind: "keeps I m \<Longrightarrow> (\<And>x. returns I (f x)) \<Longrightarrow> returns I (State_Monad.bind m f)"
  by (auto simp: returns_def keeps_def run_bind simp del: run_state_bind)

lemma returns_try_bind: "returns I m \<Longrightarrow> keeps I m \<Longrightarrow> (\<And>x. returns I (f x)) \<Longrightarrow> returns I (try_bind m f)"
  unfolding returns_def keeps_def run_try_bind by (fastforce split: prod.splits sum.splits)

lemma returns_return: "returns I (State_Monad.return (Inr x))"
  by (simp add: returns_def)

lemma returns_cases:
  "(\<And>a b. returns I (f a b)) \<Longrightarrow> returns I (case p of (a, b) \<Rightarrow> f a b)"
  "returns I m \<Longrightarrow> (\<And>x. returns I (g x)) \<Longrightarrow> returns I (case opt of None \<Rightarrow> m | Some x \<Rightarrow> g x)"
  by (auto split: prod.splits option.splits)

lemmas returning = returns_bind returns_try_bind returns_return returns_cases

lemma own_triage_returns: "returns (ready P) (triage_group P g)"
  unfolding returns_def
proof (intro allI impI)
  fix s :: "'a svc_scheme"
  assume "ready P s"
  then show "is_ok (fst (run_state (triage_group P g) s))"
    using triage_agent_runs [of s P g] by (auto simp: ready_def on_agents_def)
qed

lemma no_approval_returns:
  assumes "ap_target plan = [(''asset_id'', JStr a)]"
  shows "returns (ready P) (evaluate_execution P plan scope actor)"
  using assms
  by (simp add: returns_def ready_def on_repo_def evaluate_execution_def run_bind run_list_rows run_try_bind run_from_result run_prims
      repo_list_entries valid_approval_def asset_of_def Let_def del: run_state_bind)

lemma returns_bind_result: "keeps I m \<Longrightarrow> (\<And>x s t. run_state m s = (x, t) \<Longrightarrow> returns I (f x)) \<Longrightarrow> returns I (State_Monad.bind m f)"
  by (auto simp: returns_def keeps_def run_bind simp del: run_state_bind) (metis prod.collapse)

lemma ready_collections:
  "runtime_collections \<subseteq> - {''approvals''}" "soc_collections \<subseteq> - {''approvals''}" "ingest_collections \<subseteq> - {''approvals''}"
  by (simp_all add: runtime_collections_def soc_collections_def ingest_collections_def)

lemmas keeps_structure = keeps_return keeps_bind keeps_try_bind keeps_option keeps_prod keeps_list keeps_let keeps_from_result

lemma ready_plans: "keeps (ready P) (build_action_plan P inc r)" "keeps (ready P) (evaluate_execution P plan scope actor)"
  unfolding build_action_plan_def draft_plan_def evaluate_execution_def
  by (intro keeps readiness.save_keeps; simp)+

lemmas ready_keeps = readiness.runtime_keeps [OF ready_collections(1)] readiness.triage_keeps [OF ready_collections(2)]
  readiness.map_incident_keeps [OF ready_collections(2)] ready_plans

lemma ready_flow_group: "keeps (ready P) (flow_group P scope actor flow g)"
  unfolding flow_group_def flow_incident_def flow_remediate_def by (intro keeps_structure ready_keeps)

lemma ready_flow_groups: "keeps (ready P) (flow_groups P scope actor flow gs)"
  by (induction gs arbitrary: flow) (simp_all only: flow_groups.simps keeps_return, intro keeps_structure ready_flow_group)

lemma flow_remediate_returns: "returns (ready P) (flow_remediate P scope actor flow inc r oc)"
proof -
  have "returns (ready P) (case pl of None \<Rightarrow> State_Monad.return (Inr (flow, oc, False))
      | Some plan \<Rightarrow> do {
          (flow, _) \<leftarrow> add_artifact P flow ''action_plan'' (ap_action_plan_id plan);
          (_, gate_step) \<leftarrow> add_step P flow rem_task ''policy_gate'' ''policy'';
          try_bind (evaluate_execution P plan scope actor) (\<lambda>(decision, plan). do {
            tool_call P flow gate_step ''policy.evaluate''
              [(''action_plan_id'', JStr (ap_action_plan_id plan)), (''action_type'', JStr (ap_action_type plan))]
              [(''effect'', JStr (policy_effect_value (pd_effect decision))), (''reason_code'', JStr (pd_reason_code decision))]
              [] None RUN_OK;
            State_Monad.return (Inr (flow, oc\<lparr>go_action_plan := Some plan, go_policy_decision := Some decision\<rparr>, True)) }) })"
    if "run_state (build_action_plan P inc r) s = (pl, t)" for pl flow rem_task and s t :: "'a svc_scheme"
  proof (cases pl)
    case (Some p)
    then have "ap_target p = [(''asset_id'', JStr (in_asset_id inc))]" using build_action_plan_result [OF that] by simp
    then show ?thesis by (simp only: Some option.case) (intro returning ready_keeps no_approval_returns)
  qed (simp add: returns_return)
  then show ?thesis
    unfolding flow_remediate_def by (intro returns_bind returns_cases(1) returns_bind_result [OF ready_plans(1)] ready_keeps)
qed

lemma flow_groups_return: "returns (ready P) (flow_groups P scope actor flow gs)"
proof (induction gs arbitrary: flow)
  case (Cons g gs)
  have one: "returns (ready P) (flow_group P scope actor flow g)"
    unfolding flow_group_def flow_incident_def Let_def by (intro returning ready_keeps own_triage_returns flow_remediate_returns)
  with Cons show ?case by (simp only: flow_groups.simps) (intro returning ready_flow_group ready_flow_groups)
qed (simp add: returns_return)

lemma brute_lines: "splitlines (rs_data brute_source) = replicate 3 brute_line"
  by code_simp

lemma brute_fields: "SSH_RE (strip brute_line) = Some \<lparr>sf_mon = ''Jul'', sf_day = ''6'', sf_time = ''1:2'', sf_host = ''w'', sf_user = ''u'', sf_ip = ''1.2.3.4''\<rparr>"
  by code_simp

lemma brute_alerts:
  "\<exists>as t. run_state (parse_linux_auth (rs_data brute_source) e) s = (Inr as, t) \<and> map al_dedup_key as = replicate 3 ''ssh_failed_password:w:1.2.3.4''
     \<and> map al_signature as = replicate 3 ''ssh_failed_password'' \<and> map al_evidence_ids as = replicate 3 [e]"
proof -
  have iso: "\<exists>x. syslog_iso ''Jul'' ''6'' ''1:2'' = Inr x" by (simp add: syslog_iso_def MONTHS_def)
  show ?thesis
    using iso by (auto simp: parse_linux_auth_def brute_lines numeral_3_eq_3 linux_auth_line_def brute_fields run_bind run_try_bind
      run_from_result run_prims simp del: run_state_bind)
qed

lemma same_values_snoc:
  assumes "map f xs = replicate (Suc (Suc n)) k"
  obtains ys y where "xs = ys @ [y]" and "map f ys = replicate (Suc n) k" and "f y = k"
proof (cases xs rule: rev_cases)
  case (snoc ys y)
  then have "map f ys @ [f y] = replicate (Suc n) k @ [k]" using assms by (simp only: replicate_append_same map_append) simp
  then show ?thesis using that snoc by simp
qed (use assms in simp)

lemma same_key_groups:
  assumes "map f xs = replicate (Suc n) k"
  shows "group_by f xs = [(k, xs)]"
  using assms
proof (induction n arbitrary: xs)
  case 0
  then obtain x where "xs = [x]" "f x = k" by auto
  then show ?case by (simp add: group_by_def group_add_def)
next
  case (Suc n)
  from Suc.prems obtain ys y where "xs = ys @ [y]" "map f ys = replicate (Suc n) k" "f y = k"
    by (rule same_values_snoc)
  then show ?case using Suc.IH by (simp add: group_add_def)
qed

lemma brute_ingest:
  "\<exists>r g t. run_state (ingest P loads [brute_source]) s = (Inr r, t) \<and> ir_groups r = [g] \<and> ssh_failures g"
proof -
  obtain e u where e: "run_state (store_evidence P brute_source) s = (e, u)" by fastforce
  obtain as v where parse: "run_state (parse_linux_auth (rs_data brute_source) (ev_evidence_id e)) u = (Inr as, v)"
    and as: "map al_dedup_key as = replicate (Suc 2) ''ssh_failed_password:w:1.2.3.4''" "map al_signature as = replicate (Suc 2) ''ssh_failed_password''"
      "map al_evidence_ids as = replicate (Suc 2) [ev_evidence_id e]"
    using brute_alerts by (metis eval_nat_numeral(3))
  have "rs_source_type brute_source = ''linux_auth''" by (simp add: brute_source_def)
  then have "run_state (ingest_source P loads brute_source) s = (Inr (e, as), v)"
    using e parse by (simp add: ingest_source_def run_bind run_try_bind del: run_state_bind)
  then have "run_state (map_try (ingest_source P loads) [brute_source]) s = (Inr [(e, as)], v)" by (simp add: run_try_bind)
  then obtain r t where run: "run_state (ingest P loads [brute_source]) s = (Inr r, t)" and r: "ir_alerts r = as"
    by (simp add: ingest_def run_try_bind run_succeed Let_def del: run_state_bind)
  have "list_all2 group_of (group_by al_dedup_key (ir_alerts r)) (ir_groups r)" using run by (rule ingest_parts) blast
  then obtain g where g: "ir_groups r = [g]" "group_of (''ssh_failed_password:w:1.2.3.4'', as) g"
    by (auto simp: r same_key_groups [OF as(1)] list_all2_Cons1)
  obtain i where i: "g = make_group i ''ssh_failed_password:w:1.2.3.4'' as" using g(2) by (auto simp: group_of_def)
  have "length (map al_dedup_key as) = 3" unfolding as(1) by simp
  then have "ag_count g = 3" unfolding i make_group_fields by simp
  moreover obtain a bs where ab: "as = a # bs" using as(1) by (cases as) auto
  then have "al_signature a = ''ssh_failed_password''" using as(2) by (simp only: replicate_Suc list.simps)
  then have "ag_signature g = ''ssh_failed_password''" unfolding i ab by (simp add: make_group_def Let_def split_beta)
  moreover have "ag_evidence_ids g \<noteq> []" unfolding i make_group_fields sorted_set_empty_iff as(3) by simp
  ultimately have "ssh_failures g" by (simp add: ssh_failures_def)
  with run g(1) show ?thesis by blast
qed

lemma brute_flow_returns: "returns (ready P) (run_flow P loads [brute_source] scope actor)"
proof -
  have "returns (ready P) (ingest P loads [brute_source])"
    unfolding returns_def using brute_ingest [of P loads] by (metis fst_conv is_ok_simps(2))
  then show ?thesis
    unfolding run_flow_def flow_stages_def Let_def
    by (intro returning ready_keeps readiness.ingest_keeps [OF ready_collections(3)] readiness.flow_artifacts_keeps [OF ready_collections(1)]
        flow_groups_return ready_flow_groups)
qed


theorem replay_reproduces_flow_witness:
  "\<exists>r t. run_state (run_flow sample_py (\<lambda>_. None) [] (default_scope sample_py) DEFAULT_ACTOR)
       (services_create (InMemory []) (FixedClock 0) (TriageAgent sample_py)) = (Inr r, t)
     \<and> replay sample_py (\<lambda>_. None) t (FixedClock 0) (default_scope sample_py) = Inr (t, r)"
proof -
  obtain r t where run: "run_state (run_flow sample_py (\<lambda>_. None) [] (default_scope sample_py) DEFAULT_ACTOR)
       (services_create (InMemory []) (FixedClock 0) (TriageAgent sample_py)) = (Inr r, t)"
    using empty_flow_runs by blast
  from replay_reproduces_flow [OF run _ sample_py_no_collision] run show ?thesis by auto
qed

end
