(* ===== verification/Union_Find.thy ===== *)
theory Union_Find
  imports Py_Dict
begin

text \<open>
  \<open>_Sets\<close> of \<open>app/reduction/dedup.py\<close>: union-find over indices with path halving, linking the greater
  root to the smaller. \<open>find\<close> is a loop that may not end on a cyclic parent list, so it is a
  partial function whose value \<open>None\<close> is not returning; it is shown to return on every list the
  class can build. The theory ends with what the class computes: after any sequence of unions,
  \<open>components\<close> lists the classes of the equivalence they generate, each in ascending
  order, ordered by smallest member.
\<close>

section \<open>Operations\<close>

definition sets_init :: "nat \<Rightarrow> nat list" where
  "sets_init n = [0..<n]"

partial_function (option) sets_find :: "nat list \<Rightarrow> nat \<Rightarrow> (nat \<times> nat list) option" where
  "sets_find parent item =
     (if parent ! item = item then Some (item, parent)
      else let parent' = parent[item := parent ! (parent ! item)] in sets_find parent' (parent' ! item))"

declare sets_find.simps [code]

definition sets_union :: "nat \<Rightarrow> nat \<Rightarrow> nat list \<Rightarrow> nat list option" where
  "sets_union a b parent = do {
     (left, parent) \<leftarrow> sets_find parent a;
     (right, parent) \<leftarrow> sets_find parent b;
     Some (if left \<noteq> right then parent[max left right := min left right] else parent) }"

fun find_all :: "nat list \<Rightarrow> nat list \<Rightarrow> ((nat \<times> nat) list \<times> nat list) option" where
  "find_all [] parent = Some ([], parent)"
| "find_all (item # items) parent = do {
     (r, parent) \<leftarrow> sets_find parent item;
     (rs, parent) \<leftarrow> find_all items parent;
     Some ((r, item) # rs, parent) }"

definition sets_components :: "nat list \<Rightarrow> (nat list list \<times> nat list) option" where
  "sets_components parent = do {
     (pairs, parent) \<leftarrow> find_all [0..<length parent] parent;
     Some (map (map snd \<circ> snd) (sort_key fst (group_by fst pairs)), parent) }"

section \<open>Representatives\<close>

definition uf_ok :: "nat list \<Rightarrow> bool" where
  "uf_ok p \<longleftrightarrow> (\<forall>i < length p. p ! i \<le> i)"

lemma uf_ok_update: "uf_ok p \<Longrightarrow> k \<le> i \<Longrightarrow> uf_ok (p[i := k])"
  by (cases "i < length p") (simp_all add: uf_ok_def nth_list_update list_update_beyond)

function rep :: "nat list \<Rightarrow> nat \<Rightarrow> nat" where
  "rep p i = (if i < length p \<and> p ! i < i then rep p (p ! i) else i)"
  by auto
termination by (relation "measure snd") auto

declare rep.simps [simp del]

lemma rep_root: "uf_ok p \<Longrightarrow> i < length p \<Longrightarrow> p ! i = i \<Longrightarrow> rep p i = i"
  by (simp add: rep.simps)

lemma rep_parent: "uf_ok p \<Longrightarrow> i < length p \<Longrightarrow> rep p (p ! i) = rep p i"
  by (metis nless_le rep.simps uf_ok_def)

lemma rep_le: "rep p i \<le> i"
  by (induction p i rule: rep.induct) (subst rep.simps, auto)

lemma rep_is_root: "uf_ok p \<Longrightarrow> i < length p \<Longrightarrow> rep p i < length p \<and> p ! rep p i = rep p i"
proof (induction p i rule: rep.induct)
  case (1 p i)
  show ?case
  proof (cases "p ! i < i")
    case True
    with 1 show ?thesis by (subst (1 2 3) rep.simps) auto
  next
    case False
    with 1 have "p ! i = i" by (meson nless_le uf_ok_def)
    with 1 show ?thesis by (simp add: rep_root)
  qed
qed

lemma rep_idem: "uf_ok p \<Longrightarrow> i < length p \<Longrightarrow> rep p (rep p i) = rep p i"
  using rep_is_root rep_root by blast

text \<open>Redirecting an element to a smaller one of its class changes no representative.\<close>

lemma rep_redirect:
  assumes ok: "uf_ok p" and i: "i < length p" and k: "k \<le> i" "rep p k = rep p i" "k = i \<longrightarrow> p ! i = i"
  shows "uf_ok (p[i := k])" and "j < length p \<Longrightarrow> rep (p[i := k]) j = rep p j"
proof -
  show ok': "uf_ok (p[i := k])" using ok k(1) by (rule uf_ok_update)
  show "j < length p \<Longrightarrow> rep (p[i := k]) j = rep p j"
  proof (induction j rule: less_induct)
    case (less j)
    show ?case
    proof (cases "j = i")
      case False
      then have eq: "p[i := k] ! j = p ! j" by simp
      show ?thesis
      proof (cases "p ! j < j")
        case True
        then have "p ! j < length p" using less.prems by simp
        with True less eq show ?thesis by (subst (1 2) rep.simps) simp
      qed (simp add: rep.simps eq)
    next
      case True
      show ?thesis
      proof (cases "k < i")
        case kl: True
        with True i less have "rep (p[i := k]) k = rep p k" by simp
        with True kl i k(2) show ?thesis by (subst rep.simps) simp
      next
        case False
        with k have "k = i" "p ! i = i" by simp_all
        with True i show ?thesis by (simp add: rep.simps)
      qed
    qed
  qed
qed

lemma sets_find_spec:
  "uf_ok p \<Longrightarrow> i < length p \<Longrightarrow>
   \<exists>q. sets_find p i = Some (rep p i, q) \<and> uf_ok q \<and> length q = length p \<and> (\<forall>j < length p. rep q j = rep p j)"
proof (induction i arbitrary: p rule: less_induct)
  case (less i)
  show ?case
  proof (cases "p ! i = i")
    case True
    with less.prems show ?thesis by (subst sets_find.simps) (simp add: rep_root)
  next
    case False
    with less.prems have lt: "p ! i < i" by (meson nless_le uf_ok_def)
    let ?k = "p ! (p ! i)" and ?q = "p[i := p ! (p ! i)]"
    have k: "?k \<le> p ! i" using less.prems lt by (meson dual_order.strict_trans uf_ok_def)
    have reps: "rep p ?k = rep p i"
      using less.prems lt rep_parent [of p "p ! i"] rep_parent [of p i] by simp
    note q = rep_redirect [OF less.prems _ reps]
    have "uf_ok ?q" and same: "\<And>j. j < length p \<Longrightarrow> rep ?q j = rep p j" using q k lt by auto
    then obtain r where "sets_find ?q ?k = Some (rep ?q ?k, r)" "uf_ok r" "length r = length p" "\<forall>j < length p. rep r j = rep ?q j"
      using less.IH [of ?k ?q] k lt less.prems by auto
    then show ?thesis
      using False less.prems same [of i] same reps k lt by (subst sets_find.simps) (simp add: Let_def)
  qed
qed

text \<open>Linking a root to a smaller one moves its class, and no other.\<close>

lemma rep_link:
  assumes ok: "uf_ok p" and m: "m < length p" "p ! m = m" and n: "n < m" "p ! n = n"
  shows "uf_ok (p[m := n])" and "j < length p \<Longrightarrow> rep (p[m := n]) j = (if rep p j = m then n else rep p j)"
proof -
  show ok': "uf_ok (p[m := n])" using ok less_imp_le [OF n(1)] by (rule uf_ok_update)
  show "j < length p \<Longrightarrow> rep (p[m := n]) j = (if rep p j = m then n else rep p j)"
  proof (induction j rule: less_induct)
    case (less j)
    consider "j = m" | "j \<noteq> m" "p ! j < j" | "j \<noteq> m" "p ! j = j"
      using ok less.prems by (meson nless_le uf_ok_def)
    then show ?case
    proof cases
      case 1
      have "rep (p[m := n]) n = n" using n by (simp add: rep.simps)
      moreover have "rep p m = m" using ok m by (simp add: rep_root)
      ultimately show ?thesis using 1 m n by (subst rep.simps) simp
    next
      case 2
      with less have "rep (p[m := n]) (p ! j) = (if rep p (p ! j) = m then n else rep p (p ! j))" by simp
      with 2 less.prems show ?thesis by (subst (1 2 3) rep.simps) simp
    next
      case 3
      then show ?thesis using less.prems by (simp add: rep.simps)
    qed
  qed
qed

lemma sets_union_spec:
  assumes "uf_ok p" and "a < length p" and "b < length p"
  shows "\<exists>q. sets_union a b p = Some q \<and> uf_ok q \<and> length q = length p \<and>
    (\<forall>j < length p. rep q j = (if rep p j = max (rep p a) (rep p b) then min (rep p a) (rep p b) else rep p j))"
proof -
  obtain q where q: "sets_find p a = Some (rep p a, q)" "uf_ok q" "length q = length p" "\<forall>j < length p. rep q j = rep p j"
    using sets_find_spec [OF assms(1,2)] by blast
  obtain r where r: "sets_find q b = Some (rep p b, r)" "uf_ok r" "length r = length p" "\<forall>j < length p. rep r j = rep p j"
    using sets_find_spec [OF q(2), of b] q assms(3) by auto
  have r1: "rep p x < length p" "r ! rep p x = rep p x" if "x < length p" for x
    using rep_is_root [of r x] r that by auto
  show ?thesis
  proof (cases "rep p a = rep p b")
    case True
    then show ?thesis using q r by (simp add: sets_union_def)
  next
    case False
    let ?m = "max (rep p a) (rep p b)" and ?n = "min (rep p a) (rep p b)"
    have m: "?m < length r" "r ! ?m = ?m" "?n < ?m" "r ! ?n = ?n"
      using r1 assms r(3) False by (auto simp: max_def min_def)
    show ?thesis
      using rep_link [OF r(2) m] r q False by (auto simp: sets_union_def)
  qed
qed

section \<open>What a list of sets represents\<close>

text \<open>
  The classes of the list as a relation. A list is \<^emph>\<open>sound\<close> for a set of links when it joins only
  what a chain of links joins; it is \<^emph>\<open>faithful\<close> when it joins exactly that.
\<close>

definition joined :: "nat list \<Rightarrow> nat \<Rightarrow> nat \<Rightarrow> bool" where
  "joined p i j \<longleftrightarrow> rep p i = rep p j"

definition chain :: "(nat \<times> nat) set \<Rightarrow> (nat \<times> nat) set" where
  "chain L = (L \<union> L\<inverse>)\<^sup>*"

definition uf_sound :: "nat \<Rightarrow> (nat \<times> nat) set \<Rightarrow> nat list \<Rightarrow> bool" where
  "uf_sound n L p \<longleftrightarrow> uf_ok p \<and> length p = n \<and> (\<forall>i < n. \<forall>j < n. joined p i j \<longrightarrow> (i, j) \<in> chain L)"

lemma chain_refl [simp]: "(i, i) \<in> chain L"
  by (simp add: chain_def)

lemma chain_sym: "(i, j) \<in> chain L \<Longrightarrow> (j, i) \<in> chain L"
  unfolding chain_def by (metis sym_Un_converse sym_rtrancl symD)

lemma chain_trans: "(i, j) \<in> chain L \<Longrightarrow> (j, k) \<in> chain L \<Longrightarrow> (i, k) \<in> chain L"
  unfolding chain_def by (rule rtrancl_trans)

lemma chain_link: "(i, j) \<in> L \<Longrightarrow> (i, j) \<in> chain L"
  by (auto simp: chain_def)

lemma joined_refl [simp]: "joined p i i"
  and joined_sym: "joined p i j \<Longrightarrow> joined p j i"
  and joined_trans: "joined p i j \<Longrightarrow> joined p j k \<Longrightarrow> joined p i k"
  by (simp_all add: joined_def)

lemma rep_sets_init: "i < n \<Longrightarrow> rep (sets_init n) i = i"
  by (simp add: sets_init_def rep.simps)

lemma uf_sound_init: "uf_sound n L (sets_init n)"
  by (auto simp: uf_sound_def uf_ok_def joined_def rep_sets_init) (simp_all add: sets_init_def)

lemma sets_union_joins:
  assumes p: "uf_sound n L p" and ab: "a < n" "b < n" "(a, b) \<in> chain L"
  shows "\<exists>q. sets_union a b p = Some q \<and> uf_sound n L q \<and> joined q a b \<and>
    (\<forall>i < n. \<forall>j < n. joined p i j \<longrightarrow> joined q i j)"
proof -
  from p have ok: "uf_ok p" "length p = n" by (simp_all add: uf_sound_def)
  let ?m = "max (rep p a) (rep p b)" and ?k = "min (rep p a) (rep p b)"
  obtain q where q: "sets_union a b p = Some q" "uf_ok q" "length q = n"
    and rep: "\<forall>j < n. rep q j = (if rep p j = ?m then ?k else rep p j)"
    using sets_union_spec [OF ok(1), of a b] ok ab by auto
  have "joined q i j \<Longrightarrow> (i, j) \<in> chain L" if ij: "i < n" "j < n" for i j
  proof -
    assume "joined q i j"
    then consider "joined p i j" | "joined p i a" "joined p b j" | "joined p i b" "joined p a j"
      using rep ij unfolding joined_def by (auto split: if_splits simp: max_def min_def)
    moreover have "joined p x y \<Longrightarrow> x < n \<Longrightarrow> y < n \<Longrightarrow> (x, y) \<in> chain L" for x y
      using p by (simp add: uf_sound_def)
    ultimately show ?thesis
      using ab ij by cases (blast intro: chain_trans chain_sym)+
  qed
  moreover have "joined q a b" using rep ab by (auto simp: joined_def max_def min_def)
  moreover have "joined p i j \<Longrightarrow> joined q i j" if "i < n" "j < n" for i j
    using rep that by (simp add: joined_def)
  ultimately show ?thesis using q by (auto simp: uf_sound_def)
qed

text \<open>A sound list that joins the ends of every link joins exactly the chains.\<close>

lemma uf_sound_complete:
  assumes p: "uf_sound n L p" and L: "L \<subseteq> {..<n} \<times> {..<n}" "\<And>i j. (i, j) \<in> L \<Longrightarrow> joined p i j"
    and ij: "i < n" "j < n"
  shows "joined p i j \<longleftrightarrow> (i, j) \<in> chain L"
proof
  assume "(i, j) \<in> chain L"
  then show "joined p i j"
    unfolding chain_def
    by (induction rule: rtrancl_induct) (auto intro: joined_trans joined_sym dest: L(2))
qed (use p ij in \<open>simp add: uf_sound_def\<close>)

section \<open>The components\<close>

lemma find_all_spec:
  "uf_ok p \<Longrightarrow> set items \<subseteq> {..<length p} \<Longrightarrow>
   \<exists>q. find_all items p = Some (map (\<lambda>i. (rep p i, i)) items, q)"
proof (induction items arbitrary: p)
  case (Cons item items)
  then obtain q where q: "sets_find p item = Some (rep p item, q)" "uf_ok q" "length q = length p"
    "\<forall>j < length p. rep q j = rep p j"
    using sets_find_spec [of p item] by auto
  with Cons obtain r where "find_all items q = Some (map (\<lambda>i. (rep q i, i)) items, r)" by fastforce
  with q Cons.prems show ?case by (auto intro!: map_cong)
qed simp

text \<open>
  The classes of the indices below \<open>n\<close>, each in ascending order, ordered by their smallest
  member.
\<close>

definition classes :: "nat \<Rightarrow> (nat \<Rightarrow> nat \<Rightarrow> bool) \<Rightarrow> nat list list" where
  "classes n same =
     map (\<lambda>i. filter (same i) [0..<n]) (filter (\<lambda>i. \<forall>j < i. \<not> same j i) [0..<n])"

lemma classes_cong:
  assumes "\<And>i j. i < n \<Longrightarrow> j < n \<Longrightarrow> same i j = same' i j"
  shows "classes n same = classes n same'"
proof -
  have "filter (\<lambda>i. \<forall>j < i. \<not> same j i) [0..<n] = filter (\<lambda>i. \<forall>j < i. \<not> same' j i) [0..<n]"
    using assms by (intro filter_cong) auto
  then show ?thesis using assms unfolding classes_def by (auto intro!: map_cong filter_cong)
qed

lemma least_iff_root:
  assumes "uf_ok p" and "i < length p"
  shows "(\<forall>j < i. \<not> joined p j i) \<longleftrightarrow> rep p i = i"
  using rep_le [of p] rep_idem [OF assms] unfolding joined_def by (metis nat_less_le not_le)

lemma group_pairs_keys: "fst ` set (group_by fst (map (\<lambda>i. (f i, i)) items)) = f ` set items"
  by (force simp: fst_set_group_by)

lemma sort_key_fst_eq:
  assumes "distinct (map fst d)" and "sorted ks" "distinct ks" "set ks = fst ` set d"
  shows "sort_key fst d = map (\<lambda>k. (k, the (map_of d k))) ks"
proof -
  have keys: "map fst (sort_key fst d) = ks"
    by (rule sorted_distinct_set_unique)
      (use assms in \<open>auto simp: distinct_map intro: inj_on_subset\<close>)
  have "(k, the (map_of d k)) = kv" if "kv \<in> set (sort_key fst d)" "k = fst kv" for k kv
  proof -
    have "kv \<in> set d" using that by simp
    then have "map_of d (fst kv) = Some (snd kv)" using assms(1) by simp
    with that show ?thesis by simp
  qed
  then have "map (\<lambda>kv. (fst kv, the (map_of d (fst kv)))) (sort_key fst d) = sort_key fst d"
    by (intro map_idI) auto
  then show ?thesis unfolding keys [symmetric] by (simp add: comp_def)
qed

lemma sets_components_spec:
  assumes ok: "uf_ok p"
  shows "\<exists>q. sets_components p = Some (classes (length p) (joined p), q)"
proof -
  let ?n = "length p" and ?pairs = "map (\<lambda>i. (rep p i, i)) [0..<length p]"
  obtain q where q: "find_all [0..<?n] p = Some (?pairs, q)" using find_all_spec [OF ok, of "[0..<?n]"] by fastforce
  let ?ks = "filter (\<lambda>i. \<forall>j < i. \<not> joined p j i) [0..<?n]"
  have ks: "set ?ks = rep p ` {..<?n}" (is "_ = ?R")
  proof -
    have "set ?ks = {i. i < ?n \<and> rep p i = i}" using least_iff_root [OF ok] by auto
    also have "\<dots> = ?R" using rep_is_root [OF ok] rep_idem [OF ok] by force
    finally show ?thesis .
  qed
  have "sort_key fst (group_by fst ?pairs) = map (\<lambda>k. (k, the (map_of (group_by fst ?pairs) k))) ?ks"
  proof (rule sort_key_fst_eq)
    show "set ?ks = fst ` set (group_by fst ?pairs)"
      unfolding ks group_pairs_keys by (simp add: atLeast0LessThan)
  qed (simp_all add: sorted_wrt_filter)
  moreover have "map snd (the (map_of (group_by fst ?pairs) k)) = filter (joined p k) [0..<?n]" if "k \<in> set ?ks" for k
  proof -
    have "k \<in> rep p ` {..<?n}" using that unfolding ks .
    then have "k \<in> fst ` set ?pairs" by force
    moreover have "rep p k = k" using that least_iff_root [OF ok] by auto
    ultimately show ?thesis
      unfolding map_of_group_by by (simp add: filter_map comp_def joined_def [abs_def] eq_commute [of k])
  qed
  ultimately show ?thesis
    using q by (simp add: sets_components_def classes_def comp_def)
qed

lemma count_upt: "Multiset.count (mset [0..<n]) x = (if x < n then 1 else 0)"
  by (simp add: mset_upt count_mset_set)

lemma filter_eq_upt: "r < n \<Longrightarrow> filter (\<lambda>i. i = r) [0..<n] = [r]"
  by (induction n) (auto simp: less_Suc_eq)

lemma classes_mset:
  assumes sym: "\<And>i j. same i j \<Longrightarrow> same j i" and trans: "\<And>i j k. same i j \<Longrightarrow> same j k \<Longrightarrow> same i k"
    and refl: "\<And>i. same i i"
  shows "mset (concat (classes n same)) = mset [0..<n]"
proof (rule multiset_eqI)
  fix x
  let ?least = "\<lambda>i. \<forall>j < i. \<not> same j i"
  have one: "\<exists>!i. ?least i \<and> same i x"
  proof (rule ex_ex1I)
    show "\<exists>i. ?least i \<and> same i x"
      using exists_least_iff [of "\<lambda>i. same i x"] refl trans by blast
    show "i = j" if "?least i \<and> same i x" "?least j \<and> same j x" for i j
      using that sym trans by (metis nat_neq_iff)
  qed
  then obtain r where r: "?least r" "same r x" "\<And>i. ?least i \<Longrightarrow> same i x \<Longrightarrow> i = r" by blast
  have "r \<le> x" using r(1,2) sym by (meson not_le)
  have "Multiset.count (mset (concat (map (\<lambda>i. filter (same i) [0..<n]) is))) x =
      (if x < n then length (filter (\<lambda>i. same i x) is) else 0)" for "is"
    by (induction "is") (simp_all add: count_upt)
  moreover have "filter (\<lambda>i. same i x) (filter ?least [0..<n]) = [r]" if "x < n"
  proof -
    have "filter (\<lambda>i. same i x) (filter ?least [0..<n]) = filter (\<lambda>i. i = r) [0..<n]"
      unfolding filter_filter by (rule filter_cong) (use r in blast)+
    also have "\<dots> = [r]" using \<open>r \<le> x\<close> that by (intro filter_eq_upt) simp
    finally show ?thesis .
  qed
  ultimately show "Multiset.count (mset (concat (classes n same))) x = Multiset.count (mset [0..<n]) x"
    unfolding classes_def by (simp add: count_upt)
qed

end
