(* ===== verification/Reduction.thy ===== *)
theory Reduction
  imports Union_Find
begin

text \<open>
  \<open>app/reduction\<close>: the alert stream becomes incidents in three stages. \<open>deduplicate\<close>
  (\<open>dedup.py\<close>) collapses re-raised alerts, \<open>correlate\<close> (\<open>correlate.py\<close>) joins
  the groups that describe one piece of activity, \<open>assess\<close> (\<open>score.py\<close>) scores an
  incident from its evidence, and \<open>reduce_alerts\<close> composes them.

  An operation that uses union-find answers \<open>None\<close> where a \<open>find\<close> would not return; the
  theorems show that it always does. An instant is in microseconds, so that the comparison with a
  gap in seconds is exact; \<open>local_zone\<close> places a stamp without a zone, as
  \<open>datetime.timestamp()\<close> does with the host's zone.
\<close>

section \<open>Data\<close>

record raised_alert =
  ra_id :: string
  ra_rule :: string
  ra_src :: string
  ra_hosts :: "string list"
  ra_evidence :: "string list"
  ra_first :: string
  ra_last :: string

record detection_group =
  dg_id :: string
  dg_rule :: string
  dg_src :: string
  dg_hosts :: "string list"
  dg_alerts :: "string list"
  dg_evidence :: "string list"
  dg_first :: string
  dg_last :: string

record log_row =
  lr_id :: string
  lr_type :: string
  lr_user :: "string option"
  lr_src :: string
  lr_source :: string
  lr_ts :: rat

record assessment =
  as_score :: int
  as_priority :: "string option"
  as_surfaced :: bool
  as_reasons :: "string list"

record reduced_incident =
  ri_id :: string
  ri_alerts :: "string list"
  ri_rules :: "string list"
  ri_srcs :: "string list"
  ri_hosts :: "string list"
  ri_first :: string
  ri_last :: string
  ri_evidence :: "string list"
  ri_score :: int
  ri_priority :: "string option"
  ri_surfaced :: bool
  ri_reasons :: "string list"

section \<open>Linking what shares a key\<close>

text \<open>
  The loop both stages run over the rows of keys of their items: the first item with a key owns
  it, and every later item with that key is united with its owner.
\<close>

fun link_keys :: "nat \<Rightarrow> 'k list \<Rightarrow> ('k \<rightharpoonup> nat) \<Rightarrow> nat list \<Rightarrow> (('k \<rightharpoonup> nat) \<times> nat list) option" where
  "link_keys index [] owner parent = Some (owner, parent)"
| "link_keys index (k # ks) owner parent =
     (case owner k of
        None \<Rightarrow> link_keys index ks (owner(k \<mapsto> index)) parent
      | Some seen \<Rightarrow>
          if seen \<noteq> index then do { parent \<leftarrow> sets_union seen index parent; link_keys index ks owner parent }
          else link_keys index ks owner parent)"

fun link_rows :: "nat \<Rightarrow> 'k list list \<Rightarrow> ('k \<rightharpoonup> nat) \<Rightarrow> nat list \<Rightarrow> (('k \<rightharpoonup> nat) \<times> nat list) option" where
  "link_rows index [] owner parent = Some (owner, parent)"
| "link_rows index (ks # rows) owner parent = do {
     (owner, parent) \<leftarrow> link_keys index ks owner parent;
     link_rows (Suc index) rows owner parent }"

section \<open>Stage 1: deduplication\<close>

definition same_detection_key :: "raised_alert \<Rightarrow> string \<times> string \<times> string list" where
  "same_detection_key alert = (ra_rule alert, ra_src alert, ra_hosts alert)"

definition alert_group :: "raised_alert list \<Rightarrow> detection_group" where
  "alert_group chosen = (let first = hd chosen in
     \<lparr>dg_id = ra_id first, dg_rule = ra_rule first, dg_src = ra_src first, dg_hosts = ra_hosts first,
      dg_alerts = map ra_id chosen,
      dg_evidence = sorted_set (concat (map ra_evidence chosen)),
      dg_first = Min (set (map ra_first chosen)), dg_last = Max (set (map ra_last chosen))\<rparr>)"

definition deduplicate :: "raised_alert list \<Rightarrow> detection_group list option" where
  "deduplicate alerts = do {
     let alerts = sort_key ra_id alerts;
     let rows = map (\<lambda>alert. map (Pair (same_detection_key alert)) (ra_evidence alert)) alerts;
     (owner, parent) \<leftarrow> link_rows 0 rows Map.empty (sets_init (length alerts));
     (components, _) \<leftarrow> sets_components parent;
     Some (map (\<lambda>members. alert_group (map ((!) alerts) members)) components) }"

section \<open>Stage 2: correlation\<close>

definition DEFAULT_GAP_SECONDS :: int where
  "DEFAULT_GAP_SECONDS = 3600"

definition seconds_of :: "py \<Rightarrow> (int \<Rightarrow> int) \<Rightarrow> string \<Rightarrow> int result" where
  "seconds_of P local_zone stamp =
     (case fromisoformat P (replace_str ''Z'' ''+00:00'' stamp) of
        None \<Rightarrow> Inl (ValueError (''Invalid isoformat string: '' @ stamp))
      | Some (Aware t) \<Rightarrow> Inr t
      | Some (Naive t) \<Rightarrow> Inr (local_zone t))"

fun sort_members :: "(nat \<Rightarrow> int result) \<Rightarrow> (nat \<Rightarrow> string) \<Rightarrow> nat list \<Rightarrow> ((int \<times> string) \<times> nat) list result" where
  "sort_members start name [] = Inr []"
| "sort_members start name (index # rest) =
     (case start index of Inl e \<Rightarrow> Inl e
      | Inr t \<Rightarrow> (case sort_members start name rest of Inl e \<Rightarrow> Inl e
         | Inr keyed \<Rightarrow> Inr (((t, name index), index) # keyed)))"

fun sweep :: "(nat \<Rightarrow> int result) \<Rightarrow> (nat \<Rightarrow> int result) \<Rightarrow> int \<Rightarrow> nat \<Rightarrow> int \<Rightarrow> nat list \<Rightarrow> nat list
    \<Rightarrow> nat list result option" where
  "sweep start final gap anchor reach [] parent = Some (Inr parent)"
| "sweep start final gap anchor reach (index # rest) parent =
     (case start index of Inl e \<Rightarrow> Some (Inl e) | Inr s \<Rightarrow>
      case final index of Inl e \<Rightarrow> Some (Inl e) | Inr t \<Rightarrow>
        if s - reach \<le> gap then do {
          parent \<leftarrow> sets_union anchor index parent;
          sweep start final gap anchor (max reach t) rest parent }
        else sweep start final gap index t rest parent)"

definition sweep_source :: "(nat \<Rightarrow> int result) \<Rightarrow> (nat \<Rightarrow> int result) \<Rightarrow> (nat \<Rightarrow> string) \<Rightarrow> int \<Rightarrow> nat list
    \<Rightarrow> nat list \<Rightarrow> nat list result option" where
  "sweep_source start final name gap members parent =
     (case sort_members start name members of Inl e \<Rightarrow> Some (Inl e) | Inr keyed \<Rightarrow>
      case map snd (sort_key fst keyed) of [] \<Rightarrow> Some (Inl IndexError)
      | anchor # rest \<Rightarrow>
          (case final anchor of Inl e \<Rightarrow> Some (Inl e)
           | Inr reach \<Rightarrow> sweep start final gap anchor reach rest parent))"

fun sweep_sources :: "(nat \<Rightarrow> int result) \<Rightarrow> (nat \<Rightarrow> int result) \<Rightarrow> (nat \<Rightarrow> string) \<Rightarrow> int \<Rightarrow> nat list list
    \<Rightarrow> nat list \<Rightarrow> nat list result option" where
  "sweep_sources start final name gap [] parent = Some (Inr parent)"
| "sweep_sources start final name gap (members # rest) parent =
     (case sweep_source start final name gap members parent of
        None \<Rightarrow> None | Some (Inl e) \<Rightarrow> Some (Inl e)
      | Some (Inr parent) \<Rightarrow> sweep_sources start final name gap rest parent)"

definition correlate :: "py \<Rightarrow> (int \<Rightarrow> int) \<Rightarrow> int \<Rightarrow> detection_group list \<Rightarrow> detection_group list list result option" where
  "correlate P local_zone gap_seconds groups =
     (if gap_seconds < 0 then Some (Inl (ValueError ''gap_seconds cannot be negative''))
      else let groups = sort_key dg_id groups;
        start = (\<lambda>index. seconds_of P local_zone (dg_first (groups ! index)));
        final = (\<lambda>index. seconds_of P local_zone (dg_last (groups ! index)));
        name = (\<lambda>index. dg_id (groups ! index));
        by_source = group_by (\<lambda>index. dg_src (groups ! index)) [0..<length groups]
      in do {
        (owner, parent) \<leftarrow> link_rows 0 (map dg_evidence groups) Map.empty (sets_init (length groups));
        swept \<leftarrow> sweep_sources start final name (gap_seconds * 1000000) (map snd by_source) parent;
        case swept of Inl e \<Rightarrow> Some (Inl e)
        | Inr parent \<Rightarrow> do {
            (components, _) \<leftarrow> sets_components parent;
            Some (Inr (map (map ((!) groups)) components)) } })"

section \<open>Stage 3: scoring\<close>

definition FAILURE_KINDS :: "string list" where
  "FAILURE_KINDS = [''auth_failure'', ''invalid_user'', ''preauth_abort'']"

definition SURFACE_THRESHOLD :: int where
  "SURFACE_THRESHOLD = 25"

definition PRIORITIES :: "(int \<times> string) list" where
  "PRIORITIES = [(60, ''P1''), (40, ''P2''), (SURFACE_THRESHOLD, ''P3'')]"

text \<open>\<open>hours\<close> is the text of a span in hours with one decimal (\<open>f"{span / 3600:.1f}"\<close>).\<close>

definition assess_summary :: "(rat \<Rightarrow> string) \<Rightarrow> nat \<Rightarrow> nat \<Rightarrow> nat \<Rightarrow> nat \<Rightarrow> rat \<Rightarrow> bool \<Rightarrow> int \<Rightarrow> assessment" where
  "assess_summary hours failure_count success_count existing_accounts host_count duration all_successes_known threshold =
     (let success = (if success_count \<noteq> 0
            then (50, ''+50 login succeeded after failed attempts'') #
              (if all_successes_known
               then [(-40, ''-40 every success came from a source that had logged in as that user before'')] else [])
            else []);
          counted = min existing_accounts 3;
          accounts = (if existing_accounts \<noteq> 0
            then [(12 * int counted, ''+'' @ nat_str (12 * counted) @ '' attempts against '' @
                   nat_str existing_accounts @ '' existing non-root account(s)'')] else []);
          several = (if host_count \<ge> 2 then [(10, ''+10 activity on '' @ nat_str host_count @ '' hosts'')] else []);
          persistent = (if duration \<ge> 7200 \<and> failure_count \<ge> 10
            then [(15, ''+15 persisted for '' @ hours duration @ '' h'')] else []);
          volume = (if failure_count \<ge> 50
            then [(5, ''+5 '' @ nat_str failure_count @ '' failed-authentication records'')] else []);
          parts = success @ accounts @ several @ persistent @ volume;
          score = sum_list (map fst parts)
      in \<lparr>as_score = score,
          as_priority = map_option snd (find (\<lambda>(level, name). score \<ge> level \<and> score \<ge> threshold) PRIORITIES),
          as_surfaced = (score \<ge> threshold), as_reasons = map snd parts\<rparr>)"

text \<open>\<open>row["ssh_user"]\<close> is falsy when it is missing or empty.\<close>

definition named_user :: "log_row \<Rightarrow> string option" where
  "named_user r = (case lr_user r of Some u \<Rightarrow> if u = [] then None else Some u | None \<Rightarrow> None)"

definition known_sources :: "log_row list \<Rightarrow> (string \<times> string) \<rightharpoonup> rat" where
  "known_sources records = foldl (\<lambda>first row.
     (case named_user row of
        Some user \<Rightarrow> if lr_type row = ''auth_success''
          then first((lr_src row, user) \<mapsto>
            min (case first (lr_src row, user) of None \<Rightarrow> lr_ts row | Some t \<Rightarrow> t) (lr_ts row))
          else first
      | None \<Rightarrow> first)) Map.empty records"

definition assess :: "(rat \<Rightarrow> string) \<Rightarrow> log_row list \<Rightarrow> ((string \<times> string) \<rightharpoonup> rat) \<Rightarrow> int \<Rightarrow> assessment result" where
  "assess hours evidence baseline threshold =
     (if evidence = [] then Inl (ValueError ''min() arg is an empty sequence'')
      else let failures = filter (\<lambda>row. lr_type row \<in> set FAILURE_KINDS) evidence;
        successes = filter (\<lambda>row. lr_type row = ''auth_success'') evidence;
        start = Min (set (map lr_ts evidence));
        duration = Max (set (map lr_ts evidence)) - start;
        invalid = List.map_filter named_user (filter (\<lambda>row. lr_type row = ''invalid_user'') failures);
        existing = sorted_set (filter (\<lambda>user. user \<notin> set invalid \<and> user \<noteq> ''root'')
          (List.map_filter named_user (filter (\<lambda>row. lr_type row = ''auth_failure'') failures)));
        hosts = remdups (map lr_source evidence);
        known = (\<lambda>row. case lr_user row of None \<Rightarrow> False
          | Some user \<Rightarrow> (case baseline (lr_src row, user) of None \<Rightarrow> start | Some t \<Rightarrow> t) < start)
      in Inr (assess_summary hours (length failures) (length successes) (length existing) (length hosts) duration
           (successes \<noteq> [] \<and> list_all known successes) threshold))"

section \<open>The composition\<close>

definition row_by_id :: "log_row list \<Rightarrow> string \<Rightarrow> log_row result" where
  "row_by_id records name = (case map_of (map (\<lambda>row. (lr_id row, row)) (rev records)) name of
     None \<Rightarrow> Inl (KeyError name) | Some row \<Rightarrow> Inr row)"

fun rows_by_id :: "log_row list \<Rightarrow> string list \<Rightarrow> log_row list result" where
  "rows_by_id records [] = Inr []"
| "rows_by_id records (name # names) =
     (case row_by_id records name of Inl e \<Rightarrow> Inl e | Inr row \<Rightarrow>
      case rows_by_id records names of Inl e \<Rightarrow> Inl e | Inr rows \<Rightarrow> Inr (row # rows))"

definition incident_of :: "(rat \<Rightarrow> string) \<Rightarrow> log_row list \<Rightarrow> int \<Rightarrow> detection_group list \<Rightarrow> reduced_incident result" where
  "incident_of hours records threshold groups =
     (let evidence = sorted_set (concat (map dg_evidence groups)) in
      case rows_by_id records evidence of Inl e \<Rightarrow> Inl e | Inr rows \<Rightarrow>
      case assess hours rows (known_sources records) threshold of Inl e \<Rightarrow> Inl e | Inr verdict \<Rightarrow>
        Inr \<lparr>ri_id = ''INC-'' @ dg_id (hd groups),
             ri_alerts = sort (concat (map dg_alerts groups)),
             ri_rules = sorted_set (map dg_rule groups),
             ri_srcs = sorted_set (map dg_src groups),
             ri_hosts = sorted_set (concat (map dg_hosts groups)),
             ri_first = Min (set (map dg_first groups)), ri_last = Max (set (map dg_last groups)),
             ri_evidence = evidence, ri_score = as_score verdict, ri_priority = as_priority verdict,
             ri_surfaced = as_surfaced verdict, ri_reasons = as_reasons verdict\<rparr>)"

fun incidents_of :: "(rat \<Rightarrow> string) \<Rightarrow> log_row list \<Rightarrow> int \<Rightarrow> detection_group list list \<Rightarrow> reduced_incident list result" where
  "incidents_of hours records threshold [] = Inr []"
| "incidents_of hours records threshold (groups # rest) =
     (case incident_of hours records threshold groups of Inl e \<Rightarrow> Inl e | Inr incident \<Rightarrow>
      case incidents_of hours records threshold rest of Inl e \<Rightarrow> Inl e | Inr incidents \<Rightarrow> Inr (incident # incidents))"

definition reduce_alerts :: "py \<Rightarrow> (int \<Rightarrow> int) \<Rightarrow> (rat \<Rightarrow> string) \<Rightarrow> raised_alert list \<Rightarrow> log_row list \<Rightarrow> int \<Rightarrow> int
    \<Rightarrow> reduced_incident list result option" where
  "reduce_alerts P local_zone hours alerts records gap_seconds threshold = do {
     groups \<leftarrow> deduplicate alerts;
     correlated \<leftarrow> correlate P local_zone gap_seconds groups;
     Some (case correlated of Inl e \<Rightarrow> Inl e | Inr runs \<Rightarrow> incidents_of hours records threshold runs) }"

section \<open>What linking joins\<close>

definition share :: "'k list list \<Rightarrow> (nat \<times> nat) set" where
  "share rows = {(i, j). i < length rows \<and> j < length rows \<and> set (rows ! i) \<inter> set (rows ! j) \<noteq> {}}"

definition owns :: "'k list list \<Rightarrow> ('k \<rightharpoonup> nat) \<Rightarrow> bool" where
  "owns rows owner \<longleftrightarrow> (\<forall>k j. owner k = Some j \<longrightarrow> j < length rows \<and> k \<in> set (rows ! j))"

definition coarser :: "nat \<Rightarrow> nat list \<Rightarrow> nat list \<Rightarrow> bool" where
  "coarser n p q \<longleftrightarrow> (\<forall>i < n. \<forall>j < n. joined p i j \<longrightarrow> joined q i j)"

lemma coarser_refl [simp]: "coarser n p p"
  by (simp add: coarser_def)

lemma coarser_trans: "coarser n p q \<Longrightarrow> coarser n q r \<Longrightarrow> coarser n p r"
  by (simp add: coarser_def)

lemma coarserD: "coarser n p q \<Longrightarrow> joined p i j \<Longrightarrow> i < n \<Longrightarrow> j < n \<Longrightarrow> joined q i j"
  by (simp add: coarser_def)

lemma shareI: "i < length rows \<Longrightarrow> j < length rows \<Longrightarrow> k \<in> set (rows ! i) \<Longrightarrow> k \<in> set (rows ! j) \<Longrightarrow> (i, j) \<in> share rows"
  by (auto simp: share_def)

lemma owns_upd: "owns rows owner \<Longrightarrow> i < length rows \<Longrightarrow> k \<in> set (rows ! i) \<Longrightarrow> owns rows (owner(k \<mapsto> i))"
  by (simp add: owns_def)

lemma map_le_Some: "m \<subseteq>\<^sub>m m' \<Longrightarrow> m k = Some v \<Longrightarrow> m' k = Some v"
  by (metis map_le_def domI)

lemma map_le_fresh: "m(k \<mapsto> v) \<subseteq>\<^sub>m m' \<Longrightarrow> m k = None \<Longrightarrow> m \<subseteq>\<^sub>m m'"
  by (metis fun_upd_None_if_notin_dom fun_upd_triv map_le_imp_upd_le map_le_trans upd_None_map_le)

lemma link_keys_spec:
  assumes L: "share rows \<subseteq> chain L" and i: "i < length rows"
  shows "uf_sound (length rows) L p \<Longrightarrow> owns rows owner \<Longrightarrow> set ks \<subseteq> set (rows ! i) \<Longrightarrow>
    \<exists>owner' q. link_keys i ks owner p = Some (owner', q) \<and> uf_sound (length rows) L q \<and> owns rows owner' \<and>
      coarser (length rows) p q \<and> owner \<subseteq>\<^sub>m owner' \<and> (\<forall>k \<in> set ks. \<exists>j. owner' k = Some j \<and> joined q j i)"
proof (induction ks arbitrary: owner p)
  case (Cons k ks)
  let ?n = "length rows"
  show ?case
  proof (cases "owner k")
    case None
    from Cons.prems i have o: "owns rows (owner(k \<mapsto> i))" by (simp add: owns_upd)
    obtain owner' q where q: "link_keys i ks (owner(k \<mapsto> i)) p = Some (owner', q)" "uf_sound ?n L q"
      "owns rows owner'" "coarser ?n p q" "owner(k \<mapsto> i) \<subseteq>\<^sub>m owner'" "\<forall>k \<in> set ks. \<exists>j. owner' k = Some j \<and> joined q j i"
      using Cons.IH [OF Cons.prems(1) o] Cons.prems(3) by (auto simp del: fun_upd_apply)
    moreover have "owner' k = Some i" using map_le_Some [OF q(5)] by simp
    moreover have "owner \<subseteq>\<^sub>m owner'" using q(5) None by (rule map_le_fresh)
    ultimately show ?thesis using None by auto
  next
    case (Some seen)
    then have seen: "seen < ?n" "(seen, i) \<in> chain L"
      using Cons.prems(2,3) i subsetD [OF L shareI [of seen rows i k]] by (auto simp: owns_def)
    obtain p' where p': "sets_union seen i p = Some p'" "uf_sound ?n L p'" "joined p' seen i" "coarser ?n p p'"
      using sets_union_joins [OF Cons.prems(1) seen(1) i seen(2)] by (auto simp: coarser_def)
    define p1 where "p1 = (if seen \<noteq> i then p' else p)"
    have p1: "link_keys i (k # ks) owner p = link_keys i ks owner p1" "uf_sound ?n L p1" "joined p1 seen i" "coarser ?n p p1"
      using p' Some Cons.prems by (auto simp: p1_def)
    obtain owner' q where q: "link_keys i ks owner p1 = Some (owner', q)" "uf_sound ?n L q"
      "owns rows owner'" "coarser ?n p1 q" "owner \<subseteq>\<^sub>m owner'" "\<forall>k \<in> set ks. \<exists>j. owner' k = Some j \<and> joined q j i"
      using Cons.IH [OF p1(2) Cons.prems(2)] Cons.prems(3) by auto
    have "owner' k = Some seen" using q(5) Some by (rule map_le_Some)
    then show ?thesis using q p1 i seen coarser_trans coarserD by (metis set_ConsD)
  qed
qed simp

lemma link_rows_spec:
  assumes L: "share rows \<subseteq> chain L"
  shows "uf_sound (length rows) L p \<Longrightarrow> owns rows owner \<Longrightarrow> rest = drop i rows \<Longrightarrow>
    \<exists>owner' q. link_rows i rest owner p = Some (owner', q) \<and> uf_sound (length rows) L q \<and> owns rows owner' \<and>
      coarser (length rows) p q \<and> owner \<subseteq>\<^sub>m owner' \<and>
      (\<forall>m. i \<le> m \<longrightarrow> m < length rows \<longrightarrow> (\<forall>k \<in> set (rows ! m). \<exists>j. owner' k = Some j \<and> joined q j m))"
proof (induction rest arbitrary: i owner p)
  case Nil
  then show ?case by simp
next
  case (Cons ks rest)
  let ?n = "length rows"
  from Cons.prems have i: "i < ?n" "ks = rows ! i" "rest = drop (Suc i) rows"
    by (metis drop_all list.distinct(1) not_le, metis nth_via_drop, metis drop_Suc list.sel(3) tl_drop)
  obtain owner' q where q: "link_keys i ks owner p = Some (owner', q)" "uf_sound ?n L q" "owns rows owner'" "coarser ?n p q"
    "owner \<subseteq>\<^sub>m owner'" "\<forall>k \<in> set ks. \<exists>j. owner' k = Some j \<and> joined q j i"
    using link_keys_spec [OF L i(1) Cons.prems(1,2), of ks] i by auto
  obtain owner'' r where r: "link_rows (Suc i) rest owner' q = Some (owner'', r)" "uf_sound ?n L r" "owns rows owner''"
    "coarser ?n q r" "owner' \<subseteq>\<^sub>m owner''"
    and joins: "\<forall>m. Suc i \<le> m \<longrightarrow> m < ?n \<longrightarrow> (\<forall>k \<in> set (rows ! m). \<exists>j. owner'' k = Some j \<and> joined r j m)"
    using Cons.IH [OF q(2,3) i(3)] by auto
  have "\<exists>j. owner'' k = Some j \<and> joined r j i" if "k \<in> set (rows ! i)" for k
  proof -
    from that q(6) i obtain j where j: "owner' k = Some j" "joined q j i" by auto
    then have "owner'' k = Some j" using map_le_Some [OF r(5)] by simp
    moreover have "j < ?n" using j q(3) by (simp add: owns_def)
    ultimately show ?thesis using j i coarserD [OF r(4)] by auto
  qed
  then have "\<forall>m. i \<le> m \<longrightarrow> m < ?n \<longrightarrow> (\<forall>k \<in> set (rows ! m). \<exists>j. owner'' k = Some j \<and> joined r j m)"
    using joins by (metis le_eq_less_or_eq Suc_leI)
  then show ?case
    using q r coarser_trans [OF q(4) r(4)] map_le_trans [OF q(5) r(5)] by auto
qed

text \<open>Linking rows from fresh sets joins only chains of links, and joins all rows that share a key.\<close>

lemma link_rows_joins:
  assumes "share rows \<subseteq> chain L"
  obtains owner p where "link_rows 0 rows Map.empty (sets_init (length rows)) = Some (owner, p)"
    and "uf_sound (length rows) L p" and "\<And>i j. (i, j) \<in> share rows \<Longrightarrow> joined p i j"
proof -
  have "owns rows Map.empty" by (simp add: owns_def)
  from link_rows_spec [OF assms uf_sound_init this, of rows 0] obtain owner p
    where p: "link_rows 0 rows Map.empty (sets_init (length rows)) = Some (owner, p)" "uf_sound (length rows) L p"
    and o: "\<forall>m < length rows. \<forall>k \<in> set (rows ! m). \<exists>j. owner k = Some j \<and> joined p j m"
    by auto
  have "joined p i j" if "(i, j) \<in> share rows" for i j
  proof -
    from that obtain k where "i < length rows" "j < length rows" "k \<in> set (rows ! i)" "k \<in> set (rows ! j)"
      by (auto simp: share_def)
    with o obtain m m' where "owner k = Some m" "joined p m i" "owner k = Some m'" "joined p m' j" by blast
    then show ?thesis by (auto intro: joined_trans joined_sym)
  qed
  with p that show thesis by blast
qed

lemma components_of_links:
  assumes "uf_sound n L p" and "L \<subseteq> {..<n} \<times> {..<n}" and "\<And>i j. (i, j) \<in> L \<Longrightarrow> joined p i j"
  shows "\<exists>q. sets_components p = Some (classes n (\<lambda>i j. (i, j) \<in> chain L), q)"
proof -
  have "classes n (joined p) = classes n (\<lambda>i j. (i, j) \<in> chain L)"
    using uf_sound_complete [OF assms] by (intro classes_cong) blast
  moreover have "uf_ok p" "length p = n" using assms(1) by (simp_all add: uf_sound_def)
  ultimately show ?thesis using sets_components_spec [of p] by simp
qed

lemma mset_classes_chain: "mset (concat (classes n (\<lambda>i j. (i, j) \<in> chain L))) = mset [0..<n]"
  by (rule classes_mset) (auto intro: chain_sym chain_trans)

lemma share_bound: "share rows \<subseteq> {..<length rows} \<times> {..<length rows}"
  by (auto simp: share_def)

lemma share_chain: "share rows \<subseteq> chain (share rows)"
  by (auto intro: chain_link)

section \<open>Deduplication\<close>

text \<open>Two alerts of a sorted stream are the same detection: one rule, source and set of hosts, and a common record.\<close>

definition same_detection :: "raised_alert list \<Rightarrow> (nat \<times> nat) set" where
  "same_detection alerts = {(i, j). i < length alerts \<and> j < length alerts \<and>
     same_detection_key (alerts ! i) = same_detection_key (alerts ! j) \<and>
     set (ra_evidence (alerts ! i)) \<inter> set (ra_evidence (alerts ! j)) \<noteq> {}}"

lemma Pair_image_meets: "Pair a ` X \<inter> Pair b ` Y = {} \<longleftrightarrow> a \<noteq> b \<or> X \<inter> Y = {}"
  by auto

lemma share_detection:
  "share (map (\<lambda>alert. map (Pair (same_detection_key alert)) (ra_evidence alert)) alerts) = same_detection alerts"
  by (auto simp: share_def same_detection_def Pair_image_meets simp del: Int_emptyI)

lemma deduplicate_eq:
  "deduplicate alerts = Some (let alerts = sort_key ra_id alerts in
     map (\<lambda>members. alert_group (map ((!) alerts) members))
       (classes (length alerts) (\<lambda>i j. (i, j) \<in> chain (same_detection alerts))))"
proof -
  let ?as = "sort_key ra_id alerts"
  let ?rows = "map (\<lambda>alert. map (Pair (same_detection_key alert)) (ra_evidence alert)) ?as"
  obtain owner p where p: "link_rows 0 ?rows Map.empty (sets_init (length ?rows)) = Some (owner, p)"
    "uf_sound (length ?rows) (share ?rows) p" "\<And>i j. (i, j) \<in> share ?rows \<Longrightarrow> joined p i j"
    using link_rows_joins [OF share_chain, of ?rows] by blast
  show ?thesis
    using p(1) components_of_links [OF p(2) share_bound p(3)]
    by (auto simp: deduplicate_def share_detection Let_def)
qed

text \<open>
  C24: \<open>deduplicate\<close> returns, and its groups are exactly the classes of alerts connected by being
  the same detection (same rule, source and hosts, and a shared record), each group merged from its
  alerts in order of identifier, in the order of their first alert.
\<close>

theorem deduplicate_groups_detections:
  "deduplicate alerts = Some (let alerts = sort_key ra_id alerts in
     map (\<lambda>members. alert_group (map ((!) alerts) members))
       (classes (length alerts) (\<lambda>i j. (i, j) \<in> chain (same_detection alerts))))"
  by (rule deduplicate_eq)

section \<open>Correlation\<close>

text \<open>
  The two explicit links between sorted groups: a common record; and one source whose active
  periods are at most the gap apart, the later one starting no more than the gap after the end of the earlier one.
\<close>

definition close_in_time :: "(nat \<Rightarrow> int) \<Rightarrow> (nat \<Rightarrow> int) \<Rightarrow> int \<Rightarrow> nat \<Rightarrow> nat \<Rightarrow> bool" where
  "close_in_time start final gap i j \<longleftrightarrow> start i \<le> start j \<and> start j - final i \<le> gap"

definition activity_links :: "(nat \<Rightarrow> int) \<Rightarrow> (nat \<Rightarrow> int) \<Rightarrow> int \<Rightarrow> detection_group list \<Rightarrow> (nat \<times> nat) set" where
  "activity_links start final gap groups = share (map dg_evidence groups) \<union>
     {(i, j). i < length groups \<and> j < length groups \<and> dg_src (groups ! i) = dg_src (groups ! j) \<and>
        close_in_time start final gap i j}"

lemma sort_members_ok:
  "(\<And>i. i \<in> set members \<Longrightarrow> st i = Inr (start i)) \<Longrightarrow>
   sort_members st name members = Inr (map (\<lambda>i. ((start i, name i), i)) members)"
  by (induction members) auto

text \<open>
  The sweep over the members of one source, in order of start. It joins only close periods; and whatever
  it has reached by \<open>reach\<close>, a member still to come that is close to an earlier one is joined with the anchor.
\<close>

lemma sweep_spec:
  fixes start final :: "nat \<Rightarrow> int"
  assumes close: "\<And>i j. i \<in> M \<Longrightarrow> j \<in> M \<Longrightarrow> close_in_time start final gap i j \<Longrightarrow> (i, j) \<in> chain L"
    and M: "M \<subseteq> {..<n}" and st: "\<And>i. i \<in> M \<Longrightarrow> st i = Inr (start i)" "\<And>i. i \<in> M \<Longrightarrow> fin i = Inr (final i)"
  shows "uf_sound n L p \<Longrightarrow> set rest \<subseteq> M \<Longrightarrow> anchor \<in> M \<Longrightarrow> furthest \<in> M \<Longrightarrow> reach = final furthest \<Longrightarrow>
     joined p anchor furthest \<Longrightarrow> sorted (map start rest) \<Longrightarrow> (\<forall>i \<in> set rest. start furthest \<le> start i) \<Longrightarrow>
     \<exists>q. sweep st fin gap anchor reach rest p = Some (Inr q) \<and> uf_sound n L q \<and> coarser n p q \<and>
       (\<forall>j \<in> set rest. start j - reach \<le> gap \<longrightarrow> joined q anchor j) \<and>
       (\<forall>a b. a < b \<longrightarrow> b < length rest \<longrightarrow> start (rest ! b) - final (rest ! a) \<le> gap \<longrightarrow> joined q (rest ! a) (rest ! b))"
proof (induction rest arbitrary: p anchor furthest reach)
  case (Cons i rest)
  from Cons.prems have i: "i \<in> M" "i < n" "anchor < n" "furthest < n" "furthest \<in> M" "set rest \<subseteq> M" using M by auto
  have srt: "sorted (map start rest)" "\<forall>j \<in> set rest. start i \<le> start j" using Cons.prems(7) by auto
  show ?case
  proof (cases "start i - reach \<le> gap")
    case True
    have "(furthest, i) \<in> chain L"
      using close [OF i(5) i(1)] True Cons.prems(5,8) by (simp add: close_in_time_def)
    moreover have "(anchor, furthest) \<in> chain L" using Cons.prems(1,6) i by (auto simp: uf_sound_def)
    ultimately have "(anchor, i) \<in> chain L" by (meson chain_trans)
    with Cons.prems(1) i obtain p' where p': "sets_union anchor i p = Some p'" "uf_sound n L p'" "joined p' anchor i" "coarser n p p'"
      using sets_union_joins [of n L p anchor i] by (auto simp: coarser_def)
    define f where "f = (if final furthest < final i then i else furthest)"
    have f: "f \<in> M" "max reach (final i) = final f" "joined p' anchor f" "\<forall>j \<in> set rest. start f \<le> start j"
      using i p'(3) coarserD [OF p'(4) Cons.prems(6) i(3,4)] Cons.prems(5,8) srt by (auto simp: f_def)
    obtain q where q: "sweep st fin gap anchor (max reach (final i)) rest p' = Some (Inr q)" "uf_sound n L q" "coarser n p' q"
      "\<forall>j \<in> set rest. start j - max reach (final i) \<le> gap \<longrightarrow> joined q anchor j"
      "\<forall>a b. a < b \<longrightarrow> b < length rest \<longrightarrow> start (rest ! b) - final (rest ! a) \<le> gap \<longrightarrow> joined q (rest ! a) (rest ! b)"
      using Cons.IH [OF p'(2) i(6) Cons.prems(3) f(1,2,3) srt(1) f(4)] by auto
    have ai: "joined q anchor i" using coarserD [OF q(3) p'(3)] i by simp
    have "joined q i j" if "j \<in> set rest" "start j - final i \<le> gap" for j
      using q(4) that ai by (meson diff_left_mono joined_sym joined_trans max.cobounded2 order_trans)
    moreover have "joined q anchor j" if "j \<in> set rest" "start j - reach \<le> gap" for j
      using q(4) that by (meson diff_left_mono max.cobounded1 order_trans)
    moreover have "coarser n p q" using p'(4) q(3) by (rule coarser_trans)
    ultimately show ?thesis
      using True p'(1) q(1,2,5) ai st i(1) by (auto simp: nth_Cons' less_Suc_eq_0_disj)
  next
    case False
    obtain q where q: "sweep st fin gap i (final i) rest p = Some (Inr q)" "uf_sound n L q" "coarser n p q"
      "\<forall>j \<in> set rest. start j - final i \<le> gap \<longrightarrow> joined q i j"
      "\<forall>a b. a < b \<longrightarrow> b < length rest \<longrightarrow> start (rest ! b) - final (rest ! a) \<le> gap \<longrightarrow> joined q (rest ! a) (rest ! b)"
      using Cons.IH [OF Cons.prems(1) i(6,1,1) refl joined_refl srt] by auto
    have "\<not> start j - reach \<le> gap" if "j \<in> set (i # rest)" for j
      using False srt(2) that by fastforce
    then show ?thesis
      using False q st i(1) by (auto simp: nth_Cons' less_Suc_eq_0_disj)
  qed
qed simp

lemma sorted_map_fst: "sorted kvs \<Longrightarrow> sorted (map fst kvs)"
  by (induction kvs) (auto simp: less_eq_prod_def)

text \<open>One source: its close members end up together, and nothing else is joined beyond the links.\<close>

lemma sweep_source_spec:
  fixes start final :: "nat \<Rightarrow> int"
  assumes close: "\<And>i j. i \<in> set members \<Longrightarrow> j \<in> set members \<Longrightarrow> close_in_time start final gap i j \<Longrightarrow> (i, j) \<in> chain L"
    and M: "set members \<subseteq> {..<n}" "members \<noteq> []"
    and st: "\<And>i. i \<in> set members \<Longrightarrow> st i = Inr (start i)" "\<And>i. i \<in> set members \<Longrightarrow> fin i = Inr (final i)"
    and ordered: "\<And>i. i \<in> set members \<Longrightarrow> start i \<le> final i" and gap: "0 \<le> gap"
    and p: "uf_sound n L p"
  shows "\<exists>q. sweep_source st fin name gap members p = Some (Inr q) \<and> uf_sound n L q \<and> coarser n p q \<and>
    (\<forall>i \<in> set members. \<forall>j \<in> set members. close_in_time start final gap i j \<longrightarrow> joined q i j)"
proof -
  define ms where "ms = map snd (sort_key fst (map (\<lambda>i. ((start i, name i), i)) members))"
  have set_ms: "set ms = set members" by (force simp: ms_def)
  have srt: "sorted (map start ms)"
  proof -
    let ?k = "sort_key fst (map (\<lambda>i. ((start i, name i), i)) members)"
    have "map start ms = map fst (map fst ?k)" unfolding ms_def map_map by (rule map_cong) auto
    moreover have "sorted (map fst (map fst ?k))" by (intro sorted_map_fst sorted_sort_key)
    ultimately show ?thesis by (simp only:)
  qed
  from M(2) set_ms obtain a rest where ms: "ms = a # rest" by (cases ms) auto
  have a: "a \<in> set members" "set rest \<subseteq> set members" using set_ms ms by auto
  obtain q where q: "sweep st fin gap a (final a) rest p = Some (Inr q)" "uf_sound n L q" "coarser n p q"
     and first: "\<forall>j \<in> set rest. start j - final a \<le> gap \<longrightarrow> joined q a j"
     and later: "\<forall>x y. x < y \<longrightarrow> y < length rest \<longrightarrow> start (rest ! y) - final (rest ! x) \<le> gap \<longrightarrow> joined q (rest ! x) (rest ! y)"
    using sweep_spec [where st = st and fin = fin and start = start and final = final and gap = gap,
        OF close M(1) st p a(2) a(1) a(1) refl joined_refl] srt ms by auto
  have before: "joined q (ms ! x) (ms ! y)" if "x < y" "y < length ms" "start (ms ! y) - final (ms ! x) \<le> gap" for x y
    using that first later ms by (cases x; cases y) auto
  have "joined q i j" if ij: "i \<in> set members" "j \<in> set members" "close_in_time start final gap i j" for i j
  proof -
    from ij set_ms obtain x y where xy: "x < length ms" "i = ms ! x" "y < length ms" "j = ms ! y"
      by (metis in_set_conv_nth)
    consider "x < y" | "x = y" | "y < x" by linarith
    then show ?thesis
    proof cases
      case 3
      then have "start j \<le> start i" using srt xy sorted_nth_mono [of "map start ms" y x] by simp
      then have "start i - final j \<le> gap" using ij ordered [OF ij(2)] gap by (auto simp: close_in_time_def)
      then show ?thesis using before [OF 3] xy by (auto intro: joined_sym)
    qed (use before xy ij in \<open>auto simp: close_in_time_def\<close>)
  qed
  moreover have "sweep_source st fin name gap members p = Some (Inr q)"
    using q(1) ms a st unfolding sweep_source_def ms_def by (simp add: sort_members_ok [of members st start])
  ultimately show ?thesis using q by auto
qed

lemma sweep_sources_spec:
  fixes start final :: "nat \<Rightarrow> int"
  assumes all: "\<And>members. members \<in> set sources \<Longrightarrow> set members \<subseteq> {..<n} \<and> members \<noteq> [] \<and>
      (\<forall>i \<in> set members. \<forall>j \<in> set members. close_in_time start final gap i j \<longrightarrow> (i, j) \<in> chain L)"
    and st: "\<And>i. i < n \<Longrightarrow> st i = Inr (start i)" "\<And>i. i < n \<Longrightarrow> fin i = Inr (final i)"
    and ordered: "\<And>i. i < n \<Longrightarrow> start i \<le> final i" and gap: "0 \<le> gap"
  shows "uf_sound n L p \<Longrightarrow>
    \<exists>q. sweep_sources st fin name gap sources p = Some (Inr q) \<and> uf_sound n L q \<and> coarser n p q \<and>
    (\<forall>members \<in> set sources. \<forall>i \<in> set members. \<forall>j \<in> set members. close_in_time start final gap i j \<longrightarrow> joined q i j)"
  using all
proof (induction sources arbitrary: p)
  case (Cons members sources)
  have m: "set members \<subseteq> {..<n}" "members \<noteq> []"
    "\<And>i j. i \<in> set members \<Longrightarrow> j \<in> set members \<Longrightarrow> close_in_time start final gap i j \<Longrightarrow> (i, j) \<in> chain L"
    using Cons.prems(2) [of members] by auto
  have mst: "\<And>i. i \<in> set members \<Longrightarrow> st i = Inr (start i)" "\<And>i. i \<in> set members \<Longrightarrow> fin i = Inr (final i)"
    and mord: "\<And>i. i \<in> set members \<Longrightarrow> start i \<le> final i"
    using st ordered m(1) by auto
  obtain q where q: "sweep_source st fin name gap members p = Some (Inr q)" "uf_sound n L q" "coarser n p q"
    "\<forall>i \<in> set members. \<forall>j \<in> set members. close_in_time start final gap i j \<longrightarrow> joined q i j"
    using sweep_source_spec [where st = st and fin = fin and start = start and final = final, OF m(3,1,2) mst mord gap Cons.prems(1)]
    by blast
  obtain r where r: "sweep_sources st fin name gap sources q = Some (Inr r)" "uf_sound n L r" "coarser n q r"
    "\<forall>members \<in> set sources. \<forall>i \<in> set members. \<forall>j \<in> set members. close_in_time start final gap i j \<longrightarrow> joined r i j"
    using Cons.IH [OF q(2)] Cons.prems(2) by auto
  have "joined r i j" if "i \<in> set members" "j \<in> set members" "close_in_time start final gap i j" for i j
    using q(4) that subsetD [OF m(1)] coarserD [OF r(3), of i j] by auto
  then show ?case using q(1) r coarser_trans [OF q(3) r(3)] by auto
qed simp

lemma correlate_eq:
  fixes start final :: "nat \<Rightarrow> int"
  assumes gap: "0 \<le> gap" and gs: "gs = sort_key dg_id groups"
    and st: "\<And>i. i < length gs \<Longrightarrow> seconds_of P local_zone (dg_first (gs ! i)) = Inr (start i)"
      "\<And>i. i < length gs \<Longrightarrow> seconds_of P local_zone (dg_last (gs ! i)) = Inr (final i)"
    and ordered: "\<And>i. i < length gs \<Longrightarrow> start i \<le> final i"
  shows "correlate P local_zone gap groups =
    Some (Inr (map (map ((!) gs)) (classes (length gs) (\<lambda>i j. (i, j) \<in> chain (activity_links start final (gap * 1000000) gs)))))"
proof -
  let ?n = "length gs" and ?L = "activity_links start final (gap * 1000000) gs" and ?rows = "map dg_evidence gs"
  let ?src = "\<lambda>i. dg_src (gs ! i)"
  let ?sources = "map snd (group_by ?src [0..<?n])"
  have sh: "share ?rows \<subseteq> chain ?L" by (auto simp: activity_links_def intro: chain_link)
  obtain owner p where p: "link_rows 0 ?rows Map.empty (sets_init (length ?rows)) = Some (owner, p)"
    "uf_sound (length ?rows) ?L p" "\<And>i j. (i, j) \<in> share ?rows \<Longrightarrow> joined p i j"
    using link_rows_joins [OF sh] by blast
  have src: "members \<in> set ?sources \<longleftrightarrow> (\<exists>k < ?n. members = filter (\<lambda>i. ?src i = ?src k) [0..<?n])" for members
  proof -
    have "members \<in> set ?sources \<longleftrightarrow> (\<exists>k. (k, members) \<in> set (group_by ?src [0..<?n]))" by force
    then show ?thesis by (auto simp: group_by_mem_iff)
  qed
  have "set members \<subseteq> {..<?n} \<and> members \<noteq> [] \<and>
      (\<forall>i \<in> set members. \<forall>j \<in> set members. close_in_time start final (gap * 1000000) i j \<longrightarrow> (i, j) \<in> chain ?L)"
    if "members \<in> set ?sources" for members
  proof -
    from that obtain k where k: "k < ?n" "members = filter (\<lambda>i. ?src i = ?src k) [0..<?n]" unfolding src by blast
    then have "members \<noteq> []" by (auto simp: filter_empty_conv)
    moreover have m: "i \<in> set members \<longleftrightarrow> i < ?n \<and> ?src i = ?src k" for i using k by auto
    moreover have "(i, j) \<in> chain ?L" if "i \<in> set members" "j \<in> set members" "close_in_time start final (gap * 1000000) i j" for i j
      by (rule chain_link) (use that m in \<open>simp add: activity_links_def\<close>)
    ultimately show ?thesis by (metis lessThan_iff subsetI)
  qed
  then obtain q where q: "sweep_sources (\<lambda>i. seconds_of P local_zone (dg_first (gs ! i))) (\<lambda>i. seconds_of P local_zone (dg_last (gs ! i)))
      (\<lambda>i. dg_id (gs ! i)) (gap * 1000000) ?sources p = Some (Inr q)" "uf_sound ?n ?L q" "coarser ?n p q"
    and jq: "\<forall>members \<in> set ?sources. \<forall>i \<in> set members. \<forall>j \<in> set members.
      close_in_time start final (gap * 1000000) i j \<longrightarrow> joined q i j"
    using sweep_sources_spec [of ?sources ?n start final "gap * 1000000" ?L _ _ p "\<lambda>i. dg_id (gs ! i)", OF _ st ordered] gap p(2) by auto
  have "joined q i j" if "(i, j) \<in> ?L" for i j
  proof (cases "(i, j) \<in> share ?rows")
    case True
    with p(3) share_bound [of ?rows] show ?thesis by (auto intro: coarserD [OF q(3)])
  next
    case False
    with that have ij: "i < ?n" "j < ?n" "?src i = ?src j" "close_in_time start final (gap * 1000000) i j"
      by (auto simp: activity_links_def)
    then have "filter (\<lambda>k. ?src k = ?src i) [0..<?n] \<in> set ?sources" using src by blast
    with jq ij show ?thesis by fastforce
  qed
  moreover have "?L \<subseteq> {..<?n} \<times> {..<?n}" using share_bound [of ?rows] by (auto simp: activity_links_def)
  ultimately obtain r where "sets_components q = Some (classes ?n (\<lambda>i j. (i, j) \<in> chain ?L), r)"
    using components_of_links [OF q(2)] by blast
  then show ?thesis
    using gap p(1) q(1) unfolding gs by (simp add: correlate_def Let_def)
qed

definition group_start :: "py \<Rightarrow> (int \<Rightarrow> int) \<Rightarrow> detection_group list \<Rightarrow> nat \<Rightarrow> int" where
  "group_start P local_zone groups index = projr (seconds_of P local_zone (dg_first (groups ! index)))"

definition group_end :: "py \<Rightarrow> (int \<Rightarrow> int) \<Rightarrow> detection_group list \<Rightarrow> nat \<Rightarrow> int" where
  "group_end P local_zone groups index = projr (seconds_of P local_zone (dg_last (groups ! index)))"

definition timed :: "py \<Rightarrow> (int \<Rightarrow> int) \<Rightarrow> detection_group \<Rightarrow> bool" where
  "timed P local_zone g = (case (seconds_of P local_zone (dg_first g), seconds_of P local_zone (dg_last g)) of
     (Inr s, Inr e) \<Rightarrow> s \<le> e | _ \<Rightarrow> False)"

lemma correlate_classes:
  assumes "0 \<le> gap" and "list_all (timed P local_zone) groups" and "gs = sort_key dg_id groups"
  shows "correlate P local_zone gap groups = Some (Inr (map (map ((!) gs)) (classes (length gs)
    (\<lambda>i j. (i, j) \<in> chain (activity_links (group_start P local_zone gs) (group_end P local_zone gs) (gap * 1000000) gs)))))"
proof -
  have "timed P local_zone (gs ! i)" if "i < length gs" for i
    using that assms(2) nth_mem [OF that] unfolding assms(3) by (simp add: list_all_iff)
  then have "seconds_of P local_zone (dg_first (gs ! i)) = Inr (group_start P local_zone gs i) \<and>
      seconds_of P local_zone (dg_last (gs ! i)) = Inr (group_end P local_zone gs i) \<and>
      group_start P local_zone gs i \<le> group_end P local_zone gs i" if "i < length gs" for i
    using that unfolding timed_def group_start_def group_end_def by (fastforce split: sum.splits)
  then show ?thesis by (intro correlate_eq assms(1,3)) simp_all
qed

text \<open>
  C25: with a gap that is not negative and groups whose periods are readable and not reversed,
  \<open>correlate\<close> returns the classes of groups connected by a shared record or by being of one source and
  active within the gap: the sweep in start order finds every such pair although it compares each
  group only with the furthest end reached so far. Nothing else joins groups.
\<close>

theorem correlate_joins_activity:
  assumes "0 \<le> gap" and "list_all (timed P local_zone) groups" and "gs = sort_key dg_id groups"
  shows "correlate P local_zone gap groups = Some (Inr (map (map ((!) gs)) (classes (length gs)
    (\<lambda>i j. (i, j) \<in> chain (activity_links (group_start P local_zone gs) (group_end P local_zone gs) (gap * 1000000) gs)))))"
  using assms by (rule correlate_classes)

text \<open>A runtime that reads the first character of a stamp, and two groups of one source.\<close>

definition letter_py :: py where
  "letter_py = \<lparr>hexdigest = id, fromisoformat = (\<lambda>s. case s of [] \<Rightarrow> None | c # _ \<Rightarrow> Some (Aware (of_char c))),
     repr_float = (\<lambda>q. []), trunc_float = (\<lambda>s. None)\<rparr>"

definition sample_groups :: "detection_group list" where
  "sample_groups =
     [\<lparr>dg_id = ''b'', dg_rule = ''r'', dg_src = ''s'', dg_hosts = [''h''], dg_alerts = [''b''], dg_evidence = [''e2''], dg_first = ''3'', dg_last = ''4''\<rparr>,
      \<lparr>dg_id = ''a'', dg_rule = ''r'', dg_src = ''s'', dg_hosts = [''h''], dg_alerts = [''a''], dg_evidence = [''e1''], dg_first = ''1'', dg_last = ''2''\<rparr>]"

theorem correlate_joins_activity_witness:
  "correlate letter_py id 1 sample_groups = Some (Inr (map (map ((!) (sort_key dg_id sample_groups)))
     (classes (length (sort_key dg_id sample_groups)) (\<lambda>i j. (i, j) \<in> chain (activity_links
        (group_start letter_py id (sort_key dg_id sample_groups)) (group_end letter_py id (sort_key dg_id sample_groups))
        (1 * 1000000) (sort_key dg_id sample_groups))))))
   \<and> list_all (timed letter_py id) sample_groups"
proof -
  have "list_all (timed letter_py id) sample_groups" by code_simp
  with correlate_joins_activity [of 1 letter_py id sample_groups, OF _ _ refl] show ?thesis by simp
qed

section \<open>Scores\<close>

lemma assess_summary_fields:
  fixes h f s e n d k t
  defines "a \<equiv> assess_summary h f s e n d k t"
  shows "as_score a =
      (if s \<noteq> 0 then if k then 10 else 50 else 0) + 12 * int (min e 3) + (if n \<ge> 2 then 10 else 0) +
      (if d \<ge> 7200 \<and> f \<ge> 10 then 15 else 0) + (if f \<ge> 50 then 5 else 0)"
    and "as_surfaced a \<longleftrightarrow> as_score a \<ge> t"
    and "as_priority a = map_option snd (find (\<lambda>(level, name). as_score a \<ge> level \<and> as_score a \<ge> t) PRIORITIES)"
  unfolding a_def assess_summary_def by (simp_all add: Let_def)

lemma as_score_bounds: "0 \<le> as_score (assess_summary h f s e n d k t) \<and> as_score (assess_summary h f s e n d k t) \<le> 116"
  unfolding assess_summary_fields by auto

text \<open>
  C26: every score lies between 0 and 116; an incident surfaces exactly when its score reaches the
  threshold, and has a priority exactly when it surfaces with at least the lowest priority's floor; and
  more failures, hosts, existing accounts or time never lower the score.
\<close>

theorem assessment_is_bounded_and_monotone:
  "0 \<le> as_score (assess_summary h f s e n d k t) \<and> as_score (assess_summary h f s e n d k t) \<le> 116 \<and>
   (as_surfaced (assess_summary h f s e n d k t) \<longleftrightarrow> t \<le> as_score (assess_summary h f s e n d k t)) \<and>
   (as_priority (assess_summary h f s e n d k t) \<noteq> None \<longleftrightarrow>
      max t SURFACE_THRESHOLD \<le> as_score (assess_summary h f s e n d k t)) \<and>
   as_score (assess_summary h f s e n d k t) \<le> as_score (assess_summary h (f + f') (s + s') (e + e') (n + n') (d + \<bar>d'\<bar>) k t)"
proof (intro conjI)
  show "as_priority (assess_summary h f s e n d k t) \<noteq> None \<longleftrightarrow>
      max t SURFACE_THRESHOLD \<le> as_score (assess_summary h f s e n d k t)"
    unfolding assess_summary_fields(3) by (auto simp: PRIORITIES_def SURFACE_THRESHOLD_def)
  have "12 * int (min e 3) \<le> 12 * int (min (e + e') 3)" by simp
  moreover have "d \<ge> 7200 \<Longrightarrow> d + \<bar>d'\<bar> \<ge> 7200" by (simp add: add_increasing2)
  ultimately show "as_score (assess_summary h f s e n d k t) \<le>
      as_score (assess_summary h (f + f') (s + s') (e + e') (n + n') (d + \<bar>d'\<bar>) k t)"
    unfolding assess_summary_fields(1) by (intro add_mono) auto
qed (use as_score_bounds assess_summary_fields(2) in blast)+

section \<open>The whole reduction\<close>

lemma sets_union_ok:
  assumes "uf_ok p" and "length p = n" and "a < n" and "b < n"
  shows "\<exists>q. sets_union a b p = Some q \<and> uf_ok q \<and> length q = n"
  using sets_union_spec [of p a b] assms by auto

lemma sweep_returns:
  "uf_ok p \<Longrightarrow> length p = n \<Longrightarrow> anchor < n \<Longrightarrow> set rest \<subseteq> {..<n} \<Longrightarrow>
   \<exists>r. sweep st fin gap anchor reach rest p = Some r \<and> (\<forall>q. r = Inr q \<longrightarrow> uf_ok q \<and> length q = n)"
proof (induction rest arbitrary: anchor reach p)
  case (Cons i rest)
  obtain q where "sets_union anchor i p = Some q" "uf_ok q" "length q = n"
    using sets_union_ok [OF Cons.prems(1-3), of i] Cons.prems(4) by auto
  with Cons show ?case by (auto split: sum.splits)
qed auto

lemma sort_members_map: "sort_members st name members = Inr keyed \<Longrightarrow> map snd keyed = members"
  by (induction members arbitrary: keyed) (auto split: sum.splits)

lemma sweep_sources_return:
  "uf_ok p \<Longrightarrow> length p = n \<Longrightarrow> (\<And>members. members \<in> set sources \<Longrightarrow> set members \<subseteq> {..<n}) \<Longrightarrow>
   \<exists>r. sweep_sources st fin name gap sources p = Some r \<and> (\<forall>q. r = Inr q \<longrightarrow> uf_ok q \<and> length q = n)"
proof (induction sources arbitrary: p)
  case (Cons members sources)
  have "\<exists>r. sweep_source st fin name gap members p = Some r \<and> (\<forall>q. r = Inr q \<longrightarrow> uf_ok q \<and> length q = n)"
  proof (cases "sort_members st name members")
    case (Inr keyed)
    have "set (map snd (sort_key fst keyed)) \<subseteq> {..<n}"
      using Cons.prems(3) [of members] arg_cong [OF sort_members_map [OF Inr], of set] by auto
    then show ?thesis
      using Inr sweep_returns [OF Cons.prems(1,2)]
      by (cases "map snd (sort_key fst keyed)") (simp_all add: sweep_source_def split: sum.splits)
  qed (simp add: sweep_source_def)
  then obtain r where r: "sweep_source st fin name gap members p = Some r" "\<forall>q. r = Inr q \<longrightarrow> uf_ok q \<and> length q = n" by blast
  show ?case
  proof (cases r)
    case (Inr q)
    with r Cons.IH [of q] Cons.prems(3) show ?thesis by auto
  qed (use r in simp)
qed simp

lemma mset_of_indices: "mset (concat cs) = mset [0..<length xs] \<Longrightarrow> mset (concat (map (map ((!) xs)) cs)) = mset xs"
  by (metis map_concat map_nth mset_map)

lemma mset_classes_joined: "mset (concat (classes n (joined p))) = mset [0..<n]"
  by (rule classes_mset) (auto intro: joined_sym joined_trans)

lemma correlate_returns:
  "\<exists>r. correlate P local_zone gap groups = Some r \<and> (\<forall>runs. r = Inr runs \<longrightarrow> mset (concat runs) = mset groups)"
proof (cases "gap < 0")
  case False
  let ?gs = "sort_key dg_id groups" let ?n = "length ?gs" and ?rows = "map dg_evidence ?gs"
  let ?sources = "map snd (group_by (\<lambda>index. dg_src (?gs ! index)) [0..<?n])"
  obtain owner p where p: "link_rows 0 ?rows Map.empty (sets_init (length ?rows)) = Some (owner, p)" "uf_ok p" "length p = ?n"
    using link_rows_joins [OF share_chain, of ?rows] unfolding uf_sound_def by (metis length_map)
  have "set members \<subseteq> {..<?n}" if "members \<in> set ?sources" for members
    using that by (auto simp: group_by_mem_iff)
  from sweep_sources_return [OF p(2,3) this] obtain r
    where r: "sweep_sources (\<lambda>i. seconds_of P local_zone (dg_first (?gs ! i))) (\<lambda>i. seconds_of P local_zone (dg_last (?gs ! i)))
      (\<lambda>i. dg_id (?gs ! i)) (gap * 1000000) ?sources p = Some r" "\<forall>q. r = Inr q \<longrightarrow> uf_ok q \<and> length q = ?n" by blast
  show ?thesis
  proof (cases r)
    case (Inr q)
    then obtain c where "sets_components q = Some (classes ?n (joined q), c)" using r(2) sets_components_spec [of q] by auto
    with False p(1) r(1) Inr show ?thesis
      using mset_of_indices [OF mset_classes_joined [of ?n q]] by (simp add: correlate_def Let_def)
  qed (use False p(1) r(1) in \<open>simp add: correlate_def Let_def\<close>)
qed (simp add: correlate_def)

lemma incidents_of_spec:
  "incidents_of hours records threshold runs = Inr incidents \<Longrightarrow>
   mset (concat (map ri_alerts incidents)) = mset (concat (map dg_alerts (concat runs))) \<and>
   (\<forall>i \<in> set incidents. (ri_surfaced i \<longleftrightarrow> threshold \<le> ri_score i) \<and> 0 \<le> ri_score i \<and> ri_score i \<le> 116)"
proof (induction runs arbitrary: incidents)
  case (Cons groups runs)
  then obtain i rest where i: "incident_of hours records threshold groups = Inr i" "incidents = i # rest"
    "incidents_of hours records threshold runs = Inr rest" by (auto split: sum.splits)
  then have "mset (ri_alerts i) = mset (concat (map dg_alerts groups))"
    "(ri_surfaced i \<longleftrightarrow> threshold \<le> ri_score i) \<and> 0 \<le> ri_score i \<and> ri_score i \<le> 116"
    using as_score_bounds
    by (auto simp: incident_of_def assess_def assess_summary_fields(2) Let_def split: sum.splits if_splits)
  with i Cons.IH [OF i(3)] show ?case by simp
qed simp

lemma mset_concat_map: "mset xs = mset ys \<Longrightarrow> mset (concat (map f xs)) = mset (concat (map f ys))"
  by (metis mset_concat map_map mset_map sum_mset_sum_list)

lemma deduplicate_keeps_alerts:
  "\<exists>groups. deduplicate alerts = Some groups \<and> mset (concat (map dg_alerts groups)) = mset (map ra_id alerts)"
proof -
  let ?as = "sort_key ra_id alerts"
  let ?cs = "classes (length ?as) (\<lambda>i j. (i, j) \<in> chain (same_detection ?as))"
  have "concat (map dg_alerts (map (\<lambda>members. alert_group (map ((!) ?as) members)) ?cs)) =
      map ra_id (concat (map (map ((!) ?as)) ?cs))"
    by (simp add: alert_group_def Let_def map_concat comp_def)
  then show ?thesis
    using mset_of_indices [OF mset_classes_chain [of "length ?as" "same_detection ?as"]]
    by (simp add: deduplicate_eq Let_def)
qed

text \<open>
  C27: \<open>reduce_alerts\<close> always returns or raises; when it returns, every input alert belongs to exactly one incident, an
  incident surfaces exactly when its score reaches the threshold, and scores are between 0 and 116.
\<close>

theorem reduction_loses_no_alert:
  "\<exists>r. reduce_alerts P local_zone hours alerts records gap threshold = Some r \<and>
    (\<forall>incidents. r = Inr incidents \<longrightarrow>
      mset (concat (map ri_alerts incidents)) = mset (map ra_id alerts) \<and>
      (\<forall>i \<in> set incidents. (ri_surfaced i \<longleftrightarrow> threshold \<le> ri_score i) \<and> 0 \<le> ri_score i \<and> ri_score i \<le> 116))"
proof -
  obtain groups where g: "deduplicate alerts = Some groups" "mset (concat (map dg_alerts groups)) = mset (map ra_id alerts)"
    using deduplicate_keeps_alerts by blast
  obtain c where c: "correlate P local_zone gap groups = Some c" "\<forall>runs. c = Inr runs \<longrightarrow> mset (concat runs) = mset groups"
    using correlate_returns by blast
  show ?thesis
  proof (cases c)
    case (Inr runs)
    have "mset (concat (map dg_alerts (concat runs))) = mset (map ra_id alerts)"
      using mset_concat_map c(2) Inr g(2) by metis
    then show ?thesis using g(1) c(1) Inr incidents_of_spec by (fastforce simp: reduce_alerts_def)
  qed (use g c in \<open>simp add: reduce_alerts_def\<close>)
qed

definition sample_alerts :: "raised_alert list" where
  "sample_alerts =
     [\<lparr>ra_id = ''b'', ra_rule = ''r'', ra_src = ''s'', ra_hosts = [''h''], ra_evidence = [''e1''], ra_first = ''1'', ra_last = ''2''\<rparr>,
      \<lparr>ra_id = ''a'', ra_rule = ''r'', ra_src = ''s'', ra_hosts = [''h''], ra_evidence = [''e1''], ra_first = ''1'', ra_last = ''1''\<rparr>]"

definition sample_rows :: "log_row list" where
  "sample_rows = [\<lparr>lr_id = ''e1'', lr_type = ''auth_failure'', lr_user = Some ''al'', lr_src = ''s'', lr_source = ''h'', lr_ts = 0\<rparr>]"

theorem reduction_loses_no_alert_witness:
  "\<exists>incidents. reduce_alerts letter_py id (\<lambda>q. []) sample_alerts sample_rows 1 10 = Some (Inr incidents) \<and>
     mset (concat (map ri_alerts incidents)) = {#''a'', ''b''#} \<and> (\<forall>i \<in> set incidents. ri_surfaced i)"
proof -
  have "case reduce_alerts letter_py id (\<lambda>q. []) sample_alerts sample_rows 1 10 of
      Some (Inr incidents) \<Rightarrow> list_all ri_surfaced incidents | _ \<Rightarrow> False" by code_simp
  moreover have "map ra_id sample_alerts = [''b'', ''a'']" by code_simp
  ultimately show ?thesis
    using reduction_loses_no_alert [of letter_py id "\<lambda>q. []" sample_alerts sample_rows 1 10]
    by (auto split: option.splits sum.splits simp: list_all_iff)
qed

end
