(* ===== verification/Network_Guard.thy ===== *)
theory Network_Guard
  imports Py_Json Py_Dict
begin

text \<open>
  \<open>app/telemetry/network_guard.py\<close>: the review of dynamic terminal-denial address sets in a
  normalized nftables snapshot. Of everything the snapshot holds, only the literal members of an
  enrolled set may vary between snapshots with one fingerprint, and only when every use of the set
  is a rule that ends in a denial. \<open>ipaddress.ip_address\<close> is an argument: the address a text
  denotes, or \<open>None\<close> for its \<open>ValueError\<close>.
\<close>

section \<open>Addresses, keys and identifiers\<close>

record address =
  ip_version :: nat
  ip_text :: string
  ip_mapped :: bool

type_synonym ip_reader = "string \<Rightarrow> address option"

definition has_key :: "row \<Rightarrow> string \<Rightarrow> bool" where
  "has_key r k = (map_of r k \<noteq> None)"

definition keys_are :: "row \<Rightarrow> string list \<Rightarrow> bool" where
  "keys_are r ks = (set (map fst r) = set ks)"

definition same_json :: "json \<Rightarrow> json \<Rightarrow> bool" where
  "same_json a b = (sort_keys a = sort_keys b)"

fun contains :: "string \<Rightarrow> string \<Rightarrow> bool" where
  "contains [] t = (t = [])"
| "contains (c # s) t = (startswith (c # s) t \<or> contains s t)"

definition set_name :: "string \<Rightarrow> bool" where
  "set_name = class_match (\<lambda>c. is_alnum c \<or> c = CHR ''_'') (\<lambda>c. is_alnum c \<or> c \<in> set ''_.-'') 63"

definition set_id :: "string \<Rightarrow> bool" where
  "set_id s = (case split_on (CHR ''/'') s of
     [family, table, name] \<Rightarrow> family \<in> set [''ip'', ''ip6'', ''inet''] \<and> set_name table \<and> set_name name
   | _ \<Rightarrow> False)"

definition validate_terminal_set_ids :: "string list \<Rightarrow> bool" where
  "validate_terminal_set_ids identities =
     (identities \<noteq> [] \<and> length identities \<le> 8 \<and> list_all set_id identities \<and> distinct identities)"

section \<open>Rules\<close>

fun number_upto :: "int \<Rightarrow> json \<Rightarrow> bool" where
  "number_upto maximum (JInt i) = (0 \<le> i \<and> i \<le> maximum)"
| "number_upto maximum _ = False"

definition literal_numbers :: "json \<Rightarrow> int \<Rightarrow> bool" where
  "literal_numbers value maximum =
     (number_upto maximum value \<or>
      (case value of
         JObj [(k, items)] \<Rightarrow>
           if k = ''set'' then
             (case items of JList xs \<Rightarrow> xs \<noteq> [] \<and> length xs \<le> 64 \<and> list_all (number_upto maximum) xs \<and> distinct xs | _ \<Rightarrow> False)
           else if k = ''range'' then
             (case items of JList [JInt a, JInt b] \<Rightarrow> number_upto maximum (JInt a) \<and> number_upto maximum (JInt b) \<and> a \<le> b
              | _ \<Rightarrow> False)
           else False
       | _ \<Rightarrow> False))"

definition static_lefts :: "json list" where
  "static_lefts = map (\<lambda>(protocol, field).
       JObj [(''payload'', JObj [(''protocol'', JStr protocol), (''field'', JStr field)])])
     [(''tcp'', ''sport''), (''tcp'', ''dport''), (''udp'', ''sport''), (''udp'', ''dport'')]"

definition static_match :: "json \<Rightarrow> bool" where
  "static_match expr = (case expr of
     JObj [(k, JObj m)] \<Rightarrow>
       k = ''match'' \<and> keys_are m [''left'', ''op'', ''right''] \<and> map_of m ''op'' = Some (JStr ''=='') \<and>
       (case (map_of m ''left'', map_of m ''right'') of
          (Some left, Some right) \<Rightarrow>
            if list_ex (same_json left) static_lefts then literal_numbers right 65535
            else if same_json left (JObj [(''meta'', JObj [(''key'', JStr ''l4proto'')])]) then literal_numbers right 255
            else False
        | _ \<Rightarrow> False)
   | _ \<Rightarrow> False)"

definition terminal_expr :: "json \<Rightarrow> bool" where
  "terminal_expr expr =
     (expr = JObj [(''drop'', JNull)] \<or> expr = JObj [(''reject'', JNull)] \<or>
      (case expr of
         JObj [(k, JObj reject)] \<Rightarrow>
           k = ''reject'' \<and> set (map fst reject) \<subseteq> {''type'', ''expr''} \<and>
           (if map_of reject ''type'' = Some (JStr ''tcp reset'')
            then map_of reject ''expr'' \<in> {None, Some JNull}
            else map_of reject ''type'' \<in> {Some (JStr ''icmp''), Some (JStr ''icmpv6''), Some (JStr ''icmpx'')} \<and>
              (case map_of reject ''expr'' of Some v \<Rightarrow> number_upto 255 v | None \<Rightarrow> False))
       | _ \<Rightarrow> False))"

datatype path_item = PKey string | PIdx nat

definition mentions :: "string \<Rightarrow> string \<Rightarrow> bool" where
  "mentions name s = (s = name \<or> contains s (CHR ''@'' # name))"

fun reference_paths :: "string \<Rightarrow> path_item list \<Rightarrow> json \<Rightarrow> path_item list list"
  and reference_fields :: "string \<Rightarrow> path_item list \<Rightarrow> row \<Rightarrow> path_item list list"
  and reference_items :: "string \<Rightarrow> path_item list \<Rightarrow> nat \<Rightarrow> json list \<Rightarrow> path_item list list" where
  "reference_paths name path (JStr s) = (if mentions name s then [path] else [])"
| "reference_paths name path (JObj kvs) = reference_fields name path kvs"
| "reference_paths name path (JList xs) = reference_items name path 0 xs"
| "reference_paths name path _ = []"
| "reference_fields name path [] = []"
| "reference_fields name path ((k, child) # rest) =
     (if mentions name k then [path @ [PKey ''<key>'', PKey k]] else []) @
     reference_paths name (path @ [PKey k]) child @ reference_fields name path rest"
| "reference_items name path i [] = []"
| "reference_items name path i (child # rest) =
     reference_paths name (path @ [PIdx i]) child @ reference_items name path (Suc i) rest"

definition lookup_expr :: "string \<Rightarrow> string \<Rightarrow> json" where
  "lookup_expr name protocol = JObj [(''match'', JObj
     [(''left'', JObj [(''payload'', JObj [(''protocol'', JStr protocol), (''field'', JStr ''saddr'')])]),
      (''op'', JStr ''==''), (''right'', JStr (CHR ''@'' # name))])]"

fun rule_lookups :: "string \<Rightarrow> string \<Rightarrow> nat \<Rightarrow> json list \<Rightarrow> path_item list list option" where
  "rule_lookups name protocol i [] = Some []"
| "rule_lookups name protocol i (expr # rest) =
     (if same_json expr (lookup_expr name protocol)
      then map_option (Cons [PKey ''rule'', PKey ''expr'', PIdx i, PKey ''match'', PKey ''right''])
             (rule_lookups name protocol (Suc i) rest)
      else if expr \<noteq> JObj [(''counter'', JObj [])] \<and> \<not> static_match expr then None
      else rule_lookups name protocol (Suc i) rest)"

definition review_rule :: "row \<Rightarrow> path_item list list \<Rightarrow> string \<Rightarrow> string \<Rightarrow> bool" where
  "review_rule rule paths name protocol =
     (let required = [''family'', ''table'', ''chain'', ''expr''] in
      list_all (has_key rule) required \<and> set (map fst rule) \<subseteq> set (''comment'' # required) \<and>
      (case map_of rule ''chain'' of Some (JStr _) \<Rightarrow> True | _ \<Rightarrow> False) \<and>
      (case map_of rule ''comment'' of None \<Rightarrow> True | Some (JStr c) \<Rightarrow> length c \<le> 256 | _ \<Rightarrow> False) \<and>
      (case map_of rule ''expr'' of
         Some (JList exprs) \<Rightarrow> 2 \<le> length exprs \<and> length exprs \<le> 16 \<and> terminal_expr (last exprs) \<and>
           (case rule_lookups name protocol 0 (butlast exprs) of
              Some lookups \<Rightarrow> length lookups = 1 \<and> paths = lookups
            | None \<Rightarrow> False)
       | _ \<Rightarrow> False))"

section \<open>The snapshot\<close>

text \<open>Every item of a snapshot is an object with one key: its kind and its body.\<close>

fun item_of :: "json \<Rightarrow> (string \<times> row) option" where
  "item_of (JObj [(kind, JObj body)]) = Some (kind, body)"
| "item_of _ = None"

definition field_is :: "row \<Rightarrow> string \<Rightarrow> string \<Rightarrow> bool" where
  "field_is r k s = (map_of r k = Some (JStr s))"

definition is_set :: "string \<Rightarrow> string \<Rightarrow> string \<Rightarrow> string \<times> row \<Rightarrow> bool" where
  "is_set family table name item =
     (fst item = ''set'' \<and> field_is (snd item) ''family'' family \<and> field_is (snd item) ''table'' table \<and>
      field_is (snd item) ''name'' name)"

definition review_definition :: "string \<Rightarrow> row \<Rightarrow> nat option" where
  "review_definition family obj =
     (let required = [''family'', ''table'', ''name'', ''type''];
          version = (if field_is obj ''type'' ''ipv4_addr'' then 4 else 6) in
      if list_all (has_key obj) required \<and> set (map fst obj) \<subseteq> set (required @ [''elem'', ''size'', ''comment'']) \<and>
         (field_is obj ''type'' ''ipv4_addr'' \<or> field_is obj ''type'' ''ipv6_addr'') \<and>
         family \<in> {''inet'', if version = 4 then ''ip'' else ''ip6''} \<and>
         (case map_of obj ''size'' of None \<Rightarrow> True | Some (JInt n) \<Rightarrow> 1 \<le> n \<and> n \<le> 10000000 | _ \<Rightarrow> False) \<and>
         (case map_of obj ''comment'' of None \<Rightarrow> True | Some (JStr c) \<Rightarrow> length c \<le> 256 | _ \<Rightarrow> False)
      then Some version else None)"

definition literal_member :: "ip_reader \<Rightarrow> nat \<Rightarrow> json \<Rightarrow> bool" where
  "literal_member ip version member = (case member of
     JStr s \<Rightarrow> length s \<le> 45 \<and> CHR ''%'' \<notin> set s \<and>
       (case ip s of None \<Rightarrow> False
        | Some a \<Rightarrow> ip_version a = version \<and> ip_text a = s \<and> \<not> (ip_version a = 6 \<and> ip_mapped a))
   | _ \<Rightarrow> False)"

definition literal_members :: "ip_reader \<Rightarrow> nat \<Rightarrow> row \<Rightarrow> bool" where
  "literal_members ip version obj = (case map_of obj ''elem'' of
     None \<Rightarrow> True
   | Some (JList members) \<Rightarrow> int (length members) \<le> 100000 \<and> list_all (literal_member ip version) members \<and> distinct members
   | _ \<Rightarrow> False)"

definition in_table :: "string \<Rightarrow> string \<Rightarrow> string \<times> row \<Rightarrow> bool" where
  "in_table family table item = (field_is (snd item) ''family'' family \<and>
     field_is (snd item) (if fst item = ''table'' then ''name'' else ''table'') table)"

definition item_references :: "nat \<Rightarrow> string \<Rightarrow> nat \<Rightarrow> string \<times> row \<Rightarrow> path_item list list" where
  "item_references defined name i item =
     (let paths = reference_paths name [] (JObj [(fst item, JObj (snd item))]) in
      if fst item = ''set'' \<and> i = defined then filter (\<lambda>p. p \<noteq> [PKey ''set'', PKey ''name'']) paths else paths)"

text \<open>The number of reviewed references from the items from index \<open>i\<close> on; \<open>None\<close> when one is not allowed.\<close>

fun count_references :: "nat \<Rightarrow> string \<Rightarrow> string \<Rightarrow> string \<Rightarrow> string \<Rightarrow> nat \<Rightarrow> (string \<times> row) list \<Rightarrow> nat option" where
  "count_references defined family table name protocol i [] = Some 0"
| "count_references defined family table name protocol i (item # rest) =
     (if \<not> in_table family table item then count_references defined family table name protocol (Suc i) rest
      else let paths = item_references defined name i item in
        if paths = [] then count_references defined family table name protocol (Suc i) rest
        else if fst item \<noteq> ''rule'' \<or> \<not> review_rule (snd item) paths name protocol then None
        else map_option Suc (count_references defined family table name protocol (Suc i) rest))"

definition membership_marker :: json where
  "membership_marker = JObj [(''reviewed_dynamic_terminal_membership'', JBool True)]"

definition mask :: "string \<times> row \<Rightarrow> string \<times> row" where
  "mask item = (fst item, dict_set ''elem'' membership_marker (snd item))"

text \<open>The review of one enrolled set: the index of its definition.\<close>

definition review_set :: "ip_reader \<Rightarrow> (string \<times> row) list \<Rightarrow> string \<Rightarrow> nat option" where
  "review_set ip items identity = (case split_on (CHR ''/'') identity of
     [family, table, name] \<Rightarrow>
       (case filter (\<lambda>i. is_set family table name (items ! i)) [0..<length items] of
          [index] \<Rightarrow>
            (case review_definition family (snd (items ! index)) of
               None \<Rightarrow> None
             | Some version \<Rightarrow>
                 if \<not> literal_members ip version (snd (items ! index)) then None
                 else (case count_references index family table name (if version = 4 then ''ip'' else ''ip6'') 0 items of
                   None \<Rightarrow> None
                 | Some referenced \<Rightarrow> if referenced = 0 then None else Some index))
        | _ \<Rightarrow> None)
   | _ \<Rightarrow> None)"

fun review_sets :: "ip_reader \<Rightarrow> (string \<times> row) list \<Rightarrow> string list \<Rightarrow> (string \<times> row) list \<Rightarrow> (string \<times> row) list option" where
  "review_sets ip items [] result = Some result"
| "review_sets ip items (identity # rest) result =
     (case review_set ip items identity of
        None \<Rightarrow> None
      | Some index \<Rightarrow> review_sets ip items rest (result[index := mask (result ! index)]))"

fun items_of :: "json list \<Rightarrow> (string \<times> row) list option" where
  "items_of [] = Some []"
| "items_of (j # js) = (case (item_of j, items_of js) of (Some i, Some is) \<Rightarrow> Some (i # is) | _ \<Rightarrow> None)"

definition terminal_set_snapshot :: "ip_reader \<Rightarrow> json list \<Rightarrow> string list \<Rightarrow> json list result" where
  "terminal_set_snapshot ip items identities =
     (let failure = Inl (ValueError ''unsafe_dynamic_terminal_set'') in
      if \<not> validate_terminal_set_ids identities \<or> int (length items) > 100000 then failure
      else case items_of items of None \<Rightarrow> failure
      | Some parsed \<Rightarrow> (case review_sets ip parsed identities parsed of None \<Rightarrow> failure
         | Some result \<Rightarrow> Inr (map (\<lambda>(kind, body). JObj [(kind, JObj body)]) result)))"

section \<open>What a reviewed snapshot leaves open\<close>

text \<open>
  What counts as denying, told by the meaning of the expressions. A verdict denies if it is drop or reject. A match
  narrows a rule if it compares a port or the transport protocol with numbers written out: a number, a
  set of numbers or a range. A rule denies by a set if exactly one of its expressions looks the source
  address up in the set, the last one denies, and all the others count or narrow.
\<close>

definition denies :: "json \<Rightarrow> bool" where
  "denies expr \<longleftrightarrow> expr = JObj [(''drop'', JNull)] \<or> (\<exists>how. expr = JObj [(''reject'', how)])"

inductive denotes :: "json \<Rightarrow> int set \<Rightarrow> bool" where
  one: "denotes (JInt n) {n}"
| several: "denotes (JObj [(''set'', JList (map JInt ns))]) (set ns)"
| between: "denotes (JObj [(''range'', JList [JInt a, JInt b])]) {a..b}"

definition port_field :: "json \<Rightarrow> bool" where
  "port_field left \<longleftrightarrow> (\<exists>protocol field. (protocol = ''tcp'' \<or> protocol = ''udp'') \<and> (field = ''sport'' \<or> field = ''dport'') \<and>
     same_json left (JObj [(''payload'', JObj [(''protocol'', JStr protocol), (''field'', JStr field)])]))"

definition narrows :: "json \<Rightarrow> bool" where
  "narrows expr \<longleftrightarrow> (\<exists>m left right N. expr = JObj [(''match'', JObj m)] \<and> set (map fst m) = {''left'', ''op'', ''right''} \<and>
     map_of m ''op'' = Some (JStr ''=='') \<and> map_of m ''left'' = Some left \<and> map_of m ''right'' = Some right \<and>
     denotes right N \<and> N \<noteq> {} \<and>
     (port_field left \<and> N \<subseteq> {0..65535} \<or>
      same_json left (JObj [(''meta'', JObj [(''key'', JStr ''l4proto'')])]) \<and> N \<subseteq> {0..255}))"

definition lookup_path :: "nat \<Rightarrow> path_item list" where
  "lookup_path j = [PKey ''rule'', PKey ''expr'', PIdx j, PKey ''match'', PKey ''right'']"

definition denies_by :: "string \<Rightarrow> string \<Rightarrow> path_item list list \<Rightarrow> string \<times> row \<Rightarrow> bool" where
  "denies_by name protocol paths item \<longleftrightarrow> fst item = ''rule'' \<and>
     (\<exists>exprs j. map_of (snd item) ''expr'' = Some (JList exprs) \<and> Suc j < length exprs \<and> denies (last exprs) \<and>
        same_json (exprs ! j) (lookup_expr name protocol) \<and> paths = [lookup_path j] \<and>
        (\<forall>k. Suc k < length exprs \<and> k \<noteq> j \<longrightarrow> exprs ! k = JObj [(''counter'', JObj [])] \<or> narrows (exprs ! k)))"

text \<open>
  Item \<open>index\<close> alone defines the enrolled set \<open>identity\<close>: its members are literal addresses of its type, and each item of
  its table that mentions it, other than by defining it, is a rule that mentions it once, as the set the source
  address is looked up in, and denies by it; there is at least one such rule.
\<close>

definition reviewed_set :: "ip_reader \<Rightarrow> (string \<times> row) list \<Rightarrow> string \<Rightarrow> nat \<Rightarrow> bool" where
  "reviewed_set ip items identity index \<longleftrightarrow> index < length items \<and>
     (\<exists>family table name version protocol. split_on (CHR ''/'') identity = [family, table, name] \<and>
        is_set family table name (items ! index) \<and>
        (\<forall>i < length items. is_set family table name (items ! i) \<longrightarrow> i = index) \<and>
        (field_is (snd (items ! index)) ''type'' ''ipv4_addr'' \<and> version = 4 \<and> protocol = ''ip'' \<or>
         field_is (snd (items ! index)) ''type'' ''ipv6_addr'' \<and> version = 6 \<and> protocol = ''ip6'') \<and>
        (family = ''inet'' \<or> family = protocol) \<and>
        literal_members ip version (snd (items ! index)) \<and>
        (\<forall>i < length items. in_table family table (items ! i) \<longrightarrow> item_references index name i (items ! i) \<noteq> [] \<longrightarrow>
           denies_by name protocol (item_references index name i (items ! i)) (items ! i)) \<and>
        (\<exists>i < length items. in_table family table (items ! i) \<and>
           denies_by name protocol (item_references index name i (items ! i)) (items ! i)))"

lemma filter_single:
  assumes "filter p [0..<n] = [k]"
  shows "k < n" and "p k" and "i < n \<Longrightarrow> p i \<Longrightarrow> i = k"
proof -
  have "set (filter p [0..<n]) = {k}" using assms by simp
  then show "k < n" "p k" "i < n \<Longrightarrow> p i \<Longrightarrow> i = k" by auto
qed

lemma single_field:
  "(case j of JObj [(k, v)] \<Rightarrow> Q k v | _ \<Rightarrow> False) \<Longrightarrow> \<exists>k v. j = JObj [(k, v)] \<and> Q k v"
proof (cases j)
  case (JObj kvs)
  assume "case j of JObj [(k, v)] \<Rightarrow> Q k v | _ \<Rightarrow> False"
  with JObj show ?thesis by (cases kvs; cases "tl kvs"; cases "hd kvs") auto
qed simp_all

lemma single_object:
  "(case j of JObj [(k, JObj m)] \<Rightarrow> Q k m | _ \<Rightarrow> False) \<Longrightarrow> \<exists>k m. j = JObj [(k, JObj m)] \<and> Q k m"
proof (cases j)
  case (JObj kvs)
  assume "case j of JObj [(k, JObj m)] \<Rightarrow> Q k m | _ \<Rightarrow> False"
  with JObj show ?thesis by (cases kvs; cases "tl kvs"; cases "hd kvs"; cases "snd (hd kvs)") auto
qed simp_all

lemma two_numbers:
  "(case j of JList [JInt a, JInt b] \<Rightarrow> Q a b | _ \<Rightarrow> False) \<Longrightarrow> \<exists>a b. j = JList [JInt a, JInt b] \<and> Q a b"
proof (cases j)
  case (JList xs)
  assume "case j of JList [JInt a, JInt b] \<Rightarrow> Q a b | _ \<Rightarrow> False"
  with JList show ?thesis
    by (cases xs; cases "hd xs"; cases "tl xs"; cases "hd (tl xs)"; cases "tl (tl xs)") simp_all
qed simp_all

lemma json_list: "(case j of JList xs \<Rightarrow> Q xs | _ \<Rightarrow> False) \<Longrightarrow> \<exists>xs. j = JList xs \<and> Q xs"
  by (cases j) simp_all

lemma terminal_denies: "terminal_expr expr \<Longrightarrow> denies expr"
  unfolding terminal_expr_def denies_def by (auto dest!: single_object)

lemma numbers_of: "list_all (number_upto maximum) xs \<Longrightarrow> \<exists>ns. xs = map JInt ns \<and> set ns \<subseteq> {0..maximum}"
proof (induction xs)
  case (Cons x xs)
  then obtain ns where "xs = map JInt ns" "set ns \<subseteq> {0..maximum}" by auto
  moreover obtain n where "x = JInt n" "n \<in> {0..maximum}" using Cons.prems by (cases x) auto
  ultimately show ?case by (intro exI [of _ "n # ns"]) simp
qed simp

lemma literal_numbers_denote:
  assumes "literal_numbers value maximum"
  shows "\<exists>N. denotes value N \<and> N \<noteq> {} \<and> N \<subseteq> {0..maximum}"
proof -
  consider (number) n where "value = JInt n" "n \<in> {0..maximum}"
    | (several) xs where "value = JObj [(''set'', JList xs)]" "xs \<noteq> []" "list_all (number_upto maximum) xs"
    | (between) a b where "value = JObj [(''range'', JList [JInt a, JInt b])]" "a \<le> b" "0 \<le> a" "b \<le> maximum"
    using assms unfolding literal_numbers_def
  proof
    assume "number_upto maximum value"
    then show ?thesis using that(1) by (cases "value") auto
  next
    assume "case value of
        JObj [(k, items)] \<Rightarrow>
          if k = ''set'' then
            (case items of JList xs \<Rightarrow> xs \<noteq> [] \<and> length xs \<le> 64 \<and> list_all (number_upto maximum) xs \<and> distinct xs | _ \<Rightarrow> False)
          else if k = ''range'' then
            (case items of JList [JInt a, JInt b] \<Rightarrow> number_upto maximum (JInt a) \<and> number_upto maximum (JInt b) \<and> a \<le> b
             | _ \<Rightarrow> False)
          else False
      | _ \<Rightarrow> False"
    from single_field [OF this] show ?thesis using that(2,3)
      by (auto split: if_splits dest!: json_list two_numbers)
  qed
  then show ?thesis
  proof cases
    case several
    with numbers_of obtain ns where "xs = map JInt ns" "set ns \<subseteq> {0..maximum}" by blast
    with several denotes.several show ?thesis by (intro exI [of _ "set ns"]) auto
  next
    case number
    with denotes.one show ?thesis by (intro exI [of _ "{n}"]) simp
  next
    case between
    with denotes.between show ?thesis by (intro exI [of _ "{a..b}"]) auto
  qed
qed

lemma static_lefts_ports: "list_ex (same_json left) static_lefts \<Longrightarrow> port_field left"
  unfolding port_field_def static_lefts_def by auto

lemma static_narrows:
  assumes "static_match expr"
  shows "narrows expr"
proof -
  obtain m left right where expr: "expr = JObj [(''match'', JObj m)]" "keys_are m [''left'', ''op'', ''right'']"
    "map_of m ''op'' = Some (JStr ''=='')" "map_of m ''left'' = Some left" "map_of m ''right'' = Some right"
    and lit: "list_ex (same_json left) static_lefts \<and> literal_numbers right 65535
      \<or> same_json left (JObj [(''meta'', JObj [(''key'', JStr ''l4proto'')])]) \<and> literal_numbers right 255"
  proof -
    from single_object [OF assms [unfolded static_match_def]] obtain m where m: "expr = JObj [(''match'', JObj m)]"
      "keys_are m [''left'', ''op'', ''right'']" "map_of m ''op'' = Some (JStr ''=='')"
      and sides: "case (map_of m ''left'', map_of m ''right'') of
          (Some left, Some right) \<Rightarrow>
            if list_ex (same_json left) static_lefts then literal_numbers right 65535
            else if same_json left (JObj [(''meta'', JObj [(''key'', JStr ''l4proto'')])]) then literal_numbers right 255
            else False
        | _ \<Rightarrow> False" by blast
    from sides obtain left right where "map_of m ''left'' = Some left" "map_of m ''right'' = Some right"
      by (cases "map_of m ''left''"; cases "map_of m ''right''") simp_all
    with that m sides show ?thesis by (simp split: if_splits)
  qed
  obtain N where "denotes right N" "N \<noteq> {}" and "port_field left \<and> N \<subseteq> {0..65535} \<or>
      same_json left (JObj [(''meta'', JObj [(''key'', JStr ''l4proto'')])]) \<and> N \<subseteq> {0..255}"
    using lit static_lefts_ports literal_numbers_denote by blast
  moreover have "set (map fst m) = {''left'', ''op'', ''right''}" using expr(2) by (simp add: keys_are_def)
  ultimately show ?thesis unfolding narrows_def using expr(1,3-5) by blast
qed

lemma rule_lookups_spec:
  assumes "rule_lookups name protocol i exprs = Some ls"
  shows "ls = map (\<lambda>j. lookup_path (i + j)) (filter (\<lambda>j. same_json (exprs ! j) (lookup_expr name protocol)) [0..<length exprs]) \<and>
    (\<forall>k < length exprs. same_json (exprs ! k) (lookup_expr name protocol) \<or> exprs ! k = JObj [(''counter'', JObj [])] \<or> narrows (exprs ! k))"
  using assms
proof (induction exprs arbitrary: i ls)
  case (Cons e es)
  let ?L = "\<lambda>e. same_json e (lookup_expr name protocol)"
  obtain ms where ms: "rule_lookups name protocol (Suc i) es = Some ms" and ls: "ls = (if ?L e then lookup_path i # ms else ms)"
    and ok: "?L e \<or> e = JObj [(''counter'', JObj [])] \<or> narrows e"
  proof (cases "?L e")
    case True
    with Cons.prems obtain ms where "rule_lookups name protocol (Suc i) es = Some ms" "ls = lookup_path i # ms"
      by (auto simp: lookup_path_def)
    then show ?thesis using True by (intro that) simp_all
  next
    case False
    with Cons.prems have "rule_lookups name protocol (Suc i) es = Some ls" "e = JObj [(''counter'', JObj [])] \<or> static_match e"
      by (simp_all split: if_splits)
    then show ?thesis using False static_narrows [of e] by (intro that) (simp, simp, blast)
  qed
  have upt: "[0..<length (e # es)] = 0 # map Suc [0..<length es]" by (simp add: upt_conv_Cons map_Suc_upt del: upt_Suc)
  have "ls = map (\<lambda>j. lookup_path (i + j)) (filter (\<lambda>j. ?L ((e # es) ! j)) [0..<length (e # es)])"
    unfolding upt ls using Cons.IH [OF ms] by (simp add: filter_map comp_def)
  moreover have "?L ((e # es) ! k) \<or> (e # es) ! k = JObj [(''counter'', JObj [])] \<or> narrows ((e # es) ! k)" if "k < length (e # es)" for k
    using that ok Cons.IH [OF ms] by (cases k) simp_all
  ultimately show ?case by blast
qed simp

lemma review_rule_denies:
  assumes "review_rule (snd item) paths name protocol" and "fst item = ''rule''"
  shows "denies_by name protocol paths item"
proof -
  obtain exprs ls where e: "map_of (snd item) ''expr'' = Some (JList exprs)" "2 \<le> length exprs" "terminal_expr (last exprs)"
    and ls: "rule_lookups name protocol 0 (butlast exprs) = Some ls" "length ls = 1" "paths = ls"
    using assms(1) unfolding review_rule_def Let_def by (auto split: option.splits json.splits)
  let ?L = "\<lambda>j. same_json (butlast exprs ! j) (lookup_expr name protocol)"
  note spec = rule_lookups_spec [OF ls(1)]
  then obtain j where j: "filter ?L [0..<length (butlast exprs)] = [j]"
    using ls(2) by (auto simp: length_Suc_conv map_eq_Cons_conv)
  note one = filter_single [OF j]
  have nth: "Suc k < length exprs \<Longrightarrow> butlast exprs ! k = exprs ! k" for k by (simp add: nth_butlast)
  have "paths = [lookup_path j]" using spec j ls(3) by simp
  moreover have "Suc j < length exprs" using one(1) by simp
  moreover from this have "same_json (exprs ! j) (lookup_expr name protocol)" using one(2) nth by simp
  moreover have "exprs ! k = JObj [(''counter'', JObj [])] \<or> narrows (exprs ! k)" if "Suc k < length exprs" "k \<noteq> j" for k
  proof -
    have "k < length (butlast exprs)" using that by simp
    then show ?thesis using spec one(3) [of k] that nth [of k] by auto
  qed
  ultimately show ?thesis
    unfolding denies_by_def using assms(2) e terminal_denies by blast
qed

lemma count_references_spec:
  "count_references d family table name protocol k items = Some n \<Longrightarrow>
   (\<forall>i < length items. in_table family table (items ! i) \<longrightarrow> item_references d name (k + i) (items ! i) \<noteq> [] \<longrightarrow>
      denies_by name protocol (item_references d name (k + i) (items ! i)) (items ! i)) \<and>
   (0 < n \<longrightarrow> (\<exists>i < length items. in_table family table (items ! i) \<and>
      denies_by name protocol (item_references d name (k + i) (items ! i)) (items ! i)))"
proof (induction items arbitrary: k n)
  case (Cons item items)
  let ?refs = "item_references d name k item"
  let ?used = "in_table family table item \<and> ?refs \<noteq> []"
  let ?D = "\<lambda>i x. denies_by name protocol (item_references d name i x) x"
  obtain m where m: "count_references d family table name protocol (Suc k) items = Some m"
    and head: "?used \<Longrightarrow> ?D k item" "\<not> ?used \<Longrightarrow> n = m"
    using Cons.prems by (cases "in_table family table item"; cases "?refs = []")
      (auto simp: Let_def split: if_splits intro: review_rule_denies)
  note IH = Cons.IH [OF m]
  show ?case
  proof (intro conjI allI impI)
    fix i assume "i < length (item # items)" "in_table family table ((item # items) ! i)"
      "item_references d name (k + i) ((item # items) ! i) \<noteq> []"
    then show "?D (k + i) ((item # items) ! i)" using IH head by (cases i) auto
  next
    assume "0 < n"
    then show "\<exists>i < length (item # items). in_table family table ((item # items) ! i) \<and> ?D (k + i) ((item # items) ! i)"
    proof (cases ?used)
      case True
      with head show ?thesis by (intro exI [of _ 0]) simp
    next
      case False
      with head IH \<open>0 < n\<close> obtain i where "i < length items" "in_table family table (items ! i)" "?D (Suc k + i) (items ! i)" by auto
      then show ?thesis by (intro exI [of _ "Suc i"]) simp
    qed
  qed
qed simp

lemma review_definition_type:
  assumes "review_definition family obj = Some version"
  shows "(field_is obj ''type'' ''ipv4_addr'' \<and> version = 4 \<or> field_is obj ''type'' ''ipv6_addr'' \<and> version = 6) \<and>
    (family = ''inet'' \<or> family = (if version = 4 then ''ip'' else ''ip6''))"
  using assms by (auto simp: review_definition_def Let_def split: if_splits)

lemma review_set_spec: "review_set ip items identity = Some index \<Longrightarrow> reviewed_set ip items identity index"
proof -
  assume "review_set ip items identity = Some index"
  then obtain family table name version n where parts: "split_on (CHR ''/'') identity = [family, table, name]"
    and one: "filter (\<lambda>i. is_set family table name (items ! i)) [0..<length items] = [index]"
    and lit: "literal_members ip version (snd (items ! index))"
    and type: "review_definition family (snd (items ! index)) = Some version"
    and n: "count_references index family table name (if version = 4 then ''ip'' else ''ip6'') 0 items = Some n" "0 < n"
    by (auto simp: review_set_def split: list.splits option.splits if_splits)
  define protocol where "protocol = (if version = 4 then ''ip'' else ''ip6'')"
  note fs = filter_single [OF one]
  have uniq: "\<forall>i < length items. is_set family table name (items ! i) \<longrightarrow> i = index" using fs(3) by blast
  have refs: "\<forall>i < length items. in_table family table (items ! i) \<longrightarrow> item_references index name i (items ! i) \<noteq> [] \<longrightarrow>
      denies_by name protocol (item_references index name i (items ! i)) (items ! i)"
    "\<exists>i < length items. in_table family table (items ! i) \<and> denies_by name protocol (item_references index name i (items ! i)) (items ! i)"
    using count_references_spec [OF n(1)] n(2) unfolding protocol_def by simp_all
  have "field_is (snd (items ! index)) ''type'' ''ipv4_addr'' \<and> version = 4 \<and> protocol = ''ip'' \<or>
    field_is (snd (items ! index)) ''type'' ''ipv6_addr'' \<and> version = 6 \<and> protocol = ''ip6''" "family = ''inet'' \<or> family = protocol"
    using review_definition_type [OF type] by (auto simp: protocol_def)
  then show ?thesis
    unfolding reviewed_set_def using fs(1,2) parts lit uniq refs by blast
qed

lemma mask_idem: "mask (mask item) = mask item"
  by (cases item) (simp add: mask_def update_Some_unfold)

definition masked :: "nat set \<Rightarrow> (string \<times> row) list \<Rightarrow> (string \<times> row) list" where
  "masked R items = map (\<lambda>i. if i \<in> R then mask (items ! i) else items ! i) [0..<length items]"

lemma masked_step:
  assumes "index < length items"
  shows "(masked R items)[index := mask (masked R items ! index)] = masked (insert index R) items"
  by (rule nth_equalityI) (use assms in \<open>auto simp: masked_def nth_list_update mask_idem\<close>)

lemma review_sets_spec:
  assumes "review_sets ip items ids (masked R items) = Some result"
  shows "\<exists>S. result = masked (R \<union> S) items \<and> (\<forall>i \<in> S. \<exists>identity \<in> set ids. reviewed_set ip items identity i) \<and>
    (\<forall>identity \<in> set ids. \<exists>i \<in> S. reviewed_set ip items identity i)"
  using assms
proof (induction ids arbitrary: R)
  case (Cons identity ids)
  then obtain index where r: "review_set ip items identity = Some index"
    and rest: "review_sets ip items ids ((masked R items)[index := mask (masked R items ! index)]) = Some result"
    by (auto split: option.splits)
  have ok: "reviewed_set ip items identity index" using r by (rule review_set_spec)
  then have "index < length items" by (simp add: reviewed_set_def)
  from Cons.IH rest [unfolded masked_step [OF this]] obtain S where
    S: "result = masked (insert index R \<union> S) items" "\<forall>i \<in> S. \<exists>identity \<in> set ids. reviewed_set ip items identity i"
      "\<forall>identity \<in> set ids. \<exists>i \<in> S. reviewed_set ip items identity i" by blast
  have "insert index R \<union> S = R \<union> insert index S" by auto
  with S ok show ?case by (intro exI [of _ "insert index S"]) auto
qed auto

lemma masked_empty: "masked {} items = items"
  by (simp add: masked_def map_nth)

definition wrap_item :: "string \<times> row \<Rightarrow> json" where
  "wrap_item item = JObj [(fst item, JObj (snd item))]"

lemma item_of_wrap: "item_of j = Some i \<Longrightarrow> j = wrap_item i"
  by (induction j rule: item_of.induct) (auto simp: wrap_item_def)

lemma items_of_wrap: "items_of js = Some items \<Longrightarrow> js = map wrap_item items"
proof (induction js arbitrary: items)
  case (Cons j js)
  from Cons.prems obtain i "is" where "item_of j = Some i" "items_of js = Some is" "items = i # is"
    by (cases "item_of j"; cases "items_of js") auto
  with Cons.IH item_of_wrap show ?case by simp
qed simp

text \<open>
  C28: when \<open>terminal_set_snapshot\<close> accepts a snapshot, its result is the snapshot with nothing changed but the
  membership of enrolled sets. Each enrolled set is defined exactly once, its members are canonical literal addresses of
  its type, and everything in its table that refers to it is a rule that only denies by it: one of its expressions looks the
  source address up in the set and is its only mention of the set, the last is drop or reject, and every other is a counter or
  compares a port or the transport protocol with literal numbers; there is at least one such rule.
\<close>

theorem snapshot_masks_only_denied_members:
  assumes "terminal_set_snapshot ip snapshot ids = Inr result"
  shows "\<exists>items R. snapshot = map wrap_item items \<and> result = map wrap_item (masked R items) \<and>
    (\<forall>i \<in> R. \<exists>identity \<in> set ids. reviewed_set ip items identity i) \<and>
    (\<forall>identity \<in> set ids. \<exists>i \<in> R. reviewed_set ip items identity i)"
proof -
  from assms obtain items r where items: "items_of snapshot = Some items" and r: "review_sets ip items ids items = Some r"
    and result: "result = map (\<lambda>(kind, body). JObj [(kind, JObj body)]) r"
    by (auto simp: terminal_set_snapshot_def Let_def split: if_splits option.splits)
  from review_sets_spec [of ip items ids "{}" r] r obtain S where "r = masked S items"
    "\<forall>i \<in> S. \<exists>identity \<in> set ids. reviewed_set ip items identity i"
    "\<forall>identity \<in> set ids. \<exists>i \<in> S. reviewed_set ip items identity i"
    by (auto simp: masked_empty)
  moreover have "result = map wrap_item r" unfolding result by (auto simp: wrap_item_def)
  ultimately show ?thesis using items_of_wrap [OF items] by blast
qed

definition sample_snapshot :: "json list" where
  "sample_snapshot = map wrap_item
     [(''set'', [(''family'', JStr ''ip''), (''table'', JStr ''f''), (''name'', JStr ''b''), (''type'', JStr ''ipv4_addr''),
        (''elem'', JList [JStr ''1.2.3.4''])]),
      (''rule'', [(''family'', JStr ''ip''), (''table'', JStr ''f''), (''chain'', JStr ''in''),
        (''expr'', JList [JObj [(''counter'', JObj [])], lookup_expr ''b'' ''ip'', JObj [(''drop'', JNull)]])])]"

theorem snapshot_masks_only_denied_members_witness:
  "\<exists>result. terminal_set_snapshot (\<lambda>s. Some \<lparr>ip_version = 4, ip_text = s, ip_mapped = False\<rparr>) sample_snapshot [''ip/f/b''] = Inr result \<and>
    (\<exists>items R. sample_snapshot = map wrap_item items \<and> result = map wrap_item (masked R items) \<and> R \<noteq> {})"
proof -
  let ?ip = "\<lambda>s. Some \<lparr>ip_version = 4, ip_text = s, ip_mapped = False\<rparr>"
  have "is_ok (terminal_set_snapshot ?ip sample_snapshot [''ip/f/b''])" by code_simp
  then obtain result where r: "terminal_set_snapshot ?ip sample_snapshot [''ip/f/b''] = Inr result"
    by (auto simp: is_ok_def split: sum.splits)
  from snapshot_masks_only_denied_members [OF r] r show ?thesis by fastforce
qed

end
