(* ===== verification/Network_Parse.thy ===== *)
theory Network_Parse
  imports Network_Guard
begin

text \<open>
  \<open>app/telemetry/network_parse.py\<close>: one kernel-journal record becomes a bounded, self-describing
  observation. A rejection carries only a fixed code. Conditions on Python types of fields are typing here; conditions
  on their values are written out. \<open>sha256\<close> and \<open>ipaddress.ip_address\<close> are arguments.
\<close>

section \<open>Constants and patterns\<close>

definition TERMINAL_GUARD :: string where "TERMINAL_GUARD = ''netfilter-terminal-v2''"
definition LEGACY_GUARD :: string where "LEGACY_GUARD = ''iptables-v1''"
definition FULL_GUARD :: string where "FULL_GUARD = ''netfilter-full-v1''"
definition STRONG_GUARDS :: "string list" where "STRONG_GUARDS = [FULL_GUARD, TERMINAL_GUARD]"
definition PARSER_VERSION :: string where "PARSER_VERSION = ''ufw-kernel-v1''"
definition FULL_PARSER_VERSION :: string where "FULL_PARSER_VERSION = ''netfilter-kernel-v2''"
definition TERMINAL_PARSER_VERSION :: string where "TERMINAL_PARSER_VERSION = ''netfilter-kernel-v3''"
definition MAX_REALTIME_US :: int where "MAX_REALTIME_US = 253402300799999999"
definition MAX_MONOTONIC_US :: int where "MAX_MONOTONIC_US = 9223372036854775807"

definition TCP_FLAGS :: "string list" where
  "TCP_FLAGS = [''FIN'', ''SYN'', ''RST'', ''PSH'', ''ACK'', ''URG'', ''ECE'', ''CWR'']"

definition CORE_FIELDS :: "string list" where
  "CORE_FIELDS = [''IN'', ''OUT'', ''SRC'', ''DST'', ''PROTO'', ''SPT'', ''DPT'', ''WINDOW'', ''RES'', ''URGP'']"

definition OPTIONAL_FIELDS :: "string list" where
  "OPTIONAL_FIELDS = [''MAC'', ''LEN'', ''TOS'', ''PREC'', ''TTL'', ''ID'', ''TC'', ''HOPLIMIT'', ''FLOWLBL'',
     ''SEQ'', ''ACK'', ''TYPE'', ''CODE'', ''MTU'', ''POINTER'', ''GATEWAY'', ''SPI'', ''UID'', ''GID'', ''MARK'', ''OPT'']"

definition COVERAGE :: "string list" where
  "COVERAGE = [''logging_rate_limited'', ''logging_limits_unknown'', ''journal_retention_unknown'',
     ''unverified_local_input'', ''incomplete_interfaces'', ''missing_transport_ports'',
     ''tcp_flags_unavailable'', ''truncated_transport_header'', ''fragmented_packet'',
     ''unsupported_protocol'', ''ipv6_extension_headers'', ''dynamic_terminal_filtering'']"

definition is_id :: "string \<Rightarrow> bool" where
  "is_id = class_match is_alnum (\<lambda>c. is_alnum c \<or> c \<in> set ''_.:-'') 127"

definition is_label :: "string \<Rightarrow> bool" where
  "is_label s = (case s of [] \<Rightarrow> False | c # r \<Rightarrow> c = CHR ''['' \<and> r \<noteq> [] \<and> last r = CHR '']'' \<and>
     class_match (\<lambda>c. is_upper c \<or> is_digit c) (\<lambda>c. is_upper c \<or> is_digit c \<or> c \<in> set '' _:-'') 59 (butlast r))"

definition is_native_label :: "string \<Rightarrow> bool" where
  "is_native_label s = (s \<noteq> [] \<and> last s = CHR '':'' \<and>
     class_match (\<lambda>c. is_lower c \<or> is_upper c) (\<lambda>c. is_alnum c \<or> c \<in> set ''_.-'') 58 (butlast s))"

definition is_any_label :: "string \<Rightarrow> bool" where
  "is_any_label s = (is_label s \<or> is_native_label s)"

definition is_interface :: "string \<Rightarrow> bool" where
  "is_interface s = (s \<noteq> [] \<and> length s \<le> 15 \<and> list_all (\<lambda>c. is_alnum c \<or> c \<in> set ''_.:@-'') s)"

definition is_protocol :: "string \<Rightarrow> bool" where
  "is_protocol s = (s \<noteq> [] \<and> length s \<le> 16 \<and> list_all (\<lambda>c. is_alnum c \<or> c \<in> set ''_-'') s)"

definition is_printable :: "char \<Rightarrow> bool" where
  "is_printable c = (let n = of_char c :: nat in 32 \<le> n \<and> n \<le> 126)"

definition ascii_text :: "int \<Rightarrow> string \<Rightarrow> bool" where
  "ascii_text maximum s = (s \<noteq> [] \<and> int (length s) \<le> maximum \<and> list_all is_printable s)"

definition tuple_strings :: "nat \<Rightarrow> (string \<Rightarrow> bool) \<Rightarrow> string list \<Rightarrow> bool" where
  "tuple_strings maximum pattern xs = (length xs \<le> maximum \<and> list_all pattern xs \<and> distinct xs)"

text \<open>\<open>json.dumps\<close> with \<open>ensure_ascii=True\<close>: a character outside printable ASCII is escaped.\<close>

definition ascii_escape :: "char \<Rightarrow> string" where
  "ascii_escape c = (let n = of_char c :: nat in
     if n \<le> 126 then [c] else [CHR 0x5C, CHR ''u'', CHR ''0'', CHR ''0'', hex_char (n div 16), hex_char (n mod 16)])"

lemma ascii_code [code]:
  "is_printable c = (CHR 0x20 \<le> c \<and> c \<le> CHR 0x7E)"
  "ascii_escape c = (if c \<le> CHR 0x7E then [c]
     else [CHR 0x5C, CHR ''u'', CHR ''0'', CHR ''0'', hex_char (of_char c div 16), hex_char (of_char c mod 16)])"
  by (simp_all add: is_printable_def ascii_escape_def Let_def less_eq_char_def)

definition digest_of :: "py \<Rightarrow> json \<Rightarrow> string" where
  "digest_of P v = hexdigest P (concat (map ascii_escape (canonical_json v)))"

section \<open>Source profiles\<close>

record profile =
  sp_source_id :: string
  sp_ruleset_sha256 :: string
  sp_log_labels :: "string list"
  sp_ip_families :: "nat list"
  sp_rejection_labels :: "string list"
  sp_local_input_labels :: "string list"
  sp_local_input_interfaces :: "string list"
  sp_logging_limit :: string
  sp_retention :: string
  sp_logging_limit_context :: string
  sp_retention_context :: string
  sp_schema_version :: nat
  sp_guard_version :: string
  sp_profile_valid_from_us :: "int option"
  sp_dynamic_terminal_sets :: "string list"

definition profile_conditions :: "profile \<Rightarrow> (bool \<times> string) list" where
  "profile_conditions p =
     (let strong = sp_guard_version p \<in> set STRONG_GUARDS in
     [(is_id (sp_source_id p), ''invalid_profile_source_id''),
      (hex_text 64 (sp_ruleset_sha256 p), ''invalid_ruleset_digest''),
      (sp_schema_version p = 1, ''unsupported_profile_version''),
      (sp_guard_version p \<in> set (LEGACY_GUARD # STRONG_GUARDS), ''unsupported_profile_guard''),
      (if sp_guard_version p = TERMINAL_GUARD then validate_terminal_set_ids (sp_dynamic_terminal_sets p)
       else sp_dynamic_terminal_sets p = [], ''invalid_dynamic_terminal_sets''),
      (if strong then (case sp_profile_valid_from_us p of Some t \<Rightarrow> 0 \<le> t \<and> t \<le> MAX_REALTIME_US | None \<Rightarrow> False)
       else sp_profile_valid_from_us p = None, ''invalid_profile_valid_from''),
      (tuple_strings 16 (if strong then is_any_label else is_label) (sp_log_labels p), ''invalid_profile_labels''),
      (tuple_strings 16 is_label (sp_rejection_labels p), ''invalid_profile_labels''),
      (tuple_strings 16 is_label (sp_local_input_labels p), ''invalid_profile_labels''),
      (sp_log_labels p \<noteq> [], ''invalid_profile_labels''),
      (set (sp_rejection_labels p) \<subseteq> set (sp_log_labels p) \<and> set (sp_local_input_labels p) \<subseteq> set (sp_log_labels p),
       ''unenrolled_profile_label''),
      (sp_ip_families p \<noteq> [] \<and> length (sp_ip_families p) \<le> 2 \<and> set (sp_ip_families p) \<subseteq> {4, 6} \<and> distinct (sp_ip_families p),
       ''invalid_profile_families''),
      (tuple_strings 32 is_interface (sp_local_input_interfaces p), ''invalid_profile_interfaces''),
      ((sp_local_input_labels p \<noteq> []) = (sp_local_input_interfaces p \<noteq> []), ''incomplete_local_input_profile''),
      (sp_logging_limit p \<in> set [''rate_limited'', ''unlimited'', ''unknown''], ''invalid_logging_limit''),
      (sp_retention p \<in> set [''bounded'', ''unknown''], ''invalid_retention''),
      (ascii_text 256 (sp_logging_limit_context p) \<and> ascii_text 256 (sp_retention_context p), ''invalid_profile_context'')])"

definition validate_profile :: "profile \<Rightarrow> unit result" where
  "validate_profile p = first_failure (profile_conditions p)"

definition jstrs :: "string list \<Rightarrow> json" where
  "jstrs xs = JList (map JStr xs)"

definition profile_payload :: "profile \<Rightarrow> row" where
  "profile_payload p =
     [(''source_id'', JStr (sp_source_id p)), (''ruleset_sha256'', JStr (sp_ruleset_sha256 p)),
      (''log_labels'', jstrs (sort (sp_log_labels p))),
      (''ip_families'', JList (map (JInt \<circ> int) (sort (sp_ip_families p)))),
      (''rejection_labels'', jstrs (sort (sp_rejection_labels p))),
      (''local_input_labels'', jstrs (sort (sp_local_input_labels p))),
      (''local_input_interfaces'', jstrs (sort (sp_local_input_interfaces p))),
      (''logging_limit'', JStr (sp_logging_limit p)), (''retention'', JStr (sp_retention p)),
      (''logging_limit_context'', JStr (sp_logging_limit_context p)), (''retention_context'', JStr (sp_retention_context p)),
      (''schema_version'', JInt (int (sp_schema_version p)))] @
     (if sp_guard_version p = LEGACY_GUARD then []
      else [(''guard_version'', JStr (sp_guard_version p)),
            (''profile_valid_from_us'', case sp_profile_valid_from_us p of None \<Rightarrow> JNull | Some t \<Rightarrow> JInt t)]) @
     (if sp_guard_version p \<noteq> TERMINAL_GUARD then []
      else [(''dynamic_terminal_sets'', jstrs (sort (sp_dynamic_terminal_sets p)))])"

definition revision :: "py \<Rightarrow> profile \<Rightarrow> string result" where
  "revision P p = and_then (validate_profile p) (\<lambda>_. Inr (digest_of P (JObj (profile_payload p))))"

definition profile_parser_version :: "profile \<Rightarrow> string result" where
  "profile_parser_version p = (case map_of [(LEGACY_GUARD, PARSER_VERSION), (FULL_GUARD, FULL_PARSER_VERSION),
       (TERMINAL_GUARD, TERMINAL_PARSER_VERSION)] (sp_guard_version p) of
     None \<Rightarrow> Inl (KeyError (sp_guard_version p)) | Some v \<Rightarrow> Inr v)"

section \<open>Events\<close>

record network_event =
  ne_source_id :: string
  ne_schema_version :: nat
  ne_parser_version :: string
  ne_boot_id :: string
  ne_journal_cursor :: string
  ne_event_id :: string
  ne_content_hash :: string
  ne_journal_realtime_us :: int
  ne_journal_monotonic_us :: int
  ne_transport :: string
  ne_ip_family :: nat
  ne_src_ip :: string
  ne_dst_ip :: string
  ne_protocol :: string
  ne_observed_protocol :: string
  ne_src_port :: "nat option"
  ne_dst_port :: "nat option"
  ne_tcp_flags :: "string list option"
  ne_ingress_interface :: "string option"
  ne_egress_interface :: "string option"
  ne_direction :: string
  ne_observation_point :: string
  ne_log_label :: string
  ne_final_outcome :: string
  ne_source_profile_revision :: string
  ne_coverage :: "string list"
  ne_rejection_related :: bool

text \<open>\<open>tcp_flags\<close> is a frozen set: the list is its elements, and only sorted or as a set is it looked at.\<close>

definition event_key :: "network_event \<Rightarrow> string \<times> string" where
  "event_key e = (ne_source_id e, ne_event_id e)"

definition identity_of :: "py \<Rightarrow> string \<Rightarrow> string \<Rightarrow> string \<Rightarrow> string" where
  "identity_of P source boot cursor = digest_of P (JObj
     [(''source_id'', JStr source), (''boot_id'', JStr boot), (''journal_cursor'', JStr cursor)])"

definition opt_json :: "('a \<Rightarrow> json) \<Rightarrow> 'a option \<Rightarrow> json" where
  "opt_json f v = (case v of None \<Rightarrow> JNull | Some x \<Rightarrow> f x)"

definition content_of :: "network_event \<Rightarrow> row" where
  "content_of e =
     [(''source_id'', JStr (ne_source_id e)), (''schema_version'', JInt (int (ne_schema_version e))),
      (''parser_version'', JStr (ne_parser_version e)), (''boot_id'', JStr (ne_boot_id e)),
      (''journal_cursor'', JStr (ne_journal_cursor e)),
      (''journal_realtime_us'', JInt (ne_journal_realtime_us e)), (''journal_monotonic_us'', JInt (ne_journal_monotonic_us e)),
      (''transport'', JStr (ne_transport e)), (''ip_family'', JInt (int (ne_ip_family e))),
      (''src_ip'', JStr (ne_src_ip e)), (''dst_ip'', JStr (ne_dst_ip e)),
      (''protocol'', JStr (ne_protocol e)), (''observed_protocol'', JStr (ne_observed_protocol e)),
      (''src_port'', opt_json (JInt \<circ> int) (ne_src_port e)), (''dst_port'', opt_json (JInt \<circ> int) (ne_dst_port e)),
      (''tcp_flags'', opt_json (\<lambda>flags. jstrs (sorted_set flags)) (ne_tcp_flags e)),
      (''ingress_interface'', opt_json JStr (ne_ingress_interface e)), (''egress_interface'', opt_json JStr (ne_egress_interface e)),
      (''direction'', JStr (ne_direction e)), (''observation_point'', JStr (ne_observation_point e)),
      (''log_label'', JStr (ne_log_label e)), (''final_outcome'', JStr (ne_final_outcome e)),
      (''source_profile_revision'', JStr (ne_source_profile_revision e)), (''coverage'', jstrs (ne_coverage e)),
      (''rejection_related'', JBool (ne_rejection_related e))]"

definition address_of :: "ip_reader \<Rightarrow> string \<Rightarrow> address result" where
  "address_of ip value =
     (if length value > 45 \<or> CHR ''%'' \<in> set value then Inl (ValueError ''invalid_ip_address'')
      else case ip value of
        None \<Rightarrow> Inl (ValueError ''invalid_ip_address'')
      | Some a \<Rightarrow> if ip_version a = 6 \<and> ip_mapped a then Inl (ValueError ''unsupported_mapped_address'') else Inr a)"

definition in_bounds :: "int \<Rightarrow> int \<Rightarrow> bool" where
  "in_bounds maximum t = (0 \<le> t \<and> t \<le> maximum)"

definition protocol_class :: "string \<Rightarrow> string" where
  "protocol_class observed = (if observed \<in> set [''TCP'', ''UDP''] then observed else ''OTHER'')"

definition event_conditions_head :: "network_event \<Rightarrow> (bool \<times> string) list" where
  "event_conditions_head e =
     [(is_id (ne_source_id e), ''invalid_event_source_id''),
      (ne_schema_version e = 1 \<and> ne_parser_version e \<in> set [PARSER_VERSION, FULL_PARSER_VERSION, TERMINAL_PARSER_VERSION],
       ''unsupported_event_version''),
      (hex_text 32 (ne_boot_id e), ''invalid_boot_id''),
      (ascii_text 2048 (ne_journal_cursor e), ''invalid_journal_cursor''),
      (in_bounds MAX_REALTIME_US (ne_journal_realtime_us e), ''invalid_journal_timestamp''),
      (in_bounds MAX_MONOTONIC_US (ne_journal_monotonic_us e), ''invalid_journal_timestamp''),
      (ne_transport e = ''kernel'', ''untrusted_transport'')]"

definition event_conditions :: "py \<Rightarrow> network_event \<Rightarrow> address \<Rightarrow> address \<Rightarrow> (bool \<times> string) list" where
  "event_conditions P e src dst =
     [(ip_version src = ip_version dst \<and> ip_version src = ne_ip_family e \<and> ip_text src = ne_src_ip e \<and> ip_text dst = ne_dst_ip e,
       ''invalid_event_ip_family''),
      (is_protocol (ne_observed_protocol e), ''invalid_protocol''),
      (ne_protocol e = protocol_class (ne_observed_protocol e), ''invalid_protocol''),
      (case ne_src_port e of None \<Rightarrow> True | Some p \<Rightarrow> int p \<le> 65535, ''invalid_transport_number''),
      (case ne_dst_port e of None \<Rightarrow> True | Some p \<Rightarrow> int p \<le> 65535, ''invalid_transport_number''),
      (case ne_tcp_flags e of None \<Rightarrow> True | Some flags \<Rightarrow> set flags \<subseteq> set TCP_FLAGS \<and> ne_protocol e = ''TCP'', ''invalid_tcp_flags''),
      (case ne_ingress_interface e of None \<Rightarrow> True | Some i \<Rightarrow> is_interface i, ''invalid_interface''),
      (case ne_egress_interface e of None \<Rightarrow> True | Some i \<Rightarrow> is_interface i, ''invalid_interface''),
      (ne_direction e \<in> set [''unknown'', ''local_input''] \<and> ne_observation_point e = ne_direction e, ''invalid_observation_point''),
      (ne_direction e = ''local_input'' \<longrightarrow> ne_ingress_interface e \<noteq> None \<and> ne_egress_interface e = None, ''invalid_local_input_shape''),
      ((if ne_parser_version e \<noteq> PARSER_VERSION then is_any_label else is_label) (ne_log_label e), ''invalid_log_label''),
      (is_native_label (ne_log_label e) \<longrightarrow> ne_direction e = ''unknown'' \<and> \<not> ne_rejection_related e, ''invalid_native_observation''),
      (ne_final_outcome e = ''unknown'', ''invalid_outcome''),
      (length (ne_coverage e) \<le> length COVERAGE \<and> set (ne_coverage e) \<subseteq> set COVERAGE \<and> ne_coverage e = sorted_set (ne_coverage e),
       ''invalid_event_coverage''),
      ((ne_parser_version e = TERMINAL_PARSER_VERSION) = (''dynamic_terminal_filtering'' \<in> set (ne_coverage e)),
       ''inconsistent_event_coverage''),
      ((ne_direction e = ''unknown'') = (''unverified_local_input'' \<in> set (ne_coverage e)), ''inconsistent_event_coverage''),
      (ne_protocol e = ''TCP'' \<longrightarrow> (ne_tcp_flags e = None) = (''tcp_flags_unavailable'' \<in> set (ne_coverage e)),
       ''inconsistent_event_coverage''),
      (list_all (hex_text 64) [ne_event_id e, ne_content_hash e, ne_source_profile_revision e], ''invalid_event_digest''),
      (ne_event_id e = identity_of P (ne_source_id e) (ne_boot_id e) (ne_journal_cursor e), ''event_identity_mismatch''),
      (ne_content_hash e = digest_of P (JObj (content_of e)), ''event_content_mismatch'')]"

definition validate_event :: "py \<Rightarrow> ip_reader \<Rightarrow> network_event \<Rightarrow> unit result" where
  "validate_event P ip e =
     and_then (first_failure (event_conditions_head e)) (\<lambda>_.
     and_then (address_of ip (ne_src_ip e)) (\<lambda>src.
     and_then (address_of ip (ne_dst_ip e)) (\<lambda>dst.
       first_failure (event_conditions P e src dst))))"

section \<open>Reading a journal record\<close>

definition failure :: "string \<Rightarrow> 'a result" where
  "failure code = Inl (ValueError code)"

definition timestamp_of :: "int \<Rightarrow> json \<Rightarrow> int result" where
  "timestamp_of maximum value =
     (let bounded = (\<lambda>t. if in_bounds maximum t then Inr t else failure ''invalid_journal_timestamp'') in
      case value of
        JInt t \<Rightarrow> bounded t
      | JStr s \<Rightarrow> if s \<noteq> [] \<and> length s \<le> 19 \<and> list_all is_digit s then bounded (int (digits_val s))
          else failure ''invalid_journal_timestamp''
      | _ \<Rightarrow> failure ''invalid_journal_timestamp'')"

definition port_of :: "string option \<Rightarrow> nat option result" where
  "port_of value = (case value of
     None \<Rightarrow> Inr None
   | Some s \<Rightarrow> if s \<noteq> [] \<and> length s \<le> 5 \<and> list_all is_digit s \<and> int (digits_val s) \<le> 65535
       then Inr (Some (digits_val s)) else failure ''invalid_transport_number'')"

definition interface_of :: "string option \<Rightarrow> string option result" where
  "interface_of value = (case value of
     None \<Rightarrow> Inr None
   | Some s \<Rightarrow> if s = [] then Inr None else if is_interface s then Inr (Some s) else failure ''invalid_interface'')"

definition required_fields :: "string list" where
  "required_fields = [''_TRANSPORT'', ''_BOOT_ID'', ''__CURSOR'', ''__REALTIME_TIMESTAMP'', ''__MONOTONIC_TIMESTAMP'', ''MESSAGE'']"

record journal_entry =
  je_boot :: string
  je_cursor :: string
  je_realtime :: int
  je_monotonic :: int
  je_message :: string

definition journal_fields :: "row \<Rightarrow> journal_entry result" where
  "journal_fields r =
     (if length r > 128 then failure ''invalid_journal_record''
      else if \<not> list_all (has_key r) required_fields then failure ''missing_journal_metadata''
      else if map_of r ''_TRANSPORT'' \<noteq> Some (JStr ''kernel'') then failure ''untrusted_transport''
      else case map_of r ''_BOOT_ID'' of
        Some (JStr boot) \<Rightarrow>
          if \<not> hex_text 32 boot then failure ''invalid_boot_id''
          else (case map_of r ''__CURSOR'' of
            Some (JStr cursor) \<Rightarrow>
              if \<not> ascii_text 2048 cursor then failure ''invalid_journal_cursor''
              else and_then (timestamp_of MAX_REALTIME_US (the (map_of r ''__REALTIME_TIMESTAMP''))) (\<lambda>realtime.
                and_then (timestamp_of MAX_MONOTONIC_US (the (map_of r ''__MONOTONIC_TIMESTAMP''))) (\<lambda>monotonic.
                (case map_of r ''MESSAGE'' of
                   Some (JStr message) \<Rightarrow>
                     if \<not> ascii_text 8192 message then failure ''invalid_message''
                     else Inr \<lparr>je_boot = boot, je_cursor = cursor, je_realtime = realtime, je_monotonic = monotonic,
                       je_message = strip message\<rparr>
                 | _ \<Rightarrow> failure ''invalid_message'')))
          | _ \<Rightarrow> failure ''invalid_journal_cursor'')
      | _ \<Rightarrow> failure ''invalid_boot_id'')"

text \<open>
  \<open>re.sub(r"\bINCOMPLETE \[[0-9]{1,10} bytes\]", "INCOMPLETE", body)\<close>; the flag says whether the character before
  is a word character, and the text left is shorter at each step, so its length is fuel enough.
\<close>

definition match_incomplete :: "string \<Rightarrow> string option" where
  "match_incomplete s = do {
     s \<leftarrow> literal ''INCOMPLETE ['' s;
     (ds, s) \<leftarrow> run1 is_digit s;
     if length ds \<le> 10 then literal '' bytes]'' s else None }"

fun sub_incomplete :: "nat \<Rightarrow> bool \<Rightarrow> string \<Rightarrow> string" where
  "sub_incomplete 0 after_word s = s"
| "sub_incomplete (Suc n) after_word s = (case s of [] \<Rightarrow> [] | c # r \<Rightarrow>
     (case (if after_word then None else match_incomplete s) of
        Some rest \<Rightarrow> ''INCOMPLETE'' @ sub_incomplete n False rest
      | None \<Rightarrow> c # sub_incomplete n (is_word c) r))"

definition message_tokens :: "profile \<Rightarrow> string \<Rightarrow> (string \<times> string list) result" where
  "message_tokens p message = (case find (\<lambda>label. startswith message (label @ '' '')) (sp_log_labels p) of
     None \<Rightarrow> failure ''unenrolled_log_label''
   | Some label \<Rightarrow>
       (let body = strip (drop (length label) message);
            tokens = words (sub_incomplete (length body) False body)
        in if tokens = [] \<or> length tokens > 256 then failure ''invalid_message_tokens'' else Inr (label, tokens)))"

record token_state =
  ts_values :: "(string \<times> string) list"
  ts_positions :: "(string \<times> nat) list"
  ts_flags :: "string list"
  ts_flag_positions :: "nat list"
  ts_seen :: "(string \<times> nat) list"
  ts_truncated :: bool
  ts_fragmented :: bool
  ts_extension :: bool

definition no_tokens :: token_state where
  "no_tokens = \<lparr>ts_values = [], ts_positions = [], ts_flags = [], ts_flag_positions = [], ts_seen = [],
     ts_truncated = False, ts_fragmented = False, ts_extension = False\<rparr>"

definition fragment_token :: "string \<Rightarrow> bool" where
  "fragment_token s = (case literal ''FRAG:'' s of None \<Rightarrow> False
     | Some r \<Rightarrow> r \<noteq> [] \<and> list_all (\<lambda>c. is_digit c \<or> c \<in> set ''abcdefABCDEFx'') r)"

definition field_token :: "nat \<Rightarrow> string \<Rightarrow> token_state \<Rightarrow> token_state result" where
  "field_token index token st =
     (let k = takeWhile (\<lambda>c. c \<noteq> CHR ''='') token;
          value = tl (dropWhile (\<lambda>c. c \<noteq> CHR ''='') token);
          n = Suc (case map_of (ts_seen st) k of None \<Rightarrow> 0 | Some n \<Rightarrow> n);
          st1 = st\<lparr>ts_seen := dict_set k n (ts_seen st)\<rparr>;
          st2 = (if k \<in> set CORE_FIELDS
            then st1\<lparr>ts_values := dict_set k value (ts_values st1), ts_positions := dict_set k index (ts_positions st1)\<rparr> else st1)
      in if k \<notin> set (CORE_FIELDS @ OPTIONAL_FIELDS) then failure ''unsupported_message_field''
         else if n > (if k = ''LEN'' then 2 else 1) then failure ''duplicate_message_field''
         else Inr (if k = ''OPT'' then st2\<lparr>ts_extension := True\<rparr> else st2))"

definition token_step :: "nat \<Rightarrow> string \<Rightarrow> token_state \<Rightarrow> token_state result" where
  "token_step index token st =
     (if CHR ''='' \<in> set token then field_token index token st
      else if token \<in> set TCP_FLAGS then
        (if token \<in> set (ts_flags st) then failure ''duplicate_tcp_flag''
         else Inr (st\<lparr>ts_flags := ts_flags st @ [token], ts_flag_positions := ts_flag_positions st @ [index]\<rparr>))
      else if token \<in> set [''DF'', ''MF''] then Inr (if token = ''MF'' then st\<lparr>ts_fragmented := True\<rparr> else st)
      else if fragment_token token then Inr (st\<lparr>ts_fragmented := True, ts_extension := True\<rparr>)
      else if token = ''INCOMPLETE'' then Inr (st\<lparr>ts_truncated := True\<rparr>)
      else if token = ''OPT'' \<or> startswith token ''('' then failure ''unsupported_ip_options''
      else failure ''unsupported_message_token'')"

fun read_tokens :: "nat \<Rightarrow> string list \<Rightarrow> token_state \<Rightarrow> token_state result" where
  "read_tokens index [] st = Inr st"
| "read_tokens index (token # tokens) st = and_then (token_step index token st) (read_tokens (Suc index) tokens)"

section \<open>Building the event\<close>

record packet =
  pk_src :: address
  pk_dst :: address
  pk_observed :: string
  pk_src_port :: "nat option"
  pk_dst_port :: "nat option"
  pk_ingress :: "string option"
  pk_egress :: "string option"

definition packet_of :: "ip_reader \<Rightarrow> profile \<Rightarrow> (string \<times> string) list \<Rightarrow> packet result" where
  "packet_of ip p vs = (case (map_of vs ''SRC'', map_of vs ''DST'', map_of vs ''PROTO'') of
     (Some source, Some target, Some observed) \<Rightarrow>
       and_then (address_of ip source) (\<lambda>src.
       and_then (address_of ip target) (\<lambda>dst.
         if ip_version src \<noteq> ip_version dst then failure ''mixed_ip_families''
         else if ip_version src \<notin> set (sp_ip_families p) then failure ''unenrolled_ip_family''
         else if \<not> is_protocol observed then failure ''invalid_protocol''
         else and_then (port_of (map_of vs ''SPT'')) (\<lambda>src_port.
           and_then (port_of (map_of vs ''DPT'')) (\<lambda>dst_port.
           and_then (interface_of (map_of vs ''IN'')) (\<lambda>ingress.
           and_then (interface_of (map_of vs ''OUT'')) (\<lambda>egress.
             Inr \<lparr>pk_src = src, pk_dst = dst, pk_observed = observed, pk_src_port = src_port, pk_dst_port = dst_port,
               pk_ingress = ingress, pk_egress = egress\<rparr>))))))
   | _ \<Rightarrow> failure ''missing_packet_identity'')"

definition direction_of :: "profile \<Rightarrow> string \<Rightarrow> (string \<times> string) list \<Rightarrow> packet \<Rightarrow> string" where
  "direction_of p label vs pk =
     (if label \<in> set (sp_local_input_labels p) \<and> (case pk_ingress pk of None \<Rightarrow> False | Some i \<Rightarrow> i \<in> set (sp_local_input_interfaces p)) \<and>
         map_of vs ''OUT'' \<noteq> None \<and> pk_egress pk = None
      then ''local_input'' else ''unknown'')"

definition coverage_of :: "profile \<Rightarrow> string \<Rightarrow> token_state \<Rightarrow> packet \<Rightarrow> string list" where
  "coverage_of p direction st pk =
     (let protocol = protocol_class (pk_observed pk); only = (\<lambda>b code. if b then [code] else []) in
      only (sp_guard_version p = TERMINAL_GUARD) ''dynamic_terminal_filtering'' @
      only (sp_logging_limit p = ''rate_limited'') ''logging_rate_limited'' @
      only (sp_logging_limit p = ''unknown'') ''logging_limits_unknown'' @
      only (sp_retention p = ''unknown'') ''journal_retention_unknown'' @
      only (map_of (ts_values st) ''IN'' = None \<or> map_of (ts_values st) ''OUT'' = None) ''incomplete_interfaces'' @
      only (direction = ''unknown'') ''unverified_local_input'' @
      only (protocol \<in> set [''TCP'', ''UDP''] \<and> (pk_src_port pk = None \<or> pk_dst_port pk = None)) ''missing_transport_ports'' @
      only (ts_truncated st) ''truncated_transport_header'' @
      only (ts_fragmented st) ''fragmented_packet'' @
      only (ts_extension st \<and> ip_version (pk_src pk) = 6) ''ipv6_extension_headers'' @
      only (protocol = ''OTHER'') ''unsupported_protocol'')"

definition reserved_bits :: "string \<Rightarrow> bool" where
  "reserved_bits s = (case literal ''0x'' s of None \<Rightarrow> False
     | Some r \<Rightarrow> length r = 2 \<and> list_all (\<lambda>c. is_digit c \<or> c \<in> set ''abcdefABCDEF'') r)"

text \<open>The TCP flags, \<open>None\<close> when the header is not complete; and whether that has to be reported.\<close>

definition tcp_view :: "string \<Rightarrow> token_state \<Rightarrow> (string list option \<times> bool) result" where
  "tcp_view protocol st =
     (let vs = ts_values st; position = (\<lambda>k. map_of (ts_positions st) k) in
      if protocol = ''TCP'' then
        and_then (port_of (map_of vs ''WINDOW'')) (\<lambda>_.
        and_then (port_of (map_of vs ''URGP'')) (\<lambda>_.
          if (case map_of vs ''RES'' of None \<Rightarrow> False | Some r \<Rightarrow> \<not> reserved_bits r) then failure ''invalid_tcp_reserved_bits''
          else (case (position ''WINDOW'', position ''RES'', position ''URGP'') of
            (Some w, Some r, Some u) \<Rightarrow>
              if \<not> (w < r \<and> r < u) \<or> \<not> list_all (\<lambda>i. r < i \<and> i < u) (ts_flag_positions st) then failure ''invalid_tcp_layout''
              else if \<not> ts_truncated st \<and> \<not> ts_fragmented st then Inr (Some (ts_flags st), False)
              else Inr (None, True)
          | _ \<Rightarrow> Inr (None, True))))
      else if ts_flags st \<noteq> [] \<or> list_ex (\<lambda>k. map_of vs k \<noteq> None) [''WINDOW'', ''RES'', ''URGP'']
        then failure ''inconsistent_transport_fields''
      else Inr (None, False))"

definition seal :: "py \<Rightarrow> network_event \<Rightarrow> network_event" where
  "seal P e = e\<lparr>ne_content_hash := digest_of P (JObj (content_of e))\<rparr>"

definition event_of :: "py \<Rightarrow> profile \<Rightarrow> journal_entry \<Rightarrow> string \<Rightarrow> token_state \<Rightarrow> packet \<Rightarrow> string list option \<times> bool \<Rightarrow> string \<Rightarrow> string
    \<Rightarrow> network_event" where
  "event_of P p je label st pk tcp parser_version profile_revision =
     (let direction = direction_of p label (ts_values st) pk in
      \<lparr>ne_source_id = sp_source_id p, ne_schema_version = 1, ne_parser_version = parser_version,
       ne_boot_id = je_boot je, ne_journal_cursor = je_cursor je,
       ne_event_id = identity_of P (sp_source_id p) (je_boot je) (je_cursor je), ne_content_hash = [],
       ne_journal_realtime_us = je_realtime je, ne_journal_monotonic_us = je_monotonic je, ne_transport = ''kernel'',
       ne_ip_family = ip_version (pk_src pk), ne_src_ip = ip_text (pk_src pk), ne_dst_ip = ip_text (pk_dst pk),
       ne_protocol = protocol_class (pk_observed pk), ne_observed_protocol = pk_observed pk,
       ne_src_port = pk_src_port pk, ne_dst_port = pk_dst_port pk, ne_tcp_flags = fst tcp,
       ne_ingress_interface = pk_ingress pk, ne_egress_interface = pk_egress pk,
       ne_direction = direction, ne_observation_point = direction, ne_log_label = label, ne_final_outcome = ''unknown'',
       ne_source_profile_revision = profile_revision,
       ne_coverage = sorted_set (coverage_of p direction st pk @ (if snd tcp then [''tcp_flags_unavailable''] else [])),
       ne_rejection_related = (label \<in> set (sp_rejection_labels p))\<rparr>)"

definition build_event :: "py \<Rightarrow> ip_reader \<Rightarrow> profile \<Rightarrow> row \<Rightarrow> network_event result" where
  "build_event P ip p r =
     and_then (validate_profile p) (\<lambda>_.
     and_then (journal_fields r) (\<lambda>je.
     and_then (message_tokens p (je_message je)) (\<lambda>(label, tokens).
     and_then (read_tokens 0 tokens no_tokens) (\<lambda>st.
     and_then (packet_of ip p (ts_values st)) (\<lambda>pk.
     and_then (tcp_view (protocol_class (pk_observed pk)) st) (\<lambda>tcp.
     and_then (profile_parser_version p) (\<lambda>parser_version.
     and_then (revision P p) (\<lambda>profile_revision.
       Inr (seal P (event_of P p je label st pk tcp parser_version profile_revision))))))))))"

definition parse_ufw :: "py \<Rightarrow> ip_reader \<Rightarrow> profile \<Rightarrow> row \<Rightarrow> network_event result" where
  "parse_ufw P ip p r = and_then (build_event P ip p r) (\<lambda>e. and_then (validate_event P ip e) (\<lambda>_. Inr e))"

section \<open>What each stage establishes\<close>

lemma address_of_ok:
  assumes "address_of ip s = Inr a"
  shows "ip s = Some a" and "CHR ''%'' \<notin> set s" and "\<not> (ip_version a = 6 \<and> ip_mapped a)"
  using assms by (auto simp: address_of_def split: if_splits option.splits)

text \<open>
  What is used of \<open>ipaddress\<close>, for texts without a zone only: the canonical text of the address read from
  one is read back as that address, has no zone and at most 45 characters. Nothing is asked of texts with
  a zone, which the library accepts at any length and \<open>address_of\<close> refuses.
\<close>

definition ip_canonical :: "ip_reader \<Rightarrow> bool" where
  "ip_canonical ip \<longleftrightarrow> (\<forall>s a. ip s = Some a \<and> CHR ''%'' \<notin> set s \<longrightarrow>
     ip (ip_text a) = Some a \<and> CHR ''%'' \<notin> set (ip_text a) \<and> length (ip_text a) \<le> 45)"

definition hex_digests :: "py \<Rightarrow> bool" where
  "hex_digests P \<longleftrightarrow> (\<forall>s. hex_text 64 (hexdigest P s))"

lemma address_of_text: "ip_canonical ip \<Longrightarrow> address_of ip s = Inr a \<Longrightarrow> address_of ip (ip_text a) = Inr a"
proof -
  assume c: "ip_canonical ip" and a: "address_of ip s = Inr a"
  note facts = address_of_ok [OF a]
  then have "ip (ip_text a) = Some a" "length (ip_text a) \<le> 45" "CHR ''%'' \<notin> set (ip_text a)"
    using c by (auto simp: ip_canonical_def)
  with facts(3) show ?thesis by (auto simp: address_of_def)
qed

lemma timestamp_of_bounds: "timestamp_of m v = Inr t \<Longrightarrow> in_bounds m t"
  by (cases v) (simp_all add: timestamp_of_def failure_def Let_def split: if_splits)

lemma journal_fields_ok:
  assumes "journal_fields r = Inr je"
  shows "hex_text 32 (je_boot je)" and "ascii_text 2048 (je_cursor je)" and
    "in_bounds MAX_REALTIME_US (je_realtime je)" and "in_bounds MAX_MONOTONIC_US (je_monotonic je)"
proof -
  obtain boot cursor realtime monotonic message where
    "hex_text 32 boot" "ascii_text 2048 cursor"
    "timestamp_of MAX_REALTIME_US (the (map_of r ''__REALTIME_TIMESTAMP'')) = Inr realtime"
    "timestamp_of MAX_MONOTONIC_US (the (map_of r ''__MONOTONIC_TIMESTAMP'')) = Inr monotonic"
    and je: "je = \<lparr>je_boot = boot, je_cursor = cursor, je_realtime = realtime, je_monotonic = monotonic, je_message = message\<rparr>"
    using assms
    by (auto simp: journal_fields_def failure_def split: if_splits option.splits json.splits elim!: and_then_InrE)
  then show "hex_text 32 (je_boot je)" "ascii_text 2048 (je_cursor je)"
    "in_bounds MAX_REALTIME_US (je_realtime je)" "in_bounds MAX_MONOTONIC_US (je_monotonic je)"
    using timestamp_of_bounds by (simp_all add: je)
qed

lemma message_tokens_label: "message_tokens p m = Inr (label, tokens) \<Longrightarrow> label \<in> set (sp_log_labels p)"
  by (auto simp: message_tokens_def failure_def Let_def find_Some_iff split: option.splits if_splits)

lemma token_step_flags:
  "token_step i token st = Inr st' \<Longrightarrow> set (ts_flags st) \<subseteq> set TCP_FLAGS \<Longrightarrow> set (ts_flags st') \<subseteq> set TCP_FLAGS"
  by (auto simp: token_step_def field_token_def failure_def Let_def split: if_splits)

lemma read_tokens_flags:
  "read_tokens i tokens st = Inr st' \<Longrightarrow> set (ts_flags st) \<subseteq> set TCP_FLAGS \<Longrightarrow> set (ts_flags st') \<subseteq> set TCP_FLAGS"
proof (induction tokens arbitrary: i st)
  case (Cons token tokens)
  then obtain st1 where "token_step i token st = Inr st1" "read_tokens (Suc i) tokens st1 = Inr st'"
    by (auto elim: and_then_InrE)
  with Cons.IH Cons.prems(2) token_step_flags show ?case by blast
qed simp

lemma port_of_ok: "port_of v = Inr n \<Longrightarrow> case n of None \<Rightarrow> True | Some p \<Rightarrow> int p \<le> 65535"
  by (auto simp: port_of_def failure_def split: option.splits if_splits)

lemma interface_of_ok: "interface_of v = Inr n \<Longrightarrow> case n of None \<Rightarrow> True | Some i \<Rightarrow> is_interface i"
  by (auto simp: interface_of_def failure_def split: option.splits if_splits)

lemma packet_of_ok:
  assumes "packet_of ip p vs = Inr pk"
  shows "\<exists>s. address_of ip s = Inr (pk_src pk)" and "\<exists>s. address_of ip s = Inr (pk_dst pk)"
    and "ip_version (pk_src pk) = ip_version (pk_dst pk)" and "is_protocol (pk_observed pk)"
    and "case pk_src_port pk of None \<Rightarrow> True | Some n \<Rightarrow> int n \<le> 65535"
    and "case pk_dst_port pk of None \<Rightarrow> True | Some n \<Rightarrow> int n \<le> 65535"
    and "case pk_ingress pk of None \<Rightarrow> True | Some i \<Rightarrow> is_interface i"
    and "case pk_egress pk of None \<Rightarrow> True | Some i \<Rightarrow> is_interface i"
proof -
  obtain source target observed src dst src_port dst_port ingress egress where
    "address_of ip source = Inr src" "address_of ip target = Inr dst" "ip_version src = ip_version dst" "is_protocol observed"
    "port_of (map_of vs ''SPT'') = Inr src_port" "port_of (map_of vs ''DPT'') = Inr dst_port"
    "interface_of (map_of vs ''IN'') = Inr ingress" "interface_of (map_of vs ''OUT'') = Inr egress"
    and pk: "pk = \<lparr>pk_src = src, pk_dst = dst, pk_observed = observed, pk_src_port = src_port, pk_dst_port = dst_port,
      pk_ingress = ingress, pk_egress = egress\<rparr>"
    using assms by (auto simp: packet_of_def failure_def split: option.splits if_splits elim!: and_then_InrE)
  note facts = this
  show "\<exists>s. address_of ip s = Inr (pk_src pk)" "\<exists>s. address_of ip s = Inr (pk_dst pk)"
    "ip_version (pk_src pk) = ip_version (pk_dst pk)" "is_protocol (pk_observed pk)"
    using facts(1-4) unfolding pk by auto
  show "case pk_src_port pk of None \<Rightarrow> True | Some n \<Rightarrow> int n \<le> 65535"
    "case pk_dst_port pk of None \<Rightarrow> True | Some n \<Rightarrow> int n \<le> 65535"
    using port_of_ok [OF facts(5)] port_of_ok [OF facts(6)] unfolding pk by simp_all
  show "case pk_ingress pk of None \<Rightarrow> True | Some i \<Rightarrow> is_interface i"
    "case pk_egress pk of None \<Rightarrow> True | Some i \<Rightarrow> is_interface i"
    using interface_of_ok [OF facts(7)] interface_of_ok [OF facts(8)] unfolding pk by simp_all
qed

lemma tcp_view_ok:
  assumes "tcp_view protocol st = Inr (flags, unavailable)"
  shows "protocol = ''TCP'' \<Longrightarrow> (flags = None) = unavailable"
    and "protocol \<noteq> ''TCP'' \<Longrightarrow> flags = None \<and> \<not> unavailable"
    and "flags = Some fs \<Longrightarrow> fs = ts_flags st \<and> protocol = ''TCP''"
  using assms
  by (auto simp: tcp_view_def failure_def Let_def split: if_splits option.splits elim!: and_then_InrE)

lemma labels_disjoint: "is_label s \<Longrightarrow> \<not> is_native_label s"
proof
  assume a: "is_label s" "is_native_label s"
  then obtain r where s: "s = CHR ''['' # r" "r \<noteq> []" by (auto simp: is_label_def split: list.splits)
  with a(2) have "is_lower (CHR ''['') \<or> is_upper (CHR ''['')"
    by (auto simp: is_native_label_def class_match_def split: list.splits if_splits)
  then show False by (simp add: is_lower_def is_upper_def)
qed

lemma direction_local:
  assumes "direction_of p label vs pk = ''local_input''"
  shows "label \<in> set (sp_local_input_labels p)" and "pk_ingress pk \<noteq> None" and "pk_egress pk = None"
  using assms by (auto simp: direction_of_def split: if_splits option.splits)

lemma direction_values: "direction_of p label vs pk \<in> set [''unknown'', ''local_input'']"
  by (simp add: direction_of_def)

lemma coverage_known: "set (coverage_of p d st pk) \<subseteq> set COVERAGE"
  by (auto simp: coverage_of_def COVERAGE_def Let_def split: if_splits)

lemma coverage_flags:
  "''dynamic_terminal_filtering'' \<in> set (coverage_of p d st pk) \<longleftrightarrow> sp_guard_version p = TERMINAL_GUARD"
  "''unverified_local_input'' \<in> set (coverage_of p d st pk) \<longleftrightarrow> d = ''unknown''"
  "''tcp_flags_unavailable'' \<notin> set (coverage_of p d st pk)"
  by (auto simp: coverage_of_def Let_def)

lemma sorted_set_idem [simp]: "sorted_set (sorted_set xs) = sorted_set xs"
  by (rule sorted_set_cong) simp

lemma sorted_set_length: "set xs \<subseteq> set ys \<Longrightarrow> length (sorted_set xs) \<le> length ys"
  by (metis List.finite_set card_mono distinct_card le_trans card_length set_sorted_set sorted_set_props(2))

lemmas guard_defs = TERMINAL_GUARD_def LEGACY_GUARD_def FULL_GUARD_def STRONG_GUARDS_def
  PARSER_VERSION_def FULL_PARSER_VERSION_def TERMINAL_PARSER_VERSION_def

lemma parser_version_ok:
  assumes "profile_parser_version p = Inr v"
  shows "v \<in> set [PARSER_VERSION, FULL_PARSER_VERSION, TERMINAL_PARSER_VERSION]"
    and "v = PARSER_VERSION \<longleftrightarrow> sp_guard_version p = LEGACY_GUARD"
    and "v = TERMINAL_PARSER_VERSION \<longleftrightarrow> sp_guard_version p = TERMINAL_GUARD"
    and "v \<noteq> PARSER_VERSION \<Longrightarrow> sp_guard_version p \<in> set STRONG_GUARDS"
  using assms by (auto simp: profile_parser_version_def guard_defs split: if_splits option.splits)

lemma profile_ok:
  assumes "validate_profile p = Inr u"
  shows "is_id (sp_source_id p)"
    and "label \<in> set (sp_log_labels p) \<Longrightarrow> (if sp_guard_version p \<in> set STRONG_GUARDS then is_any_label else is_label) label"
    and "label \<in> set (sp_rejection_labels p) \<Longrightarrow> is_label label"
    and "label \<in> set (sp_local_input_labels p) \<Longrightarrow> is_label label"
  using assms unfolding validate_profile_def first_failure_ok profile_conditions_def
  by (auto simp: tuple_strings_def list_all_iff Let_def)

lemma digest_hex: "hex_digests P \<Longrightarrow> hex_text 64 (digest_of P v)"
  by (simp add: hex_digests_def digest_of_def)

lemma content_of_seal [simp]: "content_of (seal P e) = content_of e"
  by (simp add: content_of_def seal_def)

section \<open>The parser agrees with the validator\<close>

lemma build_eventE:
  assumes "build_event P ip p r = Inr e"
  obtains je label tokens st pk flags unavailable version where
    "validate_profile p = Inr ()" and "journal_fields r = Inr je"
    and "message_tokens p (je_message je) = Inr (label, tokens)" and "read_tokens 0 tokens no_tokens = Inr st"
    and "packet_of ip p (ts_values st) = Inr pk"
    and "tcp_view (protocol_class (pk_observed pk)) st = Inr (flags, unavailable)"
    and "profile_parser_version p = Inr version"
    and "e = seal P (event_of P p je label st pk (flags, unavailable) version (digest_of P (JObj (profile_payload p))))"
  using assms unfolding build_event_def revision_def
  by (elim and_then_InrE) (auto elim!: and_then_InrE)

lemma legacy_not_strong: "LEGACY_GUARD \<notin> set STRONG_GUARDS"
  by (simp add: guard_defs)

lemmas built_defs = seal_def event_of_def Let_def

lemma build_event_valid:
  assumes hex: "hex_digests P" and ip: "ip_canonical ip" and built: "build_event P ip p r = Inr e"
  shows "validate_event P ip e = Inr ()"
proof -
  from built obtain je label tokens st pk flags unavailable version where
    p: "validate_profile p = Inr ()" and je: "journal_fields r = Inr je"
    and label: "message_tokens p (je_message je) = Inr (label, tokens)" and st: "read_tokens 0 tokens no_tokens = Inr st"
    and pk: "packet_of ip p (ts_values st) = Inr pk"
    and tcp: "tcp_view (protocol_class (pk_observed pk)) st = Inr (flags, unavailable)"
    and version: "profile_parser_version p = Inr version"
    and e: "e = seal P (event_of P p je label st pk (flags, unavailable) version (digest_of P (JObj (profile_payload p))))"
    by (rule build_eventE)
  let ?d = "direction_of p label (ts_values st) pk"
  let ?cov = "coverage_of p ?d st pk @ (if unavailable then [''tcp_flags_unavailable''] else [])"
  have head: "first_failure (event_conditions_head e) = Inr ()"
    unfolding first_failure_ok event_conditions_head_def e built_defs
    using profile_ok(1) [OF p] journal_fields_ok [OF je] parser_version_ok(1) [OF version] by simp
  have addr: "address_of ip (ne_src_ip e) = Inr (pk_src pk)" "address_of ip (ne_dst_ip e) = Inr (pk_dst pk)"
    using address_of_text [OF ip] packet_of_ok(1,2) [OF pk] by (auto simp: e built_defs)
  have known: "label \<in> set (sp_log_labels p)" using label by (rule message_tokens_label)
  have lab: "(if version \<noteq> PARSER_VERSION then is_any_label else is_label) label"
    using profile_ok(2) [OF p known] parser_version_ok(2,4) [OF version] legacy_not_strong
    by (auto simp: is_any_label_def split: if_splits)
  have native: "is_native_label label \<longrightarrow> ?d = ''unknown'' \<and> label \<notin> set (sp_rejection_labels p)"
    using labels_disjoint [of label] profile_ok(3,4) [OF p, of label] direction_local(1) [of p label "ts_values st" pk]
      direction_values [of p label "ts_values st" pk] by auto
  have shape: "?d = ''local_input'' \<longrightarrow> pk_ingress pk \<noteq> None \<and> pk_egress pk = None"
    using direction_local [of p label "ts_values st" pk] by blast
  have "ne_protocol e = protocol_class (pk_observed pk)" by (simp add: e built_defs)
  then have flags: "case flags of None \<Rightarrow> True | Some fs \<Rightarrow> set fs \<subseteq> set TCP_FLAGS \<and> ne_protocol e = ''TCP''"
    using tcp_view_ok(3) [OF tcp] read_tokens_flags [OF st] by (auto simp: no_tokens_def split: option.splits)
  have cov: "set ?cov \<subseteq> set COVERAGE" using coverage_known [of p ?d st pk] by (auto simp: COVERAGE_def)
  have marks: "''dynamic_terminal_filtering'' \<in> set ?cov \<longleftrightarrow> version = TERMINAL_PARSER_VERSION"
    "''unverified_local_input'' \<in> set ?cov \<longleftrightarrow> ?d = ''unknown''"
    "''tcp_flags_unavailable'' \<in> set ?cov \<longleftrightarrow> unavailable"
    using coverage_flags [of p ?d st pk] parser_version_ok(3) [OF version] by auto
  have "first_failure (event_conditions P e (pk_src pk) (pk_dst pk)) = Inr ()"
    unfolding first_failure_ok event_conditions_def
    using packet_of_ok(3-8) [OF pk] lab native shape flags marks direction_values [of p label "ts_values st" pk]
      sorted_set_length [OF cov] cov tcp_view_ok(1,2) [OF tcp] digest_hex [OF hex]
    by (simp add: e built_defs content_of_def del: sorted_set_empty_iff) (simp add: identity_of_def digest_hex [OF hex])
  with head addr show ?thesis by (simp add: validate_event_def)
qed

text \<open>
  C29: an observation \<open>parse_ufw\<close> has built always passes \<open>validate_event\<close>: once the profile, the record and the message
  are accepted, the parser returns the sealed event and its final check never rejects it. Used of SHA-256 that digests
  are 64 lower-case hexadecimal digits, and of \<open>ipaddress\<close> that the text of an address is canonical.
\<close>

theorem parsed_event_is_valid:
  assumes "hex_digests P" and "ip_canonical ip" and "build_event P ip p r = Inr e"
  shows "parse_ufw P ip p r = Inr e \<and> validate_event P ip e = Inr ()"
  using build_event_valid [OF assms] assms(3) by (simp add: parse_ufw_def)

text \<open>A runtime, an address reader, a profile and a record on which the parser succeeds.\<close>

definition hex_py :: py where
  "hex_py = \<lparr>hexdigest = (\<lambda>s. replicate 64 (CHR ''a'')), fromisoformat = (\<lambda>s. None), repr_float = (\<lambda>q. []), trunc_float = (\<lambda>s. None)\<rparr>"

definition two_hosts :: ip_reader where
  "two_hosts s = (if s \<in> set [''10.0.0.1'', ''10.0.0.2''] then Some \<lparr>ip_version = 4, ip_text = s, ip_mapped = False\<rparr> else None)"

definition sample_profile :: profile where
  "sample_profile =
     \<lparr>sp_source_id = ''s1'', sp_ruleset_sha256 = replicate 64 (CHR ''0''), sp_log_labels = [''[UFW BLOCK]''], sp_ip_families = [4],
      sp_rejection_labels = [''[UFW BLOCK]''], sp_local_input_labels = [''[UFW BLOCK]''], sp_local_input_interfaces = [''eth0''],
      sp_logging_limit = ''unlimited'', sp_retention = ''bounded'', sp_logging_limit_context = ''x'', sp_retention_context = ''x'',
      sp_schema_version = 1, sp_guard_version = LEGACY_GUARD, sp_profile_valid_from_us = None, sp_dynamic_terminal_sets = []\<rparr>"

definition sample_journal :: row where
  "sample_journal =
     [(''_TRANSPORT'', JStr ''kernel''), (''_BOOT_ID'', JStr (replicate 32 (CHR ''b''))), (''__CURSOR'', JStr ''c''),
      (''__REALTIME_TIMESTAMP'', JStr ''12''), (''__MONOTONIC_TIMESTAMP'', JInt 3),
      (''MESSAGE'', JStr ''[UFW BLOCK] IN=eth0 OUT= SRC=10.0.0.1 DST=10.0.0.2 PROTO=TCP SPT=9 DPT=22 WINDOW=1 RES=0x00 SYN URGP=0'')]"

lemma hex_py_digests: "hex_digests hex_py"
  by (simp add: hex_digests_def hex_py_def hex_text_def is_hex_def list_all_iff)

lemma two_hosts_canonical: "ip_canonical two_hosts"
  by (auto simp: ip_canonical_def two_hosts_def)

lemma sample_parses: "is_ok (build_event hex_py two_hosts sample_profile sample_journal)"
  by code_simp

theorem parsed_event_is_valid_witness:
  "\<exists>e. parse_ufw hex_py two_hosts sample_profile sample_journal = Inr e \<and> validate_event hex_py two_hosts e = Inr ()"
proof -
  obtain e where "build_event hex_py two_hosts sample_profile sample_journal = Inr e"
    using sample_parses by (auto simp: is_ok_def split: sum.splits)
  from parsed_event_is_valid [OF hex_py_digests two_hosts_canonical this] show ?thesis by blast
qed

end
