(* ===== verification/Windows.thy ===== *)
theory Windows
  imports Py_Dict
begin

text \<open>
  The rolling-window scan that the detectors share (\<open>_failure_matches\<close> in \<open>detection.py\<close>,
  \<open>_scan_findings\<close> in \<open>web_detection.py\<close>, \<open>_scan\<close> in \<open>network_detection.py\<close>): counters
  follow the window as rows enter on the right and expire on the left, and qualifying windows that
  share a row are coalesced into one interval.

  The contract \<open>sliding_window\<close> says when counters follow a window; under it the incremental scan is
  the same as judging every window afresh, and its intervals are exactly the unions of qualifying
  windows. Each detector's counters are an instance.
\<close>

section \<open>Counters\<close>

text \<open>\<open>collections.Counter\<close>, in insertion order; a key whose count falls to zero is deleted.\<close>

type_synonym 'a counter = "('a \<times> nat) list"

definition counter_add :: "'a \<Rightarrow> 'a counter \<Rightarrow> 'a counter" where
  "counter_add x c = dict_set x (Suc (case map_of c x of None \<Rightarrow> 0 | Some n \<Rightarrow> n)) c"

definition counter_drop :: "'a \<Rightarrow> 'a counter \<Rightarrow> 'a counter" where
  "counter_drop x c =
     (let n = (case map_of c x of None \<Rightarrow> 0 | Some n \<Rightarrow> n) - 1
      in if n = 0 then AList.delete x c else dict_set x n c)"

definition counts_of :: "'a counter \<Rightarrow> 'a list \<Rightarrow> bool" where
  "counts_of c xs \<longleftrightarrow> distinct (map fst c) \<and>
     (\<forall>x. map_of c x = (if x \<in> set xs then Some (count_list xs x) else None))"

lemma counts_of_Nil [simp]: "counts_of [] []"
  by (simp add: counts_of_def)

lemma count_list_zero_iff: "count_list xs x = 0 \<longleftrightarrow> x \<notin> set xs"
  by (induction xs) auto

lemma counts_of_add: "counts_of c xs \<Longrightarrow> counts_of (counter_add x c) (xs @ [x])"
  by (auto simp: counts_of_def counter_add_def distinct_update count_list_append count_list_zero_iff)

lemma counts_of_drop: "counts_of c (x # xs) \<Longrightarrow> counts_of (counter_drop x c) xs"
  by (auto simp: counts_of_def counter_drop_def Let_def distinct_update distinct_delete delete_conv'
      count_list_zero_iff)

text \<open>The number of keys is the number of distinct elements.\<close>

lemma counts_of_length:
  assumes "counts_of c xs"
  shows "length c = card (set xs)"
proof -
  have "fst ` set c = dom (map_of c)" by (simp add: dom_map_of_conv_image_fst)
  also have "\<dots> = set xs" using assms by (auto simp: counts_of_def dom_def)
  finally have "set (map fst c) = set xs" by simp
  then show ?thesis using assms by (metis counts_of_def distinct_card length_map)
qed

section \<open>The scan\<close>

text \<open>
  \<open>expire\<close> is the inner loop on the rows from \<open>left\<close> on. The row that just entered is never expired, as a
  width is not negative (\<open>expire_spec\<close>), so the case of no rows is not reached.
\<close>

fun expire :: "('e \<Rightarrow> 'n::linordered_ab_group_add) \<Rightarrow> 'n \<Rightarrow> ('e \<Rightarrow> 's \<Rightarrow> 's) \<Rightarrow> 'n \<Rightarrow> 'e list \<Rightarrow> nat \<Rightarrow> 's \<Rightarrow> nat \<times> 's" where
  "expire tm width leave now [] left st = (left, st)"
| "expire tm width leave now (e # rest) left st =
     (if now - tm e > width then expire tm width leave now rest (Suc left) (leave e st) else (left, st))"

text \<open>An interval: its first and last row, and how many qualifying windows it joins.\<close>

type_synonym interval = "nat \<times> nat \<times> nat"

definition coalesce :: "nat \<Rightarrow> nat \<Rightarrow> interval list \<Rightarrow> interval list" where
  "coalesce left right intervals =
     (if intervals \<noteq> [] \<and> left \<le> fst (snd (last intervals))
      then butlast intervals @ [(fst (last intervals), right, Suc (snd (snd (last intervals))))]
      else intervals @ [(left, right, 1)])"

definition scan_step :: "('e \<Rightarrow> 'n::linordered_ab_group_add) \<Rightarrow> 'n \<Rightarrow> ('e \<Rightarrow> 's \<Rightarrow> 's) \<Rightarrow> ('e \<Rightarrow> 's \<Rightarrow> 's) \<Rightarrow> (nat \<Rightarrow> 's \<Rightarrow> bool)
    \<Rightarrow> 'e list \<Rightarrow> nat \<Rightarrow> nat \<times> 's \<times> interval list \<Rightarrow> nat \<times> 's \<times> interval list" where
  "scan_step tm width enter leave qualifies rows right state =
     (case state of (left, st, intervals) \<Rightarrow>
      case expire tm width leave (tm (rows ! right)) (drop left rows) left (enter (rows ! right) st) of (left, st) \<Rightarrow>
        (left, st, if qualifies (right - left + 1) st then coalesce left right intervals else intervals))"

definition window_scan :: "('e \<Rightarrow> 'n::linordered_ab_group_add) \<Rightarrow> 'n \<Rightarrow> 's \<Rightarrow> ('e \<Rightarrow> 's \<Rightarrow> 's) \<Rightarrow> ('e \<Rightarrow> 's \<Rightarrow> 's) \<Rightarrow> (nat \<Rightarrow> 's \<Rightarrow> bool)
    \<Rightarrow> 'e list \<Rightarrow> interval list" where
  "window_scan tm width init enter leave qualifies rows =
     snd (snd (fold (scan_step tm width enter leave qualifies rows) [0..<length rows] (0, init, [])))"

definition interval_rows :: "'e list \<Rightarrow> nat \<Rightarrow> nat \<Rightarrow> 'e list" where
  "interval_rows rows start final = take (final + 1 - start) (drop start rows)"

section \<open>The reference: every window judged afresh\<close>

text \<open>The window that ends at a row: the rows up to it that are at most \<open>width\<close> older.\<close>

definition window_start :: "('e \<Rightarrow> 'n::linordered_ab_group_add) \<Rightarrow> 'n \<Rightarrow> 'e list \<Rightarrow> nat \<Rightarrow> nat" where
  "window_start tm width rows right = length (takeWhile (\<lambda>e. tm (rows ! right) - tm e > width) rows)"

definition window_at :: "('e \<Rightarrow> 'n::linordered_ab_group_add) \<Rightarrow> 'n \<Rightarrow> 'e list \<Rightarrow> nat \<Rightarrow> 'e list" where
  "window_at tm width rows right = interval_rows rows (window_start tm width rows right) right"

definition judged :: "('e \<Rightarrow> 'n::linordered_ab_group_add) \<Rightarrow> 'n \<Rightarrow> ('e list \<Rightarrow> bool) \<Rightarrow> 'e list \<Rightarrow> interval list" where
  "judged tm width Q rows =
     fold (\<lambda>right. coalesce (window_start tm width rows right) right)
       (filter (\<lambda>right. Q (window_at tm width rows right)) [0..<length rows]) []"

lemma interval_rows_snoc:
  "start \<le> right \<Longrightarrow> right < length rows \<Longrightarrow> interval_rows rows start right = take (right - start) (drop start rows) @ [rows ! right]"
  by (simp add: interval_rows_def Suc_diff_le take_Suc_conv_app_nth)

lemma window_start_before:
  "i < window_start tm width rows right \<Longrightarrow> tm (rows ! right) - tm (rows ! i) > width"
  unfolding window_start_def by (metis nth_mem set_takeWhileD takeWhile_nth)

lemma window_start_le: "0 \<le> width \<Longrightarrow> window_start tm width rows right \<le> right"
  using window_start_before [of right tm width rows right] by (force simp: not_le)

lemma window_start_stops:
  assumes "window_start tm width rows right < length rows"
  shows "\<not> tm (rows ! right) - tm (rows ! window_start tm width rows right) > width"
  using nth_length_takeWhile [of _ rows] assms unfolding window_start_def by blast

lemma window_start_mono:
  assumes "sorted (map tm rows)" and "r \<le> r'" and "r' < length rows"
  shows "window_start tm width rows r \<le> window_start tm width rows r'"
proof (rule ccontr)
  let ?s = "window_start tm width rows r'"
  assume "\<not> ?thesis"
  then have lt: "?s < window_start tm width rows r" by simp
  then have "?s < length rows" unfolding window_start_def by (metis length_takeWhile_le order_less_le_trans)
  then have "\<not> tm (rows ! r') - tm (rows ! ?s) > width" by (rule window_start_stops)
  moreover have "tm (rows ! r) \<le> tm (rows ! r')" using assms sorted_nth_mono [of "map tm rows" r r'] by simp
  moreover have "tm (rows ! r) - tm (rows ! ?s) > width" using lt by (rule window_start_before)
  ultimately show False by (meson diff_right_mono order_less_le_trans)
qed

section \<open>Coalescing\<close>

text \<open>
  An interval is right for a list of windows when its rows are exactly those of the windows inside it, of which it
  counts each. Windows come with their starts in order and their ends strictly so.
\<close>

definition inside :: "interval \<Rightarrow> (nat \<times> nat) list \<Rightarrow> (nat \<times> nat) list" where
  "inside i ws = filter (\<lambda>(l, r). fst i \<le> l \<and> r \<le> fst (snd i)) ws"

definition right_interval :: "(nat \<times> nat) list \<Rightarrow> interval \<Rightarrow> bool" where
  "right_interval ws i \<longleftrightarrow> {fst i..fst (snd i)} = (\<Union>(l, r) \<in> set (inside i ws). {l..r}) \<and>
     snd (snd i) = length (inside i ws) \<and> inside i ws \<noteq> []"

definition ordered_windows :: "(nat \<times> nat) list \<Rightarrow> bool" where
  "ordered_windows ws \<longleftrightarrow> sorted_wrt (\<lambda>(l, r) (l', r'). l \<le> l' \<and> r < r') ws \<and> (\<forall>(l, r) \<in> set ws. l \<le> r)"

lemma coalesce_simps [simp]:
  "coalesce l r [] = [(l, r, 1)]"
  "coalesce l r (ivs @ [(s, e, k)]) = (if l \<le> e then ivs @ [(s, r, Suc k)] else (ivs @ [(s, e, k)]) @ [(l, r, 1)])"
  by (simp_all add: coalesce_def)

definition coalesced :: "(nat \<times> nat) list \<Rightarrow> interval list \<Rightarrow> bool" where
  "coalesced ws ivs \<longleftrightarrow> sorted_wrt (\<lambda>(s, e, c) (s', e', c'). e < s') ivs \<and> (\<forall>i \<in> set ivs. right_interval ws i) \<and>
     (\<forall>(l, r) \<in> set ws. \<exists>(s, e, c) \<in> set ivs. s \<le> l \<and> r \<le> e)"

lemma inside_later:
  assumes "ordered_windows (ws @ [(l, r)])" and "right_interval ws (s, e, c)"
  shows "e < r" and "s \<le> l" and "inside (s, e, c) (ws @ [(l, r)]) = inside (s, e, c) ws"
proof -
  have "inside (s, e, c) ws \<noteq> []" "{s..e} = (\<Union>(l, r) \<in> set (inside (s, e, c) ws). {l..r})"
    using assms(2) by (simp_all add: right_interval_def)
  moreover have before: "l' \<le> l \<and> r' < r \<and> l' \<le> r'" if "(l', r') \<in> set ws" for l' r'
    using assms(1) that by (auto simp: ordered_windows_def sorted_wrt_append)
  moreover obtain l' r' where "(l', r') \<in> set (inside (s, e, c) ws)"
    using \<open>inside (s, e, c) ws \<noteq> []\<close> by (metis last_in_set surj_pair)
  ultimately have lr: "(l', r') \<in> set ws" "s \<le> l'" "r' \<le> e" by (auto simp: inside_def)
  then have "e \<in> {s..e}" using before by force
  then obtain l'' r'' where "(l'', r'') \<in> set ws" "e \<le> r''"
    using \<open>{s..e} = _\<close> by (force simp: inside_def)
  with before show "e < r" by force
  show "s \<le> l" using lr before by force
  show "inside (s, e, c) (ws @ [(l, r)]) = inside (s, e, c) ws" using \<open>e < r\<close> by (simp add: inside_def)
qed

lemma right_interval_later:
  assumes "ordered_windows (ws @ [(l, r)])" and "right_interval ws i"
  shows "right_interval (ws @ [(l, r)]) i"
proof -
  have "inside i (ws @ [(l, r)]) = inside i ws"
    using inside_later(3) [OF assms(1), of "fst i" "fst (snd i)" "snd (snd i)"] assms(2) by simp
  then show ?thesis using assms(2) by (simp add: right_interval_def)
qed

lemma coalesced_fresh:
  assumes ok: "ordered_windows (ws @ [(l, r)])" and c: "coalesced ws ivs" and new: "\<forall>(s, e, c) \<in> set ivs. e < l"
  shows "coalesced (ws @ [(l, r)]) (ivs @ [(l, r, 1)])"
proof -
  have lr: "l \<le> r" using ok by (auto simp: ordered_windows_def)
  have old: "right_interval (ws @ [(l, r)]) i" if "i \<in> set ivs" for i
    using c that right_interval_later [OF ok] by (simp add: coalesced_def)
  have "inside (l, r, 1) ws = []"
  proof -
    have False if w: "(l', r') \<in> set ws" "l \<le> l'" for l' r'
    proof -
      from w(1) c obtain s e k where sek: "(s, e, k) \<in> set ivs" "r' \<le> e" by (auto simp: coalesced_def)
      then have "e < l" using new by auto
      moreover have "l' \<le> r'" using ok w(1) by (auto simp: ordered_windows_def)
      ultimately show False using sek w by simp
    qed
    then show ?thesis by (auto simp: inside_def filter_empty_conv)
  qed
  then have "right_interval (ws @ [(l, r)]) (l, r, 1)" using lr by (simp add: right_interval_def inside_def)
  with old c new show ?thesis by (fastforce simp: coalesced_def sorted_wrt_append)
qed

lemma coalesced_extend:
  assumes ok: "ordered_windows (ws @ [(l, r)])" and c: "coalesced ws (ivs @ [(s, e, k)])" and meet: "l \<le> e"
  shows "coalesced (ws @ [(l, r)]) (ivs @ [(s, r, Suc k)])"
proof -
  let ?ws = "ws @ [(l, r)]"
  have last: "right_interval ws (s, e, k)" using c by (simp add: coalesced_def)
  note se = inside_later [OF ok last]
  have old: "right_interval ?ws i" if "i \<in> set ivs" for i
    using c that right_interval_later [OF ok] by (simp add: coalesced_def)
  have same: "inside (s, r, Suc k) ws = inside (s, e, k) ws"
  proof -
    have "r' \<le> e" if w: "(l', r') \<in> set ws" "s \<le> l'" for l' r'
    proof -
      from w(1) c obtain s' e' k' where i: "(s', e', k') \<in> set (ivs @ [(s, e, k)])" "s' \<le> l'" "r' \<le> e'"
        by (fastforce simp: coalesced_def)
      have "l' \<le> r'" using ok w(1) by (auto simp: ordered_windows_def)
      moreover have "e' < s" if "(s', e', k') \<in> set ivs" using c that by (auto simp: coalesced_def sorted_wrt_append)
      ultimately show ?thesis using i w(2) by fastforce
    qed
    moreover have "r' \<le> r" if "(l', r') \<in> set ws" for l' r'
      using ok that by (fastforce simp: ordered_windows_def sorted_wrt_append)
    ultimately show ?thesis using se(1) by (auto simp: inside_def intro!: filter_cong)
  qed
  have "inside (s, r, Suc k) ?ws = inside (s, e, k) ws @ [(l, r)]" using se(2) same by (simp add: inside_def)
  moreover have "{s..r} = {s..e} \<union> {l..r}" using se meet by auto
  ultimately have "right_interval ?ws (s, r, Suc k)" using last by (auto simp: right_interval_def)
  moreover have "\<forall>(l', r') \<in> set ?ws. \<exists>(s', e', k') \<in> set (ivs @ [(s, r, Suc k)]). s' \<le> l' \<and> r' \<le> e'"
    using c se unfolding coalesced_def by (fastforce intro: less_imp_le order_trans)
  ultimately show ?thesis using old c by (auto simp: coalesced_def sorted_wrt_append)
qed

lemma coalesce_windows:
  "ordered_windows ws \<Longrightarrow> coalesced ws (fold (\<lambda>(l, r). coalesce l r) ws [])"
proof (induction ws rule: rev_induct)
  case (snoc w ws)
  obtain l r where w: "w = (l, r)" by (cases w)
  let ?all = "fold (\<lambda>(l, r). coalesce l r) ws []"
  have c: "coalesced ws ?all" using snoc by (auto simp: ordered_windows_def sorted_wrt_append)
  have ok: "ordered_windows (ws @ [(l, r)])" using snoc.prems w by simp
  show ?case
  proof (cases "?all = []")
    case True
    with coalesced_fresh [OF ok c] w show ?thesis by simp
  next
    case False
    then obtain ivs s e k where eq: "?all = ivs @ [(s, e, k)]" by (metis prod_cases3 rev_exhaust)
    show ?thesis
    proof (cases "l \<le> e")
      case True
      with coalesced_extend [OF ok] c eq w show ?thesis by simp
    next
      case F: False
      have "e' < l" if "(s', e', k') \<in> set ivs" for s' e' k'
      proof -
        have "e' < s" using c that by (auto simp: eq coalesced_def sorted_wrt_append)
        moreover have "right_interval ws (s, e, k)" using c eq by (simp add: coalesced_def)
        from inside_later(2) [OF ok this] have "s \<le> l" .
        ultimately show ?thesis by simp
      qed
      with F coalesced_fresh [OF ok c] eq w show ?thesis by auto
    qed
  qed
qed (simp add: coalesced_def)

text \<open>The intervals of the judged windows: disjoint, in order, and exactly the unions of qualifying windows.\<close>

definition qualifying :: "('e \<Rightarrow> 'n::linordered_ab_group_add) \<Rightarrow> 'n \<Rightarrow> ('e list \<Rightarrow> bool) \<Rightarrow> 'e list \<Rightarrow> (nat \<times> nat) list" where
  "qualifying tm width Q rows =
     map (\<lambda>right. (window_start tm width rows right, right))
       (filter (\<lambda>right. Q (window_at tm width rows right)) [0..<length rows])"

lemma judged_coalesced:
  assumes srt: "sorted (map tm rows)" and width: "0 \<le> width"
  shows "coalesced (qualifying tm width Q rows) (judged tm width Q rows)"
proof -
  have "ordered_windows (qualifying tm width Q rows)"
    unfolding ordered_windows_def
  proof
    have "sorted_wrt (\<lambda>r r'. r < r') (filter (\<lambda>right. Q (window_at tm width rows right)) [0..<length rows])"
      by (rule sorted_wrt_filter) simp
    then show "sorted_wrt (\<lambda>(l, r) (l', r'). l \<le> l' \<and> r < r') (qualifying tm width Q rows)"
      unfolding qualifying_def sorted_wrt_map
      by (rule sorted_wrt_mono_rel [rotated]) (auto intro: window_start_mono [OF srt])
  qed (use window_start_le [OF width] in \<open>auto simp: qualifying_def\<close>)
  from coalesce_windows [OF this] show ?thesis
    by (simp add: judged_def qualifying_def fold_map comp_def)
qed

section \<open>Rows of windows and intervals\<close>

lemma set_interval_rows:
  assumes "final < length rows"
  shows "set (interval_rows rows start final) = (!) rows ` {start..final}"
proof (cases "start \<le> final")
  case True
  have "interval_rows rows start final = map ((!) rows) [start..<Suc final]"
    by (rule nth_equalityI) (use assms True in \<open>auto simp: interval_rows_def simp del: upt_Suc\<close>)
  then show ?thesis by (simp add: atLeastLessThanSuc_atLeastAtMost del: upt_Suc)
qed (simp add: interval_rows_def)

lemma interval_rows_mono:
  "final < length rows \<Longrightarrow> start \<le> l \<Longrightarrow> r \<le> final \<Longrightarrow> set (interval_rows rows l r) \<subseteq> set (interval_rows rows start final)"
  by (auto simp: set_interval_rows)

text \<open>A row no newer than the last one and at most the width older belongs to the window.\<close>

lemma window_at_member:
  assumes "right < length rows" and "i \<le> right" and "tm (rows ! right) - tm (rows ! i) \<le> width"
  shows "rows ! i \<in> set (window_at tm width rows right)"
  using assms window_start_before [of i tm width rows right]
  by (force simp: window_at_def set_interval_rows)

lemma window_width:
  assumes "sorted (map tm rows)" and "right < length rows"
    and "a \<in> set (window_at tm width rows right)" and "b \<in> set (window_at tm width rows right)"
  shows "tm b - tm a \<le> width"
proof -
  let ?s = "window_start tm width rows right"
  from assms obtain i j where ij: "?s \<le> i" "i \<le> right" "a = rows ! i" "j \<le> right" "b = rows ! j"
    by (auto simp: window_at_def set_interval_rows)
  have "tm (rows ! ?s) \<le> tm a" using assms(1,2) ij sorted_nth_mono [of "map tm rows" ?s i] by simp
  moreover have "tm b \<le> tm (rows ! right)" using assms(1,2) ij sorted_nth_mono [of "map tm rows" j right] by simp
  moreover have "tm (rows ! right) - tm (rows ! ?s) \<le> width"
    using window_start_stops [of tm width rows right] ij assms(2) by (simp add: not_less)
  ultimately show ?thesis by (meson diff_mono order_trans)
qed

lemma interval_bounds:
  assumes "coalesced (qualifying tm width Q rows) ivs" and "(s, e, c) \<in> set ivs" and "0 \<le> width"
  shows "s \<le> e" and "e < length rows" and
    "\<exists>right < length rows. Q (window_at tm width rows right) \<and>
       set (window_at tm width rows right) \<subseteq> set (interval_rows rows s e)"
proof -
  let ?ws = "qualifying tm width Q rows"
  have iv: "right_interval ?ws (s, e, c)" using assms by (auto simp: coalesced_def)
  then have "inside (s, e, c) ?ws \<noteq> []" by (simp add: right_interval_def)
  then obtain l r where "(l, r) \<in> set (inside (s, e, c) ?ws)" by (metis last_in_set surj_pair)
  then have lr: "(l, r) \<in> set ?ws" "s \<le> l" "r \<le> e" by (auto simp: inside_def)
  have lt: "r' < length rows" if "(l', r') \<in> set ?ws" for l' r' using that by (auto simp: qualifying_def)
  have "l \<le> r" using lr(1) window_start_le [OF assms(3)] by (auto simp: qualifying_def)
  then show "s \<le> e" using lr by simp
  then have "e \<in> {s..e}" by simp
  moreover have "{s..e} = (\<Union>(l, r) \<in> set (inside (s, e, c) ?ws). {l..r})" using iv by (simp add: right_interval_def)
  ultimately have "e \<in> (\<Union>(l, r) \<in> set (inside (s, e, c) ?ws). {l..r})" by (simp only:)
  then obtain l' r' where "(l', r') \<in> set ?ws" "e \<le> r'" by (auto simp: inside_def)
  with lt show e: "e < length rows" by fastforce
  have "Q (window_at tm width rows r)" "l = window_start tm width rows r" using lr(1) by (auto simp: qualifying_def)
  then show "\<exists>right < length rows. Q (window_at tm width rows right) \<and>
       set (window_at tm width rows right) \<subseteq> set (interval_rows rows s e)"
    using lt [OF lr(1)] interval_rows_mono [OF e lr(2,3)] by (auto simp: window_at_def)
qed

text \<open>Every row of an interval is in a qualifying window inside the interval.\<close>

lemma interval_row_in_window:
  assumes "coalesced (qualifying tm width Q rows) ivs" and "(s, e, c) \<in> set ivs" and "0 \<le> width"
    and "x \<in> set (interval_rows rows s e)"
  shows "\<exists>right < length rows. Q (window_at tm width rows right) \<and> x \<in> set (window_at tm width rows right) \<and>
    set (window_at tm width rows right) \<subseteq> set (interval_rows rows s e)"
proof -
  let ?ws = "qualifying tm width Q rows"
  note e = interval_bounds(2) [OF assms(1-3)]
  from assms(4) obtain j where j: "j \<in> {s..e}" "x = rows ! j" by (auto simp: set_interval_rows [OF e])
  have "right_interval ?ws (s, e, c)" using assms by (auto simp: coalesced_def)
  then have "{s..e} = (\<Union>(l, r) \<in> set (inside (s, e, c) ?ws). {l..r})" by (simp add: right_interval_def)
  with j(1) have "j \<in> (\<Union>(l, r) \<in> set (inside (s, e, c) ?ws). {l..r})" by (simp only:)
  then obtain l r where lr: "(l, r) \<in> set ?ws" "s \<le> l" "r \<le> e" "l \<le> j" "j \<le> r" by (auto simp: inside_def)
  then have r: "r < length rows" "Q (window_at tm width rows r)" "l = window_start tm width rows r" by (auto simp: qualifying_def)
  have "x \<in> set (interval_rows rows l r)" using lr(4,5) j(2) by (auto simp: set_interval_rows [OF r(1)])
  with r interval_rows_mono [OF e lr(2,3)] show ?thesis by (auto simp: window_at_def)
qed

lemma window_reported:
  assumes "coalesced (qualifying tm width Q rows) ivs" and "right < length rows" and "Q (window_at tm width rows right)"
    and "0 \<le> width"
  shows "\<exists>(s, e, c) \<in> set ivs. set (window_at tm width rows right) \<subseteq> set (interval_rows rows s e)"
proof -
  have "(window_start tm width rows right, right) \<in> set (qualifying tm width Q rows)"
    using assms(2,3) by (auto simp: qualifying_def)
  then obtain s e c where i: "(s, e, c) \<in> set ivs" "s \<le> window_start tm width rows right" "right \<le> e"
    using assms(1) by (fastforce simp: coalesced_def)
  from interval_rows_mono [OF interval_bounds(2) [OF assms(1) i(1) assms(4)] i(2,3)] i(1) show ?thesis
    by (fastforce simp: window_at_def)
qed

section \<open>The contract\<close>

text \<open>
  \<open>follows st win\<close>: the counters \<open>st\<close> are those of the window \<open>win\<close>. The provider promises that the
  counters follow when a row enters or leaves, and that the test on them is the test \<open>Q\<close> of the window itself.
\<close>

locale sliding_window =
  fixes tm :: "'e \<Rightarrow> 'n::linordered_ab_group_add" and width :: 'n
    and init :: 's and enter leave :: "'e \<Rightarrow> 's \<Rightarrow> 's" and qualifies :: "nat \<Rightarrow> 's \<Rightarrow> bool"
    and follows :: "'s \<Rightarrow> 'e list \<Rightarrow> bool" and Q :: "'e list \<Rightarrow> bool"
  assumes width: "0 \<le> width"
    and follows_init: "follows init []"
    and follows_enter: "follows st win \<Longrightarrow> follows (enter e st) (win @ [e])"
    and follows_leave: "follows st (e # win) \<Longrightarrow> follows (leave e st) win"
    and qualifies_iff: "follows st win \<Longrightarrow> qualifies (length win) st = Q win"
begin

lemma expire_spec:
  assumes "follows st (take (Suc k) rest)" and "k < length rest" and "tm (rest ! k) = now"
  shows "\<exists>st'. expire tm width leave now rest left st =
      (left + length (takeWhile (\<lambda>e. now - tm e > width) rest), st') \<and>
    follows st' (drop (length (takeWhile (\<lambda>e. now - tm e > width) rest)) (take (Suc k) rest))"
  using assms
proof (induction rest arbitrary: k left st)
  case (Cons e rest)
  show ?case
  proof (cases "now - tm e > width")
    case True
    with Cons.prems(3) width obtain k' where k: "k = Suc k'" by (cases k) auto
    have "follows (leave e st) (take (Suc k') rest)"
      using Cons.prems(1) k by (auto intro: follows_leave)
    with Cons.IH [of "leave e st" k' "Suc left"] Cons.prems k True show ?thesis by simp
  qed (use Cons.prems in simp)
qed simp

lemma scan_step_spec:
  assumes "right < length rows" and "sorted (map tm rows)" and "left = (if right = 0 then 0 else window_start tm width rows (right - 1))"
    and "follows st (take (right - left) (drop left rows))"
  shows "\<exists>st'. scan_step tm width enter leave qualifies rows right (left, st, intervals) =
      (window_start tm width rows right, st',
       if Q (window_at tm width rows right) then coalesce (window_start tm width rows right) right intervals else intervals) \<and>
    follows st' (window_at tm width rows right)"
proof -
  let ?e = "rows ! right" and ?ws = "window_start tm width rows right" and ?rest = "drop left rows"
  let ?P = "\<lambda>e. tm ?e - tm e > width"
  have "left \<le> ?ws" using assms(1,3) window_start_mono [OF assms(2), of "right - 1" right] by auto
  moreover have "?ws \<le> right" using width by (rule window_start_le)
  ultimately have le: "left \<le> ?ws" "?ws \<le> right" "left \<le> right" by simp_all
  have before: "\<forall>e \<in> set (take left rows). ?P e"
  proof
    fix e assume "e \<in> set (take left rows)"
    then obtain i where "i < left" "e = rows ! i" by (auto simp: in_set_conv_nth)
    with le(1) show "?P e" using window_start_before [of i tm width rows right] by simp
  qed
  have "takeWhile ?P rows = take left rows @ takeWhile ?P ?rest"
    using takeWhile_append2 [of "take left rows" ?P ?rest] before by simp
  then have split: "left + length (takeWhile ?P ?rest) = ?ws"
    using le assms(1) unfolding window_start_def by simp
  have k: "right - left < length ?rest" "?rest ! (right - left) = ?e" using le assms(1) by simp_all
  have "follows (enter ?e st) (take (Suc (right - left)) ?rest)"
    using follows_enter [OF assms(4), of ?e] k by (simp add: take_Suc_conv_app_nth)
  moreover have "length (takeWhile ?P ?rest) = ?ws - left" using split by simp
  ultimately obtain st' where st': "expire tm width leave (tm ?e) ?rest left (enter ?e st) = (?ws, st')"
    "follows st' (drop (?ws - left) (take (Suc (right - left)) ?rest))"
    using expire_spec [of "enter ?e st" "right - left" ?rest "tm ?e" left] k le by auto
  have "drop (?ws - left) (take (Suc (right - left)) ?rest) = window_at tm width rows right"
    using le by (simp add: window_at_def interval_rows_def drop_take)
  moreover have "length (window_at tm width rows right) = right - ?ws + 1"
    using le assms(1) by (simp add: window_at_def interval_rows_def)
  ultimately show ?thesis
    using st' qualifies_iff [of st' "window_at tm width rows right"] by (simp add: scan_step_def)
qed

text \<open>The incremental scan finds what judging every window afresh finds.\<close>

lemma scan_is_judged:
  assumes srt: "sorted (map tm rows)"
  shows "window_scan tm width init enter leave qualifies rows = judged tm width Q rows"
proof -
  let ?step = "scan_step tm width enter leave qualifies rows"
  let ?ref = "\<lambda>n. fold (\<lambda>right. coalesce (window_start tm width rows right) right)
       (filter (\<lambda>right. Q (window_at tm width rows right)) [0..<n]) []"
  have "\<exists>st. fold ?step [0..<n] (0, init, []) = (if n = 0 then 0 else window_start tm width rows (n - 1), st, ?ref n) \<and>
      follows st (take (n - (if n = 0 then 0 else window_start tm width rows (n - 1)))
        (drop (if n = 0 then 0 else window_start tm width rows (n - 1)) rows))" if "n \<le> length rows" for n
    using that
  proof (induction n)
    case (Suc n)
    then obtain st where st: "fold ?step [0..<n] (0, init, []) = (if n = 0 then 0 else window_start tm width rows (n - 1), st, ?ref n)"
      "follows st (take (n - (if n = 0 then 0 else window_start tm width rows (n - 1)))
        (drop (if n = 0 then 0 else window_start tm width rows (n - 1)) rows))" by auto
    have n: "n < length rows" using Suc.prems by simp
    from scan_step_spec [OF n srt refl st(2), of "?ref n"] st(1) show ?case
      by (auto simp: window_at_def interval_rows_def)
  qed (simp add: follows_init)
  from this [of "length rows"] show ?thesis by (auto simp: window_scan_def judged_def)
qed

text \<open>Hence the intervals of the scan are the unions of qualifying windows.\<close>

lemma scan_coalesces:
  assumes "sorted (map tm rows)"
  shows "coalesced (qualifying tm width Q rows) (window_scan tm width init enter leave qualifies rows)"
  unfolding scan_is_judged [OF assms] using assms width by (rule judged_coalesced)

end

end
