(* ===== verification/Network_Detection.thy ===== *)
theory Network_Detection
  imports Network_Parse Windows
begin

text \<open>
  \<open>app/telemetry/network_detection.py\<close>: multi-port probes in a bounded offline context of validated
  observations. A limit that is exceeded, an invalid event or a conflicting identity aborts with a code before
  any report is made. The scan is an instance of the rolling-window contract: its findings are exactly the
  unions of windows of at most five minutes with ten distinct ports.
\<close>

section \<open>Maintenance windows\<close>

text \<open>\<open>dst_ports\<close> is a frozen set of ports.\<close>

record maintenance_window =
  mw_authorization_id :: string
  mw_source_id :: string
  mw_src_ip :: string
  mw_dst_ip :: string
  mw_protocol :: string
  mw_dst_ports :: "nat set"
  mw_starts_at_us :: int
  mw_ends_at_us :: int
  mw_reason :: string

definition plain_address :: "ip_reader \<Rightarrow> string \<Rightarrow> bool" where
  "plain_address ip s = (length s \<le> 45 \<and> CHR ''%'' \<notin> set s \<and>
     (case ip s of None \<Rightarrow> False | Some a \<Rightarrow> ip_text a = s \<and> \<not> (ip_version a = 6 \<and> ip_mapped a)))"

definition version_of :: "ip_reader \<Rightarrow> string \<Rightarrow> nat option" where
  "version_of ip s = map_option ip_version (ip s)"

definition maintenance_ok :: "ip_reader \<Rightarrow> maintenance_window \<Rightarrow> bool" where
  "maintenance_ok ip w =
     (is_id (mw_authorization_id w) \<and> is_id (mw_source_id w) \<and>
      plain_address ip (mw_src_ip w) \<and> plain_address ip (mw_dst_ip w) \<and>
      version_of ip (mw_src_ip w) = version_of ip (mw_dst_ip w) \<and>
      mw_protocol w = ''TCP'' \<and> 1 \<le> card (mw_dst_ports w) \<and> int (card (mw_dst_ports w)) \<le> 1024 \<and>
      (\<forall>port \<in> mw_dst_ports w. int port \<le> 65535) \<and>
      0 \<le> mw_starts_at_us w \<and> mw_starts_at_us w < mw_ends_at_us w \<and> mw_ends_at_us w \<le> 2 ^ 63 - 1 \<and>
      mw_ends_at_us w - mw_starts_at_us w \<le> 86400000000 \<and>
      mw_reason w \<noteq> [] \<and> length (mw_reason w) \<le> 256 \<and> strip (mw_reason w) \<noteq> [] \<and>
      list_all (\<lambda>c. \<not> of_char c < (32 :: nat) \<and> of_char c \<noteq> (127 :: nat)) (mw_reason w))"

fun collect_maintenance :: "ip_reader \<Rightarrow> nat \<Rightarrow> (string \<times> maintenance_window) list \<Rightarrow> maintenance_window list
    \<Rightarrow> (string \<times> maintenance_window) list result" where
  "collect_maintenance ip n unique [] = Inr unique"
| "collect_maintenance ip n unique (w # ws) =
     (if Suc n > 64 then failure ''network_maintenance_limit''
      else if \<not> maintenance_ok ip w then failure ''invalid_network_maintenance''
      else if (case map_of unique (mw_authorization_id w) of None \<Rightarrow> False | Some previous \<Rightarrow> previous \<noteq> w)
        then failure ''conflicting_network_maintenance''
      else collect_maintenance ip (Suc n) (dict_set (mw_authorization_id w) w unique) ws)"

definition maintenance_windows :: "ip_reader \<Rightarrow> maintenance_window list \<Rightarrow> maintenance_window list result" where
  "maintenance_windows ip ws = and_then (collect_maintenance ip 0 [] ws) (\<lambda>unique. Inr (map snd (sort_key fst unique)))"

record maintenance_match =
  mm_authorization_id :: string
  mm_reason :: string
  mm_evidence_ids :: "string list"

definition maintenance_context :: "network_event list \<Rightarrow> maintenance_window list \<Rightarrow> bool \<Rightarrow> maintenance_match list" where
  "maintenance_context rows windows clock_uncertain =
     (if clock_uncertain then [] else
      let first = hd rows in
      List.map_filter (\<lambda>w.
        if (ne_source_id first, ne_src_ip first, ne_dst_ip first, ne_protocol first)
             \<noteq> (mw_source_id w, mw_src_ip w, mw_dst_ip w, mw_protocol w) then None
        else let evidence = map ne_event_id (filter (\<lambda>row.
               (case ne_dst_port row of None \<Rightarrow> False | Some port \<Rightarrow> port \<in> mw_dst_ports w) \<and>
               mw_starts_at_us w \<le> ne_journal_realtime_us row \<and> ne_journal_realtime_us row \<le> mw_ends_at_us w) rows)
          in if evidence = [] then None
             else Some \<lparr>mm_authorization_id = mw_authorization_id w, mm_reason = mw_reason w, mm_evidence_ids = evidence\<rparr>) windows)"

section \<open>Findings\<close>

definition RULE_ID :: string where "RULE_ID = ''network_tcp_multi_port_probe''"
definition WINDOW_US :: int where "WINDOW_US = 300 * 1000000"
definition MIN_DISTINCT_PORTS :: nat where "MIN_DISTINCT_PORTS = 10"

definition BASE_COVERAGE :: "string list" where
  "BASE_COVERAGE = [''offline_context_only'', ''observations_are_lower_bounds'', ''apparent_source_not_identity'']"

record network_finding =
  nf_finding_id :: string
  nf_source_id :: string
  nf_boot_id :: string
  nf_source_profile_revision :: string
  nf_src_ip :: string
  nf_dst_ip :: string
  nf_first_monotonic_us :: int
  nf_last_monotonic_us :: int
  nf_first_realtime_us :: int
  nf_last_realtime_us :: int
  nf_distinct_dst_ports :: "nat list"
  nf_evidence_ids :: "string list"
  nf_qualifying_windows :: nat
  nf_coverage :: "string list"
  nf_maintenance_context :: "maintenance_match list"

definition eligible :: "network_event \<Rightarrow> bool" where
  "eligible e = (ne_transport e = ''kernel'' \<and> ne_direction e = ''local_input'' \<and> ne_observation_point e = ''local_input'' \<and>
     ne_rejection_related e \<and> ne_protocol e = ''TCP'' \<and> ne_src_port e \<noteq> None \<and> ne_dst_port e \<noteq> None \<and>
     (case ne_tcp_flags e of None \<Rightarrow> False
      | Some flags \<Rightarrow> ''SYN'' \<in> set flags \<and> set flags \<inter> {''ACK'', ''RST'', ''FIN''} = {}))"

definition clock_warnings :: "network_event list \<Rightarrow> (string \<times> string) list" where
  "clock_warnings events = snd (foldl (\<lambda>(previous, affected) e.
     let k = (ne_source_id e, ne_boot_id e);
         jumped = (case map_of previous k of None \<Rightarrow> False
           | Some before \<Rightarrow> \<bar>(ne_journal_realtime_us e - ne_journal_realtime_us before) -
               (ne_journal_monotonic_us e - ne_journal_monotonic_us before)\<bar> > 1000000)
     in (dict_set k e previous, if jumped then affected @ [k] else affected)) ([], []) events)"

definition finding_id_of :: "py \<Rightarrow> network_event \<Rightarrow> string list \<Rightarrow> string" where
  "finding_id_of P first evidence = hexdigest P (concat (map ascii_escape (dumps (JList
     [JStr RULE_ID, JInt 1, JStr (ne_source_id first), JStr (ne_boot_id first), JStr (ne_source_profile_revision first),
      JStr (ne_src_ip first), JStr (ne_dst_ip first), jstrs evidence]))))"

definition finding_of :: "py \<Rightarrow> network_event list \<Rightarrow> nat \<Rightarrow> maintenance_window list \<Rightarrow> bool \<Rightarrow> network_finding" where
  "finding_of P rows qualifying_windows windows clock_uncertain =
     (let first = hd rows; final = last rows; evidence = map ne_event_id rows in
      \<lparr>nf_finding_id = finding_id_of P first evidence,
       nf_source_id = ne_source_id first, nf_boot_id = ne_boot_id first,
       nf_source_profile_revision = ne_source_profile_revision first, nf_src_ip = ne_src_ip first, nf_dst_ip = ne_dst_ip first,
       nf_first_monotonic_us = ne_journal_monotonic_us first, nf_last_monotonic_us = ne_journal_monotonic_us final,
       nf_first_realtime_us = ne_journal_realtime_us first, nf_last_realtime_us = ne_journal_realtime_us final,
       nf_distinct_dst_ports = sorted_set (List.map_filter ne_dst_port rows),
       nf_evidence_ids = evidence, nf_qualifying_windows = qualifying_windows,
       nf_coverage = sorted_set (BASE_COVERAGE @ concat (map ne_coverage rows) @
         (if clock_uncertain then [''journal_clock_discontinuity''] else [])),
       nf_maintenance_context = maintenance_context rows windows clock_uncertain\<rparr>)"

definition scan_intervals :: "network_event list \<Rightarrow> interval list" where
  "scan_intervals rows = window_scan ne_journal_monotonic_us WINDOW_US []
     (\<lambda>e. counter_add (ne_dst_port e)) (\<lambda>e. counter_drop (ne_dst_port e)) (\<lambda>n ports. MIN_DISTINCT_PORTS \<le> length ports) rows"

definition scan_group :: "py \<Rightarrow> network_event list \<Rightarrow> maintenance_window list \<Rightarrow> bool \<Rightarrow> network_finding list" where
  "scan_group P rows windows clock_uncertain =
     map (\<lambda>(start, final, n). finding_of P (interval_rows rows start final) n windows clock_uncertain) (scan_intervals rows)"

section \<open>The detector\<close>

record network_report =
  nr_findings :: "network_finding list"
  nr_input_count :: nat
  nr_unique_count :: nat
  nr_duplicate_count :: nat
  nr_eligible_count :: nat
  nr_excluded_count :: nat
  nr_coverage :: "string list"

definition event_bytes :: "network_event \<Rightarrow> nat" where
  "event_bytes e = length (concat (map ascii_escape (canonical_json (JObj (content_of e @
     [(''event_id'', JStr (ne_event_id e)), (''content_hash'', JStr (ne_content_hash e))])))))"

record intake =
  in_count :: nat
  in_bytes :: nat
  in_unique :: "((string \<times> string) \<times> network_event) list"
  in_coverage :: "string list"

fun take_in :: "py \<Rightarrow> ip_reader \<Rightarrow> network_event list \<Rightarrow> intake \<Rightarrow> intake result" where
  "take_in P ip [] st = Inr st"
| "take_in P ip (e # events) st =
     (let n = Suc (in_count st); bytes = in_bytes st + event_bytes e in
      if int n > 10000 then failure ''network_context_limit''
      else and_then (validate_event P ip e) (\<lambda>_.
        if int bytes > 16777216 then failure ''network_context_limit''
        else if (case map_of (in_unique st) (event_key e) of None \<Rightarrow> False
                 | Some before \<Rightarrow> ne_content_hash before \<noteq> ne_content_hash e) then failure ''conflicting_network_evidence''
        else take_in P ip events \<lparr>in_count = n, in_bytes = bytes, in_unique = dict_set (event_key e) e (in_unique st),
               in_coverage = in_coverage st @ ne_coverage e\<rparr>))"

definition group_key :: "network_event \<Rightarrow> string \<times> string \<times> string \<times> string \<times> string" where
  "group_key e = (ne_source_id e, ne_boot_id e, ne_source_profile_revision e, ne_src_ip e, ne_dst_ip e)"

definition order_key :: "network_event \<Rightarrow> string \<times> string \<times> int \<times> string" where
  "order_key e = (ne_source_id e, ne_boot_id e, ne_journal_monotonic_us e, ne_event_id e)"

definition report_of :: "py \<Rightarrow> maintenance_window list \<Rightarrow> intake \<Rightarrow> network_report" where
  "report_of P windows st =
     (let ordered = sort_key order_key (map snd (in_unique st));
          affected = clock_warnings ordered;
          chosen = filter eligible ordered;
          groups = sort_key fst (group_by group_key chosen)
      in \<lparr>nr_findings = concat (map (\<lambda>(k, rows). scan_group P rows windows ((fst k, fst (snd k)) \<in> set affected)) groups),
          nr_input_count = in_count st, nr_unique_count = length (in_unique st),
          nr_duplicate_count = in_count st - length (in_unique st),
          nr_eligible_count = length chosen, nr_excluded_count = length (in_unique st) - length chosen,
          nr_coverage = sorted_set (in_coverage st @ (if affected = [] then [] else [''journal_clock_discontinuity'']))\<rparr>)"

definition detect_network :: "py \<Rightarrow> ip_reader \<Rightarrow> network_event list \<Rightarrow> maintenance_window list \<Rightarrow> network_report result" where
  "detect_network P ip events maintenance =
     and_then (maintenance_windows ip maintenance) (\<lambda>windows.
     and_then (take_in P ip events \<lparr>in_count = 0, in_bytes = 0, in_unique = [], in_coverage = BASE_COVERAGE\<rparr>) (\<lambda>st.
       Inr (report_of P windows st)))"

section \<open>The scan finds exactly the qualifying windows\<close>

definition many_ports :: "network_event list \<Rightarrow> bool" where
  "many_ports win \<longleftrightarrow> MIN_DISTINCT_PORTS \<le> card (ne_dst_port ` set win)"

interpretation port_window: sliding_window ne_journal_monotonic_us WINDOW_US "[] :: nat option counter"
  "\<lambda>e. counter_add (ne_dst_port e)" "\<lambda>e. counter_drop (ne_dst_port e)" "\<lambda>n ports. MIN_DISTINCT_PORTS \<le> length ports"
  "\<lambda>ports win. counts_of ports (map ne_dst_port win)" many_ports
  by unfold_locales
    (auto simp: WINDOW_US_def many_ports_def counts_of_length intro: counts_of_add counts_of_drop)

lemma scan_intervals_coalesced:
  "sorted (map ne_journal_monotonic_us rows) \<Longrightarrow>
   coalesced (qualifying ne_journal_monotonic_us WINDOW_US many_ports rows) (scan_intervals rows)"
  unfolding scan_intervals_def by (rule port_window.scan_coalesces)

lemma WINDOW_US_nonneg: "0 \<le> WINDOW_US"
  by (simp add: WINDOW_US_def)

text \<open>Events of one row list that lie within the width and touch ten ports are together in one interval.\<close>

lemma scan_reports:
  assumes srt: "sorted (map ne_journal_monotonic_us rows)" and E: "E \<subseteq> set rows" "10 \<le> card (ne_dst_port ` E)"
    and near: "\<And>a b. a \<in> E \<Longrightarrow> b \<in> E \<Longrightarrow> ne_journal_monotonic_us b - ne_journal_monotonic_us a \<le> WINDOW_US"
  shows "\<exists>(s, e, c) \<in> set (scan_intervals rows). E \<subseteq> set (interval_rows rows s e)"
proof -
  let ?I = "{i. i < length rows \<and> rows ! i \<in> E}"
  define r where "r = Max ?I"
  have "E \<noteq> {}" using E(2) by auto
  then have "?I \<noteq> {}" "finite ?I" using E(1) by (force simp: in_set_conv_nth)+
  then have r: "r < length rows" "rows ! r \<in> E" "\<And>i. i < length rows \<Longrightarrow> rows ! i \<in> E \<Longrightarrow> i \<le> r"
    using Max_in [of ?I] Max_ge [of ?I] by (auto simp: r_def)
  have sub: "E \<subseteq> set (window_at ne_journal_monotonic_us WINDOW_US rows r)"
  proof
    fix e assume e: "e \<in> E"
    then obtain i where i: "i < length rows" "e = rows ! i" using E(1) by (metis in_set_conv_nth subsetD)
    with r e show "e \<in> set (window_at ne_journal_monotonic_us WINDOW_US rows r)"
      using window_at_member [OF r(1), of i ne_journal_monotonic_us WINDOW_US] near by simp
  qed
  have "card (ne_dst_port ` E) \<le> card (ne_dst_port ` set (window_at ne_journal_monotonic_us WINDOW_US rows r))"
    using sub by (intro card_mono image_mono) auto
  then have "many_ports (window_at ne_journal_monotonic_us WINDOW_US rows r)"
    using E(2) by (simp add: many_ports_def MIN_DISTINCT_PORTS_def)
  from window_reported [OF scan_intervals_coalesced [OF srt] r(1) this WINDOW_US_nonneg] sub show ?thesis by blast
qed

section \<open>The intake\<close>

definition keyed :: "((string \<times> string) \<times> network_event) list \<Rightarrow> bool" where
  "keyed unique \<longleftrightarrow> (\<forall>(k, e) \<in> set unique. k = event_key e)"

lemma set_dict_set: "x \<in> set (dict_set k v d) \<Longrightarrow> x = (k, v) \<or> x \<in> set d"
  by (induction d) (auto split: if_splits)

lemma length_dict_set: "length (dict_set k v d) \<le> Suc (length d)"
  by (induction d) auto

lemma take_in_spec:
  assumes "take_in P ip events st = Inr st'" and "keyed (in_unique st)"
  shows "keyed (in_unique st')" and "snd ` set (in_unique st') \<subseteq> snd ` set (in_unique st) \<union> set events"
    and "fst ` set (in_unique st) \<union> event_key ` set events \<subseteq> fst ` set (in_unique st')"
    and "in_count st' = in_count st + length events" and "length (in_unique st') \<le> length (in_unique st) + length events"
    and "list_all (\<lambda>e. validate_event P ip e = Inr ()) events"
proof -
  from assms have "keyed (in_unique st') \<and> snd ` set (in_unique st') \<subseteq> snd ` set (in_unique st) \<union> set events \<and>
    fst ` set (in_unique st) \<union> event_key ` set events \<subseteq> fst ` set (in_unique st') \<and>
    in_count st' = in_count st + length events \<and> length (in_unique st') \<le> length (in_unique st) + length events \<and>
    list_all (\<lambda>e. validate_event P ip e = Inr ()) events"
  proof (induction events arbitrary: st)
    case (Cons e events)
    let ?st = "\<lparr>in_count = Suc (in_count st), in_bytes = in_bytes st + event_bytes e,
      in_unique = dict_set (event_key e) e (in_unique st), in_coverage = in_coverage st @ ne_coverage e\<rparr>"
    from Cons.prems(1) have step: "take_in P ip events ?st = Inr st'" and v: "validate_event P ip e = Inr ()"
      by (auto simp: Let_def failure_def split: if_splits elim!: and_then_InrE)
    have "keyed (in_unique ?st)" using Cons.prems(2) by (fastforce simp: keyed_def dest: set_dict_set)
    note IH = Cons.IH [OF step this]
    have "snd ` set (dict_set (event_key e) e (in_unique st)) \<subseteq> insert e (snd ` set (in_unique st))"
      using set_dict_set by fastforce
    moreover have "snd ` set (in_unique st') \<subseteq> snd ` set (dict_set (event_key e) e (in_unique st)) \<union> set events"
      using IH by simp
    ultimately have "snd ` set (in_unique st') \<subseteq> snd ` set (in_unique st) \<union> set (e # events)" by simp blast
    moreover have "fst ` set (in_unique st) \<union> event_key ` set (e # events) \<subseteq> fst ` set (in_unique st')"
      using IH by (simp add: fst_set_dict_set)
    moreover have "length (in_unique st') \<le> length (in_unique st) + length (e # events)"
      using IH length_dict_set [of "event_key e" e "in_unique st"] by simp
    ultimately show ?case using IH v by simp
  qed simp
  then show "keyed (in_unique st')" "snd ` set (in_unique st') \<subseteq> snd ` set (in_unique st) \<union> set events"
    "fst ` set (in_unique st) \<union> event_key ` set events \<subseteq> fst ` set (in_unique st')"
    "in_count st' = in_count st + length events" "length (in_unique st') \<le> length (in_unique st) + length events"
    "list_all (\<lambda>e. validate_event P ip e = Inr ()) events"
    by blast+
qed

lemma detect_networkE:
  assumes "detect_network P ip events maintenance = Inr report"
  obtains windows st where "report = report_of P windows st" and "keyed (in_unique st)"
    and "snd ` set (in_unique st) \<subseteq> set events" and "event_key ` set events \<subseteq> fst ` set (in_unique st)"
    and "in_count st = length events" and "length (in_unique st) \<le> length events"
    and "list_all (\<lambda>e. validate_event P ip e = Inr ()) events"
proof -
  let ?init = "\<lparr>in_count = 0, in_bytes = 0, in_unique = [], in_coverage = BASE_COVERAGE\<rparr>"
  from assms obtain windows st where "take_in P ip events ?init = Inr st" "report = report_of P windows st"
    by (auto simp: detect_network_def elim!: and_then_InrE)
  moreover have "keyed (in_unique ?init)" by (simp add: keyed_def)
  ultimately show thesis using take_in_spec [of P ip events ?init st] by (intro that [of windows st]) auto
qed

section \<open>Groups\<close>

lemma group_sorted:
  assumes "sorted (map order_key rows)" and "\<And>e. e \<in> set rows \<Longrightarrow> group_key e = k"
  shows "sorted (map ne_journal_monotonic_us rows)"
proof -
  have "sorted_wrt (\<lambda>a b. order_key a \<le> order_key b) rows" using assms(1) by (simp add: sorted_map)
  then have "sorted_wrt (\<lambda>a b. ne_journal_monotonic_us a \<le> ne_journal_monotonic_us b) rows"
  proof (rule sorted_wrt_mono_rel [rotated])
    fix a b assume "a \<in> set rows" "b \<in> set rows" "order_key a \<le> order_key b"
    with assms(2) [of a] assms(2) [of b] show "ne_journal_monotonic_us a \<le> ne_journal_monotonic_us b"
      by (auto simp: order_key_def group_key_def less_eq_prod_def)
  qed
  then show ?thesis by (simp add: sorted_map)
qed

text \<open>The rows of a group: eligible events with its key, in monotonic order.\<close>

lemma report_groups:
  assumes "(k, rows) \<in> set (sort_key fst (group_by group_key (filter eligible (sort_key order_key (map snd (in_unique st))))))"
  shows "sorted (map ne_journal_monotonic_us rows)" and "set rows = {e \<in> snd ` set (in_unique st). eligible e \<and> group_key e = k}"
proof -
  let ?chosen = "filter eligible (sort_key order_key (map snd (in_unique st)))"
  have rows: "rows = filter (\<lambda>e. group_key e = k) ?chosen" using assms by (simp add: group_by_mem_iff)
  then show "set rows = {e \<in> snd ` set (in_unique st). eligible e \<and> group_key e = k}" by auto
  have "sorted (map order_key rows)" unfolding rows by (intro sorted_filter sorted_sort_key)
  then show "sorted (map ne_journal_monotonic_us rows)" by (rule group_sorted [where k = k]) (simp add: rows)
qed

lemma in_concat_map_pair: "x \<in> set (concat (map (\<lambda>(a, b). F a b) xs)) \<longleftrightarrow> (\<exists>a b. (a, b) \<in> set xs \<and> x \<in> set (F a b))"
  by auto

lemma report_findings:
  "f \<in> set (nr_findings (report_of P windows st)) \<longleftrightarrow>
    (\<exists>k rows. (k, rows) \<in> set (sort_key fst (group_by group_key (filter eligible (sort_key order_key (map snd (in_unique st)))))) \<and>
      f \<in> set (scan_group P rows windows ((fst k, fst (snd k)) \<in> set (clock_warnings (sort_key order_key (map snd (in_unique st)))))))"
  unfolding report_of_def Let_def network_report.select_convs by (rule in_concat_map_pair)

text \<open>
  Every multi-port probe in the input is reported. If some input events are eligible, belong to one source, boot,
  profile, and address pair, lie within five minutes of monotonic time and touch at least ten ports, and equal keys mean
  equal events, then one finding of the report has all of them as evidence.
\<close>

corollary probes_are_reported:
  assumes "detect_network P ip events maintenance = Inr report"
    and "\<And>a b. a \<in> set events \<Longrightarrow> b \<in> set events \<Longrightarrow> event_key a = event_key b \<Longrightarrow> a = b"
    and "E \<subseteq> set events" and "\<And>e. e \<in> E \<Longrightarrow> eligible e \<and> group_key e = k" and "10 \<le> card (ne_dst_port ` E)"
    and "\<And>a b. a \<in> E \<Longrightarrow> b \<in> E \<Longrightarrow> ne_journal_monotonic_us b - ne_journal_monotonic_us a \<le> WINDOW_US"
  shows "\<exists>f \<in> set (nr_findings report). ne_event_id ` E \<subseteq> set (nf_evidence_ids f)"
proof -
  obtain windows st where report: "report = report_of P windows st" and keyed: "keyed (in_unique st)"
    and sub: "snd ` set (in_unique st) \<subseteq> set events" and all: "event_key ` set events \<subseteq> fst ` set (in_unique st)"
    using assms(1) by (rule detect_networkE)
  let ?chosen = "filter eligible (sort_key order_key (map snd (in_unique st)))"
  let ?groups = "sort_key fst (group_by group_key ?chosen)"
  let ?rows = "filter (\<lambda>e. group_key e = k) ?chosen"
  have inE: "e \<in> snd ` set (in_unique st)" if "e \<in> E" for e
  proof -
    from that assms(3) all obtain e' where e': "(event_key e, e') \<in> set (in_unique st)" by fastforce
    then have "event_key e' = event_key e" "e' \<in> set events" using keyed sub by (force simp: keyed_def)+
    with assms(2,3) that have "e' = e" by blast
    with e' show ?thesis by force
  qed
  obtain e0 where "e0 \<in> E" using assms(5) by fastforce
  with inE assms(4) have "k \<in> group_key ` set ?chosen" by force
  then have g: "(k, ?rows) \<in> set ?groups" by (simp add: group_by_mem_iff)
  note rows = report_groups [OF g]
  have "E \<subseteq> set ?rows" using inE assms(4) by (auto simp only: rows(2))
  then obtain s e c where i: "(s, e, c) \<in> set (scan_intervals ?rows)" "E \<subseteq> set (interval_rows ?rows s e)"
    using scan_reports [OF rows(1) _ assms(5,6)] by blast
  define f where "f = finding_of P (interval_rows ?rows s e) c windows ((fst k, fst (snd k)) \<in> set (clock_warnings (sort_key order_key (map snd (in_unique st)))))"
  have "f \<in> set (scan_group P ?rows windows ((fst k, fst (snd k)) \<in> set (clock_warnings (sort_key order_key (map snd (in_unique st))))))"
    using i(1) by (force simp: scan_group_def f_def)
  then have "f \<in> set (nr_findings report)" unfolding report report_findings using g by blast
  moreover have "ne_event_id ` E \<subseteq> set (nf_evidence_ids f)" using i(2) by (auto simp: f_def finding_of_def Let_def)
  ultimately show ?thesis by blast
qed

lemma scan_finding_window:
  assumes srt: "sorted (map ne_journal_monotonic_us rows)" and f: "f \<in> set (scan_group P rows windows uncertain)"
  obtains s e c win where "f = finding_of P (interval_rows rows s e) c windows uncertain" and "s \<le> e" and "e < length rows"
    and "set win \<subseteq> set (interval_rows rows s e)" and "10 \<le> card (ne_dst_port ` set win)"
    and "\<forall>a \<in> set win. \<forall>b \<in> set win. ne_journal_monotonic_us b - ne_journal_monotonic_us a \<le> WINDOW_US"
proof -
  from f obtain s e c where i: "(s, e, c) \<in> set (scan_intervals rows)"
    and f': "f = finding_of P (interval_rows rows s e) c windows uncertain" by (auto simp: scan_group_def)
  note b = interval_bounds [OF scan_intervals_coalesced [OF srt] i WINDOW_US_nonneg]
  from b(3) obtain r where r: "r < length rows" "many_ports (window_at ne_journal_monotonic_us WINDOW_US rows r)"
    "set (window_at ne_journal_monotonic_us WINDOW_US rows r) \<subseteq> set (interval_rows rows s e)" by blast
  let ?win = "window_at ne_journal_monotonic_us WINDOW_US rows r"
  have "ne_journal_monotonic_us b - ne_journal_monotonic_us a \<le> WINDOW_US" if "a \<in> set ?win" "b \<in> set ?win" for a b
    using window_width [OF srt r(1)] that by blast
  with b(1,2) r f' show thesis by (intro that [of s e c ?win]) (auto simp: many_ports_def MIN_DISTINCT_PORTS_def)
qed

text \<open>
  C30: the scan of one group finds exactly the multi-port probes. For rows in monotonic order, every finding has among its evidence
  the events of a window of at most five minutes with at least ten ports; and any events of the group that lie within five
  minutes and touch at least ten ports are together in the evidence of one finding.
\<close>

theorem port_scan_exact:
  assumes "sorted (map ne_journal_monotonic_us rows)"
  shows "(\<forall>f \<in> set (scan_group P rows windows uncertain). \<exists>win. set win \<subseteq> set rows \<and> ne_event_id ` set win \<subseteq> set (nf_evidence_ids f) \<and>
      10 \<le> card (ne_dst_port ` set win) \<and>
      (\<forall>a \<in> set win. \<forall>b \<in> set win. ne_journal_monotonic_us b - ne_journal_monotonic_us a \<le> WINDOW_US)) \<and>
    (\<forall>E \<subseteq> set rows. 10 \<le> card (ne_dst_port ` E) \<longrightarrow>
      (\<forall>a \<in> E. \<forall>b \<in> E. ne_journal_monotonic_us b - ne_journal_monotonic_us a \<le> WINDOW_US) \<longrightarrow>
      (\<exists>f \<in> set (scan_group P rows windows uncertain). ne_event_id ` E \<subseteq> set (nf_evidence_ids f)))"
proof (intro conjI ballI allI impI)
  fix f assume "f \<in> set (scan_group P rows windows uncertain)"
  with assms obtain s e c win where f: "f = finding_of P (interval_rows rows s e) c windows uncertain" "e < length rows"
    and win: "set win \<subseteq> set (interval_rows rows s e)" "10 \<le> card (ne_dst_port ` set win)"
      "\<forall>a \<in> set win. \<forall>b \<in> set win. ne_journal_monotonic_us b - ne_journal_monotonic_us a \<le> WINDOW_US"
    by (rule scan_finding_window)
  have "set (interval_rows rows s e) \<subseteq> set rows" using f(2) by (auto simp: set_interval_rows)
  then have "set win \<subseteq> set rows" "ne_event_id ` set win \<subseteq> set (nf_evidence_ids f)"
    using win(1) by (auto simp: f(1) finding_of_def Let_def)
  with win(2,3) show "\<exists>win. set win \<subseteq> set rows \<and> ne_event_id ` set win \<subseteq> set (nf_evidence_ids f) \<and>
      10 \<le> card (ne_dst_port ` set win) \<and>
      (\<forall>a \<in> set win. \<forall>b \<in> set win. ne_journal_monotonic_us b - ne_journal_monotonic_us a \<le> WINDOW_US)" by blast
next
  fix E assume E: "E \<subseteq> set rows" "10 \<le> card (ne_dst_port ` E)"
    "\<forall>a \<in> E. \<forall>b \<in> E. ne_journal_monotonic_us b - ne_journal_monotonic_us a \<le> WINDOW_US"
  have "\<exists>(s, e, c) \<in> set (scan_intervals rows). E \<subseteq> set (interval_rows rows s e)"
    using E(3) by (intro scan_reports [OF assms E(1,2)]) simp
  then obtain s e c where i: "(s, e, c) \<in> set (scan_intervals rows)" "E \<subseteq> set (interval_rows rows s e)"
    by auto
  let ?f = "finding_of P (interval_rows rows s e) c windows uncertain"
  have "?f \<in> set (scan_group P rows windows uncertain)" unfolding scan_group_def set_map using i(1) by (rule rev_image_eqI) simp
  moreover have "ne_event_id ` E \<subseteq> set (nf_evidence_ids ?f)" using i(2) by (auto simp: finding_of_def Let_def)
  ultimately show "\<exists>f \<in> set (scan_group P rows windows uncertain). ne_event_id ` E \<subseteq> set (nf_evidence_ids f)"
    by blast
qed

text \<open>Ten rows of one source that touch ten ports.\<close>

definition probe_row :: "nat \<Rightarrow> network_event" where
  "probe_row i =
     \<lparr>ne_source_id = ''s1'', ne_schema_version = 1, ne_parser_version = PARSER_VERSION, ne_boot_id = ''b'', ne_journal_cursor = nat_str i,
      ne_event_id = nat_str i, ne_content_hash = [], ne_journal_realtime_us = int i, ne_journal_monotonic_us = int i,
      ne_transport = ''kernel'', ne_ip_family = 4, ne_src_ip = ''10.0.0.1'', ne_dst_ip = ''10.0.0.2'', ne_protocol = ''TCP'',
      ne_observed_protocol = ''TCP'', ne_src_port = Some 9, ne_dst_port = Some i, ne_tcp_flags = Some [''SYN''],
      ne_ingress_interface = Some ''eth0'', ne_egress_interface = None, ne_direction = ''local_input'', ne_observation_point = ''local_input'',
      ne_log_label = ''[B]'', ne_final_outcome = ''unknown'', ne_source_profile_revision = [], ne_coverage = [], ne_rejection_related = True\<rparr>"

definition probe_rows :: "network_event list" where
  "probe_rows = map probe_row [0, 1, 2, 3, 4, 5, 6, 7, 8, 9]"

theorem port_scan_exact_witness:
  "sorted (map ne_journal_monotonic_us probe_rows) \<and>
   (\<exists>f \<in> set (scan_group hex_py probe_rows [] False). ne_event_id ` set probe_rows \<subseteq> set (nf_evidence_ids f))"
proof -
  have "sorted (map ne_journal_monotonic_us probe_rows)" by (simp add: probe_rows_def probe_row_def)
  moreover have "ne_dst_port ` set probe_rows = Some ` {0, 1, 2, 3, 4, 5, 6, 7, 8, 9}"
    by (simp add: probe_rows_def probe_row_def)
  then have "card (ne_dst_port ` set probe_rows) = 10" by simp
  moreover have "\<forall>a \<in> set probe_rows. \<forall>b \<in> set probe_rows. ne_journal_monotonic_us b - ne_journal_monotonic_us a \<le> WINDOW_US"
    by (simp add: probe_rows_def probe_row_def WINDOW_US_def)
  ultimately show ?thesis
    using port_scan_exact [of probe_rows hex_py "[]" False] by simp
qed

lemma Some_map_filter: "(\<And>x. x \<in> set xs \<Longrightarrow> f x \<noteq> None) \<Longrightarrow> f ` set xs = Some ` set (List.map_filter f xs)"
proof (induction xs)
  case (Cons x xs)
  from Cons.prems [of x] obtain y where "f x = Some y" by auto
  with Cons show ?case by (simp add: List.map_filter_simps)
qed (simp add: List.map_filter_simps)

text \<open>
  Every finding of a report rests on eligible input events of one source, boot, profile and address pair, in monotonic order,
  and lists at least ten ports; every input event was validated; and the counts of the report add up.
\<close>

theorem findings_rest_on_input:
  assumes "detect_network P ip events maintenance = Inr report"
  shows "(\<forall>f \<in> set (nr_findings report). \<exists>rows. nf_evidence_ids f = map ne_event_id rows \<and> rows \<noteq> [] \<and>
      set rows \<subseteq> {e \<in> set events. eligible e \<and> group_key e = group_key (hd rows)} \<and>
      sorted (map ne_journal_monotonic_us rows) \<and> 10 \<le> length (nf_distinct_dst_ports f)) \<and>
    list_all (\<lambda>e. validate_event P ip e = Inr ()) events \<and>
    nr_input_count report = length events \<and> nr_unique_count report + nr_duplicate_count report = length events \<and>
    nr_eligible_count report + nr_excluded_count report = nr_unique_count report"
proof -
  obtain windows st where report: "report = report_of P windows st" and valid: "list_all (\<lambda>e. validate_event P ip e = Inr ()) events"
    and sub: "snd ` set (in_unique st) \<subseteq> set events" and n: "in_count st = length events" "length (in_unique st) \<le> length events"
    using assms by (rule detect_networkE)
  have "\<exists>rows. nf_evidence_ids f = map ne_event_id rows \<and> rows \<noteq> [] \<and>
      set rows \<subseteq> {e \<in> set events. eligible e \<and> group_key e = group_key (hd rows)} \<and>
      sorted (map ne_journal_monotonic_us rows) \<and> 10 \<le> length (nf_distinct_dst_ports f)" if "f \<in> set (nr_findings report)" for f
    using that unfolding report report_findings
  proof (elim exE conjE)
    fix k rows assume g: "(k, rows) \<in> set (sort_key fst (group_by group_key (filter eligible (sort_key order_key (map snd (in_unique st))))))"
      and f: "f \<in> set (scan_group P rows windows ((fst k, fst (snd k)) \<in> set (clock_warnings (sort_key order_key (map snd (in_unique st))))))"
    note r = report_groups [OF g]
    from r(1) f obtain s e c win where f': "f = finding_of P (interval_rows rows s e) c windows
        ((fst k, fst (snd k)) \<in> set (clock_warnings (sort_key order_key (map snd (in_unique st)))))" "s \<le> e" "e < length rows"
      and win: "set win \<subseteq> set (interval_rows rows s e)" "10 \<le> card (ne_dst_port ` set win)"
      by (rule scan_finding_window)
    let ?rows = "interval_rows rows s e"
    have rows: "set ?rows \<subseteq> set rows" "?rows \<noteq> []" using f'(2,3) by (auto simp: set_interval_rows) (auto simp: interval_rows_def)
    have "hd ?rows \<in> set rows" using rows by (meson hd_in_set subsetD)
    then have k: "group_key (hd ?rows) = k" using r(2) by simp
    have "sorted (map ne_journal_monotonic_us ?rows)"
      using r(1) by (simp add: interval_rows_def sorted_wrt_take sorted_wrt_drop flip: take_map drop_map)
    moreover have "10 \<le> length (nf_distinct_dst_ports f)"
    proof -
      have ports: "ne_dst_port ` set ?rows = Some ` set (List.map_filter ne_dst_port ?rows)"
      proof (rule Some_map_filter)
        fix e assume "e \<in> set ?rows"
        then have "eligible e" using rows(1) r(2) by auto
        then show "ne_dst_port e \<noteq> None" by (simp add: eligible_def)
      qed
      have "card (ne_dst_port ` set win) \<le> card (ne_dst_port ` set ?rows)" using win(1) by (intro card_mono image_mono) auto
      then have "10 \<le> card (set (List.map_filter ne_dst_port ?rows))" using win(2) unfolding ports by (simp add: card_image)
      then show ?thesis
        using distinct_card [OF sorted_set_props(2), of "List.map_filter ne_dst_port ?rows"]
        by (simp add: f'(1) finding_of_def Let_def)
    qed
    moreover have "set ?rows \<subseteq> {e \<in> set events. eligible e \<and> group_key e = group_key (hd ?rows)}"
      using rows(1) r(2) sub k by auto
    ultimately show ?thesis using rows(2) by (intro exI [of _ ?rows]) (simp add: f'(1) finding_of_def Let_def)
  qed
  moreover have "length (filter eligible (sort_key order_key (map snd (in_unique st)))) \<le> length (in_unique st)"
    by (metis length_filter_le length_map length_sort)
  ultimately show ?thesis using valid n by (auto simp: report report_of_def Let_def)
qed

definition sample_events :: "network_event list" where
  "sample_events = (case build_event hex_py two_hosts sample_profile sample_journal of Inr e \<Rightarrow> [e] | Inl _ \<Rightarrow> [])"

lemma sample_detected: "case detect_network hex_py two_hosts sample_events [] of Inr report \<Rightarrow> nr_eligible_count report = 1 | _ \<Rightarrow> False"
  by code_simp

theorem findings_rest_on_input_witness:
  "\<exists>report. detect_network hex_py two_hosts sample_events [] = Inr report \<and> nr_eligible_count report = 1 \<and>
    list_all (\<lambda>e. validate_event hex_py two_hosts e = Inr ()) sample_events \<and>
    nr_unique_count report + nr_duplicate_count report = length sample_events"
proof -
  obtain report where r: "detect_network hex_py two_hosts sample_events [] = Inr report" "nr_eligible_count report = 1"
    using sample_detected by (auto split: sum.splits)
  from findings_rest_on_input [OF r(1)] r show ?thesis by blast
qed

end
