(* ===== verification/Detection.thy ===== *)
theory Detection
  imports Py_Json Windows
begin

text \<open>
  \<open>app/telemetry/detection.py\<close>: rolling-window correlation of normalized SSH records. The failure rules are an
  instance of the rolling-window contract of \<open>Windows\<close>; the rule for a success after failures moves two pointers over the
  failures, and is shown to select exactly the successes with enough failures strictly before them.

  \<open>to_float\<close> is \<open>float(v)\<close> of a decoded value, \<open>None\<close> when it raises or is not finite. Times are exact rationals.
\<close>

section \<open>Records and rules\<close>

record rule_match =
  rm_rule_id :: string
  rm_rule_version :: nat
  rm_window_seconds :: nat
  rm_evidence :: "row list"
  rm_reason :: string

record auth_event =
  ev_row :: row
  ev_key :: "string \<times> string"
  ev_source :: string
  ev_peer :: string
  ev_at :: rat
  ev_kind :: string
  ev_user :: "string option"

record failure_rule =
  fr_rule_id :: string
  fr_window :: nat
  fr_records :: nat
  fr_users :: nat
  fr_sources :: nat

definition FAILURE_TYPES :: "string list" where
  "FAILURE_TYPES = [''auth_failure'', ''invalid_user'', ''preauth_abort'', ''ssh_failure'']"

definition SUCCESS_TYPES :: "string list" where
  "SUCCESS_TYPES = [''auth_success'', ''ssh_success'']"

definition AUTHENTICATION_FAILURE_TYPES :: "string list" where
  "AUTHENTICATION_FAILURE_TYPES = [''auth_failure'', ''invalid_user'', ''ssh_failure'']"

definition SUCCESS_WINDOW_SECONDS :: nat where "SUCCESS_WINDOW_SECONDS = 1800"
definition SUCCESS_MIN_FAILURES :: nat where "SUCCESS_MIN_FAILURES = 3"

definition LOCAL_RULES :: "failure_rule list" where
  "LOCAL_RULES =
     [\<lparr>fr_rule_id = ''slow_scan'', fr_window = 7200, fr_records = 12, fr_users = 0, fr_sources = 1\<rparr>,
      \<lparr>fr_rule_id = ''multi_account'', fr_window = 7200, fr_records = 6, fr_users = 3, fr_sources = 1\<rparr>]"

definition BURST_RULE :: failure_rule where
  "BURST_RULE = \<lparr>fr_rule_id = ''burst'', fr_window = 300, fr_records = 3, fr_users = 0, fr_sources = 1\<rparr>"

definition CROSS_SOURCE_RULE :: failure_rule where
  "CROSS_SOURCE_RULE = \<lparr>fr_rule_id = ''cross_source'', fr_window = 1800, fr_records = 6, fr_users = 0, fr_sources = 2\<rparr>"

section \<open>Normalization\<close>

fun row_text :: "row \<Rightarrow> string list \<Rightarrow> string option" where
  "row_text r [] = None"
| "row_text r (name # names) = (case map_of r name of
     Some (JStr value) \<Rightarrow> if strip value \<noteq> [] then Some (strip value) else row_text r names
   | _ \<Rightarrow> row_text r names)"

definition event_time :: "(json \<Rightarrow> rat option) \<Rightarrow> row \<Rightarrow> rat option" where
  "event_time to_float r = (case map_of r ''event_ts'' of
     Some (JBool _) \<Rightarrow> None | Some v \<Rightarrow> to_float v | None \<Rightarrow> to_float JNull)"

definition normalize_row :: "(json \<Rightarrow> rat option) \<Rightarrow> row \<Rightarrow> auth_event option" where
  "normalize_row to_float r = do {
     source \<leftarrow> row_text r [''source_id''];
     event_id \<leftarrow> row_text r [''event_id''];
     peer \<leftarrow> row_text r [''src_ip'', ''peer_ip''];
     kind \<leftarrow> row_text r [''event_type'', ''event_kind''];
     t \<leftarrow> event_time to_float r;
     Some \<lparr>ev_row = r, ev_key = (source, event_id), ev_source = source, ev_peer = peer, ev_at = t, ev_kind = kind,
       ev_user = row_text r [''ssh_user'', ''username'']\<rparr> }"

fun normalize_loop :: "(json \<Rightarrow> rat option) \<Rightarrow> (string \<times> string) list \<Rightarrow> row list \<Rightarrow> auth_event list" where
  "normalize_loop to_float seen [] = []"
| "normalize_loop to_float seen (r # rows) =
     (case normalize_row to_float r of
        None \<Rightarrow> normalize_loop to_float seen rows
      | Some e \<Rightarrow> if ev_key e \<in> set seen then normalize_loop to_float seen rows
          else e # normalize_loop to_float (ev_key e # seen) rows)"

definition time_key :: "auth_event \<Rightarrow> rat \<times> string \<times> string" where
  "time_key e = (ev_at e, ev_key e)"

definition normalize_events :: "(json \<Rightarrow> rat option) \<Rightarrow> row list \<Rightarrow> auth_event list" where
  "normalize_events to_float rows = sort_key time_key (normalize_loop to_float [] rows)"

section \<open>Failure rules\<close>

type_synonym tallies = "string counter \<times> string counter \<times> nat"

definition tally_enter :: "(string \<times> string) list \<Rightarrow> auth_event \<Rightarrow> tallies \<Rightarrow> tallies" where
  "tally_enter triggers e st = (case st of (users, sources, triggered) \<Rightarrow>
     (case ev_user e of Some u \<Rightarrow> counter_add u users | None \<Rightarrow> users, counter_add (ev_source e) sources,
      triggered + (if ev_key e \<in> set triggers then 1 else 0)))"

definition tally_leave :: "(string \<times> string) list \<Rightarrow> auth_event \<Rightarrow> tallies \<Rightarrow> tallies" where
  "tally_leave triggers e st = (case st of (users, sources, triggered) \<Rightarrow>
     (case ev_user e of Some u \<Rightarrow> counter_drop u users | None \<Rightarrow> users, counter_drop (ev_source e) sources,
      triggered - (if ev_key e \<in> set triggers then 1 else 0)))"

definition rule_holds :: "failure_rule \<Rightarrow> nat \<Rightarrow> tallies \<Rightarrow> bool" where
  "rule_holds rule n st = (case st of (users, sources, triggered) \<Rightarrow>
     triggered \<noteq> 0 \<and> fr_records rule \<le> n \<and> fr_users rule \<le> length users \<and> fr_sources rule \<le> length sources)"

definition failure_intervals :: "auth_event list \<Rightarrow> (string \<times> string) list \<Rightarrow> failure_rule \<Rightarrow> interval list" where
  "failure_intervals events triggers rule =
     window_scan ev_at (of_nat (fr_window rule)) ([], [], 0) (tally_enter triggers) (tally_leave triggers) (rule_holds rule) events"

definition failure_condition :: "failure_rule \<Rightarrow> string" where
  "failure_condition rule = ''At least '' @ nat_str (fr_records rule) @ '' failed SSH log records'' @
     (if fr_users rule \<noteq> 0 then '' involving at least '' @ nat_str (fr_users rule) @ '' nonempty usernames'' else []) @
     (if fr_sources rule > 1 then '' across at least '' @ nat_str (fr_sources rule) @ '' sources'' else []) @
     '' in a '' @ nat_str (fr_window rule div 60) @ ''-minute rolling window.''"

definition failure_matches :: "auth_event list \<Rightarrow> (string \<times> string) list \<Rightarrow> failure_rule \<Rightarrow> rule_match list" where
  "failure_matches events triggers rule = map (\<lambda>(start, final, n).
     \<lparr>rm_rule_id = fr_rule_id rule, rm_rule_version = 1, rm_window_seconds = fr_window rule,
      rm_evidence = map ev_row (interval_rows events start final),
      rm_reason = failure_condition rule @ '' '' @ nat_str n @ '' qualifying window(s) linked by shared evidence; '' @
        nat_str (final - start + 1) @ '' log records retained.''\<rparr>) (failure_intervals events triggers rule)"

section \<open>Success after failures\<close>

definition trigger_bit :: "(string \<times> string) list \<Rightarrow> auth_event \<Rightarrow> nat" where
  "trigger_bit triggers e = (if ev_key e \<in> set triggers then 1 else 0)"

fun advance_right :: "(string \<times> string) list \<Rightarrow> rat \<Rightarrow> auth_event list \<Rightarrow> nat \<Rightarrow> nat \<Rightarrow> nat \<times> nat" where
  "advance_right triggers now [] right triggered = (right, triggered)"
| "advance_right triggers now (f # rest) right triggered =
     (if ev_at f < now then advance_right triggers now rest (Suc right) (triggered + trigger_bit triggers f)
      else (right, triggered))"

fun advance_left :: "(string \<times> string) list \<Rightarrow> rat \<Rightarrow> nat \<Rightarrow> auth_event list \<Rightarrow> nat \<Rightarrow> nat \<Rightarrow> nat \<times> nat" where
  "advance_left triggers oldest right [] left triggered = (left, triggered)"
| "advance_left triggers oldest right (f # rest) left triggered =
     (if left < right \<and> ev_at f < oldest
      then advance_left triggers oldest right rest (Suc left) (triggered - trigger_bit triggers f)
      else (left, triggered))"

type_synonym success_component = "nat \<times> nat \<times> auth_event list"

definition add_success :: "nat \<Rightarrow> nat \<Rightarrow> auth_event \<Rightarrow> success_component list \<Rightarrow> success_component list" where
  "add_success left right success components =
     (if components \<noteq> [] \<and> left < fst (snd (last components))
      then butlast components @ [(fst (last components), right, snd (snd (last components)) @ [success])]
      else components @ [(left, right, [success])])"

fun success_loop :: "auth_event list \<Rightarrow> (string \<times> string) list \<Rightarrow> auth_event list \<Rightarrow> nat \<Rightarrow> nat \<Rightarrow> nat \<Rightarrow> success_component list
    \<Rightarrow> success_component list" where
  "success_loop failures triggers [] left right triggered components = components"
| "success_loop failures triggers (success # rest) left right triggered components =
     (case advance_right triggers (ev_at success) (drop right failures) right triggered of (right, triggered) \<Rightarrow>
      case advance_left triggers (ev_at success - of_nat SUCCESS_WINDOW_SECONDS) right (drop left failures) left triggered of (left, triggered) \<Rightarrow>
        success_loop failures triggers rest left right triggered
          (if right - left < SUCCESS_MIN_FAILURES \<or> \<not> (triggered \<noteq> 0 \<or> ev_key success \<in> set triggers) then components
           else add_success left right success components))"

definition success_components :: "auth_event list \<Rightarrow> (string \<times> string) list \<Rightarrow> success_component list" where
  "success_components events triggers =
     success_loop (filter (\<lambda>e. ev_kind e \<in> set AUTHENTICATION_FAILURE_TYPES) events) triggers
       (filter (\<lambda>e. ev_kind e \<in> set SUCCESS_TYPES) events) 0 0 0 []"

definition success_matches :: "auth_event list \<Rightarrow> (string \<times> string) list \<Rightarrow> rule_match list" where
  "success_matches events triggers =
     (let failures = filter (\<lambda>e. ev_kind e \<in> set AUTHENTICATION_FAILURE_TYPES) events in
      map (\<lambda>(start, final, successes).
        let evidence = sort_key time_key (take (final - start) (drop start failures) @ successes) in
        \<lparr>rm_rule_id = ''success_after_failures'', rm_rule_version = 2, rm_window_seconds = SUCCESS_WINDOW_SECONDS,
         rm_evidence = map ev_row evidence,
         rm_reason = ''Authentication succeeded strictly after at least '' @ nat_str SUCCESS_MIN_FAILURES @
           '' failed SSH authentication records (excluding pre-authentication disconnects) in the preceding '' @
           nat_str (SUCCESS_WINDOW_SECONDS div 60) @ '' minutes on the same source. '' @ nat_str (length successes) @
           '' qualifying window(s) linked by shared evidence; '' @ nat_str (length evidence) @ '' log records retained.''\<rparr>)
      (success_components events triggers))"

section \<open>The detector\<close>

definition detect_matches :: "(json \<Rightarrow> rat option) \<Rightarrow> row list \<Rightarrow> (string \<times> string) list \<Rightarrow> bool \<Rightarrow> rule_match list" where
  "detect_matches to_float rows triggers include_burst =
     (if triggers = [] then []
      else let events = normalize_events to_float rows;
        local = group_by (\<lambda>e. (ev_source e, ev_peer e)) (filter (\<lambda>e. ev_kind e \<in> set (FAILURE_TYPES @ SUCCESS_TYPES)) events);
        peers = group_by ev_peer (filter (\<lambda>e. ev_kind e \<in> set FAILURE_TYPES) events);
        rules = (if include_burst then BURST_RULE # LOCAL_RULES else LOCAL_RULES)
      in concat (map (\<lambda>(k, records).
             concat (map (failure_matches (filter (\<lambda>e. ev_kind e \<in> set FAILURE_TYPES) records) triggers) rules) @
             success_matches records triggers) (sort_key fst local)) @
         concat (map (\<lambda>(k, records). failure_matches records triggers CROSS_SOURCE_RULE) (sort_key fst peers)))"

section \<open>The failure rules judge every window\<close>

definition window_matches :: "(string \<times> string) list \<Rightarrow> failure_rule \<Rightarrow> auth_event list \<Rightarrow> bool" where
  "window_matches triggers rule win \<longleftrightarrow> (\<exists>e \<in> set win. ev_key e \<in> set triggers) \<and> fr_records rule \<le> length win \<and>
     fr_users rule \<le> card {u. \<exists>e \<in> set win. ev_user e = Some u} \<and> fr_sources rule \<le> card (ev_source ` set win)"

definition tallies_follow :: "(string \<times> string) list \<Rightarrow> tallies \<Rightarrow> auth_event list \<Rightarrow> bool" where
  "tallies_follow triggers st win \<longleftrightarrow> (case st of (users, sources, triggered) \<Rightarrow>
     counts_of users (List.map_filter ev_user win) \<and> counts_of sources (map ev_source win) \<and>
     triggered = length (filter (\<lambda>e. ev_key e \<in> set triggers) win))"

lemma map_filter_append: "List.map_filter f (xs @ ys) = List.map_filter f xs @ List.map_filter f ys"
  by (simp add: List.map_filter_def)

lemma tallies_enter: "tallies_follow triggers st win \<Longrightarrow> tallies_follow triggers (tally_enter triggers e st) (win @ [e])"
  by (auto simp: tallies_follow_def tally_enter_def map_filter_append List.map_filter_simps counts_of_add split: option.splits)

lemma tallies_leave: "tallies_follow triggers st (e # win) \<Longrightarrow> tallies_follow triggers (tally_leave triggers e st) win"
  by (auto simp: tallies_follow_def tally_leave_def List.map_filter_simps split: option.splits intro: counts_of_drop)

lemma set_map_filter_user: "set (List.map_filter f xs) = {u. \<exists>e \<in> set xs. f e = Some u}"
  by (induction xs) (auto simp: List.map_filter_simps split: option.splits)

lemma tallies_rule: "tallies_follow triggers st win \<Longrightarrow> rule_holds rule (length win) st = window_matches triggers rule win"
  by (auto simp: tallies_follow_def rule_holds_def window_matches_def counts_of_length set_map_filter_user filter_empty_conv)

interpretation failure_window: sliding_window ev_at "of_nat (fr_window rule)" "([], [], 0) :: tallies"
  "tally_enter triggers" "tally_leave triggers" "rule_holds rule" "tallies_follow triggers" "window_matches triggers rule"
  for triggers rule
  by unfold_locales
    (simp_all add: tallies_enter tallies_leave tallies_rule, simp add: tallies_follow_def List.map_filter_simps)

lemma failure_intervals_coalesced:
  "sorted (map ev_at events) \<Longrightarrow>
   coalesced (qualifying ev_at (of_nat (fr_window rule)) (window_matches triggers rule) events) (failure_intervals events triggers rule)"
  unfolding failure_intervals_def by (rule failure_window.scan_coalesces)

lemma failure_match_windows:
  assumes srt: "sorted (map ev_at events)"
  shows "m \<in> set (failure_matches events triggers rule) \<Longrightarrow>
      \<exists>right < length events. window_matches triggers rule (window_at ev_at (of_nat (fr_window rule)) events right) \<and>
        ev_row ` set (window_at ev_at (of_nat (fr_window rule)) events right) \<subseteq> set (rm_evidence m)"
    and "right < length events \<Longrightarrow> window_matches triggers rule (window_at ev_at (of_nat (fr_window rule)) events right) \<Longrightarrow>
      \<exists>m \<in> set (failure_matches events triggers rule).
        ev_row ` set (window_at ev_at (of_nat (fr_window rule)) events right) \<subseteq> set (rm_evidence m)"
proof -
  note c = failure_intervals_coalesced [OF srt, of rule triggers]
  have w: "0 \<le> (of_nat (fr_window rule) :: rat)" by simp
  show "\<exists>right < length events. window_matches triggers rule (window_at ev_at (of_nat (fr_window rule)) events right) \<and>
        ev_row ` set (window_at ev_at (of_nat (fr_window rule)) events right) \<subseteq> set (rm_evidence m)"
    if "m \<in> set (failure_matches events triggers rule)"
  proof -
    from that obtain s e n where i: "(s, e, n) \<in> set (failure_intervals events triggers rule)"
      and m: "rm_evidence m = map ev_row (interval_rows events s e)" by (auto simp: failure_matches_def)
    from interval_bounds(3) [OF c i w] show ?thesis unfolding m set_map by (meson image_mono)
  qed
  show "\<exists>m \<in> set (failure_matches events triggers rule).
        ev_row ` set (window_at ev_at (of_nat (fr_window rule)) events right) \<subseteq> set (rm_evidence m)"
    if "right < length events" "window_matches triggers rule (window_at ev_at (of_nat (fr_window rule)) events right)"
  proof -
    from window_reported [OF c that w] obtain s e n where i: "(s, e, n) \<in> set (failure_intervals events triggers rule)"
      "set (window_at ev_at (of_nat (fr_window rule)) events right) \<subseteq> set (interval_rows events s e)" by auto
    from i(1) obtain m where "m \<in> set (failure_matches events triggers rule)" "rm_evidence m = map ev_row (interval_rows events s e)"
      by (force simp: failure_matches_def)
    with i(2) show ?thesis by (metis image_mono list.set_map)
  qed
qed

text \<open>
  C31: a failure rule reports exactly its windows. For events in time order, the rows of every match include a window that ends at some
  event, spans at most the rule's time and meets the rule (enough records, users and sources, and a trigger record); and every such window
  is inside one match. The incremental counters never miss or invent a window.
\<close>

theorem failure_rule_exact:
  assumes "sorted (map ev_at events)"
  shows "(\<forall>m \<in> set (failure_matches events triggers rule).
      \<exists>right < length events. window_matches triggers rule (window_at ev_at (of_nat (fr_window rule)) events right) \<and>
        ev_row ` set (window_at ev_at (of_nat (fr_window rule)) events right) \<subseteq> set (rm_evidence m)) \<and>
    (\<forall>right < length events. window_matches triggers rule (window_at ev_at (of_nat (fr_window rule)) events right) \<longrightarrow>
      (\<exists>m \<in> set (failure_matches events triggers rule).
        ev_row ` set (window_at ev_at (of_nat (fr_window rule)) events right) \<subseteq> set (rm_evidence m)))"
  using failure_match_windows [OF assms] by blast

definition ssh_record :: "string \<Rightarrow> nat \<Rightarrow> string \<Rightarrow> auth_event" where
  "ssh_record i t kind = \<lparr>ev_row = [(''event_id'', JStr i)], ev_key = (''s1'', i), ev_source = ''s1'', ev_peer = ''192.0.2.1'',
     ev_at = of_nat t, ev_kind = kind, ev_user = None\<rparr>"

definition ssh_burst :: "auth_event list" where
  "ssh_burst = [ssh_record ''a'' 0 ''auth_failure'', ssh_record ''b'' 60 ''invalid_user'', ssh_record ''c'' 120 ''auth_failure'']"

theorem failure_rule_exact_witness:
  "sorted (map ev_at ssh_burst) \<and>
   (\<exists>m \<in> set (failure_matches ssh_burst [(''s1'', ''b'')] BURST_RULE). ev_row ` set ssh_burst \<subseteq> set (rm_evidence m))"
proof -
  have srt: "sorted (map ev_at ssh_burst)" by (simp add: ssh_burst_def ssh_record_def)
  have w: "window_at ev_at (of_nat (fr_window BURST_RULE)) ssh_burst 2 = ssh_burst"
    by (simp add: window_at_def window_start_def interval_rows_def ssh_burst_def ssh_record_def BURST_RULE_def)
  have "window_matches [(''s1'', ''b'')] BURST_RULE ssh_burst"
    by (simp add: window_matches_def ssh_burst_def ssh_record_def BURST_RULE_def)
  moreover have "2 < length ssh_burst" by (simp add: ssh_burst_def)
  ultimately show ?thesis
    using failure_rule_exact [OF srt, of "[(''s1'', ''b'')]" BURST_RULE] srt w by metis
qed

section \<open>Successes with enough failures before them\<close>

definition failures_before :: "auth_event list \<Rightarrow> auth_event \<Rightarrow> auth_event list" where
  "failures_before failures success =
     filter (\<lambda>f. ev_at success - of_nat SUCCESS_WINDOW_SECONDS \<le> ev_at f \<and> ev_at f < ev_at success) failures"

definition success_qualifies :: "auth_event list \<Rightarrow> (string \<times> string) list \<Rightarrow> auth_event \<Rightarrow> bool" where
  "success_qualifies failures triggers success \<longleftrightarrow> SUCCESS_MIN_FAILURES \<le> length (failures_before failures success) \<and>
     (\<exists>e \<in> insert success (set (failures_before failures success)). ev_key e \<in> set triggers)"

definition older :: "auth_event list \<Rightarrow> rat \<Rightarrow> nat" where
  "older failures t = length (takeWhile (\<lambda>f. ev_at f < t) failures)"

definition bits :: "(string \<times> string) list \<Rightarrow> auth_event list \<Rightarrow> nat" where
  "bits triggers fs = length (filter (\<lambda>e. ev_key e \<in> set triggers) fs)"

lemma bits_simps [simp]:
  "bits triggers [] = 0" "bits triggers (f # fs) = trigger_bit triggers f + bits triggers fs"
  "bits triggers (fs @ gs) = bits triggers fs + bits triggers gs"
  by (auto simp: bits_def trigger_bit_def)

lemma advance_right_spec:
  "advance_right triggers now rest right t =
     (right + older rest now, t + bits triggers (takeWhile (\<lambda>f. ev_at f < now) rest))"
  by (induction rest arbitrary: right t) (auto simp: older_def)

lemma advance_left_spec:
  "left + older rest oldest \<le> right \<Longrightarrow> advance_left triggers oldest right rest left t =
     (left + older rest oldest, t - bits triggers (takeWhile (\<lambda>f. ev_at f < oldest) rest))"
  by (induction rest arbitrary: left t) (auto simp: older_def)

text \<open>Moving a pointer on from where it was is finding it afresh.\<close>

lemma takeWhile_from:
  assumes "\<forall>f \<in> set (take k fs). P f"
  shows "takeWhile P fs = take k fs @ takeWhile P (drop k fs)"
  using takeWhile_append2 [of "take k fs" P "drop k fs"] assms by simp

lemma older_from: "\<forall>f \<in> set (take k fs). ev_at f < t \<Longrightarrow> k \<le> length fs \<Longrightarrow> k + older (drop k fs) t = older fs t"
  using takeWhile_from [of k fs "\<lambda>f. ev_at f < t"] by (simp add: older_def)

lemma older_take: "take (older fs t) fs = takeWhile (\<lambda>f. ev_at f < t) fs"
  unfolding older_def by (rule takeWhile_eq_take [symmetric])

lemma older_mono: "s \<le> t \<Longrightarrow> older fs s \<le> older fs t"
  unfolding older_def by (induction fs) auto

lemma older_le: "older fs t \<le> length fs"
  by (simp add: older_def length_takeWhile_le)

lemma filter_sorted_less: "sorted (map ev_at fs) \<Longrightarrow> filter (\<lambda>f. ev_at f < t) fs = takeWhile (\<lambda>f. ev_at f < t) fs"
proof (induction fs)
  case (Cons f fs)
  show ?case
  proof (cases "ev_at f < t")
    case False
    with Cons.prems have "\<forall>g \<in> set fs. \<not> ev_at g < t" by auto
    with False show ?thesis by (simp add: filter_empty_conv)
  qed (use Cons in simp)
qed simp

lemma filter_sorted_ge: "sorted (map ev_at fs) \<Longrightarrow> filter (\<lambda>f. s \<le> ev_at f) fs = dropWhile (\<lambda>f. ev_at f < s) fs"
proof (induction fs)
  case (Cons f fs)
  show ?case
  proof (cases "ev_at f < s")
    case False
    with Cons.prems have "\<forall>g \<in> set fs. s \<le> ev_at g" by auto
    with False show ?thesis by (simp add: filter_id_conv)
  qed (use Cons in simp)
qed simp

lemma sorted_takeWhile_at: "sorted (map ev_at fs) \<Longrightarrow> sorted (map ev_at (takeWhile P fs))"
  by (metis sorted_wrt_take take_map takeWhile_eq_take)

lemma failures_before_slice:
  assumes "sorted (map ev_at failures)"
  shows "failures_before failures success = drop (older failures (ev_at success - of_nat SUCCESS_WINDOW_SECONDS)) (take (older failures (ev_at success)) failures)"
proof -
  let ?s = "ev_at success - of_nat SUCCESS_WINDOW_SECONDS" and ?t = "ev_at success"
  have "failures_before failures success = filter (\<lambda>f. ?s \<le> ev_at f) (filter (\<lambda>f. ev_at f < ?t) failures)"
    by (simp add: failures_before_def conj_commute)
  also have "\<dots> = dropWhile (\<lambda>f. ev_at f < ?s) (takeWhile (\<lambda>f. ev_at f < ?t) failures)"
    using assms by (simp add: filter_sorted_less filter_sorted_ge sorted_takeWhile_at)
  also have "\<dots> = drop (older (takeWhile (\<lambda>f. ev_at f < ?t) failures) ?s) (takeWhile (\<lambda>f. ev_at f < ?t) failures)"
    by (simp add: older_def dropWhile_eq_drop)
  also have "older (takeWhile (\<lambda>f. ev_at f < ?t) failures) ?s = older failures ?s"
  proof -
    have "takeWhile (\<lambda>f. ev_at f < ?s) (takeWhile (\<lambda>f. ev_at f < ?t) failures) = takeWhile (\<lambda>f. ev_at f < ?s) failures"
      by (induction failures) auto
    then show ?thesis by (simp add: older_def)
  qed
  finally show ?thesis by (simp add: older_take)
qed

definition succs :: "success_component list \<Rightarrow> auth_event list" where
  "succs cs = concat (map (\<lambda>c. snd (snd c)) cs)"

definition recent_from :: "auth_event list \<Rightarrow> auth_event \<Rightarrow> nat" where
  "recent_from failures s = older failures (ev_at s - of_nat SUCCESS_WINDOW_SECONDS)"

definition earlier_upto :: "auth_event list \<Rightarrow> auth_event \<Rightarrow> nat" where
  "earlier_upto failures s = older failures (ev_at s)"

definition covers :: "auth_event list \<Rightarrow> success_component \<Rightarrow> bool" where
  "covers failures c \<longleftrightarrow> (\<forall>s \<in> set (snd (snd c)). fst c \<le> recent_from failures s \<and> earlier_upto failures s \<le> fst (snd c))"

definition components_ok :: "auth_event list \<Rightarrow> nat \<Rightarrow> nat \<Rightarrow> success_component list \<Rightarrow> bool" where
  "components_ok failures left right cs \<longleftrightarrow> list_all (covers failures) cs \<and>
     (cs \<noteq> [] \<longrightarrow> fst (last cs) \<le> left \<and> fst (snd (last cs)) \<le> right)"

lemma recent_le_earlier: "recent_from failures s \<le> earlier_upto failures s"
  unfolding recent_from_def earlier_upto_def by (rule older_mono) simp

lemma failures_before_eq:
  "sorted (map ev_at failures) \<Longrightarrow>
   failures_before failures s = drop (recent_from failures s) (take (earlier_upto failures s) failures)"
  by (simp add: failures_before_slice recent_from_def earlier_upto_def)

lemma succs_add: "succs (add_success l r s cs) = succs cs @ [s]"
proof (cases cs rule: rev_cases)
  case (snoc ds d)
  then show ?thesis by (cases d) (simp add: add_success_def succs_def)
qed (simp add: add_success_def succs_def)

lemma components_ok_add:
  assumes "components_ok failures l r cs" and "l \<le> recent_from failures s" and "r \<le> earlier_upto failures s"
  shows "components_ok failures (recent_from failures s) (earlier_upto failures s)
    (add_success (recent_from failures s) (earlier_upto failures s) s cs)"
proof (cases cs rule: rev_cases)
  case Nil
  then show ?thesis by (simp add: add_success_def components_ok_def covers_def)
next
  case (snoc ds d)
  obtain a b ms where d: "d = (a, b, ms)" by (cases d)
  have a: "a \<le> l" and b: "b \<le> r" and ds: "list_all (covers failures) ds" and ms: "covers failures (a, b, ms)"
    using assms(1) by (simp_all add: components_ok_def snoc d)
  show ?thesis
  proof (cases "recent_from failures s < b")
    case True
    have "covers failures (a, earlier_upto failures s, ms @ [s])"
      unfolding covers_def fst_conv snd_conv
    proof (intro ballI)
      fix x assume "x \<in> set (ms @ [s])"
      with ms consider "a \<le> recent_from failures x" "earlier_upto failures x \<le> b" | "x = s" by (auto simp: covers_def)
      then show "a \<le> recent_from failures x \<and> earlier_upto failures x \<le> earlier_upto failures s"
        by cases (use a b assms(2,3) in linarith, use a assms(2) in simp)
    qed
    with True ds a assms(2) show ?thesis by (simp add: add_success_def components_ok_def snoc d)
  next
    case False
    with ds ms show ?thesis by (simp add: add_success_def components_ok_def snoc d) (simp add: covers_def)
  qed
qed

lemma components_ok_mono: "components_ok failures l r cs \<Longrightarrow> l \<le> l' \<Longrightarrow> r \<le> r' \<Longrightarrow> components_ok failures l' r' cs"
  by (auto simp: components_ok_def)

lemma drop_take_split: "l \<le> m \<Longrightarrow> m \<le> r \<Longrightarrow> drop l (take r xs) = drop l (take m xs) @ drop m (take r xs)"
  using take_add [of "m - l" "r - m" "drop l xs"] by (simp add: drop_take)

text \<open>The pointers for a success, from pointers that were right for an earlier bound.\<close>

lemma pointers_step:
  assumes srt: "sorted (map ev_at failures)" and ptr: "left \<le> right" "right \<le> length failures"
    and old: "\<forall>f \<in> set (take right failures). ev_at f < ev_at s"
      "\<forall>f \<in> set (take left failures). ev_at f < ev_at s - of_nat SUCCESS_WINDOW_SECONDS"
    and t: "t = bits triggers (drop left (take right failures))"
  shows "advance_right triggers (ev_at s) (drop right failures) right t =
      (earlier_upto failures s, bits triggers (drop left (take (earlier_upto failures s) failures)))"
    and "advance_left triggers (ev_at s - of_nat SUCCESS_WINDOW_SECONDS) (earlier_upto failures s) (drop left failures) left
        (bits triggers (drop left (take (earlier_upto failures s) failures))) =
      (recent_from failures s, bits triggers (failures_before failures s))"
    and "left \<le> recent_from failures s" and "right \<le> earlier_upto failures s"
proof -
  let ?L = "recent_from failures s" and ?R = "earlier_upto failures s"
  have R: "right + older (drop right failures) (ev_at s) = ?R"
    unfolding earlier_upto_def by (rule older_from [OF old(1) ptr(2)])
  have L: "left + older (drop left failures) (ev_at s - of_nat SUCCESS_WINDOW_SECONDS) = ?L"
    unfolding recent_from_def by (rule older_from [OF old(2)]) (use ptr in simp)
  show le: "left \<le> ?L" "right \<le> ?R" using R L by simp_all
  have tr: "takeWhile (\<lambda>f. ev_at f < ev_at s) (drop right failures) = drop right (take ?R failures)"
    using older_take [of "drop right failures" "ev_at s"] R by (metis add_diff_cancel_left' drop_take)
  have tl: "takeWhile (\<lambda>f. ev_at f < ev_at s - of_nat SUCCESS_WINDOW_SECONDS) (drop left failures) = drop left (take ?L failures)"
    using older_take [of "drop left failures" "ev_at s - of_nat SUCCESS_WINDOW_SECONDS"] L by (metis add_diff_cancel_left' drop_take)
  show "advance_right triggers (ev_at s) (drop right failures) right t = (?R, bits triggers (drop left (take ?R failures)))"
    unfolding advance_right_spec R tr t drop_take_split [OF ptr(1) le(2)] by simp
  have LR: "?L \<le> ?R" by (rule recent_le_earlier)
  show "advance_left triggers (ev_at s - of_nat SUCCESS_WINDOW_SECONDS) ?R (drop left failures) left
        (bits triggers (drop left (take ?R failures))) = (?L, bits triggers (failures_before failures s))"
    using LR unfolding L [symmetric]
    by (subst advance_left_spec) (simp_all add: tl L drop_take_split [OF le(1) LR] failures_before_eq [OF srt])
qed

lemma success_qualifies_iff:
  assumes "sorted (map ev_at failures)"
  shows "\<not> (earlier_upto failures s - recent_from failures s < SUCCESS_MIN_FAILURES \<or>
      \<not> (bits triggers (failures_before failures s) \<noteq> 0 \<or> ev_key s \<in> set triggers)) \<longleftrightarrow> success_qualifies failures triggers s"
proof -
  have "length (failures_before failures s) = earlier_upto failures s - recent_from failures s"
    using older_le [of failures "ev_at s"] by (simp add: failures_before_eq [OF assms]) (simp add: earlier_upto_def)
  then show ?thesis by (auto simp: success_qualifies_def bits_def filter_empty_conv not_less)
qed

lemma success_loop_spec:
  assumes srt: "sorted (map ev_at failures)"
  shows "sorted (map ev_at rest) \<Longrightarrow> left \<le> right \<Longrightarrow> right \<le> length failures \<Longrightarrow>
    (\<And>s. s \<in> set rest \<Longrightarrow> (\<forall>f \<in> set (take right failures). ev_at f < ev_at s) \<and>
       (\<forall>f \<in> set (take left failures). ev_at f < ev_at s - of_nat SUCCESS_WINDOW_SECONDS)) \<Longrightarrow>
    t = bits triggers (drop left (take right failures)) \<Longrightarrow> components_ok failures left right cs \<Longrightarrow>
    succs (success_loop failures triggers rest left right t cs) = succs cs @ filter (success_qualifies failures triggers) rest \<and>
    list_all (covers failures) (success_loop failures triggers rest left right t cs)"
proof (induction rest arbitrary: left right t cs)
  case (Cons s rest)
  let ?L = "recent_from failures s" and ?R = "earlier_upto failures s"
  let ?cs = "if ?R - ?L < SUCCESS_MIN_FAILURES \<or> \<not> (bits triggers (failures_before failures s) \<noteq> 0 \<or> ev_key s \<in> set triggers)
    then cs else add_success ?L ?R s cs"
  note step = pointers_step [OF srt Cons.prems(2,3) _ _ Cons.prems(5), of s]
  have st: "advance_right triggers (ev_at s) (drop right failures) right t = (?R, bits triggers (drop left (take ?R failures)))"
    "advance_left triggers (ev_at s - of_nat SUCCESS_WINDOW_SECONDS) ?R (drop left failures) left
        (bits triggers (drop left (take ?R failures))) = (?L, bits triggers (failures_before failures s))"
    "left \<le> ?L" "right \<le> ?R"
    using step Cons.prems(4) [of s] by auto
  have later: "(\<forall>f \<in> set (take ?R failures). ev_at f < ev_at s') \<and>
      (\<forall>f \<in> set (take ?L failures). ev_at f < ev_at s' - of_nat SUCCESS_WINDOW_SECONDS)" if "s' \<in> set rest" for s'
  proof -
    have "ev_at s \<le> ev_at s'" using Cons.prems(1) that by auto
    then show ?thesis unfolding earlier_upto_def recent_from_def older_take by (force dest: set_takeWhileD)
  qed
  have ok: "components_ok failures ?L ?R ?cs"
    using components_ok_add [OF Cons.prems(6) st(3,4)] components_ok_mono [OF Cons.prems(6) st(3,4)] by simp
  have "sorted (map ev_at rest)" "?R \<le> length failures" using Cons.prems(1) older_le by (simp_all add: earlier_upto_def)
  moreover have "bits triggers (failures_before failures s) = bits triggers (drop ?L (take ?R failures))"
    by (simp add: failures_before_eq [OF srt])
  ultimately have "succs (success_loop failures triggers rest ?L ?R (bits triggers (failures_before failures s)) ?cs) =
      succs ?cs @ filter (success_qualifies failures triggers) rest \<and>
    list_all (covers failures) (success_loop failures triggers rest ?L ?R (bits triggers (failures_before failures s)) ?cs)"
    using later ok by (intro Cons.IH) (simp_all only: recent_le_earlier)
  then
  have IH: "succs (success_loop failures triggers rest ?L ?R (bits triggers (failures_before failures s)) ?cs) =
      succs ?cs @ filter (success_qualifies failures triggers) rest"
    "list_all (covers failures) (success_loop failures triggers rest ?L ?R (bits triggers (failures_before failures s)) ?cs)" by blast+
  have "success_loop failures triggers (s # rest) left right t cs =
      success_loop failures triggers rest ?L ?R (bits triggers (failures_before failures s)) ?cs"
    by (simp add: st)
  moreover have "succs ?cs = succs cs @ (if success_qualifies failures triggers s then [s] else [])"
    using success_qualifies_iff [OF srt, of s triggers] by (auto simp: succs_add)
  ultimately show ?case using IH by auto
qed (simp add: components_ok_def)

lemma success_components_spec:
  assumes "sorted (map ev_at events)"
  defines "failures \<equiv> filter (\<lambda>e. ev_kind e \<in> set AUTHENTICATION_FAILURE_TYPES) events"
  shows "succs (success_components events triggers) =
      filter (\<lambda>e. ev_kind e \<in> set SUCCESS_TYPES \<and> success_qualifies failures triggers e) events"
    and "list_all (covers failures) (success_components events triggers)"
proof -
  have s: "sorted (map ev_at failures)" "sorted (map ev_at (filter (\<lambda>e. ev_kind e \<in> set SUCCESS_TYPES) events))"
    using assms(1) by (auto simp: failures_def sorted_filter)
  from success_loop_spec [OF s, of 0 0 0 triggers "[]"]
  show "succs (success_components events triggers) =
      filter (\<lambda>e. ev_kind e \<in> set SUCCESS_TYPES \<and> success_qualifies failures triggers e) events"
    and "list_all (covers failures) (success_components events triggers)"
    by (auto simp: success_components_def failures_def succs_def components_ok_def conj_commute)
qed

text \<open>
  C32: the rule for a success after failures selects, for events in time order, exactly the successes that have at least three authentication
  failures in the half hour strictly before them, with a trigger record among these or itself one; each is reported once, in order, and the match
  that reports it holds all those failures.
\<close>

theorem success_rule_exact:
  assumes "sorted (map ev_at events)" and "failures = filter (\<lambda>e. ev_kind e \<in> set AUTHENTICATION_FAILURE_TYPES) events"
  shows "concat (map (\<lambda>c. snd (snd c)) (success_components events triggers)) =
      filter (\<lambda>e. ev_kind e \<in> set SUCCESS_TYPES \<and> success_qualifies failures triggers e) events \<and>
    (\<forall>(start, final, successes) \<in> set (success_components events triggers). \<forall>s \<in> set successes.
      set (failures_before failures s) \<subseteq> set (take (final - start) (drop start failures)))"
proof -
  have srt: "sorted (map ev_at failures)" using assms by (simp add: sorted_filter)
  have sub: "set (failures_before failures s) \<subseteq> set (take (final - start) (drop start failures))"
    if "covers failures (start, final, successes)" "s \<in> set successes" for start final successes s
  proof -
    have le: "start \<le> recent_from failures s" "earlier_upto failures s \<le> final" using that by (auto simp: covers_def)
    have "failures_before failures s = drop (recent_from failures s - start) (take (earlier_upto failures s - start) (drop start failures))"
      using le recent_le_earlier [of failures s] by (simp add: failures_before_eq [OF srt] drop_take)
    also have "set \<dots> \<subseteq> set (take (earlier_upto failures s - start) (drop start failures))" by (rule set_drop_subset)
    also have "\<dots> \<subseteq> set (take (final - start) (drop start failures))" using le(2) by (intro set_take_subset_set_take) simp
    finally show ?thesis .
  qed
  have "\<forall>c \<in> set (success_components events triggers). covers failures c"
    using success_components_spec(2) [OF assms(1), of triggers] by (simp add: assms(2) list_all_iff)
  then have "\<forall>(start, final, successes) \<in> set (success_components events triggers). \<forall>s \<in> set successes.
      set (failures_before failures s) \<subseteq> set (take (final - start) (drop start failures))"
    using sub by fast
  then show ?thesis
    using success_components_spec(1) [OF assms(1), of triggers] by (simp add: succs_def assms(2))
qed

theorem success_rule_exact_witness:
  "sorted (map ev_at (ssh_burst @ [ssh_record ''d'' 180 ''auth_success''])) \<and>
   concat (map (\<lambda>c. snd (snd c)) (success_components (ssh_burst @ [ssh_record ''d'' 180 ''auth_success'']) [(''s1'', ''b'')])) =
     [ssh_record ''d'' 180 ''auth_success'']"
proof -
  let ?d = "ssh_record ''d'' 180 ''auth_success''"
  have srt: "sorted (map ev_at (ssh_burst @ [?d]))" by (simp add: ssh_burst_def ssh_record_def)
  have f: "ssh_burst = filter (\<lambda>e. ev_kind e \<in> set AUTHENTICATION_FAILURE_TYPES) (ssh_burst @ [?d])"
    by (simp add: ssh_burst_def ssh_record_def AUTHENTICATION_FAILURE_TYPES_def)
  have "filter (\<lambda>e. ev_kind e \<in> set SUCCESS_TYPES \<and> success_qualifies ssh_burst [(''s1'', ''b'')] e) (ssh_burst @ [?d]) = [?d]"
    by (simp add: ssh_burst_def ssh_record_def SUCCESS_TYPES_def success_qualifies_def failures_before_def
        SUCCESS_WINDOW_SECONDS_def SUCCESS_MIN_FAILURES_def)
  with success_rule_exact [OF srt f, of "[(''s1'', ''b'')]"] srt show ?thesis by metis
qed

end
