(* ===== verification/Budget.thy ===== *)
theory Budget
  imports Py_Json
begin

text \<open>
  \<open>app/agents/triage_budget.py\<close>: the durable ledger of paid calls. Its two tables are a record, every method is one
  transaction, so an operation that raises leaves the state as it was; \<open>ledger_step\<close> is the relation of all operations any number
  of processes may commit, in any order. Amounts are integers of micro-USD.

  An amount is what \<open>Decimal(str(v))\<close> gives: \<open>None\<close> when the text is no number (\<open>decimal.InvalidOperation\<close>),
  \<open>NotFinite\<close> for an infinity or not-a-number. Products with a million are exact, as they are below 28 digits. \<open>loads\<close> is
  \<open>json.loads\<close>. The floats of the summary are exact rationals.
\<close>

section \<open>Amounts\<close>

datatype decimal = Finite rat | NotFinite

datatype ledger_error =
    Raised err
  | InvalidOperation
  | BudgetExceeded
  | CallUncertain

definition micro_usd :: "decimal option \<Rightarrow> ledger_error + int" where
  "micro_usd v = (case v of
     None \<Rightarrow> Inl InvalidOperation
   | Some NotFinite \<Rightarrow> Inl (Raised (ValueError ''USD amount must be finite and non-negative''))
   | Some (Finite amount) \<Rightarrow>
       if amount < 0 then Inl (Raised (ValueError ''USD amount must be finite and non-negative''))
       else Inr \<lceil>amount * 1000000\<rceil>)"

definition ceiling_of :: "decimal option \<Rightarrow> ledger_error + int" where
  "ceiling_of v = (case v of
     None \<Rightarrow> Inl InvalidOperation
   | Some NotFinite \<Rightarrow> Inl (Raised (ValueError ''budget must be finite and positive''))
   | Some (Finite amount) \<Rightarrow>
       if amount \<le> 0 then Inl (Raised (ValueError ''budget must be finite and positive''))
       else let limit = \<lfloor>amount * 1000000\<rfloor> in
         if limit \<le> 0 then Inl (Raised (ValueError ''budget must be positive'')) else Inr limit)"

section \<open>The ledger\<close>

text \<open>\<open>json.dumps(record, sort_keys=True)\<close>: ASCII only, with a space after each comma and colon.\<close>

definition esc_ascii :: "char \<Rightarrow> string" where
  "esc_ascii c = (if CHR 0x7E < c
     then [CHR 0x5C, CHR ''u'', CHR ''0'', CHR ''0'', hex_char (of_char c div 16), hex_char (of_char c mod 16)] else esc c)"

definition quote_ascii :: "string \<Rightarrow> string" where
  "quote_ascii s = [CHR 0x22] @ concat (map esc_ascii s) @ [CHR 0x22]"

fun dumps_ascii :: "json \<Rightarrow> string" where
  "dumps_ascii (JStr s) = quote_ascii s"
| "dumps_ascii (JList xs) = ''['' @ join_with '', '' (map dumps_ascii xs) @ '']''"
| "dumps_ascii (JObj kvs) =
     [CHR 0x7B] @ join_with '', '' (map (\<lambda>(k, v). quote_ascii k @ '': '' @ dumps_ascii v) kvs) @ [CHR 0x7D]"
| "dumps_ascii j = dumps j"

definition ascii_json :: "json \<Rightarrow> string" where
  "ascii_json j = dumps_ascii (sort_keys j)"

datatype call_status = Pending | Complete | Uncertain

record call_row =
  cl_reserved :: int
  cl_charged :: "int option"
  cl_status :: call_status
  cl_record :: "string option"
  cl_error :: "string option"

record ledger =
  lg_ceiling :: int
  lg_halted :: bool
  lg_calls :: "(string \<times> call_row) list"

text \<open>Opening keeps what an existing file holds, and refuses it under another ceiling.\<close>

definition open_ledger :: "ledger option \<Rightarrow> decimal option \<Rightarrow> ledger_error + ledger" where
  "open_ledger existing budget_usd = (case ceiling_of budget_usd of
     Inl e \<Rightarrow> Inl e
   | Inr limit \<Rightarrow>
       let l = (case existing of Some l \<Rightarrow> l | None \<Rightarrow> \<lparr>lg_ceiling = limit, lg_halted = False, lg_calls = []\<rparr>) in
       if lg_ceiling l \<noteq> limit
       then Inl (Raised (ValueError ''this ledger already has a different budget; keep the original ceiling''))
       else Inr l)"

definition committed :: "call_row \<Rightarrow> int" where
  "committed c = (case cl_charged c of Some charged \<Rightarrow> charged | None \<Rightarrow> cl_reserved c)"

definition sum_of :: "(call_row \<Rightarrow> int) \<Rightarrow> (string \<times> call_row) list \<Rightarrow> int" where
  "sum_of f calls = sum_list (map (\<lambda>c. f (snd c)) calls)"

definition reserve :: "(string \<Rightarrow> json option) \<Rightarrow> string \<Rightarrow> int \<Rightarrow> ledger \<Rightarrow> (ledger_error + json option) \<times> ledger" where
  "reserve loads call_id amount l =
     (if amount \<le> 0 then (Inl (Raised (ValueError ''reservation must be positive'')), l)
      else case map_of (lg_calls l) call_id of
        Some c \<Rightarrow>
          if cl_status c = Complete
          then (case cl_record c of
              Some text \<Rightarrow> (case loads text of Some j \<Rightarrow> (Inr (Some j), l) | None \<Rightarrow> (Inl (Raised (ValueError ''not JSON'')), l))
            | None \<Rightarrow> (Inl (Raised TypeError), l))
          else (Inl CallUncertain, l)
      | None \<Rightarrow>
          if lg_halted l \<or> sum_of committed (lg_calls l) + amount > lg_ceiling l then (Inl BudgetExceeded, l)
          else (Inr None, l\<lparr>lg_calls := lg_calls l @
            [(call_id, \<lparr>cl_reserved = amount, cl_charged = None, cl_status = Pending, cl_record = None, cl_error = None\<rparr>)]\<rparr>))"

definition update_call :: "string \<Rightarrow> (call_row \<Rightarrow> call_row) \<Rightarrow> (string \<times> call_row) list \<Rightarrow> (string \<times> call_row) list" where
  "update_call call_id f calls = map (\<lambda>(k, c). if k = call_id then (k, f c) else (k, c)) calls"

definition complete_call :: "string \<Rightarrow> int \<Rightarrow> json \<Rightarrow> ledger \<Rightarrow> (ledger_error + unit) \<times> ledger" where
  "complete_call call_id charged record l =
     (if charged < 0 then (Inl (Raised (ValueError ''charge cannot be negative'')), l)
      else case map_of (lg_calls l) call_id of
        None \<Rightarrow> (Inl (Raised (ValueError ''call does not have a pending reservation'')), l)
      | Some c \<Rightarrow>
          if cl_status c \<noteq> Pending then (Inl (Raised (ValueError ''call does not have a pending reservation'')), l)
          else (Inr (), l\<lparr>lg_calls := update_call call_id
              (\<lambda>c. c\<lparr>cl_charged := Some charged, cl_status := Complete, cl_record := Some (ascii_json record)\<rparr>) (lg_calls l),
            lg_halted := lg_halted l \<or> charged > cl_reserved c\<rparr>))"

definition fail :: "string \<Rightarrow> string \<Rightarrow> ledger \<Rightarrow> ledger" where
  "fail call_id code l = l\<lparr>lg_calls := update_call call_id
     (\<lambda>c. if cl_status c = Pending then c\<lparr>cl_status := Uncertain, cl_error := Some code\<rparr> else c) (lg_calls l)\<rparr>"

record budget_summary =
  bs_budget_usd :: rat
  bs_charged_usd :: rat
  bs_reserved_usd :: rat
  bs_available_usd :: rat
  bs_unresolved_calls :: nat
  bs_attempts :: nat
  bs_halted :: bool

definition charged_part :: "call_row \<Rightarrow> int" where
  "charged_part c = (case cl_charged c of Some charged \<Rightarrow> charged | None \<Rightarrow> 0)"

definition reserved_part :: "call_row \<Rightarrow> int" where
  "reserved_part c = (if cl_charged c = None then cl_reserved c else 0)"

definition summary :: "ledger \<Rightarrow> budget_summary" where
  "summary l =
     (let charged = sum_of charged_part (lg_calls l);
          reserved = sum_of reserved_part (lg_calls l);
          unresolved = length (filter (\<lambda>c. cl_charged (snd c) = None) (lg_calls l))
      in \<lparr>bs_budget_usd = of_int (lg_ceiling l) / 1000000, bs_charged_usd = of_int charged / 1000000,
          bs_reserved_usd = of_int reserved / 1000000,
          bs_available_usd = of_int (max 0 (lg_ceiling l - charged - reserved)) / 1000000,
          bs_unresolved_calls = unresolved, bs_attempts = length (lg_calls l), bs_halted = lg_halted l\<rparr>)"

section \<open>Histories\<close>

text \<open>One committed operation, of whichever process.\<close>

inductive ledger_step :: "(string \<Rightarrow> json option) \<Rightarrow> ledger \<Rightarrow> ledger \<Rightarrow> bool" for loads where
  reserves: "ledger_step loads l (snd (reserve loads call_id amount l))"
| completes: "ledger_step loads l (snd (complete_call call_id charged record l))"
| fails: "ledger_step loads l (fail call_id code l)"

inductive_cases ledger_stepE: "ledger_step loads l l'"

abbreviation ledger_steps :: "(string \<Rightarrow> json option) \<Rightarrow> ledger \<Rightarrow> ledger \<Rightarrow> bool" where
  "ledger_steps loads \<equiv> (ledger_step loads)\<^sup>*\<^sup>*"

text \<open>
  What holds of a call: only a complete one has a charge and a record. What holds of a ledger: an overrun has halted it, and the
  part of the calls that was covered by reservations is within the ceiling.
\<close>

definition call_ok :: "call_row \<Rightarrow> bool" where
  "call_ok c \<longleftrightarrow> cl_reserved c > 0 \<and> (case cl_charged c of None \<Rightarrow> cl_status c \<noteq> Complete
     | Some charged \<Rightarrow> cl_status c = Complete \<and> charged \<ge> 0 \<and> cl_record c \<noteq> None)"

definition covered :: "call_row \<Rightarrow> int" where
  "covered c = min (committed c) (cl_reserved c)"

definition ledger_ok :: "ledger \<Rightarrow> bool" where
  "ledger_ok l \<longleftrightarrow> distinct (map fst (lg_calls l)) \<and> (\<forall>(k, c) \<in> set (lg_calls l). call_ok c) \<and>
     (lg_halted l \<longleftrightarrow> (\<exists>(k, c) \<in> set (lg_calls l). committed c > cl_reserved c)) \<and>
     sum_of covered (lg_calls l) \<le> lg_ceiling l"

lemma sum_of_simps [simp]:
  "sum_of f [] = 0" "sum_of f (c # cs) = f (snd c) + sum_of f cs" "sum_of f (cs @ ds) = sum_of f cs + sum_of f ds"
  by (simp_all add: sum_of_def)

lemma sum_of_mono: "\<forall>c. f c \<le> g c \<Longrightarrow> sum_of f calls \<le> sum_of g calls"
  by (induction calls) (simp_all add: add_mono)

lemma sum_of_cong: "\<forall>(k, c) \<in> set calls. f c = g c \<Longrightarrow> sum_of f calls = sum_of g calls"
  by (induction calls) auto

lemma update_call_fst [simp]: "map fst (update_call k f calls) = map fst calls"
  by (induction calls) (auto simp: update_call_def)

lemma map_of_update_call: "map_of (update_call k f calls) i = (if i = k then map_option f (map_of calls i) else map_of calls i)"
  by (induction calls) (auto simp: update_call_def)

lemma update_call_absent: "k \<notin> fst ` set calls \<Longrightarrow> update_call k f calls = calls"
  by (induction calls) (auto simp: update_call_def)

text \<open>The one place an update reaches.\<close>

lemma update_call_split:
  assumes "distinct (map fst calls)" and "map_of calls k = Some c"
  obtains xs ys where "calls = xs @ (k, c) # ys" and "update_call k f calls = xs @ (k, f c) # ys"
proof -
  from map_of_SomeD [OF assms(2)] obtain xs ys where "calls = xs @ (k, c) # ys" by (meson split_list)
  moreover from this assms(1) have "update_call k f calls = xs @ (k, f c) # ys"
    using update_call_absent [of k xs f] update_call_absent [of k ys f] by (simp add: update_call_def)
  ultimately show thesis by (rule that)
qed

lemma ledger_ok_reserve:
  assumes "ledger_ok l"
  shows "ledger_ok (snd (reserve loads call_id amount l))"
proof (cases "amount > 0 \<and> map_of (lg_calls l) call_id = None \<and> \<not> lg_halted l \<and> sum_of committed (lg_calls l) + amount \<le> lg_ceiling l")
  case False
  then have "snd (reserve loads call_id amount l) = l" by (auto simp: reserve_def split: option.splits)
  with assms show ?thesis by simp
next
  case True
  let ?c = "\<lparr>cl_reserved = amount, cl_charged = None, cl_status = Pending, cl_record = None, cl_error = None\<rparr>"
  have "snd (reserve loads call_id amount l) = l\<lparr>lg_calls := lg_calls l @ [(call_id, ?c)]\<rparr>" using True by (simp add: reserve_def)
  moreover have "call_id \<notin> fst ` set (lg_calls l)" using True by (simp add: map_of_eq_None_iff)
  moreover have "sum_of covered (lg_calls l) \<le> sum_of committed (lg_calls l)" by (rule sum_of_mono) (simp add: covered_def)
  moreover have "call_ok ?c" "committed ?c = amount" "covered ?c = amount"
    using True by (simp_all add: call_ok_def committed_def covered_def)
  ultimately show ?thesis using assms True by (simp add: ledger_ok_def)
qed

text \<open>An update of one pending call keeps the ledger, if it keeps that call and accounts for an overrun.\<close>

lemma ledger_ok_update:
  assumes ok: "ledger_ok l" and c: "map_of (lg_calls l) call_id = Some c" "cl_status c = Pending"
    and new: "call_ok (f c)" "cl_reserved (f c) = cl_reserved c"
  shows "ledger_ok (l\<lparr>lg_calls := update_call call_id f (lg_calls l), lg_halted := lg_halted l \<or> committed (f c) > cl_reserved c\<rparr>)"
proof -
  have d: "distinct (map fst (lg_calls l))" using ok by (simp add: ledger_ok_def)
  obtain xs ys where xy: "lg_calls l = xs @ (call_id, c) # ys" "update_call call_id f (lg_calls l) = xs @ (call_id, f c) # ys"
    by (rule update_call_split [OF d c(1)])
  have "call_ok c" using ok by (simp add: ledger_ok_def xy)
  with c(2) have "committed c = cl_reserved c" by (auto simp: call_ok_def committed_def split: option.splits)
  then have "covered (f c) \<le> covered c" by (simp add: covered_def new)
  moreover note ok' = ok [unfolded ledger_ok_def xy(1)]
  moreover have "(\<exists>(k, d) \<in> set (xs @ (call_id, f c) # ys). committed d > cl_reserved d) \<longleftrightarrow> lg_halted l \<or> committed (f c) > cl_reserved c"
    using ok' \<open>committed c = cl_reserved c\<close> new(2) by auto
  ultimately show ?thesis using new by (simp add: ledger_ok_def xy(2))
qed

lemma ledger_ok_complete:
  assumes "ledger_ok l"
  shows "ledger_ok (snd (complete_call call_id charged record l))"
proof (cases "charged \<ge> 0 \<and> (\<exists>c. map_of (lg_calls l) call_id = Some c \<and> cl_status c = Pending)")
  case False
  then have "snd (complete_call call_id charged record l) = l" by (auto simp: complete_call_def split: option.splits)
  with assms show ?thesis by simp
next
  case True
  then obtain c where c: "map_of (lg_calls l) call_id = Some c" "cl_status c = Pending" by blast
  have "call_ok c" using assms map_of_SomeD [OF c(1)] by (auto simp: ledger_ok_def)
  with ledger_ok_update [OF assms c, of "\<lambda>c. c\<lparr>cl_charged := Some charged, cl_status := Complete, cl_record := Some (ascii_json record)\<rparr>"]
  show ?thesis using True c by (simp add: complete_call_def call_ok_def committed_def)
qed

lemma ledger_ok_fail:
  assumes "ledger_ok l"
  shows "ledger_ok (fail call_id code l)"
proof (cases "\<exists>c. map_of (lg_calls l) call_id = Some c \<and> cl_status c = Pending")
  case True
  then obtain c where c: "map_of (lg_calls l) call_id = Some c" "cl_status c = Pending" by blast
  let ?f = "\<lambda>c. if cl_status c = Pending then c\<lparr>cl_status := Uncertain, cl_error := Some code\<rparr> else c"
  have k: "call_ok c" using assms map_of_SomeD [OF c(1)] by (auto simp: ledger_ok_def)
  then have "cl_charged c = None" using c(2) by (auto simp: call_ok_def split: option.splits)
  moreover from this k c have "call_ok (?f c)" by (simp add: call_ok_def)
  ultimately show ?thesis
    using ledger_ok_update [OF assms c, of ?f] c(2) by (simp add: fail_def committed_def)
next
  case False
  have "update_call call_id (\<lambda>c. if cl_status c = Pending then c\<lparr>cl_status := Uncertain, cl_error := Some code\<rparr> else c) (lg_calls l) = lg_calls l"
    unfolding update_call_def
  proof (rule map_idI)
    fix p assume p: "p \<in> set (lg_calls l)"
    obtain k c where kc: "p = (k, c)" by (cases p)
    have "map_of (lg_calls l) k = Some c" using assms p kc by (simp add: ledger_ok_def)
    with False show "(case p of (k, c) \<Rightarrow> if k = call_id then (k, if cl_status c = Pending then c\<lparr>cl_status := Uncertain, cl_error := Some code\<rparr> else c)
        else (k, c)) = p" by (auto simp: kc)
  qed
  with assms show ?thesis by (simp add: fail_def)
qed

lemma ledger_ok_step: "ledger_step loads l l' \<Longrightarrow> ledger_ok l \<Longrightarrow> ledger_ok l' \<and> lg_ceiling l' = lg_ceiling l"
  by (elim ledger_stepE)
    (auto simp: ledger_ok_reserve ledger_ok_complete ledger_ok_fail, auto simp: reserve_def complete_call_def fail_def split: option.splits)

lemma ledger_ok_steps: "ledger_steps loads l l' \<Longrightarrow> ledger_ok l \<Longrightarrow> ledger_ok l' \<and> lg_ceiling l' = lg_ceiling l"
  by (induction rule: rtranclp_induct) (auto dest: ledger_ok_step)

lemma ledger_ok_open: "open_ledger None budget = Inr l \<Longrightarrow> ledger_ok l"
  by (auto simp: open_ledger_def ceiling_of_def ledger_ok_def Let_def split: option.splits decimal.splits if_splits)

section \<open>The ceiling holds\<close>

text \<open>The two sums of the summary are the sum the gate compares.\<close>

lemma parts_add_up: "sum_of charged_part calls + sum_of reserved_part calls = sum_of committed calls"
  by (induction calls) (auto simp: charged_part_def reserved_part_def committed_def split: option.splits)

lemma summary_adds_up:
  assumes "sum_of committed (lg_calls l) \<le> lg_ceiling l"
  shows "bs_budget_usd (summary l) = bs_charged_usd (summary l) + bs_reserved_usd (summary l) + bs_available_usd (summary l)"
proof -
  let ?c = "sum_of charged_part (lg_calls l)" and ?r = "sum_of reserved_part (lg_calls l)"
  have "max 0 (lg_ceiling l - ?c - ?r) = lg_ceiling l - ?c - ?r" using assms parts_add_up [of "lg_calls l"] by linarith
  then show ?thesis by (simp add: summary_def Let_def add_divide_distrib [symmetric])
qed

lemma not_halted_committed:
  assumes "ledger_ok l" and "\<not> lg_halted l"
  shows "sum_of committed (lg_calls l) \<le> lg_ceiling l"
proof -
  have "\<forall>(k, c) \<in> set (lg_calls l). committed c = covered c" using assms by (fastforce simp: ledger_ok_def covered_def)
  then have "sum_of committed (lg_calls l) = sum_of covered (lg_calls l)" by (rule sum_of_cong)
  with assms(1) show ?thesis by (simp add: ledger_ok_def)
qed

text \<open>
  C33: whatever the processes sharing a new ledger do, in whatever order, the ceiling stays and the part of the calls that reservations
  cover stays within it; a charge above its reservation halts the ledger, and nothing else does; unless halted, all that is charged or
  reserved is within the ceiling and the summary adds up to it; once halted, no reservation is granted any more.
\<close>

theorem budget_never_overspent:
  assumes "open_ledger None budget_usd = Inr l0" and "ledger_steps loads l0 l"
  shows "lg_ceiling l = lg_ceiling l0 \<and>
    (\<Sum>(k, c) \<leftarrow> lg_calls l. min (committed c) (cl_reserved c)) \<le> lg_ceiling l \<and>
    (lg_halted l \<longleftrightarrow> (\<exists>(k, c) \<in> set (lg_calls l). \<exists>charged. cl_charged c = Some charged \<and> cl_reserved c < charged)) \<and>
    (\<not> lg_halted l \<longrightarrow> (\<Sum>(k, c) \<leftarrow> lg_calls l. committed c) \<le> lg_ceiling l \<and>
      bs_budget_usd (summary l) = bs_charged_usd (summary l) + bs_reserved_usd (summary l) + bs_available_usd (summary l)) \<and>
    (lg_halted l \<longrightarrow> fst (reserve loads call_id amount l) \<noteq> Inr None)"
proof -
  from ledger_ok_steps [OF assms(2) ledger_ok_open [OF assms(1)]]
  have ok: "ledger_ok l" and same: "lg_ceiling l = lg_ceiling l0" by simp_all
  have sums: "(\<Sum>(k, c) \<leftarrow> lg_calls l. f c) = sum_of f (lg_calls l)" for f by (simp add: sum_of_def case_prod_beta')
  have over: "committed c > cl_reserved c \<longleftrightarrow> (\<exists>charged. cl_charged c = Some charged \<and> cl_reserved c < charged)" for c
    by (auto simp: committed_def split: option.splits)
  have "sum_of (\<lambda>c. min (committed c) (cl_reserved c)) (lg_calls l) \<le> lg_ceiling l"
    using ok by (simp add: ledger_ok_def covered_def [abs_def])
  moreover have "lg_halted l \<longrightarrow> fst (reserve loads call_id amount l) \<noteq> Inr None"
    by (auto simp: reserve_def split: option.splits)
  moreover have "lg_halted l \<longleftrightarrow> (\<exists>(k, c) \<in> set (lg_calls l). \<exists>charged. cl_charged c = Some charged \<and> cl_reserved c < charged)"
    using ok by (simp add: ledger_ok_def over)
  ultimately show ?thesis
    unfolding sums using same not_halted_committed [OF ok] summary_adds_up [of l] by blast
qed

definition dollar_ledger :: ledger where
  "dollar_ledger = \<lparr>lg_ceiling = 1000000, lg_halted = False, lg_calls = []\<rparr>"

definition asked_ledger :: ledger where
  "asked_ledger = snd (reserve (\<lambda>s. Some JNull) ''a'' 400000 dollar_ledger)"

definition overrun_ledger :: ledger where
  "overrun_ledger = snd (complete_call ''a'' 600000 JNull asked_ledger)"

lemma dollar_ledger_opens: "open_ledger None (Some (Finite 1)) = Inr dollar_ledger"
  by (simp add: open_ledger_def ceiling_of_def dollar_ledger_def)

lemma dollar_ledger_granted: "reserve (\<lambda>s. Some JNull) ''a'' 400000 dollar_ledger = (Inr None, asked_ledger)"
  by (simp add: asked_ledger_def reserve_def dollar_ledger_def)

lemma asked_ledger_completed: "complete_call ''a'' 600000 JNull asked_ledger = (Inr (), overrun_ledger)"
  by (simp add: overrun_ledger_def complete_call_def asked_ledger_def reserve_def dollar_ledger_def)

theorem budget_never_overspent_witness:
  "lg_halted overrun_ledger \<and> fst (reserve (\<lambda>s. Some JNull) ''b'' 1 overrun_ledger) \<noteq> Inr None"
proof -
  let ?loads = "\<lambda>s. Some JNull"
  have "ledger_steps ?loads dollar_ledger overrun_ledger"
    unfolding overrun_ledger_def asked_ledger_def
    by (rule rtranclp.rtrancl_into_rtrancl [OF r_into_rtranclp [of "ledger_step ?loads", OF reserves] completes])
  moreover have "lg_halted overrun_ledger"
    by (simp add: overrun_ledger_def complete_call_def asked_ledger_def reserve_def dollar_ledger_def)
  ultimately show ?thesis
    using budget_never_overspent [OF dollar_ledger_opens, of ?loads overrun_ledger "''b''" 1] by blast
qed

section \<open>A call is paid once\<close>

lemma step_keeps_call:
  assumes "ledger_step loads l l'" and "map_of (lg_calls l) call_id = Some c"
  shows "\<exists>c'. map_of (lg_calls l') call_id = Some c' \<and> (cl_status c = Complete \<longrightarrow> c' = c)"
  using assms(1)
proof cases
  case (reserves i a)
  with assms(2) show ?thesis by (auto simp: reserve_def map_add_Some_iff split: option.splits)
next
  case (completes i x r)
  with assms(2) show ?thesis by (cases "i = call_id") (auto simp: complete_call_def map_of_update_call split: option.splits)
next
  case (fails i x)
  with assms(2) show ?thesis by (cases "i = call_id"; cases "cl_status c") (simp_all add: fail_def map_of_update_call)
qed

lemma steps_keep_call:
  assumes "ledger_steps loads l l'" and "map_of (lg_calls l) call_id = Some c"
  shows "\<exists>c'. map_of (lg_calls l') call_id = Some c' \<and> (cl_status c = Complete \<longrightarrow> c' = c)"
  using assms
proof (induction rule: rtranclp_induct)
  case (step y z)
  from step.IH step.prems obtain c' where c': "map_of (lg_calls y) call_id = Some c'" "cl_status c = Complete \<longrightarrow> c' = c" by blast
  from step_keeps_call [OF step.hyps(2) c'(1)] c'(2) show ?case by auto
qed auto

text \<open>
  C34: a call is paid at most once and its result is never lost. After a reservation was granted, no later ledger grants one
  for the same call, however often it is asked. After the call was completed, every later ledger still holds its charge, and a
  further request is answered with the record kept, without changing the ledger.
\<close>

theorem call_is_paid_once:
  assumes "reserve loads call_id amount l = (Inr None, l1)" and "ledger_steps loads l1 l2"
  shows "fst (reserve loads call_id again l2) \<noteq> Inr None \<and>
    (\<forall>charged record l3 l4. complete_call call_id charged record l2 = (Inr (), l3) \<and> ledger_steps loads l3 l4 \<longrightarrow>
      map_option cl_charged (map_of (lg_calls l4) call_id) = Some (Some charged) \<and>
      (again > 0 \<and> loads (ascii_json record) = Some answer \<longrightarrow> reserve loads call_id again l4 = (Inr (Some answer), l4)))"
proof -
  from assms(1) have "map_of (lg_calls l1) call_id \<noteq> None" by (auto simp: reserve_def map_add_def split: option.splits if_splits)
  with steps_keep_call [OF assms(2)] have "map_of (lg_calls l2) call_id \<noteq> None" by blast
  then have "fst (reserve loads call_id again l2) \<noteq> Inr None" by (auto simp: reserve_def split: option.splits)
  moreover have "map_option cl_charged (map_of (lg_calls l4) call_id) = Some (Some charged) \<and>
      (again > 0 \<and> loads (ascii_json rec) = Some answer \<longrightarrow> reserve loads call_id again l4 = (Inr (Some answer), l4))"
    if "complete_call call_id charged rec l2 = (Inr (), l3)" "ledger_steps loads l3 l4" for charged rec l3 l4
  proof -
    from that(1) obtain c where c: "map_of (lg_calls l3) call_id = Some c" "cl_status c = Complete" "cl_charged c = Some charged"
      "cl_record c = Some (ascii_json rec)"
      by (auto simp: complete_call_def map_of_update_call split: option.splits if_splits)
    from steps_keep_call [OF that(2) c(1)] c(2) have "map_of (lg_calls l4) call_id = Some c" by auto
    with c show ?thesis by (simp add: reserve_def)
  qed
  ultimately show ?thesis by blast
qed

theorem call_is_paid_once_witness:
  "fst (reserve (\<lambda>s. Some JNull) ''a'' 5 asked_ledger) \<noteq> Inr None \<and>
   reserve (\<lambda>s. Some JNull) ''a'' 5 overrun_ledger = (Inr (Some JNull), overrun_ledger)"
  using call_is_paid_once [OF dollar_ledger_granted rtranclp.rtrancl_refl, of 5 JNull] asked_ledger_completed by auto

end
