(* ===== verification/Triage_Api.thy ===== *)
theory Triage_Api
  imports Budget
begin

text \<open>
  \<open>app/agents/triage_api.py\<close>: what is done with the answer of a paid model. The usage is read strictly, the charge is computed
  from it, and a verdict is accepted only if it has the schema and cites evidence of the dossier. Exceptions are values:
  \<open>APIError\<close> with its code, or one of Python's own. Decimal arithmetic is exact, \<open>loads\<close> is \<open>json.loads\<close>; its
  \<open>RecursionError\<close> on deep nesting is not modelled.
\<close>

section \<open>Configuration\<close>

datatype api_format = Openai_Responses | Openai_Chat

record prices =
  pr_as_of :: string
  pr_input :: rat
  pr_output :: rat
  pr_cache_read :: rat
  pr_cache_write :: rat

definition prices_ok :: "prices \<Rightarrow> bool" where
  "prices_ok p \<longleftrightarrow> 0 < pr_input p \<and> pr_input p \<le> 1000 \<and> 0 < pr_output p \<and> pr_output p \<le> 1000 \<and>
     0 \<le> pr_cache_read p \<and> pr_cache_read p \<le> 1000 \<and> 0 \<le> pr_cache_write p \<and> pr_cache_write p \<le> 1000"

text \<open>Of the checks on a configuration, those on its numbers; the patterns of its texts and of the endpoint do not matter here.\<close>

record api_config =
  ac_provider :: string
  ac_api_format :: api_format
  ac_endpoint :: string
  ac_model :: string
  ac_key_name :: string
  ac_effort :: "string option"
  ac_thinking :: "string option"
  ac_max_output_tokens :: int
  ac_max_input_tokens :: int
  ac_prices :: prices

definition config_ok :: "api_config \<Rightarrow> bool" where
  "config_ok c \<longleftrightarrow> 256 \<le> ac_max_output_tokens c \<and> ac_max_output_tokens c \<le> 32768 \<and>
     8192 \<le> ac_max_input_tokens c \<and> ac_max_input_tokens c \<le> 131072 \<and> prices_ok (ac_prices c)"

definition reservation :: "api_config \<Rightarrow> ledger_error + int" where
  "reservation c =
     (let p = ac_prices c; input_rate = max (pr_input p) (max (pr_cache_read p) (pr_cache_write p)) in
      micro_usd (Some (Finite ((of_int (ac_max_input_tokens c) * input_rate + of_int (ac_max_output_tokens c) * pr_output p) / 1000000))))"

section \<open>Reading values\<close>

datatype api_error = APIError string | Other err

type_synonym 'a api_result = "api_error + 'a"

definition api_bind :: "'a api_result \<Rightarrow> ('a \<Rightarrow> 'b api_result) \<Rightarrow> 'b api_result" where
  "api_bind r f = (case r of Inl e \<Rightarrow> Inl e | Inr x \<Rightarrow> f x)"

lemma api_bind_simps [simp]: "api_bind (Inl e) f = Inl e" "api_bind (Inr x) f = f x"
  by (simp_all add: api_bind_def)

lemma api_bind_InrE:
  assumes "api_bind r f = Inr y"
  obtains x where "r = Inr x" and "f x = Inr y"
  using assms by (auto simp: api_bind_def split: sum.splits)

fun api_map :: "('a \<Rightarrow> 'b api_result) \<Rightarrow> 'a list \<Rightarrow> 'b list api_result" where
  "api_map f [] = Inr []"
| "api_map f (x # xs) = api_bind (f x) (\<lambda>y. api_bind (api_map f xs) (\<lambda>ys. Inr (y # ys)))"

text \<open>\<open>v.get(k)\<close>, \<open>v[k]\<close> for a text \<open>k\<close>, \<open>for x in v\<close> and the truth of a value.\<close>

definition json_get :: "json \<Rightarrow> string \<Rightarrow> json \<Rightarrow> json api_result" where
  "json_get v k d = (case v of JObj kvs \<Rightarrow> Inr (case map_of kvs k of Some x \<Rightarrow> x | None \<Rightarrow> d) | _ \<Rightarrow> Inl (Other AttributeError))"

definition json_item :: "json \<Rightarrow> string \<Rightarrow> json api_result" where
  "json_item v k = (case v of JObj kvs \<Rightarrow> (case map_of kvs k of Some x \<Rightarrow> Inr x | None \<Rightarrow> Inl (Other (KeyError k))) | _ \<Rightarrow> Inl (Other TypeError))"

definition json_iter :: "json \<Rightarrow> json list api_result" where
  "json_iter v = (case v of JList xs \<Rightarrow> Inr xs | JStr s \<Rightarrow> Inr (map (\<lambda>c. JStr [c]) s) | JObj kvs \<Rightarrow> Inr (map (\<lambda>kv. JStr (fst kv)) kvs)
     | _ \<Rightarrow> Inl (Other TypeError))"

definition json_truth :: "json \<Rightarrow> bool" where
  "json_truth v = (case v of JNull \<Rightarrow> False | JBool b \<Rightarrow> b | JInt i \<Rightarrow> i \<noteq> 0 | JFloat s \<Rightarrow> s \<noteq> ''0.0'' \<and> s \<noteq> ''-0.0''
     | JStr s \<Rightarrow> s \<noteq> [] | JList xs \<Rightarrow> xs \<noteq> [] | JObj kvs \<Rightarrow> kvs \<noteq> [])"

section \<open>Usage and text of a response\<close>

definition count_of :: "json \<Rightarrow> string \<Rightarrow> bool \<Rightarrow> int api_result" where
  "count_of usage key optional = api_bind (json_get usage key (if optional then JInt 0 else JNull)) (\<lambda>v. case v of
     JInt n \<Rightarrow> if n < 0 then Inl (APIError ''invalid_usage'') else Inr n
   | _ \<Rightarrow> Inl (APIError ''invalid_usage''))"

definition details_of :: "json \<Rightarrow> string \<Rightarrow> json api_result" where
  "details_of usage key = api_bind (json_get usage key (JObj [])) (\<lambda>v. case v of
     JObj kvs \<Rightarrow> Inr v | _ \<Rightarrow> Inl (APIError ''invalid_usage''))"

text \<open>The served model is the requested one or a dated snapshot of it.\<close>

definition is_snapshot :: "string \<Rightarrow> bool" where
  "is_snapshot s = ((length s = 8 \<and> list_all is_digit s) \<or>
     (length s = 10 \<and> s ! 4 = CHR ''-'' \<and> s ! 7 = CHR ''-'' \<and>
      list_all is_digit (take 4 s) \<and> list_all is_digit (take 2 (drop 5 s)) \<and> list_all is_digit (drop 8 s)))"

definition served_model :: "api_config \<Rightarrow> json \<Rightarrow> string api_result" where
  "served_model c served = (case served of
     JStr s \<Rightarrow> if s = ac_model c \<or> (startswith s (ac_model c @ ''-'') \<and> is_snapshot (drop (length (ac_model c) + 1) s)) then Inr s
       else Inl (APIError ''unpriced_served_model'')
   | _ \<Rightarrow> Inl (APIError ''unpriced_served_model''))"

record token_usage =
  tu_input_tokens :: int
  tu_output_tokens :: int
  tu_cache_read_input_tokens :: int
  tu_cache_creation_input_tokens :: int
  tu_reasoning_tokens :: int

text \<open>The blocks of text of all messages, in order.\<close>

definition block_texts :: "json \<Rightarrow> json list api_result" where
  "block_texts item = api_bind (json_get item ''type'' JNull) (\<lambda>t.
     if t \<noteq> JStr ''message'' then Inr []
     else api_bind (api_bind (json_item item ''content'') json_iter) (\<lambda>blocks.
       api_bind (api_map (\<lambda>block. api_bind (json_get block ''type'' JNull) (\<lambda>bt.
           if bt \<noteq> JStr ''output_text'' then Inr [] else api_bind (json_item block ''text'') (\<lambda>x. Inr [x]))) blocks) (\<lambda>xs. Inr (concat xs))))"

definition join_texts :: "json list \<Rightarrow> string api_result" where
  "join_texts vs = (if list_all (\<lambda>v. case v of JStr _ \<Rightarrow> True | _ \<Rightarrow> False) vs
     then Inr (concat (map (\<lambda>v. case v of JStr s \<Rightarrow> s | _ \<Rightarrow> []) vs)) else Inl (Other TypeError))"

definition output_text :: "json \<Rightarrow> string api_result" where
  "output_text payload = api_bind (api_bind (json_item payload ''output'') json_iter) (\<lambda>items.
     api_bind (api_map block_texts items) (\<lambda>xs. join_texts (concat xs)))"

text \<open>The parts of a response before the common checks: stop reason, text, whether it counts, and the usage.\<close>

type_synonym parts = "json \<times> json \<times> bool \<times> token_usage"

definition responses_parts :: "json \<Rightarrow> json \<Rightarrow> parts api_result" where
  "responses_parts payload usage =
     api_bind (json_get payload ''service_tier'' (JStr ''default'')) (\<lambda>tier.
     if tier \<noteq> JStr ''default'' then Inl (APIError ''unpriced_service_tier'')
     else api_bind (count_of usage ''input_tokens'' False) (\<lambda>inputs.
     api_bind (count_of usage ''output_tokens'' False) (\<lambda>outputs.
     api_bind (api_bind (details_of usage ''input_tokens_details'') (\<lambda>d. count_of d ''cached_tokens'' True)) (\<lambda>cached.
     api_bind (api_bind (details_of usage ''input_tokens_details'') (\<lambda>d. count_of d ''cache_write_tokens'' True)) (\<lambda>written.
     api_bind (api_bind (details_of usage ''output_tokens_details'') (\<lambda>d. count_of d ''reasoning_tokens'' True)) (\<lambda>reasoning.
     api_bind (json_get payload ''status'' JNull) (\<lambda>stop.
     api_bind (output_text payload) (\<lambda>text.
       Inr (stop, JStr text, stop = JStr ''completed'',
         \<lparr>tu_input_tokens = inputs - (cached + written), tu_output_tokens = outputs, tu_cache_read_input_tokens = cached,
          tu_cache_creation_input_tokens = written, tu_reasoning_tokens = reasoning\<rparr>)))))))))"

definition only_choice :: "json \<Rightarrow> json api_result" where
  "only_choice choices = (case choices of
     JList [c] \<Rightarrow> Inr c
   | JList _ \<Rightarrow> Inl (APIError ''invalid_choices'')
   | JStr [c] \<Rightarrow> Inr (JStr [c])
   | JStr _ \<Rightarrow> Inl (APIError ''invalid_choices'')
   | JObj [kv] \<Rightarrow> Inl (Other (KeyError ''0''))
   | JObj _ \<Rightarrow> Inl (APIError ''invalid_choices'')
   | _ \<Rightarrow> Inl (Other TypeError))"

definition chat_parts :: "json \<Rightarrow> json \<Rightarrow> parts api_result" where
  "chat_parts payload usage =
     api_bind (count_of usage ''prompt_tokens'' False) (\<lambda>inputs.
     api_bind (count_of usage ''completion_tokens'' False) (\<lambda>outputs.
     api_bind (if (case usage of JObj kvs \<Rightarrow> map_of kvs ''prompt_cache_hit_tokens'' \<noteq> None | _ \<Rightarrow> False)
         then count_of usage ''prompt_cache_hit_tokens'' False
         else api_bind (details_of usage ''prompt_tokens_details'') (\<lambda>d. count_of d ''cached_tokens'' True)) (\<lambda>cached.
     api_bind (api_bind (details_of usage ''completion_tokens_details'') (\<lambda>d. count_of d ''reasoning_tokens'' True)) (\<lambda>reasoning.
     api_bind (api_bind (json_item payload ''choices'') only_choice) (\<lambda>choice.
     api_bind (json_get choice ''finish_reason'' JNull) (\<lambda>stop.
     api_bind (json_item choice ''message'') (\<lambda>message.
     api_bind (json_get message ''content'' JNull) (\<lambda>content.
     api_bind (json_get message ''refusal'' JNull) (\<lambda>refusal.
       Inr (stop, if json_truth content then content else JStr [], stop = JStr ''stop'' \<and> \<not> json_truth refusal,
         \<lparr>tu_input_tokens = inputs - cached, tu_output_tokens = outputs, tu_cache_read_input_tokens = cached,
          tu_cache_creation_input_tokens = 0, tu_reasoning_tokens = reasoning\<rparr>))))))))))"

definition is_stop :: "string \<Rightarrow> bool" where
  "is_stop s = (s \<noteq> [] \<and> length s \<le> 64 \<and> list_all (\<lambda>c. is_lower c \<or> c = CHR ''_'') s)"

definition finish :: "string \<Rightarrow> parts \<Rightarrow> (string \<times> string \<times> string \<times> token_usage) api_result" where
  "finish served parts = (case parts of (stop, text, accepted, usage) \<Rightarrow>
     if tu_input_tokens usage < 0 \<or> tu_reasoning_tokens usage > tu_output_tokens usage then Inl (APIError ''invalid_usage'')
     else case (stop, text) of
       (JStr s, JStr t) \<Rightarrow> if is_stop s then Inr (served, s, if accepted then t else [], usage) else Inl (APIError ''invalid_response'')
     | _ \<Rightarrow> Inl (APIError ''invalid_response''))"

definition normalize_response :: "api_config \<Rightarrow> json \<Rightarrow> (string \<times> string \<times> string \<times> token_usage) api_result" where
  "normalize_response c payload = (case payload of
     JObj kvs \<Rightarrow>
       (case map_of kvs ''usage'' of
          Some (JObj us) \<Rightarrow>
            api_bind (served_model c (case map_of kvs ''model'' of Some v \<Rightarrow> v | None \<Rightarrow> JNull)) (\<lambda>served.
            api_bind (case ac_api_format c of
                Openai_Responses \<Rightarrow> responses_parts payload (JObj us)
              | Openai_Chat \<Rightarrow> chat_parts payload (JObj us)) (finish served))
        | _ \<Rightarrow> Inl (APIError ''missing_usage''))
   | _ \<Rightarrow> Inl (APIError ''missing_usage''))"

definition charge_of :: "api_config \<Rightarrow> token_usage \<Rightarrow> ledger_error + int" where
  "charge_of c u = (let p = ac_prices c in
     micro_usd (Some (Finite ((of_int (tu_input_tokens u) * pr_input p + of_int (tu_output_tokens u) * pr_output p +
       of_int (tu_cache_read_input_tokens u) * pr_cache_read p + of_int (tu_cache_creation_input_tokens u) * pr_cache_write p) / 1000000))))"

section \<open>Verdicts\<close>

record verdict =
  vd_verdict :: string
  vd_confidence :: string
  vd_rationale :: string
  vd_evidence_ids :: "string list"
  vd_attack_techniques :: "string list"

text \<open>The ids of the records a dossier shows; an id that cannot be in a set raises.\<close>

definition shown_id :: "json \<Rightarrow> json api_result" where
  "shown_id r = api_bind (json_item r ''event_id'') (\<lambda>v. case v of
     JList _ \<Rightarrow> Inl (Other TypeError) | JObj _ \<Rightarrow> Inl (Other TypeError) | _ \<Rightarrow> Inr v)"

definition valid_ids :: "row \<Rightarrow> json list api_result" where
  "valid_ids dossier = api_bind (api_map (\<lambda>key. api_bind (json_iter (case map_of dossier key of Some v \<Rightarrow> v | None \<Rightarrow> JList [])) (api_map shown_id))
     [''record_sample'', ''successful_logins'']) (\<lambda>ids. Inr (concat ids))"

definition strings_of :: "json \<Rightarrow> string list option" where
  "strings_of v = (case v of
     JList xs \<Rightarrow> if int (length xs) \<le> 100 \<and> list_all (\<lambda>x. case x of JStr s \<Rightarrow> length s \<le> 256 | _ \<Rightarrow> False) xs
       then Some (map (\<lambda>x. case x of JStr s \<Rightarrow> s | _ \<Rightarrow> []) xs) else None
   | _ \<Rightarrow> None)"

definition verdict_fields :: "string list" where
  "verdict_fields = [''verdict'', ''confidence'', ''rationale'', ''evidence_ids'', ''attack_techniques'']"

text \<open>A value of the schema.\<close>

definition schema_verdict :: "json \<Rightarrow> verdict option" where
  "schema_verdict value = (case value of
     JObj kvs \<Rightarrow>
       if set (map fst kvs) \<noteq> set verdict_fields then None
       else (case map (\<lambda>k. the (map_of kvs k)) verdict_fields of
           [JStr v, JStr c, JStr r, es, ts] \<Rightarrow>
             if v \<in> set [''escalate'', ''dismiss'', ''abstain''] \<and> c \<in> set [''low'', ''medium'', ''high''] \<and>
               strip r \<noteq> [] \<and> int (length r) \<le> 16000
             then (case (strings_of es, strings_of ts) of
                 (Some es, Some ts) \<Rightarrow> Some \<lparr>vd_verdict = v, vd_confidence = c, vd_rationale = r, vd_evidence_ids = es, vd_attack_techniques = ts\<rparr>
               | _ \<Rightarrow> None)
             else None
         | _ \<Rightarrow> None)
   | _ \<Rightarrow> None)"

definition no_verdict :: "string \<Rightarrow> verdict \<times> string" where
  "no_verdict status = (\<lparr>vd_verdict = ''abstain'', vd_confidence = ''low'', vd_rationale = ''no verdict: '' @ status,
     vd_evidence_ids = [], vd_attack_techniques = []\<rparr>, status)"

definition validate_verdict :: "(string \<Rightarrow> json option) \<Rightarrow> string \<Rightarrow> row \<Rightarrow> (verdict \<times> string) api_result" where
  "validate_verdict loads text dossier = api_bind (valid_ids dossier) (\<lambda>ids. Inr
     (case loads text of
        None \<Rightarrow> no_verdict ''invalid_json''
      | Some value \<Rightarrow> (case schema_verdict value of
          None \<Rightarrow> no_verdict ''invalid_schema''
        | Some v \<Rightarrow>
            if \<not> list_all (\<lambda>i. JStr i \<in> set ids) (vd_evidence_ids v) then no_verdict ''unknown_evidence''
            else if vd_verdict v \<noteq> ''abstain'' \<and> vd_evidence_ids v = [] then no_verdict ''missing_evidence''
            else (v, ''valid''))))"

section \<open>A reservation covers the charge\<close>

lemma count_nonneg: "count_of usage key optional = Inr n \<Longrightarrow> 0 \<le> n"
  by (auto simp: count_of_def elim!: api_bind_InrE split: json.splits if_splits)

lemma responses_parts_nonneg:
  "responses_parts payload usage = Inr (stop, text, accepted, u) \<Longrightarrow>
   0 \<le> tu_output_tokens u \<and> 0 \<le> tu_cache_read_input_tokens u \<and> 0 \<le> tu_cache_creation_input_tokens u"
  by (auto simp: responses_parts_def elim!: api_bind_InrE split: if_splits dest!: count_nonneg)

lemma chat_parts_nonneg:
  "chat_parts payload usage = Inr (stop, text, accepted, u) \<Longrightarrow>
   0 \<le> tu_output_tokens u \<and> 0 \<le> tu_cache_read_input_tokens u \<and> 0 \<le> tu_cache_creation_input_tokens u"
  by (auto simp: chat_parts_def elim!: api_bind_InrE split: if_splits dest!: count_nonneg)

lemma finish_Inr: "finish served (stop, text, accepted, u) = Inr (s, st, t, u') \<Longrightarrow>
   u' = u \<and> 0 \<le> tu_input_tokens u \<and> tu_reasoning_tokens u \<le> tu_output_tokens u"
  by (auto simp: finish_def split: if_splits json.splits)

lemma normalized_usage:
  assumes "normalize_response c payload = Inr (served, stop, text, u)"
  shows "0 \<le> tu_input_tokens u \<and> 0 \<le> tu_output_tokens u \<and> 0 \<le> tu_cache_read_input_tokens u \<and>
    0 \<le> tu_cache_creation_input_tokens u \<and> tu_reasoning_tokens u \<le> tu_output_tokens u"
proof -
  from assms obtain us sv p where
    parts: "(case ac_api_format c of Openai_Responses \<Rightarrow> responses_parts payload us | Openai_Chat \<Rightarrow> chat_parts payload us) = Inr p"
    and fin: "finish sv p = Inr (served, stop, text, u)"
    unfolding normalize_response_def by (auto elim!: api_bind_InrE split: json.splits option.splits)
  obtain st tx acc u' where p: "p = (st, tx, acc, u')" by (cases p)
  show ?thesis
    using parts finish_Inr [OF fin [unfolded p]] unfolding p
    by (cases "ac_api_format c") (auto dest: responses_parts_nonneg chat_parts_nonneg)
qed

lemma micro_usd_millionth: "0 \<le> x \<Longrightarrow> micro_usd (Some (Finite (x / 1000000))) = Inr \<lceil>x\<rceil>"
  by (simp add: micro_usd_def)

text \<open>The worst case a reservation is made for: the highest input rate on every input token.\<close>

lemma charge_le_worst:
  fixes p :: prices
  assumes "prices_ok p" and "0 \<le> i" "0 \<le> out" "0 \<le> r" "0 \<le> w" and "i + r + w \<le> mi" and "out \<le> mo"
  defines "rate \<equiv> max (pr_input p) (max (pr_cache_read p) (pr_cache_write p))"
  shows "of_int i * pr_input p + of_int out * pr_output p + of_int r * pr_cache_read p + of_int w * pr_cache_write p
    \<le> of_int mi * rate + of_int mo * pr_output p"
proof -
  have "of_int i * pr_input p \<le> of_int i * rate" "of_int r * pr_cache_read p \<le> of_int r * rate"
    "of_int w * pr_cache_write p \<le> of_int w * rate"
    using assms(2,4,5) by (auto intro!: mult_left_mono simp: rate_def)
  moreover have "of_int (i + r + w) * rate \<le> of_int mi * rate"
    using assms(1,6) by (intro mult_right_mono) (auto simp: rate_def prices_ok_def)
  moreover have "of_int out * pr_output p \<le> of_int mo * pr_output p"
    using assms(1,7) by (intro mult_right_mono) (auto simp: prices_ok_def)
  ultimately show ?thesis by (simp add: distrib_right)
qed

lemma reservation_positive:
  assumes "config_ok c"
  shows "\<exists>res. reservation c = Inr res \<and> 0 < res"
proof -
  let ?p = "ac_prices c"
  let ?x = "of_int (ac_max_input_tokens c) * max (pr_input ?p) (max (pr_cache_read ?p) (pr_cache_write ?p)) +
    of_int (ac_max_output_tokens c) * pr_output ?p"
  have "0 < of_int (ac_max_input_tokens c) * max (pr_input ?p) (max (pr_cache_read ?p) (pr_cache_write ?p))"
    "0 < of_int (ac_max_output_tokens c) * pr_output ?p"
    using assms by (auto intro!: mult_pos_pos simp: config_ok_def prices_ok_def less_max_iff_disj)
  then have "0 < ?x" by simp
  then show ?thesis using micro_usd_millionth [of ?x] by (simp add: reservation_def Let_def)
qed

text \<open>
  C35: the reservation covers the charge. For a valid configuration and a response that was accepted, if the reported tokens are within the
  configured limits, then the charge is computed, is not negative and at most the positive amount that was reserved; completing the
  call with it does not halt the ledger.
\<close>

theorem reservation_covers_charge:
  assumes "config_ok c" and "normalize_response c payload = Inr (served, stop, text, u)"
    and "tu_input_tokens u + tu_cache_read_input_tokens u + tu_cache_creation_input_tokens u \<le> ac_max_input_tokens c"
    and "tu_output_tokens u \<le> ac_max_output_tokens c"
  shows "\<exists>charge res. charge_of c u = Inr charge \<and> reservation c = Inr res \<and> 0 < res \<and> 0 \<le> charge \<and> charge \<le> res \<and>
    (\<forall>l call_id pending rec. map_of (lg_calls l) call_id = Some pending \<and> cl_reserved pending = res \<longrightarrow>
      lg_halted (snd (complete_call call_id charge rec l)) = lg_halted l)"
proof -
  let ?p = "ac_prices c"
  let ?x = "of_int (tu_input_tokens u) * pr_input ?p + of_int (tu_output_tokens u) * pr_output ?p +
       of_int (tu_cache_read_input_tokens u) * pr_cache_read ?p + of_int (tu_cache_creation_input_tokens u) * pr_cache_write ?p"
  let ?y = "of_int (ac_max_input_tokens c) * max (pr_input ?p) (max (pr_cache_read ?p) (pr_cache_write ?p)) +
    of_int (ac_max_output_tokens c) * pr_output ?p"
  have p: "prices_ok ?p" using assms(1) by (simp add: config_ok_def)
  note u = normalized_usage [OF assms(2)]
  have x: "0 \<le> ?x" using u p by (auto simp: prices_ok_def intro!: add_nonneg_nonneg mult_nonneg_nonneg)
  have xy: "?x \<le> ?y" by (rule charge_le_worst) (use p u assms(3,4) in auto)
  from reservation_positive [OF assms(1)] obtain res where res: "reservation c = Inr res" "0 < res" by blast
  have "res = \<lceil>?y\<rceil>" using res(1) micro_usd_millionth [of ?y] x xy by (simp add: reservation_def Let_def)
  then have "\<lceil>?x\<rceil> \<le> res" using xy by (simp add: ceiling_mono)
  moreover have "charge_of c u = Inr \<lceil>?x\<rceil>" using micro_usd_millionth [OF x] by (simp add: charge_of_def Let_def)
  moreover have "0 \<le> \<lceil>?x\<rceil>" using ceiling_mono [OF x] by simp
  ultimately show ?thesis
    using res by (auto simp: complete_call_def split: option.splits)
qed

definition small_config :: api_config where
  "small_config = \<lparr>ac_provider = ''p'', ac_api_format = Openai_Chat, ac_endpoint = ''https://h/v1'', ac_model = ''m'', ac_key_name = ''K'',
     ac_effort = None, ac_thinking = None, ac_max_output_tokens = 256, ac_max_input_tokens = 8192,
     ac_prices = \<lparr>pr_as_of = ''2026-01-01'', pr_input = 2, pr_output = 3, pr_cache_read = 0, pr_cache_write = 0\<rparr>\<rparr>"

definition small_payload :: json where
  "small_payload = JObj [(''model'', JStr ''m''), (''usage'', JObj [(''prompt_tokens'', JInt 10), (''completion_tokens'', JInt 5)]),
     (''choices'', JList [JObj [(''finish_reason'', JStr ''stop''), (''message'', JObj [(''content'', JStr ''x'')])]])]"

definition small_usage :: token_usage where
  "small_usage = \<lparr>tu_input_tokens = 10, tu_output_tokens = 5, tu_cache_read_input_tokens = 0, tu_cache_creation_input_tokens = 0,
     tu_reasoning_tokens = 0\<rparr>"

theorem reservation_covers_charge_witness:
  "\<exists>charge res. charge_of small_config small_usage = Inr charge \<and> reservation small_config = Inr res \<and> 0 < res \<and> 0 \<le> charge \<and> charge \<le> res"
proof -
  have "config_ok small_config" by (simp add: config_ok_def prices_ok_def small_config_def)
  moreover have "normalize_response small_config small_payload = Inr (''m'', ''stop'', ''x'', small_usage)" by code_simp
  moreover have "tu_input_tokens small_usage + tu_cache_read_input_tokens small_usage + tu_cache_creation_input_tokens small_usage
      \<le> ac_max_input_tokens small_config" "tu_output_tokens small_usage \<le> ac_max_output_tokens small_config"
    by (simp_all add: small_usage_def small_config_def)
  ultimately show ?thesis using reservation_covers_charge [of small_config small_payload] by blast
qed

section \<open>A verdict is grounded in its dossier\<close>

lemma schema_verdict_value: "schema_verdict value = Some v \<Longrightarrow>
   vd_verdict v \<in> {''escalate'', ''dismiss'', ''abstain''} \<and> vd_confidence v \<in> {''low'', ''medium'', ''high''} \<and> strip (vd_rationale v) \<noteq> []"
  by (auto simp: schema_verdict_def split: json.splits if_splits list.splits option.splits)

definition grounded :: "json list \<Rightarrow> verdict \<Rightarrow> string \<Rightarrow> bool" where
  "grounded ids v status \<longleftrightarrow>
     vd_verdict v \<in> {''escalate'', ''dismiss'', ''abstain''} \<and> vd_confidence v \<in> {''low'', ''medium'', ''high''} \<and>
     (\<forall>i \<in> set (vd_evidence_ids v). JStr i \<in> set ids) \<and>
     (vd_verdict v \<noteq> ''abstain'' \<longrightarrow> status = ''valid'' \<and> vd_evidence_ids v \<noteq> []) \<and>
     (status \<noteq> ''valid'' \<longrightarrow> vd_verdict v = ''abstain'' \<and> vd_evidence_ids v = [] \<and> vd_rationale v = ''no verdict: '' @ status)"

lemma grounded_none: "no_verdict s = (v, status) \<Longrightarrow> grounded ids v status"
  by (auto simp: no_verdict_def grounded_def)

lemma grounded_some:
  assumes "schema_verdict j = Some v" and "list_all (\<lambda>i. JStr i \<in> set ids) (vd_evidence_ids v)"
    and "\<not> (vd_verdict v \<noteq> ''abstain'' \<and> vd_evidence_ids v = [])"
  shows "grounded ids v ''valid''"
  using schema_verdict_value [OF assms(1)] assms(2,3) by (auto simp: grounded_def list_all_iff)

lemma validate_verdict_grounded:
  assumes "valid_ids dossier = Inr ids"
  shows "\<exists>v status. validate_verdict loads text dossier = Inr (v, status) \<and> grounded ids v status"
proof -
  obtain r where "validate_verdict loads text dossier = Inr r" using assms by (simp add: validate_verdict_def)
  then obtain v status where r: "validate_verdict loads text dossier = Inr (v, status)" by (cases r) simp
  moreover have "grounded ids v status"
    using r assms grounded_none grounded_some
    by (auto simp: validate_verdict_def split: option.splits if_splits)
  ultimately show ?thesis by blast
qed

text \<open>
  C36: whatever text the model returned, the check of a verdict answers, unless the dossier itself is malformed. The answer decides for
  escalation or dismissal only with evidence, and every record it cites is one the dossier shows; a text that is rejected becomes an
  abstention that cites nothing, with the reason as its status.
\<close>

theorem verdict_is_grounded:
  assumes "valid_ids dossier = Inr ids"
  shows "\<exists>v status. validate_verdict loads text dossier = Inr (v, status) \<and>
    vd_verdict v \<in> {''escalate'', ''dismiss'', ''abstain''} \<and> vd_confidence v \<in> {''low'', ''medium'', ''high''} \<and>
    (\<forall>i \<in> set (vd_evidence_ids v). JStr i \<in> set ids) \<and>
    (vd_verdict v \<noteq> ''abstain'' \<longrightarrow> status = ''valid'' \<and> vd_evidence_ids v \<noteq> []) \<and>
    (status \<noteq> ''valid'' \<longrightarrow> vd_verdict v = ''abstain'' \<and> vd_evidence_ids v = [] \<and> vd_rationale v = ''no verdict: '' @ status)"
  using validate_verdict_grounded [OF assms] unfolding grounded_def .

definition small_verdict :: json where
  "small_verdict = JObj [(''verdict'', JStr ''escalate''), (''confidence'', JStr ''high''), (''rationale'', JStr ''x''),
     (''evidence_ids'', JList [JStr ''e1'']), (''attack_techniques'', JList [])]"

theorem verdict_is_grounded_witness:
  "valid_ids [(''record_sample'', JList [JObj [(''event_id'', JStr ''e1'')]])] = Inr [JStr ''e1''] \<and>
   (\<exists>v status. validate_verdict (\<lambda>t. Some small_verdict) [] [(''record_sample'', JList [JObj [(''event_id'', JStr ''e1'')]])] = Inr (v, status) \<and>
     (\<forall>i \<in> set (vd_evidence_ids v). i = ''e1''))"
proof -
  have "valid_ids [(''record_sample'', JList [JObj [(''event_id'', JStr ''e1'')]])] = Inr [JStr ''e1'']" by code_simp
  from verdict_is_grounded [OF this, of "\<lambda>t. Some small_verdict" "[]"] this show ?thesis by auto
qed

end
