(* ===== verification/Http_Parse.thy ===== *)
theory Http_Parse
  imports Core Network_Guard
begin

text \<open>
  \<open>app/telemetry/http_parse.py\<close>: one structured access record becomes a normalized event, or an error that never contains
  a supplied value. Text is its UTF-8 encoding, as in \<open>Prelude\<close>; \<open>urllib.parse.unquote\<close> with strict errors is
  written out on it. \<open>ip\<close> is \<open>ipaddress.ip_address\<close>: the canonical text of an address and, for an IPv4-mapped one, the
  text of its IPv4 address. Times are exact rationals of seconds.
\<close>

section \<open>Percent decoding\<close>

definition hex_digit :: "char \<Rightarrow> nat option" where
  "hex_digit c = (if is_digit c then Some (of_char c - 48)
     else if c \<in> set ''abcdef'' then Some (of_char c - 87) else if c \<in> set ''ABCDEF'' then Some (of_char c - 55) else None)"

definition hex_byte :: "char \<Rightarrow> char \<Rightarrow> char option" where
  "hex_byte a b = (case (hex_digit a, hex_digit b) of (Some x, Some y) \<Rightarrow> Some (char_of (16 * x + y)) | _ \<Rightarrow> None)"

fun unquote_to_bytes :: "string \<Rightarrow> string" where
  "unquote_to_bytes (c # a # b # rest) =
     (case (if c = CHR ''%'' then hex_byte a b else None) of
        Some byte \<Rightarrow> byte # unquote_to_bytes rest
      | None \<Rightarrow> c # unquote_to_bytes (a # b # rest))"
| "unquote_to_bytes s = s"

text \<open>Well-formed UTF-8, by the ranges of its lead and continuation bytes.\<close>

fun utf8_ok :: "string \<Rightarrow> bool" where
  "utf8_ok [] = True"
| "utf8_ok (c # s) =
     (if c < CHR 0x80 then utf8_ok s
      else case s of
        [] \<Rightarrow> False
      | d # t \<Rightarrow>
          if CHR 0xC2 \<le> c \<and> c \<le> CHR 0xDF then CHR 0x80 \<le> d \<and> d \<le> CHR 0xBF \<and> utf8_ok t
          else case t of
            [] \<Rightarrow> False
          | e # u \<Rightarrow>
              if CHR 0xE0 \<le> c \<and> c \<le> CHR 0xEF
              then (if c = CHR 0xE0 then CHR 0xA0 \<le> d else CHR 0x80 \<le> d) \<and> (if c = CHR 0xED then d \<le> CHR 0x9F else d \<le> CHR 0xBF) \<and>
                CHR 0x80 \<le> e \<and> e \<le> CHR 0xBF \<and> utf8_ok u
              else case u of
                [] \<Rightarrow> False
              | f # v \<Rightarrow>
                  CHR 0xF0 \<le> c \<and> c \<le> CHR 0xF4 \<and>
                  (if c = CHR 0xF0 then CHR 0x90 \<le> d else CHR 0x80 \<le> d) \<and> (if c = CHR 0xF4 then d \<le> CHR 0x8F else d \<le> CHR 0xBF) \<and>
                  CHR 0x80 \<le> e \<and> e \<le> CHR 0xBF \<and> CHR 0x80 \<le> f \<and> f \<le> CHR 0xBF \<and> utf8_ok v)"

definition is_ascii :: "char \<Rightarrow> bool" where
  "is_ascii c \<longleftrightarrow> c < CHR 0x80"

text \<open>Each run of ASCII is decoded by itself; the rest stays. \<open>None\<close> is \<open>UnicodeDecodeError\<close>.\<close>

function unquote :: "string \<Rightarrow> string option" where
  "unquote [] = Some []"
| "unquote (c # s) =
     (if is_ascii c
      then (let bytes = unquote_to_bytes (takeWhile is_ascii (c # s)) in
        if utf8_ok bytes then map_option ((@) bytes) (unquote (dropWhile is_ascii s)) else None)
      else map_option (Cons c) (unquote s))"
  by pat_completeness auto
termination
  by (relation "measure length") (auto simp: length_dropWhile_le less_Suc_eq_le)

definition DECODE_PASSES :: nat where "DECODE_PASSES = 3"
definition MAX_PATH_BYTES :: int where "MAX_PATH_BYTES = 8192"

fun decode_passes :: "nat \<Rightarrow> string \<Rightarrow> string option" where
  "decode_passes 0 decoded = Some decoded"
| "decode_passes (Suc n) decoded = (case unquote decoded of
     None \<Rightarrow> None
   | Some following \<Rightarrow> if following = decoded then Some decoded else decode_passes n following)"

section \<open>Events\<close>

definition http_id :: "string \<Rightarrow> bool" where
  "http_id = class_match is_alnum (\<lambda>c. is_alnum c \<or> c \<in> set ''_.:-'') 127"

definition http_method :: "string \<Rightarrow> bool" where
  "http_method = class_match is_upper (\<lambda>c. is_upper c \<or> is_digit c \<or> c \<in> set ''_-'') 31"

definition HTTP_FIELDS :: "string list" where
  "HTTP_FIELDS = [''timestamp'', ''client_ip'', ''method'', ''path'', ''status'']"

record http_event =
  he_source_id :: string
  he_service_id :: string
  he_event_id :: string
  he_timestamp :: string
  he_event_ts :: rat
  he_client_ip :: string
  he_method :: string
  he_path :: string
  he_decoded_path :: string
  he_status :: int

definition he_key :: "http_event \<Rightarrow> string \<times> string" where
  "he_key e = (he_source_id e, he_event_id e)"

text \<open>The instants a UTC \<open>datetime\<close> can hold, years 1 to 9999; conversion of any other overflows.\<close>

definition http_instant :: "py \<Rightarrow> json \<Rightarrow> int result" where
  "http_instant P v = (case v of
     JStr s \<Rightarrow>
       if int (length s) > 80 then Inl (ValueError ''invalid HTTP timestamp'')
       else (case fromisoformat P (replace_str ''Z'' ''+00:00'' s) of
           Some (Aware t) \<Rightarrow> if - 62135596800000000 \<le> t \<and> t < 253402300800000000 then Inr t else Inl (ValueError ''invalid HTTP timestamp'')
         | _ \<Rightarrow> Inl (ValueError ''invalid HTTP timestamp''))
   | _ \<Rightarrow> Inl (ValueError ''invalid HTTP timestamp''))"

definition isoformat_micros :: "int \<Rightarrow> string" where
  "isoformat_micros t = butlast (isoformat t) @ ''.'' @ zero_pad 6 (nat (t mod 1000000)) @ ''Z''"

type_synonym peer_reader = "string \<Rightarrow> (string \<times> string option) option"

definition http_peer :: "peer_reader \<Rightarrow> json \<Rightarrow> string result" where
  "http_peer ip v = (case v of
     JStr s \<Rightarrow>
       if CHR ''%'' \<in> set s then Inl (ValueError ''invalid HTTP client address'')
       else (case ip s of
           Some (_, Some mapped) \<Rightarrow> Inr mapped
         | Some (text, None) \<Rightarrow> Inr text
         | None \<Rightarrow> Inl (ValueError ''invalid HTTP client address''))
   | _ \<Rightarrow> Inl (ValueError ''invalid HTTP client address''))"

definition http_path :: "json \<Rightarrow> (string \<times> string) result" where
  "http_path v = (case v of
     JStr s \<Rightarrow>
       if \<not> (startswith s ''/'' \<or> s = ''*'') \<or> list_ex (\<lambda>c. c < CHR '' '' \<or> c = CHR 0x7F) s then Inl (ValueError ''invalid HTTP request path'')
       else if int (length s) > MAX_PATH_BYTES then Inl (ValueError ''HTTP request path too long'')
       else (let path = takeWhile (\<lambda>c. c \<noteq> CHR ''?'') s in
         case decode_passes DECODE_PASSES path of
           Some decoded \<Rightarrow> Inr (path, decoded)
         | None \<Rightarrow> Inl (ValueError ''invalid HTTP path encoding''))
   | _ \<Rightarrow> Inl (ValueError ''invalid HTTP request path''))"

definition normalize_http :: "py \<Rightarrow> peer_reader \<Rightarrow> json \<Rightarrow> string \<Rightarrow> string \<Rightarrow> string \<Rightarrow> http_event result" where
  "normalize_http P ip record source_id service_id event_id =
     (if \<not> (http_id source_id \<and> http_id service_id \<and> http_id event_id)
      then Inl (ValueError ''invalid HTTP source, service or event identity'')
      else case record of
        JObj r \<Rightarrow>
          if \<not> keys_are r HTTP_FIELDS then Inl (ValueError ''invalid HTTP record fields'')
          else let field = (\<lambda>k. the (map_of r k)) in
            and_then (http_instant P (field ''timestamp'')) (\<lambda>t.
            and_then (http_peer ip (field ''client_ip'')) (\<lambda>client_ip.
            case field ''method'' of
              JStr method \<Rightarrow>
                if \<not> http_method method then Inl (ValueError ''invalid HTTP method'')
                else (case field ''status'' of
                    JInt status \<Rightarrow>
                      if \<not> (100 \<le> status \<and> status \<le> 599) then Inl (ValueError ''invalid HTTP response status'')
                      else and_then (http_path (field ''path'')) (\<lambda>(path, decoded).
                        Inr \<lparr>he_source_id = source_id, he_service_id = service_id, he_event_id = event_id,
                          he_timestamp = isoformat_micros t, he_event_ts = of_int t / 1000000, he_client_ip = client_ip,
                          he_method = method, he_path = path, he_decoded_path = decoded, he_status = status\<rparr>)
                  | _ \<Rightarrow> Inl (ValueError ''invalid HTTP response status''))
            | _ \<Rightarrow> Inl (ValueError ''invalid HTTP method'')))
      | _ \<Rightarrow> Inl (ValueError ''invalid HTTP record fields''))"

section \<open>Decoding is bounded\<close>

text \<open>A pass that changes a text shortens it, so what a pass leaves alone has nothing left to decode.\<close>

lemma unquote_to_bytes_shorter: "unquote_to_bytes s \<noteq> s \<Longrightarrow> length (unquote_to_bytes s) < length s"
proof -
  have le: "length (unquote_to_bytes s) \<le> length s" for s
    by (induction s rule: unquote_to_bytes.induct) (auto split: option.splits)
  show "unquote_to_bytes s \<noteq> s \<Longrightarrow> length (unquote_to_bytes s) < length s"
  proof (induction s rule: unquote_to_bytes.induct)
    case (1 c a b rest)
    show ?case
    proof (cases "if c = CHR ''%'' then hex_byte a b else None")
      case None
      with 1 show ?thesis by simp
    next
      case (Some byte)
      with le [of rest] show ?thesis by simp
    qed
  qed auto
qed

lemma unquote_shorter: "unquote s = Some t \<Longrightarrow> t = s \<or> length t < length s"
proof (induction s arbitrary: t rule: unquote.induct)
  case (2 c s)
  show ?case
  proof (cases "is_ascii c")
    case True
    let ?run = "takeWhile is_ascii (c # s)" and ?rest = "dropWhile is_ascii s"
    have split: "c # s = ?run @ ?rest" using True by simp
    from "2.prems" True obtain u where u: "unquote ?rest = Some u" "t = unquote_to_bytes ?run @ u" "utf8_ok (unquote_to_bytes ?run)"
      by (auto simp: Let_def split: if_splits)
    from "2.IH"(1) [OF True refl] u have IH: "u = ?rest \<or> length u < length ?rest" using True by simp
    have len: "length t = length (unquote_to_bytes ?run) + length u" "length (c # s) = length ?run + length ?rest"
      using arg_cong [OF split, of length] by (simp_all add: u(2))
    show ?thesis
    proof (cases "unquote_to_bytes ?run = ?run")
      case same: True
      from IH show ?thesis
      proof
        assume "u = ?rest"
        then have "t = c # s" unfolding u(2) same by (simp only: split [symmetric])
        then show ?thesis ..
      qed (use len same in simp)
    next
      case False
      have "length u \<le> length ?rest" using IH by (elim disjE) simp_all
      with unquote_to_bytes_shorter [OF False] len have "length t < length (c # s)" by linarith
      then show ?thesis ..
    qed
  next
    case False
    with "2.prems" obtain u where u: "unquote s = Some u" "t = c # u" by auto
    from "2.IH"(2) [OF False u(1)] u(2) show ?thesis by auto
  qed
qed simp

text \<open>After the passes either nothing is left to decode, or each pass has shortened the text.\<close>

lemma decode_passes_done: "decode_passes n s = Some d \<Longrightarrow> unquote d = Some d \<or> length d + n \<le> length s"
proof (induction n arbitrary: s)
  case (Suc n)
  then obtain f where f: "unquote s = Some f" "if f = s then d = s else decode_passes n f = Some d"
    by (auto split: option.splits if_splits)
  show ?case
  proof (cases "f = s")
    case False
    with f unquote_shorter [OF f(1)] Suc.IH [of f] show ?thesis by auto
  qed (use f in simp)
qed simp

section \<open>What a normalized record is\<close>

lemma http_instant_bounds: "http_instant P v = Inr t \<Longrightarrow> - 62135596800000000 \<le> t \<and> t < 253402300800000000"
  by (auto simp: http_instant_def split: json.splits option.splits stamp.splits if_splits)

lemma http_path_facts:
  assumes "http_path v = Inr (path, decoded)"
  shows "(path = ''*'' \<or> startswith path ''/'') \<and> CHR ''?'' \<notin> set path \<and> list_all (\<lambda>c. \<not> c < CHR '' '' \<and> c \<noteq> CHR 0x7F) path \<and>
    int (length path) \<le> MAX_PATH_BYTES \<and> decode_passes DECODE_PASSES path = Some decoded \<and>
    (unquote decoded = Some decoded \<or> length decoded + DECODE_PASSES \<le> length path)"
proof -
  from assms obtain s where s: "v = JStr s" "startswith s ''/'' \<or> s = ''*''" "\<not> list_ex (\<lambda>c. c < CHR '' '' \<or> c = CHR 0x7F) s"
    "int (length s) \<le> MAX_PATH_BYTES" "path = takeWhile (\<lambda>c. c \<noteq> CHR ''?'') s" "decode_passes DECODE_PASSES path = Some decoded"
    by (auto simp: http_path_def Let_def not_less split: json.splits if_splits option.splits)
  have sub: "set path \<subseteq> set s" unfolding s(5) by (auto dest: set_takeWhileD)
  have "CHR ''?'' \<notin> set path" unfolding s(5) by (auto dest: set_takeWhileD)
  moreover have "path = ''*'' \<or> startswith path ''/''" using s(2) unfolding s(5) by (cases s) (auto simp: startswith_def)
  moreover have "length path \<le> length s" unfolding s(5) by (rule length_takeWhile_le)
  moreover note decode_passes_done [OF s(6)]
  moreover have "list_all (\<lambda>c. \<not> c < CHR '' '' \<and> c \<noteq> CHR 0x7F) path" using s(3) sub by (auto simp: list_all_iff list_ex_iff)
  ultimately show ?thesis using s(4,6) by simp
qed

lemma normalize_http_Inr:
  assumes "normalize_http P ip rec source_id service_id event_id = Inr e"
  shows "http_id source_id \<and> http_id service_id \<and> http_id event_id \<and>
    he_source_id e = source_id \<and> he_service_id e = service_id \<and> he_event_id e = event_id \<and>
    http_method (he_method e) \<and> 100 \<le> he_status e \<and> he_status e \<le> 599 \<and>
    (\<exists>t. - 62135596800000000 \<le> t \<and> t < 253402300800000000 \<and> he_timestamp e = isoformat_micros t \<and> he_event_ts e = of_int t / 1000000) \<and>
    (\<exists>v. http_path v = Inr (he_path e, he_decoded_path e))"
proof (cases rec)
  case (JObj r)
  with assms show ?thesis
    by (auto simp: normalize_http_def Let_def elim!: and_then_InrE dest!: http_instant_bounds split: if_splits json.splits)
      (rule exI, assumption)
qed (use assms in \<open>simp_all add: normalize_http_def split: if_splits\<close>)

definition http_errors :: "string list" where
  "http_errors = [''invalid HTTP source, service or event identity'', ''invalid HTTP record fields'', ''invalid HTTP timestamp'',
     ''invalid HTTP client address'', ''invalid HTTP method'', ''invalid HTTP response status'', ''invalid HTTP request path'',
     ''HTTP request path too long'', ''invalid HTTP path encoding'']"

lemma http_error_parts:
  "http_instant P v = Inl x \<Longrightarrow> x \<in> ValueError ` set http_errors"
  "http_peer ip v = Inl x \<Longrightarrow> x \<in> ValueError ` set http_errors"
  "http_path v = Inl x \<Longrightarrow> x \<in> ValueError ` set http_errors"
  by (auto simp: http_instant_def http_peer_def http_path_def http_errors_def Let_def split: json.splits option.splits stamp.splits if_splits)

lemma normalize_http_Inl:
  assumes "normalize_http P ip rec source_id service_id event_id = Inl x"
  shows "x \<in> ValueError ` set http_errors"
proof (cases rec)
  case (JObj r)
  have fixed: "ValueError m \<in> ValueError ` set http_errors" if "m \<in> set http_errors" for m using that by simp
  from assms JObj show ?thesis
    by (auto simp: normalize_http_def Let_def and_then_def fixed http_errors_def dest: http_error_parts [unfolded http_errors_def]
        split: if_splits json.splits sum.splits)
qed (use assms in \<open>auto simp: normalize_http_def http_errors_def split: if_splits\<close>)

text \<open>
  A normalized access record has the identities the caller gave, all valid; a method and a status in their ranges; a timestamp of
  an instant a date can hold; a path that is absolute or an asterisk, without a query, without control characters and within
  the byte limit; and as decoded path what at most three passes give, in which nothing is left to decode unless each of the three passes
  shortened it. A record that is refused is refused with one of nine fixed messages, whatever values were supplied.
\<close>

theorem normalized_http_record:
  "(\<forall>e. normalize_http P ip rec source_id service_id event_id = Inr e \<longrightarrow>
      http_id source_id \<and> http_id service_id \<and> http_id event_id \<and>
      he_source_id e = source_id \<and> he_service_id e = service_id \<and> he_event_id e = event_id \<and>
      http_method (he_method e) \<and> 100 \<le> he_status e \<and> he_status e \<le> 599 \<and>
      (\<exists>t. - 62135596800000000 \<le> t \<and> t < 253402300800000000 \<and> he_timestamp e = isoformat_micros t \<and> he_event_ts e = of_int t / 1000000) \<and>
      (he_path e = ''*'' \<or> startswith (he_path e) ''/'') \<and> CHR ''?'' \<notin> set (he_path e) \<and>
      list_all (\<lambda>c. \<not> c < CHR '' '' \<and> c \<noteq> CHR 0x7F) (he_path e) \<and> int (length (he_path e)) \<le> MAX_PATH_BYTES \<and>
      decode_passes DECODE_PASSES (he_path e) = Some (he_decoded_path e) \<and>
      (unquote (he_decoded_path e) = Some (he_decoded_path e) \<or> length (he_decoded_path e) + DECODE_PASSES \<le> length (he_path e))) \<and>
   (\<forall>x. normalize_http P ip rec source_id service_id event_id = Inl x \<longrightarrow> x \<in> ValueError ` set http_errors)"
proof (rule conjI; intro allI impI)
  fix e assume n: "normalize_http P ip rec source_id service_id event_id = Inr e"
  from normalize_http_Inr [OF n] obtain v where v: "http_path v = Inr (he_path e, he_decoded_path e)" by blast
  note normalize_http_Inr [OF n] http_path_facts [OF v]
  then show "http_id source_id \<and> http_id service_id \<and> http_id event_id \<and>
      he_source_id e = source_id \<and> he_service_id e = service_id \<and> he_event_id e = event_id \<and>
      http_method (he_method e) \<and> 100 \<le> he_status e \<and> he_status e \<le> 599 \<and>
      (\<exists>t. - 62135596800000000 \<le> t \<and> t < 253402300800000000 \<and> he_timestamp e = isoformat_micros t \<and> he_event_ts e = of_int t / 1000000) \<and>
      (he_path e = ''*'' \<or> startswith (he_path e) ''/'') \<and> CHR ''?'' \<notin> set (he_path e) \<and>
      list_all (\<lambda>c. \<not> c < CHR '' '' \<and> c \<noteq> CHR 0x7F) (he_path e) \<and> int (length (he_path e)) \<le> MAX_PATH_BYTES \<and>
      decode_passes DECODE_PASSES (he_path e) = Some (he_decoded_path e) \<and>
      (unquote (he_decoded_path e) = Some (he_decoded_path e) \<or> length (he_decoded_path e) + DECODE_PASSES \<le> length (he_path e))"
    by (elim conjE) (intro conjI; assumption)
next
  fix x assume "normalize_http P ip rec source_id service_id event_id = Inl x"
  then show "x \<in> ValueError ` set http_errors" by (rule normalize_http_Inl)
qed

definition access_record :: json where
  "access_record = JObj [(''timestamp'', JStr ''1''), (''client_ip'', JStr ''::1''), (''method'', JStr ''GET''),
     (''path'', JStr ''/a%252e?q''), (''status'', JInt 404)]"

theorem normalized_http_record_witness:
  "\<exists>e. normalize_http sample_py (\<lambda>s. Some (s, None)) access_record ''s'' ''w'' ''1'' = Inr e \<and> CHR ''?'' \<notin> set (he_path e) \<and>
     decode_passes DECODE_PASSES (he_path e) = Some (he_decoded_path e)"
proof -
  have "is_ok (normalize_http sample_py (\<lambda>s. Some (s, None)) access_record ''s'' ''w'' ''1'')" by code_simp
  then obtain e where "normalize_http sample_py (\<lambda>s. Some (s, None)) access_record ''s'' ''w'' ''1'' = Inr e"
    by (auto simp: is_ok_def split: sum.splits)
  with normalized_http_record [of sample_py "\<lambda>s. Some (s, None)" access_record "''s''" "''w''" "''1''"] show ?thesis by blast
qed

end
