(* ===== verification/Web_Detection.thy ===== *)
theory Web_Detection
  imports Http_Parse Windows
begin

text \<open>
  \<open>app/telemetry/web_detection.py\<close>: request-pattern rules over normalized access records. The point rules group
  matching requests, the scan rule is one more instance of the rolling-window contract. \<open>casefold\<close> is \<open>str.casefold\<close>.
\<close>

section \<open>Rules\<close>

definition WINDOW_SECONDS :: rat where "WINDOW_SECONDS = 300"
definition SCAN_MIN_RECORDS :: nat where "SCAN_MIN_RECORDS = 20"
definition SCAN_MIN_PATHS :: nat where "SCAN_MIN_PATHS = 10"
definition SCAN_DENIED_PERCENT :: nat where "SCAN_DENIED_PERCENT = 80"

definition DENIED :: "int list" where "DENIED = [403, 404]"

definition RESOURCE_NAMES :: "string list" where
  "RESOURCE_NAMES = [''.git'', ''.svn'', ''.hg'', ''.htpasswd'', ''wp-config.php'', ''wp-config.php.bak'', ''wp-config.php.old'']"

record web_finding =
  wf_rule_id :: string
  wf_rule_version :: nat
  wf_source_id :: string
  wf_service_id :: string
  wf_client_ip :: string
  wf_first_seen :: string
  wf_last_seen :: string
  wf_window_seconds :: rat
  wf_evidence_ids :: "string list"
  wf_reason :: string

fun collect_unique :: "((string \<times> string) \<times> http_event) list \<Rightarrow> http_event list
    \<Rightarrow> ((string \<times> string) \<times> http_event) list result" where
  "collect_unique unique [] = Inr unique"
| "collect_unique unique (e # es) =
     (if (case map_of unique (he_key e) of Some previous \<Rightarrow> previous \<noteq> e | None \<Rightarrow> False)
      then Inl (ValueError ''conflicting HTTP evidence identity'')
      else collect_unique (dict_set (he_key e) e unique) es)"

definition unique_events :: "http_event list \<Rightarrow> http_event list result" where
  "unique_events events = and_then (collect_unique [] events) (\<lambda>unique. Inr (sort_key (\<lambda>e. (he_event_ts e, he_key e)) (map snd unique)))"

definition segments :: "http_event \<Rightarrow> string list" where
  "segments e = split_on (CHR ''/'') (replace_char (CHR 0x5C) (CHR ''/'') (he_decoded_path e))"

definition sensitive :: "(string \<Rightarrow> string) \<Rightarrow> http_event \<Rightarrow> bool" where
  "sensitive casefold e = list_ex (\<lambda>part. casefold part \<in> set RESOURCE_NAMES \<or> casefold part = ''.env'' \<or>
     startswith (casefold part) ''.env.'') (segments e)"

definition traversal :: "http_event \<Rightarrow> bool" where
  "traversal e = (''..'' \<in> set (segments e))"

definition web_finding_of :: "string \<Rightarrow> http_event list \<Rightarrow> string \<Rightarrow> web_finding" where
  "web_finding_of rule rows reason =
     \<lparr>wf_rule_id = rule, wf_rule_version = 1, wf_source_id = he_source_id (hd rows), wf_service_id = he_service_id (hd rows),
      wf_client_ip = he_client_ip (hd rows), wf_first_seen = he_timestamp (hd rows), wf_last_seen = he_timestamp (last rows),
      wf_window_seconds = WINDOW_SECONDS, wf_evidence_ids = map he_event_id rows, wf_reason = reason\<rparr>"

definition point_step :: "http_event \<Rightarrow> http_event list list \<Rightarrow> http_event list list" where
  "point_step e groups =
     (if groups = [] \<or> he_event_ts e - he_event_ts (last (last groups)) > WINDOW_SECONDS
      then groups @ [[e]] else butlast groups @ [last groups @ [e]])"

definition point_groups :: "(http_event \<Rightarrow> bool) \<Rightarrow> http_event list \<Rightarrow> http_event list list" where
  "point_groups predicate rows = foldl (\<lambda>groups e. if predicate e then point_step e groups else groups) [] rows"

definition point_findings :: "http_event list \<Rightarrow> string \<Rightarrow> (http_event \<Rightarrow> bool) \<Rightarrow> string \<Rightarrow> web_finding list" where
  "point_findings rows rule predicate description = map (\<lambda>g.
     web_finding_of rule g (description @ '' '' @ nat_str (length g) @ '' matching request record(s); '' @
       ''adjacent matches within 300 seconds grouped. This does not prove compromise.'')) (point_groups predicate rows)"

type_synonym path_tally = "string counter \<times> nat"

definition path_enter :: "http_event \<Rightarrow> path_tally \<Rightarrow> path_tally" where
  "path_enter e st = (case st of (paths, denied) \<Rightarrow>
     (counter_add (he_decoded_path e) paths, denied + (if he_status e \<in> set DENIED then 1 else 0)))"

definition path_leave :: "http_event \<Rightarrow> path_tally \<Rightarrow> path_tally" where
  "path_leave e st = (case st of (paths, denied) \<Rightarrow>
     (counter_drop (he_decoded_path e) paths, denied - (if he_status e \<in> set DENIED then 1 else 0)))"

definition scan_holds :: "nat \<Rightarrow> path_tally \<Rightarrow> bool" where
  "scan_holds records st = (case st of (paths, denied) \<Rightarrow>
     SCAN_MIN_RECORDS \<le> records \<and> SCAN_MIN_PATHS \<le> length paths \<and> SCAN_DENIED_PERCENT * records \<le> denied * 100)"

definition path_intervals :: "http_event list \<Rightarrow> interval list" where
  "path_intervals rows = window_scan he_event_ts WINDOW_SECONDS ([], 0) path_enter path_leave scan_holds rows"

definition scan_findings :: "http_event list \<Rightarrow> web_finding list" where
  "scan_findings rows = map (\<lambda>(start, final, n).
     web_finding_of ''http_multi_path_scan'' (interval_rows rows start final)
       (''At least '' @ nat_str SCAN_MIN_RECORDS @ '' requests across '' @ nat_str SCAN_MIN_PATHS @ '' distinct query-free '' @
        ''decoded paths, with at least '' @ nat_str SCAN_DENIED_PERCENT @ ''% HTTP 403/404 responses in a '' @
        ''300-second window. '' @ nat_str n @ '' qualifying window(s) linked by shared '' @
        ''evidence; automation or a crawler can also produce this pattern.'')) (path_intervals rows)"

definition group_findings :: "(string \<Rightarrow> string) \<Rightarrow> http_event list \<Rightarrow> web_finding list" where
  "group_findings casefold rows =
     point_findings rows ''http_sensitive_resource'' (sensitive casefold) ''A request path names a known sensitive resource.'' @
     point_findings rows ''http_path_traversal'' traversal
       ''A request path contains a parent-directory segment after bounded decoding.'' @
     scan_findings rows"

definition web_group :: "http_event \<Rightarrow> string \<times> string \<times> string" where
  "web_group e = (he_source_id e, he_service_id e, he_client_ip e)"

definition detect_web :: "(string \<Rightarrow> string) \<Rightarrow> http_event list \<Rightarrow> web_finding list result" where
  "detect_web casefold events = and_then (unique_events events) (\<lambda>unique.
     let groups = group_by web_group unique;
         findings = concat (map (\<lambda>(k, rows). group_findings casefold rows) (sort_key fst groups))
     in Inr (sort_key (\<lambda>f. (wf_first_seen f, wf_source_id f, wf_service_id f, wf_client_ip f, wf_rule_id f, wf_evidence_ids f)) findings))"

section \<open>The scan rule judges every window\<close>

text \<open>At least twenty requests on at least ten paths, of which at least 80 percent were answered 403 or 404.\<close>

definition window_scans :: "http_event list \<Rightarrow> bool" where
  "window_scans win \<longleftrightarrow> 20 \<le> length win \<and> 10 \<le> card (he_decoded_path ` set win) \<and>
     80 * length win \<le> 100 * length (filter (\<lambda>e. he_status e = 403 \<or> he_status e = 404) win)"

lemma denied_iff: "he_status e \<in> set DENIED \<longleftrightarrow> he_status e = 403 \<or> he_status e = 404"
  by (simp add: DENIED_def)

definition path_follows :: "path_tally \<Rightarrow> http_event list \<Rightarrow> bool" where
  "path_follows st win \<longleftrightarrow> (case st of (paths, denied) \<Rightarrow>
     counts_of paths (map he_decoded_path win) \<and> denied = length (filter (\<lambda>e. he_status e \<in> set DENIED) win))"

interpretation path_window: sliding_window he_event_ts WINDOW_SECONDS "([], 0) :: path_tally" path_enter path_leave scan_holds
  path_follows window_scans
  by unfold_locales
    (auto simp: WINDOW_SECONDS_def path_follows_def path_enter_def path_leave_def scan_holds_def window_scans_def counts_of_length mult.commute
      SCAN_MIN_RECORDS_def SCAN_MIN_PATHS_def SCAN_DENIED_PERCENT_def denied_iff intro: counts_of_add counts_of_drop)

section \<open>Delivery\<close>

definition keyed :: "((string \<times> string) \<times> http_event) list \<Rightarrow> bool" where
  "keyed u \<longleftrightarrow> distinct (map fst u) \<and> (\<forall>(k, e) \<in> set u. k = he_key e)"

lemma keyed_lookup: "keyed u \<Longrightarrow> map_of u (he_key e) = Some p \<longleftrightarrow> p \<in> snd ` set u \<and> he_key p = he_key e"
  by (force simp: keyed_def)

lemma keyed_set:
  assumes "keyed u" and "map_of u (he_key e) = None \<or> map_of u (he_key e) = Some e"
  shows "keyed (dict_set (he_key e) e u) \<and> snd ` set (dict_set (he_key e) e u) = insert e (snd ` set u)"
  using assms(2)
proof
  assume some: "map_of u (he_key e) = Some e"
  then have "dict_set (he_key e) e u = u" by (induction u) (auto split: if_splits)
  moreover have "e \<in> snd ` set u" using some keyed_lookup [OF assms(1)] by blast
  ultimately show ?thesis using assms(1) by auto
next
  assume "map_of u (he_key e) = None"
  then have new: "he_key e \<notin> fst ` set u" by (simp add: map_of_eq_None_iff)
  then have "dict_set (he_key e) e u = u @ [(he_key e, e)]" by (rule dict_set_fresh)
  with assms(1) new show ?thesis by (auto simp: keyed_def)
qed

lemma keyed_inj: "keyed u \<Longrightarrow> inj_on he_key (snd ` set u)"
proof (rule inj_onI)
  fix a b assume "keyed u" "a \<in> snd ` set u" "b \<in> snd ` set u" "he_key a = he_key b"
  then have "map_of u (he_key a) = Some a" "map_of u (he_key a) = Some b" by (simp_all add: keyed_lookup)
  then show "a = b" by simp
qed

lemma collect_unique_ok:
  assumes "keyed u" and "inj_on he_key (snd ` set u \<union> set es)"
  shows "\<exists>u'. collect_unique u es = Inr u' \<and> keyed u' \<and> snd ` set u' = snd ` set u \<union> set es"
  using assms
proof (induction es arbitrary: u)
  case (Cons e es)
  have "map_of u (he_key e) = None \<or> map_of u (he_key e) = Some e"
  proof (cases "map_of u (he_key e)")
    case (Some p)
    then have "p \<in> snd ` set u" "he_key p = he_key e" using keyed_lookup [OF Cons.prems(1)] by blast+
    then have "p = e" by (intro inj_onD [OF Cons.prems(2)]) simp_all
    with Some show ?thesis by simp
  qed simp
  moreover from keyed_set [OF Cons.prems(1) this] have "keyed (dict_set (he_key e) e u)"
    and s: "snd ` set (dict_set (he_key e) e u) = insert e (snd ` set u)" by auto
  moreover have "inj_on he_key (snd ` set (dict_set (he_key e) e u) \<union> set es)" using Cons.prems(2) by (simp add: s)
  ultimately obtain u' where "collect_unique (dict_set (he_key e) e u) es = Inr u'" "keyed u'"
    "snd ` set u' = snd ` set (dict_set (he_key e) e u) \<union> set es" using Cons.IH by blast
  with s \<open>map_of u (he_key e) = None \<or> _\<close> show ?case by auto
qed auto

lemma collect_unique_conflict:
  assumes "keyed u" and "collect_unique u es = Inr u'"
  shows "inj_on he_key (snd ` set u \<union> set es)"
  using assms
proof (induction es arbitrary: u)
  case (Cons e es)
  from Cons.prems(2) have "map_of u (he_key e) = None \<or> map_of u (he_key e) = Some e"
    and rest: "collect_unique (dict_set (he_key e) e u) es = Inr u'" by (auto split: if_splits option.splits)
  with keyed_set [OF Cons.prems(1)] have "keyed (dict_set (he_key e) e u)"
    "snd ` set (dict_set (he_key e) e u) = insert e (snd ` set u)" by auto
  with Cons.IH [OF _ rest] show ?case by simp
qed (simp add: keyed_inj)

lemma collect_unique_error: "collect_unique u es = Inl x \<Longrightarrow> x = ValueError ''conflicting HTTP evidence identity''"
  by (induction es arbitrary: u) (auto split: if_splits)

text \<open>Re-delivery is harmless, and two different events with one identity are refused.\<close>

lemma unique_events_cases:
  "(inj_on he_key (set events) \<and> (\<exists>unique. unique_events events = Inr unique \<and> set unique = set events \<and> sorted (map he_event_ts unique))) \<or>
   (\<not> inj_on he_key (set events) \<and> unique_events events = Inl (ValueError ''conflicting HTTP evidence identity''))"
proof (cases "inj_on he_key (set events)")
  case True
  have "keyed []" by (simp add: keyed_def)
  with collect_unique_ok [of "[]" events] True obtain u where u: "collect_unique [] events = Inr u" "snd ` set u = set events" by auto
  have "sorted (map (\<lambda>e. (he_event_ts e, he_key e)) (sort_key (\<lambda>e. (he_event_ts e, he_key e)) (map snd u)))" by (rule sorted_sort_key)
  then have "sorted (map he_event_ts (sort_key (\<lambda>e. (he_event_ts e, he_key e)) (map snd u)))"
    unfolding sorted_map by (rule sorted_wrt_mono_rel [rotated]) (auto simp: less_eq_prod_def)
  with u True show ?thesis by (auto simp: unique_events_def)
next
  case False
  have "keyed []" by (simp add: keyed_def)
  with collect_unique_conflict [of "[]" events] False obtain x where "collect_unique [] events = Inl x"
    by (cases "collect_unique [] events") auto
  with collect_unique_error False show ?thesis by (auto simp: unique_events_def)
qed

section \<open>Point rules\<close>

lemma point_groups_snoc:
  "point_groups P (rows @ [e]) = (if P e then point_step e (point_groups P rows) else point_groups P rows)"
  by (simp add: point_groups_def)

lemma point_step_concat: "concat (point_step e groups) = concat groups @ [e]"
  by (cases groups rule: rev_cases) (simp_all add: point_step_def)

text \<open>The groups hold the matching requests, each once and in order; a group is never empty.\<close>

lemma concat_point_groups: "concat (point_groups P rows) = filter P rows"
  by (induction rows rule: rev_induct) (simp_all add: point_groups_snoc point_step_concat, simp add: point_groups_def)

lemma point_groups_nonempty: "[] \<notin> set (point_groups P rows)"
proof (induction rows rule: rev_induct)
  case (snoc e rows)
  then show ?case by (auto simp: point_groups_snoc point_step_def dest: in_set_butlastD)
qed (simp add: point_groups_def)

lemma point_group_members: "g \<in> set (point_groups P rows) \<Longrightarrow> set g \<subseteq> set rows \<inter> {e. P e}"
proof -
  assume "g \<in> set (point_groups P rows)"
  then have "set g \<subseteq> set (concat (point_groups P rows))" by auto
  then show ?thesis unfolding concat_point_groups by auto
qed

section \<open>What the detector reports\<close>

definition wf_group :: "web_finding \<Rightarrow> string \<times> string \<times> string" where
  "wf_group f = (wf_source_id f, wf_service_id f, wf_client_ip f)"

text \<open>A finding made of rows of one group: the group, and which events its evidence are.\<close>

lemma web_finding_of_simps [simp]:
  "wf_rule_id (web_finding_of rule rows reason) = rule"
  "wf_group (web_finding_of rule rows reason) = web_group (hd rows)"
  "wf_evidence_ids (web_finding_of rule rows reason) = map he_event_id rows"
  by (simp_all add: web_finding_of_def wf_group_def web_group_def)

lemma path_intervals_coalesced:
  "sorted (map he_event_ts rows) \<Longrightarrow> coalesced (qualifying he_event_ts WINDOW_SECONDS window_scans rows) (path_intervals rows)"
  unfolding path_intervals_def by (rule path_window.scan_coalesces)

lemma ex_group_by:
  "(\<exists>(k, rows) \<in> set (group_by f xs). P rows) \<longleftrightarrow> (\<exists>x \<in> set xs. P (filter (\<lambda>y. f y = f x) xs))"
  by (auto simp: group_by_mem_iff Bex_def)

lemma detect_web_members:
  assumes "unique_events events = Inr unique"
  shows "\<exists>fs. detect_web casefold events = Inr fs \<and>
    (\<forall>f. f \<in> set fs \<longleftrightarrow> (\<exists>e \<in> set unique. f \<in> set (group_findings casefold (filter (\<lambda>x. web_group x = web_group e) unique))))"
proof -
  let ?fs = "concat (map (\<lambda>(k, rows). group_findings casefold rows) (sort_key fst (group_by web_group unique)))"
  have "f \<in> set ?fs \<longleftrightarrow> (\<exists>(k, rows) \<in> set (group_by web_group unique). f \<in> set (group_findings casefold rows))" for f
    by (simp add: case_prod_beta)
  also have "(\<exists>(k, rows) \<in> set (group_by web_group unique). f \<in> set (group_findings casefold rows)) \<longleftrightarrow>
      (\<exists>e \<in> set unique. f \<in> set (group_findings casefold (filter (\<lambda>x. web_group x = web_group e) unique)))" for f
    by (rule ex_group_by)
  finally have "f \<in> set ?fs \<longleftrightarrow> (\<exists>e \<in> set unique. f \<in> set (group_findings casefold (filter (\<lambda>x. web_group x = web_group e) unique)))" for f .
  with assms show ?thesis by (simp add: detect_web_def Let_def)
qed

text \<open>What the rules find among the rows of one group.\<close>

lemma point_findings_mem:
  "f \<in> set (point_findings rows rule P d) \<Longrightarrow>
   \<exists>g. g \<noteq> [] \<and> set g \<subseteq> set rows \<inter> {e. P e} \<and> wf_rule_id f = rule \<and> wf_group f = web_group (hd g) \<and> wf_evidence_ids f = map he_event_id g"
proof -
  assume "f \<in> set (point_findings rows rule P d)"
  then obtain g where g: "g \<in> set (point_groups P rows)" "wf_rule_id f = rule" "wf_group f = web_group (hd g)"
    "wf_evidence_ids f = map he_event_id g" by (auto simp: point_findings_def)
  moreover have "g \<noteq> []" using g(1) point_groups_nonempty [of P rows] by metis
  ultimately show ?thesis using point_group_members [OF g(1)] by blast
qed

lemma point_findings_complete:
  assumes "e \<in> set rows" and "P e" and one: "\<And>x. x \<in> set rows \<Longrightarrow> web_group x = k"
  shows "\<exists>f \<in> set (point_findings rows rule P d). wf_rule_id f = rule \<and> wf_group f = k \<and> he_event_id e \<in> set (wf_evidence_ids f)"
proof -
  have "e \<in> set (concat (point_groups P rows))" using assms(1,2) by (simp add: concat_point_groups)
  then obtain g where g: "g \<in> set (point_groups P rows)" "e \<in> set g" by auto
  have "hd g \<in> set g" using g(2) by (cases g) auto
  then have "web_group (hd g) = k" using point_group_members [OF g(1)] one by blast
  with g show ?thesis by (auto simp: point_findings_def)
qed

lemma scan_findings_mem:
  assumes srt: "sorted (map he_event_ts rows)" and f: "f \<in> set (scan_findings rows)"
  shows "\<exists>g. g \<noteq> [] \<and> set g \<subseteq> set rows \<and> wf_rule_id f = ''http_multi_path_scan'' \<and> wf_group f = web_group (hd g) \<and>
    wf_evidence_ids f = map he_event_id g \<and>
    (\<forall>x \<in> set g. \<exists>right < length rows. window_scans (window_at he_event_ts WINDOW_SECONDS rows right) \<and>
       x \<in> set (window_at he_event_ts WINDOW_SECONDS rows right) \<and> set (window_at he_event_ts WINDOW_SECONDS rows right) \<subseteq> set g)"
proof -
  from f obtain s e n where i: "(s, e, n) \<in> set (path_intervals rows)"
    and g: "wf_rule_id f = ''http_multi_path_scan''" "wf_group f = web_group (hd (interval_rows rows s e))"
      "wf_evidence_ids f = map he_event_id (interval_rows rows s e)" by (auto simp: scan_findings_def)
  have w: "0 \<le> WINDOW_SECONDS" by (simp add: WINDOW_SECONDS_def)
  note b = interval_bounds [OF path_intervals_coalesced [OF srt] i w]
  have "interval_rows rows s e \<noteq> []" using b(1,2) by (simp add: interval_rows_def)
  moreover have "set (interval_rows rows s e) \<subseteq> set rows" by (auto simp: interval_rows_def dest: in_set_takeD in_set_dropD)
  ultimately show ?thesis using g interval_row_in_window [OF path_intervals_coalesced [OF srt] i w] by blast
qed

lemma scan_findings_complete:
  assumes srt: "sorted (map he_event_ts rows)" and right: "right < length rows"
    and win: "window_scans (window_at he_event_ts WINDOW_SECONDS rows right)"
  shows "\<exists>f \<in> set (scan_findings rows). wf_rule_id f = ''http_multi_path_scan'' \<and>
    he_event_id ` set (window_at he_event_ts WINDOW_SECONDS rows right) \<subseteq> set (wf_evidence_ids f)"
proof -
  have w: "0 \<le> WINDOW_SECONDS" by (simp add: WINDOW_SECONDS_def)
  from window_reported [OF path_intervals_coalesced [OF srt] right win w] obtain s e n where
    i: "(s, e, n) \<in> set (path_intervals rows)" "set (window_at he_event_ts WINDOW_SECONDS rows right) \<subseteq> set (interval_rows rows s e)" by auto
  from i(1) obtain f where "f \<in> set (scan_findings rows)" "wf_rule_id f = ''http_multi_path_scan''"
    "wf_evidence_ids f = map he_event_id (interval_rows rows s e)" by (force simp: scan_findings_def)
  moreover from this(3) i(2) have "he_event_id ` set (window_at he_event_ts WINDOW_SECONDS rows right) \<subseteq> set (wf_evidence_ids f)"
    by (simp add: image_mono)
  ultimately show ?thesis by blast
qed

text \<open>An event of a scan finding: it lies in a qualifying window of the rows, all of whose events the finding holds.\<close>

definition scan_evidence :: "http_event list \<Rightarrow> web_finding \<Rightarrow> string \<Rightarrow> bool" where
  "scan_evidence rows f i \<longleftrightarrow> (\<exists>right < length rows. window_scans (window_at he_event_ts WINDOW_SECONDS rows right) \<and>
     i \<in> he_event_id ` set (window_at he_event_ts WINDOW_SECONDS rows right) \<and>
     he_event_id ` set (window_at he_event_ts WINDOW_SECONDS rows right) \<subseteq> set (wf_evidence_ids f))"

lemma group_finding_mem:
  assumes srt: "sorted (map he_event_ts rows)" and f: "f \<in> set (group_findings casefold rows)" and one: "\<And>x. x \<in> set rows \<Longrightarrow> web_group x = k"
  shows "wf_group f = k \<and> wf_evidence_ids f \<noteq> [] \<and>
    (\<forall>i \<in> set (wf_evidence_ids f). \<exists>e \<in> set rows. he_event_id e = i \<and>
      (wf_rule_id f = ''http_sensitive_resource'' \<longrightarrow> sensitive casefold e) \<and> (wf_rule_id f = ''http_path_traversal'' \<longrightarrow> traversal e))"
    (is "?points")
    and "wf_rule_id f = ''http_sensitive_resource'' \<or> wf_rule_id f = ''http_path_traversal'' \<or>
      wf_rule_id f = ''http_multi_path_scan'' \<and> (\<forall>i \<in> set (wf_evidence_ids f). scan_evidence rows f i)"
    (is "?scans")
proof -
  from f consider "f \<in> set (point_findings rows ''http_sensitive_resource'' (sensitive casefold) ''A request path names a known sensitive resource.'')"
    | "f \<in> set (point_findings rows ''http_path_traversal'' traversal ''A request path contains a parent-directory segment after bounded decoding.'')"
    | "f \<in> set (scan_findings rows)" by (auto simp: group_findings_def)
  then obtain g where g: "g \<noteq> []" "set g \<subseteq> set rows" "wf_group f = web_group (hd g)" "wf_evidence_ids f = map he_event_id g"
    "wf_rule_id f = ''http_sensitive_resource'' \<and> (\<forall>e \<in> set g. sensitive casefold e) \<or>
     wf_rule_id f = ''http_path_traversal'' \<and> (\<forall>e \<in> set g. traversal e) \<or>
     wf_rule_id f = ''http_multi_path_scan'' \<and> (\<forall>i \<in> set (wf_evidence_ids f). scan_evidence rows f i)"
  proof cases
    case 1
    from point_findings_mem [OF this] obtain g where "g \<noteq> []" "set g \<subseteq> set rows \<inter> {e. sensitive casefold e}"
      "wf_rule_id f = ''http_sensitive_resource''" "wf_group f = web_group (hd g)" "wf_evidence_ids f = map he_event_id g" by blast
    with that [of g] show ?thesis by blast
  next
    case 2
    from point_findings_mem [OF this] obtain g where "g \<noteq> []" "set g \<subseteq> set rows \<inter> {e. traversal e}"
      "wf_rule_id f = ''http_path_traversal''" "wf_group f = web_group (hd g)" "wf_evidence_ids f = map he_event_id g" by blast
    with that [of g] show ?thesis by blast
  next
    case 3
    from scan_findings_mem [OF srt this] obtain g where g: "g \<noteq> []" "set g \<subseteq> set rows" "wf_rule_id f = ''http_multi_path_scan''"
      "wf_group f = web_group (hd g)" and ids: "wf_evidence_ids f = map he_event_id g"
      and win: "\<forall>x \<in> set g. \<exists>right < length rows. window_scans (window_at he_event_ts WINDOW_SECONDS rows right) \<and>
       x \<in> set (window_at he_event_ts WINDOW_SECONDS rows right) \<and> set (window_at he_event_ts WINDOW_SECONDS rows right) \<subseteq> set g" by blast
    have "\<forall>i \<in> set (wf_evidence_ids f). scan_evidence rows f i"
      unfolding scan_evidence_def ids set_map using win by blast
    with g ids that [of g] show ?thesis by blast
  qed
  have "hd g \<in> set rows" using g(1,2) by (cases g) auto
  then have "wf_group f = k" using g(3) one by simp
  moreover have "\<exists>e \<in> set rows. he_event_id e = i \<and>
      (wf_rule_id f = ''http_sensitive_resource'' \<longrightarrow> sensitive casefold e) \<and> (wf_rule_id f = ''http_path_traversal'' \<longrightarrow> traversal e)"
    if "i \<in> set (wf_evidence_ids f)" for i
  proof -
    from that g(4) obtain e where e: "e \<in> set g" "he_event_id e = i" by auto
    with g(2,5) show ?thesis by (intro bexI [of _ e]) auto
  qed
  ultimately show ?points using g(1,4) by simp
  show ?scans using g(5) by blast
qed

lemma group_findings_parts:
  "set (point_findings rows ''http_sensitive_resource'' (sensitive casefold) ''A request path names a known sensitive resource.'') \<subseteq> set (group_findings casefold rows)"
  "set (point_findings rows ''http_path_traversal'' traversal ''A request path contains a parent-directory segment after bounded decoding.'') \<subseteq> set (group_findings casefold rows)"
  "set (scan_findings rows) \<subseteq> set (group_findings casefold rows)"
  unfolding group_findings_def set_append by blast+

text \<open>The parts of the result below, for the events once each in order.\<close>

lemma unique_reported:
  assumes u: "unique_events events = Inr unique" "set unique = set events" "sorted (map he_event_ts unique)"
    and fs: "\<And>f. f \<in> set fs \<longleftrightarrow> (\<exists>e \<in> set unique. f \<in> set (group_findings casefold (filter (\<lambda>x. web_group x = web_group e) unique)))"
  shows "e \<in> set events \<Longrightarrow> sensitive casefold e \<Longrightarrow>
      \<exists>f \<in> set fs. wf_rule_id f = ''http_sensitive_resource'' \<and> wf_group f = web_group e \<and> he_event_id e \<in> set (wf_evidence_ids f)"
    and "e \<in> set events \<Longrightarrow> traversal e \<Longrightarrow>
      \<exists>f \<in> set fs. wf_rule_id f = ''http_path_traversal'' \<and> wf_group f = web_group e \<and> he_event_id e \<in> set (wf_evidence_ids f)"
    and "right < length (filter (\<lambda>x. web_group x = k) unique) \<Longrightarrow>
      window_scans (window_at he_event_ts WINDOW_SECONDS (filter (\<lambda>x. web_group x = k) unique) right) \<Longrightarrow>
      \<exists>f \<in> set fs. wf_rule_id f = ''http_multi_path_scan'' \<and>
        he_event_id ` set (window_at he_event_ts WINDOW_SECONDS (filter (\<lambda>x. web_group x = k) unique) right) \<subseteq> set (wf_evidence_ids f)"
    and "f \<in> set fs \<Longrightarrow> wf_evidence_ids f \<noteq> [] \<and> (\<forall>i \<in> set (wf_evidence_ids f). \<exists>e \<in> set events. he_event_id e = i \<and> web_group e = wf_group f \<and>
        (wf_rule_id f = ''http_sensitive_resource'' \<longrightarrow> sensitive casefold e) \<and> (wf_rule_id f = ''http_path_traversal'' \<longrightarrow> traversal e))"
    and "f \<in> set fs \<Longrightarrow> wf_rule_id f = ''http_sensitive_resource'' \<or> wf_rule_id f = ''http_path_traversal'' \<or>
      wf_rule_id f = ''http_multi_path_scan'' \<and>
        (\<forall>i \<in> set (wf_evidence_ids f). scan_evidence (filter (\<lambda>x. web_group x = wf_group f) unique) f i)"
proof -
  let ?rows = "\<lambda>k. filter (\<lambda>x. web_group x = k) unique"
  have srt: "sorted (map he_event_ts (?rows k))" for k using u(3) by (rule sorted_filter)
  have one: "web_group x = k" if "x \<in> set (?rows k)" for x k using that by simp
  have inv: "f \<in> set fs" if "f \<in> set (group_findings casefold (?rows (web_group e)))" "e \<in> set events" for f e using that fs u(2) by blast
  have point: "\<exists>f \<in> set fs. wf_rule_id f = rule \<and> wf_group f = web_group e \<and> he_event_id e \<in> set (wf_evidence_ids f)"
    if e: "e \<in> set events" "P e"
      and part: "\<And>rows. set (point_findings rows rule P d) \<subseteq> set (group_findings casefold rows)" for e rule P d
  proof -
    have "e \<in> set (?rows (web_group e))" using e(1) u(2) by simp
    from point_findings_complete [OF this, of P "web_group e" rule d] e(2) one
    obtain f where f: "f \<in> set (point_findings (?rows (web_group e)) rule P d)" "wf_rule_id f = rule" "wf_group f = web_group e"
      "he_event_id e \<in> set (wf_evidence_ids f)" by blast
    have "f \<in> set fs" using f(1) part e(1) by (intro inv) (rule subsetD)
    with f show ?thesis by blast
  qed
  show "\<exists>f \<in> set fs. wf_rule_id f = ''http_sensitive_resource'' \<and> wf_group f = web_group e \<and> he_event_id e \<in> set (wf_evidence_ids f)"
    if "e \<in> set events" "sensitive casefold e" using that by (rule point [OF _ _ group_findings_parts(1)])
  show "\<exists>f \<in> set fs. wf_rule_id f = ''http_path_traversal'' \<and> wf_group f = web_group e \<and> he_event_id e \<in> set (wf_evidence_ids f)"
    if "e \<in> set events" "traversal e" using that by (rule point [OF _ _ group_findings_parts(2)])
  show "\<exists>f \<in> set fs. wf_rule_id f = ''http_multi_path_scan'' \<and>
      he_event_id ` set (window_at he_event_ts WINDOW_SECONDS (?rows k) right) \<subseteq> set (wf_evidence_ids f)"
    if r: "right < length (?rows k)" "window_scans (window_at he_event_ts WINDOW_SECONDS (?rows k) right)"
  proof -
    from r(1) have "?rows k ! right \<in> set (?rows k)" by (rule nth_mem)
    then obtain e where "e \<in> set events" "k = web_group e" using u(2) by auto
    note e = this
    from scan_findings_complete [OF srt r] obtain f where f: "f \<in> set (scan_findings (?rows k))" "wf_rule_id f = ''http_multi_path_scan''"
      "he_event_id ` set (window_at he_event_ts WINDOW_SECONDS (?rows k) right) \<subseteq> set (wf_evidence_ids f)" by blast
    have "f \<in> set fs" using f(1) group_findings_parts(3) e(1) unfolding e(2) by (intro inv) (rule subsetD)
    with f show ?thesis by blast
  qed
  show "wf_evidence_ids f \<noteq> [] \<and> (\<forall>i \<in> set (wf_evidence_ids f). \<exists>e \<in> set events. he_event_id e = i \<and> web_group e = wf_group f \<and>
        (wf_rule_id f = ''http_sensitive_resource'' \<longrightarrow> sensitive casefold e) \<and> (wf_rule_id f = ''http_path_traversal'' \<longrightarrow> traversal e))"
    if "f \<in> set fs"
  proof -
    from that fs obtain e where e: "f \<in> set (group_findings casefold (?rows (web_group e)))" by blast
    note g = group_finding_mem(1) [OF srt e, of "web_group e", OF one]
    have rows: "x \<in> set events \<and> web_group x = wf_group f" if "x \<in> set (?rows (web_group e))" for x using that g u(2) by simp
    show ?thesis
    proof (intro conjI ballI)
      show "wf_evidence_ids f \<noteq> []" using g by blast
      fix i assume "i \<in> set (wf_evidence_ids f)"
      with g obtain x where "x \<in> set (?rows (web_group e))" "he_event_id x = i" "wf_rule_id f = ''http_sensitive_resource'' \<longrightarrow> sensitive casefold x"
        "wf_rule_id f = ''http_path_traversal'' \<longrightarrow> traversal x" by blast
      with rows show "\<exists>e \<in> set events. he_event_id e = i \<and> web_group e = wf_group f \<and>
        (wf_rule_id f = ''http_sensitive_resource'' \<longrightarrow> sensitive casefold e) \<and> (wf_rule_id f = ''http_path_traversal'' \<longrightarrow> traversal e)" by blast
    qed
  qed
  show "wf_rule_id f = ''http_sensitive_resource'' \<or> wf_rule_id f = ''http_path_traversal'' \<or>
      wf_rule_id f = ''http_multi_path_scan'' \<and> (\<forall>i \<in> set (wf_evidence_ids f). scan_evidence (?rows (wf_group f)) f i)"
    if "f \<in> set fs"
  proof -
    from that fs obtain e where e: "f \<in> set (group_findings casefold (?rows (web_group e)))" by blast
    have "wf_group f = web_group e" using group_finding_mem(1) [OF srt e, of "web_group e", OF one] by blast
    with group_finding_mem(2) [OF srt e, of "web_group e", OF one] show ?thesis by simp
  qed
qed

text \<open>
  C37: the detector over access records is complete and sound. Two different events with one identity are refused; otherwise it
  answers. Every request that names a sensitive resource or climbs out of a directory is evidence of a finding of that rule for its
  source, service and peer. Every window of five minutes of one such group with at least twenty requests on ten paths, 80 percent of them
  refused, is inside a finding of the scan rule. And a finding is of one of the three rules, holds only events that were given, of its own
  group, and each of them matches its rule: for the scan rule it lies in such a window, all of whose events the finding holds.
\<close>

theorem web_requests_reported:
  "(\<not> inj_on he_key (set events) \<longrightarrow> detect_web casefold events = Inl (ValueError ''conflicting HTTP evidence identity'')) \<and>
   (inj_on he_key (set events) \<longrightarrow> (\<exists>fs unique. detect_web casefold events = Inr fs \<and> unique_events events = Inr unique \<and> set unique = set events \<and>
      (\<forall>e \<in> set events. sensitive casefold e \<longrightarrow>
        (\<exists>f \<in> set fs. wf_rule_id f = ''http_sensitive_resource'' \<and> wf_group f = web_group e \<and> he_event_id e \<in> set (wf_evidence_ids f))) \<and>
      (\<forall>e \<in> set events. traversal e \<longrightarrow>
        (\<exists>f \<in> set fs. wf_rule_id f = ''http_path_traversal'' \<and> wf_group f = web_group e \<and> he_event_id e \<in> set (wf_evidence_ids f))) \<and>
      (\<forall>k right. right < length (filter (\<lambda>x. web_group x = k) unique) \<and>
          window_scans (window_at he_event_ts 300 (filter (\<lambda>x. web_group x = k) unique) right) \<longrightarrow>
        (\<exists>f \<in> set fs. wf_rule_id f = ''http_multi_path_scan'' \<and>
          he_event_id ` set (window_at he_event_ts 300 (filter (\<lambda>x. web_group x = k) unique) right) \<subseteq> set (wf_evidence_ids f))) \<and>
      (\<forall>f \<in> set fs. wf_evidence_ids f \<noteq> [] \<and> (\<forall>i \<in> set (wf_evidence_ids f). \<exists>e \<in> set events. he_event_id e = i \<and> web_group e = wf_group f \<and>
        (wf_rule_id f = ''http_sensitive_resource'' \<longrightarrow> sensitive casefold e) \<and> (wf_rule_id f = ''http_path_traversal'' \<longrightarrow> traversal e))) \<and>
      (\<forall>f \<in> set fs. wf_rule_id f = ''http_sensitive_resource'' \<or> wf_rule_id f = ''http_path_traversal'' \<or>
        wf_rule_id f = ''http_multi_path_scan'' \<and> (\<forall>i \<in> set (wf_evidence_ids f).
          \<exists>right < length (filter (\<lambda>x. web_group x = wf_group f) unique).
            window_scans (window_at he_event_ts 300 (filter (\<lambda>x. web_group x = wf_group f) unique) right) \<and>
            i \<in> he_event_id ` set (window_at he_event_ts 300 (filter (\<lambda>x. web_group x = wf_group f) unique) right) \<and>
            he_event_id ` set (window_at he_event_ts 300 (filter (\<lambda>x. web_group x = wf_group f) unique) right) \<subseteq> set (wf_evidence_ids f)))))"
  (is "_ \<and> (_ \<longrightarrow> ?reported)")
proof (intro conjI impI)
  assume "\<not> inj_on he_key (set events)"
  with unique_events_cases [of events] show "detect_web casefold events = Inl (ValueError ''conflicting HTTP evidence identity'')"
    by (auto simp: detect_web_def)
next
  assume "inj_on he_key (set events)"
  with unique_events_cases [of events] obtain unique where u: "unique_events events = Inr unique" "set unique = set events"
    "sorted (map he_event_ts unique)" by blast
  from detect_web_members [OF u(1), of casefold] obtain fs where fs: "detect_web casefold events = Inr fs"
    "\<And>f. f \<in> set fs \<longleftrightarrow> (\<exists>e \<in> set unique. f \<in> set (group_findings casefold (filter (\<lambda>x. web_group x = web_group e) unique)))" by blast
  note r = unique_reported [OF u fs(2), unfolded scan_evidence_def WINDOW_SECONDS_def]
  show ?reported
  proof (rule exI [of _ fs], rule exI [of _ unique], intro conjI ballI allI impI)
    show "detect_web casefold events = Inr fs" "unique_events events = Inr unique" "set unique = set events" by (fact fs(1) u(1,2))+
  qed (use r in blast)+
qed

definition git_request :: http_event where
  "git_request = \<lparr>he_source_id = ''s'', he_service_id = ''w'', he_event_id = ''1'', he_timestamp = ''t'', he_event_ts = 0, he_client_ip = ''192.0.2.1'',
     he_method = ''GET'', he_path = ''/.git/x'', he_decoded_path = ''/.git/x'', he_status = 404\<rparr>"

theorem web_requests_reported_witness:
  "\<exists>fs. detect_web lower [git_request, git_request] = Inr fs \<and>
     (\<exists>f \<in> set fs. wf_rule_id f = ''http_sensitive_resource'' \<and> he_event_id git_request \<in> set (wf_evidence_ids f))"
proof -
  have inj: "inj_on he_key (set [git_request, git_request])" by simp
  have s: "sensitive lower git_request" and m: "git_request \<in> set [git_request, git_request]" by code_simp+
  from mp [OF conjunct2 [OF web_requests_reported [of "[git_request, git_request]" lower]] inj]
  obtain fs where "detect_web lower [git_request, git_request] = Inr fs"
    "\<forall>e \<in> set [git_request, git_request]. sensitive lower e \<longrightarrow>
        (\<exists>f \<in> set fs. wf_rule_id f = ''http_sensitive_resource'' \<and> wf_group f = web_group e \<and> he_event_id e \<in> set (wf_evidence_ids f))"
    by (elim exE conjE) (rule that)
  with s m show ?thesis by fast
qed

end
