(* ===== verification/Sshd_Parse.thy ===== *)
theory Sshd_Parse
  imports Py_Text "HOL-Library.Sublist"
begin

text \<open>
  \<open>app/telemetry/sshd_parse.py\<close>: the kind, the peer and the user of one sshd message. The rules of the source are regular
  expressions; they are values of \<open>rx\<close> here, matched with the backtracking of Python's \<open>re\<close>: a greedy repetition tries the
  longest piece first, a lazy one the shortest, and the first way to match the whole text decides the groups.

  \<open>ip\<close> is \<open>str(ipaddress.ip_address(t))\<close>, \<open>None\<close> for its \<open>ValueError\<close>.
\<close>

section \<open>Regular expressions\<close>

datatype rx =
    Lit string
  | Many "char \<Rightarrow> bool" nat
  | Few "char \<Rightarrow> bool" nat
  | Exact "char \<Rightarrow> bool" nat
  | Seq rx rx
  | Either rx rx
  | Maybe rx
  | Named string rx
  | NotRest "string list"

type_synonym groups = "(string \<times> string) list"

text \<open>At least \<open>n\<close> characters of a class, longest and shortest first, with what is tried next.\<close>

fun many :: "(char \<Rightarrow> bool) \<Rightarrow> nat \<Rightarrow> string \<Rightarrow> (string \<Rightarrow> 'r option) \<Rightarrow> 'r option" where
  "many p n [] k = (if n = 0 then k [] else None)"
| "many p n (c # s) k =
     (case (if p c then many p (n - 1) s k else None) of
        Some r \<Rightarrow> Some r
      | None \<Rightarrow> if n = 0 then k (c # s) else None)"

fun few :: "(char \<Rightarrow> bool) \<Rightarrow> nat \<Rightarrow> string \<Rightarrow> (string \<Rightarrow> 'r option) \<Rightarrow> 'r option" where
  "few p n [] k = (if n = 0 then k [] else None)"
| "few p n (c # s) k =
     (case (if n = 0 then k (c # s) else None) of
        Some r \<Rightarrow> Some r
      | None \<Rightarrow> if p c then few p (n - 1) s k else None)"

primrec rx_match :: "rx \<Rightarrow> string \<Rightarrow> groups \<Rightarrow> (string \<Rightarrow> groups \<Rightarrow> groups option) \<Rightarrow> groups option" where
  "rx_match (Lit t) s g k = (case literal t s of Some s' \<Rightarrow> k s' g | None \<Rightarrow> None)"
| "rx_match (Many p n) s g k = many p n s (\<lambda>s'. k s' g)"
| "rx_match (Few p n) s g k = few p n s (\<lambda>s'. k s' g)"
| "rx_match (Exact p n) s g k = (if n \<le> length s \<and> list_all p (take n s) then k (drop n s) g else None)"
| "rx_match (Seq a b) s g k = rx_match a s g (\<lambda>s' g'. rx_match b s' g' k)"
| "rx_match (Either a b) s g k = (case rx_match a s g k of Some r \<Rightarrow> Some r | None \<Rightarrow> rx_match b s g k)"
| "rx_match (Maybe a) s g k = (case rx_match a s g k of Some r \<Rightarrow> Some r | None \<Rightarrow> k s g)"
| "rx_match (Named x a) s g k = rx_match a s g (\<lambda>s' g'. k s' ((x, take (length s - length s') s) # g'))"
| "rx_match (NotRest ts) s g k = (if s \<in> set ts then None else k s g)"

definition fullmatch :: "rx \<Rightarrow> string \<Rightarrow> groups option" where
  "fullmatch r s = rx_match r s [] (\<lambda>s' g. if s' = [] then Some g else None)"

fun seqs :: "rx list \<Rightarrow> rx" where
  "seqs [] = Lit []"
| "seqs [r] = r"
| "seqs (r # rs) = Seq r (seqs rs)"

section \<open>The rules\<close>

definition nonspace :: "char \<Rightarrow> bool" where "nonspace c \<longleftrightarrow> \<not> is_space c"
definition any_char :: "char \<Rightarrow> bool" where "any_char c \<longleftrightarrow> c \<noteq> CHR 0x0A"
definition no_colon :: "char \<Rightarrow> bool" where "no_colon c \<longleftrightarrow> \<not> is_space c \<and> c \<noteq> CHR '':''"

definition IP :: rx where "IP = Named ''ip'' (Many nonspace 1)"
definition PORT :: rx where "PORT = Maybe (Seq (Lit '' port '') (Named ''port'' (Many nonspace 1)))"
definition PRE :: rx where "PRE = Maybe (Lit '' [preauth]'')"
definition USER :: rx where "USER = Named ''user'' (Many nonspace 0)"
definition AUTH_TAIL :: rx where
  "AUTH_TAIL = Seq (Maybe (Seq (Lit '' ssh2'') (Maybe (Seq (Lit '': '') (Many any_char 0))))) PRE"
definition REASON_PEER :: rx where
  "REASON_PEER = seqs [Named ''ip'' (Few nonspace 1), Maybe (Seq (Lit '' port '') (Named ''port'' (Many no_colon 1))), Lit '':'', Many is_space 1]"
definition CODE_PEER :: rx where
  "CODE_PEER = seqs [IP, Maybe (Seq (Lit '' port '') (Named ''port'' (Many no_colon 1))), Lit '':'', Many is_space 0]"

abbreviation dots :: rx where "dots \<equiv> Many any_char 0"
abbreviation digits1 :: rx where "digits1 \<equiv> Many is_digit 1"
abbreviation token1 :: rx where "token1 \<equiv> Many nonspace 1"
abbreviation two_digits :: rx where "two_digits \<equiv> Exact is_digit 2"

definition SESSION_USER :: rx where
  "SESSION_USER = Named ''user'' (Many (\<lambda>c. c \<noteq> CHR '' '' \<and> c \<noteq> CHR ''('') 1)"

definition AUTH_RULES :: "(string \<times> rx) list" where
  "AUTH_RULES =
    [(''auth_success'', seqs [Lit ''Accepted '', token1, Lit '' for '', Maybe (Lit ''invalid user ''), USER, Lit '' from '', IP, PORT, AUTH_TAIL]),
     (''session_open'', seqs [Lit ''pam_unix(sshd:session): session opened for user '', SESSION_USER, dots]),
     (''session_close'', seqs [Lit ''pam_unix(sshd:session): session closed for user '', SESSION_USER, dots]),
     (''auth_failure'', seqs [Lit ''Failed '', token1, Lit '' for '', Maybe (Lit ''invalid user ''), USER, Lit '' from '', IP, PORT, AUTH_TAIL]),
     (''auth_failure'', seqs [Lit ''error: maximum authentication attempts exceeded for '', Maybe (Lit ''invalid user ''), USER, Lit '' from '', IP,
        PORT, AUTH_TAIL]),
     (''auth_failure'', seqs [Lit ''error: PAM: '', Many (\<lambda>c. c \<noteq> CHR '':'') 1, Lit '' for '', Maybe (Lit ''illegal user ''), USER, Lit '' from '', IP, PRE]),
     (''auth_failure'', seqs [Lit ''Authentication '', Either (Lit ''failure'') (Either (Lit ''error'') (Lit ''failed'')), Lit '' for '', USER,
        Lit '' from '', IP, PORT, PRE]),
     (''invalid_user'', seqs [Lit ''Invalid user '', USER, Lit '' from '', IP, PORT, PRE])]"

definition closed_or_reset :: rx where "closed_or_reset = Either (Lit ''closed'') (Lit ''reset'')"
definition invalid_or_authenticating :: rx where "invalid_or_authenticating = Either (Lit ''invalid'') (Lit ''authenticating'')"

definition ABORT_RULES :: "(string \<times> rx) list" where
  "ABORT_RULES =
    [(''preauth_abort'', seqs [Lit ''Connection '', closed_or_reset, Lit '' by '', invalid_or_authenticating, Lit '' user '', USER, Lit '' '', IP, PORT, PRE]),
     (''preauth_abort'', seqs [Lit ''Disconnected from '', invalid_or_authenticating, Lit '' user '', USER, Lit '' '', IP, PORT, PRE]),
     (''preauth_abort'', seqs [Lit ''Disconnecting '', invalid_or_authenticating, Lit '' user '', USER, Lit '' '', REASON_PEER, dots]),
     (''preauth_abort'', seqs [Lit ''Connection '', closed_or_reset, Lit '' by '', IP, PORT, Lit '' [preauth]'']),
     (''preauth_abort'', seqs [Lit ''Disconnected from '', IP, PORT, Lit '' [preauth]''])]"

definition DISCONNECT_RULES :: "(string \<times> rx) list" where
  "DISCONNECT_RULES =
    [(''disconnect'', seqs [Lit ''Disconnected from user '', USER, Lit '' '', IP, PORT, PRE]),
     (''disconnect'', seqs [Lit ''Received disconnect from '', CODE_PEER, digits1, Lit '':'',
        Maybe (Seq (Lit '' disconnected by user'')
          (Maybe (seqs [Lit '' '', Named ''user'' (Seq (NotRest [''[preauth]'', ''[preauth]'' @ [CHR 0x0A]]) token1)]))), PRE]),
     (''disconnect'', seqs [Lit ''Received disconnect from '', CODE_PEER, digits1, Lit '':'', dots]),
     (''disconnect'', seqs [Lit ''Connection '', closed_or_reset, Lit '' by '', IP, PORT]),
     (''disconnect'', seqs [Lit ''Disconnected from '', IP, PORT])]"

definition PROBE_RULES :: "(string \<times> rx) list" where
  "PROBE_RULES =
    [(''probe'', seqs [Lit ''Did not receive identification string from '', IP, PORT, PRE]),
     (''probe'', seqs [Lit ''banner exchange: Connection from '', REASON_PEER, dots]),
     (''probe'', seqs [Lit ''Bad protocol version identification '', dots, Lit '' from '', IP, PORT, PRE]),
     (''probe'', seqs [Lit ''Timeout before authentication for connection from '', IP, PORT, Lit '' to '', token1,
        Maybe (Seq (Lit '' port '') token1), Maybe (Seq (Lit '', pid = '') digits1), PRE]),
     (''probe'', seqs [Lit ''Unable to negotiate with '', REASON_PEER, dots]),
     (''probe'', seqs [Lit ''Connection from '', IP, PORT,
        Maybe (seqs [Lit '' on '', token1, Maybe (Seq (Lit '' port '') digits1), Maybe (Seq (Lit '' rdomain '') dots)])]),
     (''probe'', seqs [Lit ''error: kex_exchange_identification: '', dots, Lit '': '', IP, PRE]),
     (''probe'', seqs [Lit ''ssh_dispatch_run_fatal: Connection from '', Maybe (seqs [Lit ''user '', USER, Lit '' '']), REASON_PEER, dots]),
     (''probe'', seqs [Lit ''error: Received disconnect from '', CODE_PEER, Lit ''14:'', dots]),
     (''probe'', seqs [Lit ''error: kex_exchange_identification: '', dots]),
     (''probe'', seqs [Lit ''error: kex_protocol_error: '', dots]),
     (''probe'', seqs [Lit ''error: Protocol major versions differ'', dots]),
     (''probe'', seqs [Lit ''padding error: '', dots]),
     (''probe'', seqs [Lit ''Bad packet length '', digits1, Lit ''.'']),
     (''probe'', seqs [Lit ''fatal: userauth_pubkey: '', dots]),
     (''probe'', seqs [Lit ''drop connection #'', digits1, Lit '' from ['', Named ''ip'' (Many (\<lambda>c. c \<noteq> CHR '']'') 1), Lit '']:'',
        Named ''port'' token1, Lit '' on ['', Many (\<lambda>c. c \<noteq> CHR '']'') 1, Lit '']:'', digits1, Lit '' past MaxStartups''])]"

definition DAEMON_RULES :: "(string \<times> rx) list" where
  "DAEMON_RULES =
    [(''daemon'', seqs [Lit ''Server listening on '', dots]),
     (''daemon'', seqs [Lit ''Received signal '', digits1, Lit ''; terminating'', dots]),
     (''daemon'', seqs [Lit ''Received SIGHUP; restarting'', dots]),
     (''daemon'', Lit ''error: beginning MaxStartups throttling''),
     (''daemon'', seqs [Lit ''exited MaxStartups throttling after '', two_digits, Lit '':'', two_digits, Lit '':'', two_digits, Lit '', '', digits1,
        Lit '' connection'', Maybe (Lit ''s''), Lit '' dropped'']),
     (''auth_failure'', seqs [Lit ''userauth_pubkey: '', Either (Lit ''signature algorithm'') (Lit ''key type''), Lit '' '', token1, Lit '' not in '', token1,
        PRE])]"

definition RULES :: "(string \<times> rx) list" where
  "RULES = AUTH_RULES @ ABORT_RULES @ DISCONNECT_RULES @ PROBE_RULES @ DAEMON_RULES"

section \<open>Parsing\<close>

record sshd_fields =
  sf_event_kind :: string
  sf_peer_ip :: "string option"
  sf_username :: "string option"

definition unknown :: sshd_fields where
  "unknown = \<lparr>sf_event_kind = ''other'', sf_peer_ip = None, sf_username = None\<rparr>"

definition peer_of :: "(string \<Rightarrow> string option) \<Rightarrow> groups \<Rightarrow> string option option" where
  "peer_of ip g = (case map_of g ''ip'' of
     None \<Rightarrow> Some None
   | Some t \<Rightarrow> if CHR ''%'' \<in> set t \<or> CHR ''['' \<in> set t \<or> CHR '']'' \<in> set t then None
       else (case ip t of None \<Rightarrow> None | Some a \<Rightarrow> Some (Some a)))"

definition port_ok :: "groups \<Rightarrow> bool" where
  "port_ok g = (case map_of g ''port'' of
     None \<Rightarrow> True
   | Some p \<Rightarrow> p \<noteq> [] \<and> length p \<le> 5 \<and> list_all is_digit p \<and> 1 \<le> int (digits_val p) \<and> int (digits_val p) \<le> 65535)"

definition fields_of :: "(string \<Rightarrow> string option) \<Rightarrow> string \<Rightarrow> groups \<Rightarrow> sshd_fields" where
  "fields_of ip kind g = (case peer_of ip g of
     None \<Rightarrow> unknown
   | Some peer \<Rightarrow> if \<not> port_ok g then unknown
       else \<lparr>sf_event_kind = kind, sf_peer_ip = peer, sf_username = (case map_of g ''user'' of Some u \<Rightarrow> if u = [] then None else Some u | None \<Rightarrow> None)\<rparr>)"

fun first_rule :: "(string \<Rightarrow> string option) \<Rightarrow> string \<Rightarrow> (string \<times> rx) list \<Rightarrow> sshd_fields" where
  "first_rule ip text [] = unknown"
| "first_rule ip text ((kind, r) # rules) = (case fullmatch r text of
     None \<Rightarrow> first_rule ip text rules
   | Some g \<Rightarrow> fields_of ip kind g)"

definition parse_sshd :: "(string \<Rightarrow> string option) \<Rightarrow> string \<Rightarrow> sshd_fields" where
  "parse_sshd ip message = first_rule ip (strip message) RULES"

section \<open>Every group is a piece of the text\<close>

text \<open>What a match leaves is a suffix, and every group it has set is a piece of the text.\<close>

definition pieces :: "string \<Rightarrow> groups \<Rightarrow> bool" where
  "pieces text g \<longleftrightarrow> (\<forall>(x, t) \<in> set g. sublist t text)"

lemma many_SomeD: "many p n s k = Some r \<Longrightarrow> \<exists>s'. suffix s' s \<and> k s' = Some r"
proof (induction p n s k rule: many.induct)
  case (2 p n c s k)
  show ?case
  proof (cases "if p c then many p (n - 1) s k else None")
    case None
    with "2.prems" have "k (c # s) = Some r" by (simp split: if_splits)
    then show ?thesis by (intro exI [of _ "c # s"]) simp
  next
    case (Some r')
    with "2.prems" have "p c" "many p (n - 1) s k = Some r" by (auto split: if_splits)
    with "2.IH" show ?thesis by (meson suffix_ConsI)
  qed
qed (auto split: if_splits)

lemma few_SomeD: "few p n s k = Some r \<Longrightarrow> \<exists>s'. suffix s' s \<and> k s' = Some r"
proof (induction p n s k rule: few.induct)
  case (2 p n c s k)
  show ?case
  proof (cases "if n = 0 then k (c # s) else None")
    case None
    with "2.prems" have "p c" "few p (n - 1) s k = Some r" by (auto split: if_splits)
    with None "2.IH" show ?thesis by (meson suffix_ConsI)
  next
    case (Some r')
    with "2.prems" have "k (c # s) = Some r" by (auto split: if_splits)
    then show ?thesis by (intro exI [of _ "c # s"]) simp
  qed
qed (auto split: if_splits)

lemma rx_match_pieces:
  assumes "rx_match r s g k = Some res" and "suffix s text" and "pieces text g"
  shows "\<exists>s' g'. suffix s' s \<and> pieces text g' \<and> k s' g' = Some res"
  using assms
proof (induction r arbitrary: s g k res)
  case (Lit t)
  then obtain s' where "literal t s = Some s'" "k s' g = Some res" by (auto split: option.splits)
  then show ?case using Lit.prems(3) by (intro exI [of _ s'] exI [of _ g]) (auto simp: literal_def suffix_drop split: if_splits)
next
  case (Many p n)
  from many_SomeD [of p n s "\<lambda>s'. k s' g" res] Many.prems show ?case by auto
next
  case (Few p n)
  from few_SomeD [of p n s "\<lambda>s'. k s' g" res] Few.prems show ?case by auto
next
  case (Exact p n)
  then show ?case by (intro exI [of _ "drop n s"] exI [of _ g]) (auto simp: suffix_drop split: if_splits)
next
  case (Seq a b)
  from Seq.IH(1) [of s g "\<lambda>s' g'. rx_match b s' g' k" res] Seq.prems obtain s1 g1 where
    1: "suffix s1 s" "pieces text g1" "rx_match b s1 g1 k = Some res" by auto
  from 1(1) Seq.prems(2) have "suffix s1 text" by (rule suffix_order.trans)
  from Seq.IH(2) [OF 1(3) this 1(2)] 1(1) show ?case by (meson suffix_order.trans)
next
  case (Either a b)
  then show ?case by (cases "rx_match a s g k") auto
next
  case (Maybe a)
  show ?case
  proof (cases "rx_match a s g k")
    case None
    with Maybe.prems show ?thesis by (intro exI [of _ s] exI [of _ g]) simp
  qed (use Maybe in auto)
next
  case (Named x a)
  let ?k = "\<lambda>s' g'. k s' ((x, take (length s - length s') s) # g')"
  from Named.IH [of s g ?k res] Named.prems obtain s' g' where r: "suffix s' s" "pieces text g'" "?k s' g' = Some res" by auto
  have "sublist (take (length s - length s') s) text"
    using sublist_take suffix_imp_sublist [OF Named.prems(2)] by (rule sublist_order.order_trans)
  with r show ?case by (intro exI [of _ s'] exI [of _ "(x, take (length s - length s') s) # g'"]) (simp add: pieces_def)
next
  case (NotRest ts)
  then show ?case by (intro exI [of _ s] exI [of _ g]) (simp split: if_splits)
qed

lemma fullmatch_pieces: "fullmatch r s = Some g \<Longrightarrow> map_of g x = Some t \<Longrightarrow> sublist t s"
proof -
  assume m: "fullmatch r s = Some g" and x: "map_of g x = Some t"
  have "pieces s []" by (simp add: pieces_def)
  from rx_match_pieces [OF m [unfolded fullmatch_def] suffix_order.refl this]
  have "pieces s g" by (auto split: if_splits)
  with map_of_SomeD [OF x] show ?thesis by (auto simp: pieces_def)
qed

section \<open>Login lines\<close>

lemma literal_simps [simp]:
  "literal [] s = Some s" "literal (c # t) [] = None" "literal (c # t) (d # s) = (if c = d then literal t s else None)"
  by (auto simp: literal_def startswith_def)

lemma literal_append [simp]: "literal t (t @ s) = Some s"
  by (induction t) simp_all

text \<open>A token is taken whole, when what follows matches.\<close>

lemma many_token:
  "list_all p u \<Longrightarrow> n \<le> length u \<Longrightarrow> rest = [] \<or> \<not> p (hd rest) \<Longrightarrow> k rest = Some r \<Longrightarrow> many p n (u @ rest) k = Some r"
proof (induction u arbitrary: n)
  case Nil
  then show ?case by (cases rest) auto
next
  case (Cons c u)
  from Cons.IH [of "n - 1"] Cons.prems show ?case by simp
qed

lemma rx_token:
  "list_all p u \<Longrightarrow> n \<le> length u \<Longrightarrow> rest = [] \<or> \<not> p (hd rest) \<Longrightarrow> k rest g = Some r \<Longrightarrow> rx_match (Many p n) (u @ rest) g k = Some r"
  by (simp add: many_token)

lemma rx_named_token:
  "list_all p u \<Longrightarrow> n \<le> length u \<Longrightarrow> rest = [] \<or> \<not> p (hd rest) \<Longrightarrow> k rest ((x, u) # g) = Some r \<Longrightarrow>
   rx_match (Named x (Many p n)) (u @ rest) g k = Some r"
  by (simp add: many_token)

definition token :: "string \<Rightarrow> bool" where
  "token s \<longleftrightarrow> list_all nonspace s"

lemma space_not_nonspace [simp]: "\<not> nonspace (CHR '' '')"
  by (simp add: nonspace_def is_space_def)

lemma token_not_phrase:
  assumes "token u"
  shows "literal ''invalid user '' (u @ '' from '' @ r) = None"
proof (rule ccontr)
  assume "literal ''invalid user '' (u @ '' from '' @ r) \<noteq> None"
  then obtain x where x: "u @ '' from '' @ r = ''invalid user '' @ x" by (auto simp: literal_def startswith_iff split: if_splits)
  have "takeWhile nonspace (u @ '' from '' @ r) = u" using assms by (simp add: token_def list_all_iff)
  moreover have "takeWhile nonspace (''invalid user '' @ x) = ''invalid''" by (simp add: nonspace_def is_space_def)
  ultimately have "u = ''invalid''" using x by simp
  with x show False by simp
qed

definition port_text :: "string \<Rightarrow> bool" where
  "port_text p \<longleftrightarrow> p \<noteq> [] \<and> length p \<le> 5 \<and> list_all is_digit p \<and> 1 \<le> int (digits_val p) \<and> int (digits_val p) \<le> 65535"

lemma digits_token: "list_all is_digit p \<Longrightarrow> token p"
  by (auto simp: token_def list_all_iff is_digit_def nonspace_def is_space_def Let_def)

abbreviation at_end :: "string \<Rightarrow> groups \<Rightarrow> groups option" where
  "at_end \<equiv> (\<lambda>s' g. if s' = [] then Some g else None)"

lemma port_match:
  assumes "port_text p" and "rest = [] \<or> hd rest = CHR '' ''" and "k rest ((''port'', p) # g) = Some r"
  shows "rx_match PORT ('' port '' @ p @ rest) g k = Some r"
proof -
  have "rx_match (Named ''port'' (Many nonspace 1)) (p @ rest) g k = Some r"
    by (rule rx_named_token) (use assms digits_token [of p] in \<open>auto simp: port_text_def token_def Suc_le_eq\<close>)
  then show ?thesis by (simp add: PORT_def)
qed

lemma user_peer_match:
  assumes "token u" and "token a" "a \<noteq> []" and "port_text p" and "rest = [] \<or> hd rest = CHR '' ''"
    and "k rest ([(''port'', p), (''ip'', a), (''user'', u)] @ g) = Some r"
  shows "rx_match (seqs [USER, Lit '' from '', IP, PORT]) (u @ '' from '' @ a @ '' port '' @ p @ rest) g k = Some r"
proof -
  have "rx_match PORT ('' port '' @ p @ rest) ((''ip'', a) # (''user'', u) # g) k = Some r"
    by (rule port_match) (use assms in auto)
  then have "rx_match (Named ''ip'' (Many nonspace 1)) (a @ '' port '' @ p @ rest) ((''user'', u) # g) (\<lambda>s' g'. rx_match PORT s' g' k) = Some r"
    by (intro rx_named_token) (use assms in \<open>auto simp: token_def Suc_le_eq\<close>)
  then show ?thesis
    unfolding seqs.simps rx_match.simps(5) USER_def IP_def
    by (intro rx_named_token) (use assms(1) in \<open>auto simp: token_def\<close>)
qed

text \<open>
  What may follow the port: nothing or the protocol, the protocol with details as for a key login, and the mark of a
  connection that was not authenticated. Details hold no newline and end in a visible character.
\<close>

definition preauth_tail :: "string \<Rightarrow> bool" where
  "preauth_tail q \<longleftrightarrow> q = [] \<or> q = '' [preauth]''"

definition auth_tail :: "string \<Rightarrow> bool" where
  "auth_tail t \<longleftrightarrow> preauth_tail t \<or> (\<exists>q. preauth_tail q \<and> t = '' ssh2'' @ q)
     \<or> (\<exists>d. list_all any_char d \<and> d \<noteq> [] \<and> nonspace (last d) \<and> t = '' ssh2: '' @ d)"

lemma pre_match: "preauth_tail q \<Longrightarrow> rx_match PRE q g at_end = Some g"
  by (auto simp: preauth_tail_def PRE_def)

lemma tail_match:
  assumes "auth_tail t"
  shows "rx_match AUTH_TAIL t g at_end = Some g"
proof -
  from assms consider "preauth_tail t" | q where "preauth_tail q" "t = '' ssh2'' @ q"
    | d where "list_all any_char d" "t = '' ssh2: '' @ d" by (auto simp: auth_tail_def)
  then show ?thesis
  proof cases
    case 1
    then show ?thesis using pre_match [OF 1, of g] by (auto simp: AUTH_TAIL_def preauth_tail_def)
  next
    case 2
    then show ?thesis using pre_match [OF 2(1), of g] by (auto simp: AUTH_TAIL_def preauth_tail_def)
  next
    case 3
    have "many any_char 0 (d @ []) (\<lambda>s'. rx_match PRE s' g at_end) = Some g"
      using 3(1) by (intro many_token) (simp_all add: PRE_def)
    then show ?thesis using 3(2) by (simp add: AUTH_TAIL_def)
  qed
qed

lemma tail_start: "auth_tail t \<Longrightarrow> t = [] \<or> hd t = CHR '' ''" "preauth_tail t \<Longrightarrow> t = [] \<or> hd t = CHR '' ''"
  by (auto simp: auth_tail_def preauth_tail_def)

lemma preauth_tail_auth: "preauth_tail t \<Longrightarrow> auth_tail t"
  by (simp add: auth_tail_def)

lemma tail_end: "auth_tail t \<Longrightarrow> port_text p \<Longrightarrow> nonspace (last (p @ t))"
proof -
  assume t: "auth_tail t" and p: "port_text p"
  have "nonspace (last p)" using p digits_token [of p] by (auto simp: port_text_def token_def list_all_iff)
  moreover have "nonspace (CHR '']'')" "nonspace (CHR ''2'')" by (simp_all add: nonspace_def is_space_def)
  ultimately show ?thesis using t by (auto simp: auth_tail_def preauth_tail_def)
qed

text \<open>The part the rules of a login share: user, peer and port, and the tail to the end.\<close>

lemma auth_match:
  assumes "token u" and "token a" "a \<noteq> []" and "port_text p"
    and "t = [] \<or> hd t = CHR '' ''" and "\<And>g. rx_match tail t g at_end = Some g"
  shows "rx_match (seqs [USER, Lit '' from '', IP, PORT, tail]) (u @ '' from '' @ a @ '' port '' @ p @ t) g at_end =
    Some ([(''port'', p), (''ip'', a), (''user'', u)] @ g)"
proof -
  have "rx_match (seqs [USER, Lit '' from '', IP, PORT]) (u @ '' from '' @ a @ '' port '' @ p @ t) g (\<lambda>s' g'. rx_match tail s' g' at_end) =
      Some ([(''port'', p), (''ip'', a), (''user'', u)] @ g)"
    by (rule user_peer_match) (use assms in auto)
  then show ?thesis by (simp only: seqs.simps rx_match.simps)
qed

lemma method_match:
  assumes "token m" "m \<noteq> []" and "rx_match (seqs (Maybe (Lit ''invalid user '') # rs)) rest g at_end = Some r"
  shows "rx_match (seqs (token1 # Lit '' for '' # Maybe (Lit ''invalid user '') # rs)) (m @ '' for '' @ rest) g at_end = Some r"
  unfolding seqs.simps rx_match.simps(5)
  by (rule rx_token) (use assms in \<open>auto simp: token_def Suc_le_eq\<close>)

lemma known_user_match:
  assumes "token u" and "rx_match (seqs (r # rs)) (u @ '' from '' @ rest) g at_end = Some x"
  shows "rx_match (seqs (Maybe (Lit ''invalid user '') # r # rs)) (u @ '' from '' @ rest) g at_end = Some x"
  using assms token_not_phrase [OF assms(1), of rest] by simp

lemma invalid_user_match:
  assumes "rx_match (seqs (r # rs)) rest g at_end = Some x"
  shows "rx_match (seqs (Maybe (Lit ''invalid user '') # r # rs)) (''invalid user '' @ rest) g at_end = Some x"
  using assms by simp

lemma strip_id: "s \<noteq> [] \<Longrightarrow> nonspace (hd s) \<Longrightarrow> nonspace (last s) \<Longrightarrow> strip s = s"
proof -
  assume s: "s \<noteq> []" "nonspace (hd s)" "nonspace (last s)"
  have "lstrip s = s" using s by (cases s) (simp_all add: lstrip_def nonspace_def)
  moreover have "rstrip s = s" using s by (cases s rule: rev_cases) (simp_all add: rstrip_def nonspace_def)
  ultimately show ?thesis by (simp add: strip_def)
qed

lemma fields_of_peer:
  assumes "ip a = Some b" and "CHR ''%'' \<notin> set a" "CHR ''['' \<notin> set a" "CHR '']'' \<notin> set a" and "port_text p"
  shows "fields_of ip kind [(''port'', p), (''ip'', a), (''user'', u)] =
    \<lparr>sf_event_kind = kind, sf_peer_ip = Some b, sf_username = (if u = [] then None else Some u)\<rparr>"
  using assms by (simp add: fields_of_def peer_of_def port_ok_def port_text_def)

lemma first_rule_skip: "literal t text = None \<Longrightarrow> first_rule ip text ((kind, seqs (Lit t # r # rs)) # rules) = first_rule ip text rules"
  by (simp add: fullmatch_def)

lemma first_rule_hit: "rx_match (seqs (r # rs)) s [] at_end = Some g \<Longrightarrow>
   first_rule ip (t @ s) ((kind, seqs (Lit t # r # rs)) # rules) = fields_of ip kind g"
  by (simp add: fullmatch_def)

lemmas RULES_list = RULES_def [unfolded AUTH_RULES_def append.simps]

text \<open>Which rule of the list decides a line, by how it starts.\<close>

lemma rule_hits:
  shows "rx_match (seqs (token1 # Lit '' for '' # Maybe (Lit ''invalid user '') # [USER, Lit '' from '', IP, PORT, AUTH_TAIL])) x [] at_end = Some g \<Longrightarrow>
      first_rule ip (''Accepted '' @ x) RULES = fields_of ip ''auth_success'' g"
    and "rx_match (seqs (token1 # Lit '' for '' # Maybe (Lit ''invalid user '') # [USER, Lit '' from '', IP, PORT, AUTH_TAIL])) x [] at_end = Some g \<Longrightarrow>
      first_rule ip (''Failed '' @ x) RULES = fields_of ip ''auth_failure'' g"
    and "rx_match (seqs (Maybe (Lit ''invalid user '') # [USER, Lit '' from '', IP, PORT, AUTH_TAIL])) x [] at_end = Some g \<Longrightarrow>
      first_rule ip (''error: maximum authentication attempts exceeded for '' @ x) RULES = fields_of ip ''auth_failure'' g"
    and "rx_match (seqs [Either (Lit ''failure'') (Either (Lit ''error'') (Lit ''failed'')), Lit '' for '', USER, Lit '' from '', IP, PORT, PRE]) x [] at_end = Some g \<Longrightarrow>
      first_rule ip (''Authentication '' @ x) RULES = fields_of ip ''auth_failure'' g"
    and "rx_match (seqs [USER, Lit '' from '', IP, PORT, PRE]) x [] at_end = Some g \<Longrightarrow>
      first_rule ip (''Invalid user '' @ x) RULES = fields_of ip ''invalid_user'' g"
proof -
  have F: "literal ''Accepted '' (''Failed '' @ x) = None" "literal ''pam_unix(sshd:session): session opened for user '' (''Failed '' @ x) = None"
    "literal ''pam_unix(sshd:session): session closed for user '' (''Failed '' @ x) = None" by simp_all
  have E: "literal ''Accepted '' (''error: maximum authentication attempts exceeded for '' @ x) = None"
    "literal ''pam_unix(sshd:session): session opened for user '' (''error: maximum authentication attempts exceeded for '' @ x) = None"
    "literal ''pam_unix(sshd:session): session closed for user '' (''error: maximum authentication attempts exceeded for '' @ x) = None"
    "literal ''Failed '' (''error: maximum authentication attempts exceeded for '' @ x) = None" by simp_all
  have W: "literal t (''Authentication '' @ x) = None" if "t \<in> {''Accepted '', ''pam_unix(sshd:session): session opened for user '',
      ''pam_unix(sshd:session): session closed for user '', ''Failed '', ''error: maximum authentication attempts exceeded for '', ''error: PAM: ''}" for t
    using that by auto
  have I: "literal t (''Invalid user '' @ x) = None" if "t \<in> {''Accepted '', ''pam_unix(sshd:session): session opened for user '',
      ''pam_unix(sshd:session): session closed for user '', ''Failed '', ''error: maximum authentication attempts exceeded for '', ''error: PAM: '',
      ''Authentication ''}" for t using that by auto
  show "first_rule ip (''Accepted '' @ x) RULES = fields_of ip ''auth_success'' g"
    if "rx_match (seqs (token1 # Lit '' for '' # Maybe (Lit ''invalid user '') # [USER, Lit '' from '', IP, PORT, AUTH_TAIL])) x [] at_end = Some g"
    unfolding RULES_list by (rule first_rule_hit [OF that])
  show "first_rule ip (''Failed '' @ x) RULES = fields_of ip ''auth_failure'' g"
    if "rx_match (seqs (token1 # Lit '' for '' # Maybe (Lit ''invalid user '') # [USER, Lit '' from '', IP, PORT, AUTH_TAIL])) x [] at_end = Some g"
    unfolding RULES_list first_rule_skip [OF F(1)] first_rule_skip [OF F(2)] first_rule_skip [OF F(3)] by (rule first_rule_hit [OF that])
  show "first_rule ip (''error: maximum authentication attempts exceeded for '' @ x) RULES = fields_of ip ''auth_failure'' g"
    if "rx_match (seqs (Maybe (Lit ''invalid user '') # [USER, Lit '' from '', IP, PORT, AUTH_TAIL])) x [] at_end = Some g"
    unfolding RULES_list first_rule_skip [OF E(1)] first_rule_skip [OF E(2)] first_rule_skip [OF E(3)] first_rule_skip [OF E(4)]
    by (rule first_rule_hit [OF that])
  show "first_rule ip (''Authentication '' @ x) RULES = fields_of ip ''auth_failure'' g"
    if "rx_match (seqs [Either (Lit ''failure'') (Either (Lit ''error'') (Lit ''failed'')), Lit '' for '', USER, Lit '' from '', IP, PORT, PRE]) x [] at_end = Some g"
    unfolding RULES_list by (simp only: first_rule_skip W insert_iff simp_thms) (rule first_rule_hit [OF that])
  show "first_rule ip (''Invalid user '' @ x) RULES = fields_of ip ''invalid_user'' g"
    if "rx_match (seqs [USER, Lit '' from '', IP, PORT, PRE]) x [] at_end = Some g"
    unfolding RULES_list by (simp only: first_rule_skip I insert_iff simp_thms) (rule first_rule_hit [OF that])
qed

text \<open>A line that starts and ends with a visible character is not stripped.\<close>

lemma line_kept:
  assumes "nonspace c" and "nonspace (last x)" and "x \<noteq> []"
  shows "strip (c # s @ x) = c # s @ x"
  using assms by (intro strip_id) simp_all

lemma login_line_kept:
  assumes "port_text p" and "auth_tail t"
  shows "strip (''Accepted '' @ x @ p @ t) = ''Accepted '' @ x @ p @ t" "strip (''Failed '' @ x @ p @ t) = ''Failed '' @ x @ p @ t"
    "strip (''error: maximum authentication attempts exceeded for '' @ x @ p @ t) = ''error: maximum authentication attempts exceeded for '' @ x @ p @ t"
    "strip (''Authentication '' @ x @ p @ t) = ''Authentication '' @ x @ p @ t" "strip (''Invalid user '' @ x @ p @ t) = ''Invalid user '' @ x @ p @ t"
proof -
  have kept: "strip (c # s @ p @ t) = c # s @ p @ t" if "nonspace c" for c s
    using assms(1) by (intro line_kept that tail_end assms) (simp add: port_text_def)
  have first: "nonspace (CHR ''A'')" "nonspace (CHR ''F'')" "nonspace (CHR ''e'')" "nonspace (CHR ''I'')"
    by (simp_all add: nonspace_def is_space_def)
  show "strip (''Accepted '' @ x @ p @ t) = ''Accepted '' @ x @ p @ t" "strip (''Failed '' @ x @ p @ t) = ''Failed '' @ x @ p @ t"
    "strip (''error: maximum authentication attempts exceeded for '' @ x @ p @ t) = ''error: maximum authentication attempts exceeded for '' @ x @ p @ t"
    "strip (''Authentication '' @ x @ p @ t) = ''Authentication '' @ x @ p @ t" "strip (''Invalid user '' @ x @ p @ t) = ''Invalid user '' @ x @ p @ t"
    using kept [OF first(1), of "''ccepted '' @ x"] kept [OF first(2), of "''ailed '' @ x"]
      kept [OF first(3), of "''rror: maximum authentication attempts exceeded for '' @ x"]
      kept [OF first(1), of "''uthentication '' @ x"] kept [OF first(4), of "''nvalid user '' @ x"] by simp_all
qed

text \<open>
  C38: the lines sshd writes for logins are read back. For a method, a user and a peer that are single tokens, an address that is
  accepted, and a port in range, a line that reports an accepted or a failed login, for a known or an invalid user, too many attempts, an
  authentication failure, or an invalid user, gives its kind, the canonical peer, and the user, also where the user is blank. It may end
  in the protocol, in the protocol and the details of a key, and in the mark of a connection before authentication.
\<close>

theorem login_lines_parsed:
  assumes m: "token m" "m \<noteq> []" and u: "token u" and a: "token a" "a \<noteq> []" "ip a = Some b" "CHR ''%'' \<notin> set a" "CHR ''['' \<notin> set a" "CHR '']'' \<notin> set a"
    and p: "port_text p" and t: "auth_tail t" and q: "preauth_tail q"
  defines "user \<equiv> if u = [] then None else Some u" and "peer \<equiv> '' from '' @ a @ '' port '' @ p"
  shows "parse_sshd ip (''Accepted '' @ m @ '' for '' @ u @ peer @ t) =
      \<lparr>sf_event_kind = ''auth_success'', sf_peer_ip = Some b, sf_username = user\<rparr> \<and>
    parse_sshd ip (''Accepted '' @ m @ '' for invalid user '' @ u @ peer @ t) =
      \<lparr>sf_event_kind = ''auth_success'', sf_peer_ip = Some b, sf_username = user\<rparr> \<and>
    parse_sshd ip (''Failed '' @ m @ '' for '' @ u @ peer @ t) =
      \<lparr>sf_event_kind = ''auth_failure'', sf_peer_ip = Some b, sf_username = user\<rparr> \<and>
    parse_sshd ip (''Failed '' @ m @ '' for invalid user '' @ u @ peer @ t) =
      \<lparr>sf_event_kind = ''auth_failure'', sf_peer_ip = Some b, sf_username = user\<rparr> \<and>
    parse_sshd ip (''error: maximum authentication attempts exceeded for '' @ u @ peer @ t) =
      \<lparr>sf_event_kind = ''auth_failure'', sf_peer_ip = Some b, sf_username = user\<rparr> \<and>
    parse_sshd ip (''error: maximum authentication attempts exceeded for invalid user '' @ u @ peer @ t) =
      \<lparr>sf_event_kind = ''auth_failure'', sf_peer_ip = Some b, sf_username = user\<rparr> \<and>
    list_all (\<lambda>w. parse_sshd ip (''Authentication '' @ w @ '' for '' @ u @ peer @ q) =
      \<lparr>sf_event_kind = ''auth_failure'', sf_peer_ip = Some b, sf_username = user\<rparr>) [''failure'', ''error'', ''failed''] \<and>
    parse_sshd ip (''Invalid user '' @ u @ peer @ q) =
      \<lparr>sf_event_kind = ''invalid_user'', sf_peer_ip = Some b, sf_username = user\<rparr>"
proof -
  let ?g = "[(''port'', p), (''ip'', a), (''user'', u)]"
  let ?rest = "\<lambda>t. u @ '' from '' @ a @ '' port '' @ p @ t"
  let ?body = "[USER, Lit '' from '', IP, PORT, AUTH_TAIL]"
  have fields: "fields_of ip kind ?g = \<lparr>sf_event_kind = kind, sf_peer_ip = Some b, sf_username = user\<rparr>" for kind
    unfolding user_def by (rule fields_of_peer) (fact a p)+
  have body: "rx_match (seqs ?body) (?rest t) [] at_end = Some ?g"
    using auth_match [OF u a(1,2) p tail_start(1) [OF t] tail_match [OF t], of "[]"] by simp
  have pre: "rx_match (seqs [USER, Lit '' from '', IP, PORT, PRE]) (?rest q) [] at_end = Some ?g"
    using auth_match [OF u a(1,2) p tail_start(2) [OF q] pre_match [OF q], of "[]"] by simp
  have user: "rx_match (seqs (Maybe (Lit ''invalid user '') # ?body)) (?rest t) [] at_end = Some ?g"
    "rx_match (seqs (Maybe (Lit ''invalid user '') # ?body)) (''invalid user '' @ ?rest t) [] at_end = Some ?g"
    by (intro known_user_match invalid_user_match u body)+
  have entry: "rx_match (seqs (token1 # Lit '' for '' # Maybe (Lit ''invalid user '') # ?body)) (m @ '' for '' @ ?rest t) [] at_end = Some ?g"
    "rx_match (seqs (token1 # Lit '' for '' # Maybe (Lit ''invalid user '') # ?body)) (m @ '' for '' @ ''invalid user '' @ ?rest t) [] at_end = Some ?g"
    by (intro method_match m user)+
  have word: "rx_match (seqs [Either (Lit ''failure'') (Either (Lit ''error'') (Lit ''failed'')), Lit '' for '', USER, Lit '' from '', IP, PORT, PRE])
      (w @ '' for '' @ ?rest q) [] at_end = Some ?g" if "w = ''failure'' \<or> w = ''error'' \<or> w = ''failed''" for w
    using that pre by (elim disjE) simp_all
  note kept = login_line_kept [OF p t] login_line_kept [OF p preauth_tail_auth [OF q]]
  let ?peer = "'' from '' @ a @ '' port ''"
  have A: "parse_sshd ip (''Accepted '' @ m @ '' for '' @ u @ peer @ t) = fields_of ip ''auth_success'' ?g"
    "parse_sshd ip (''Accepted '' @ m @ '' for invalid user '' @ u @ peer @ t) = fields_of ip ''auth_success'' ?g"
    using rule_hits(1) [OF entry(1)] rule_hits(1) [OF entry(2)] kept(1) [of "m @ '' for '' @ u @ ?peer"]
      kept(1) [of "m @ '' for invalid user '' @ u @ ?peer"] by (simp_all add: parse_sshd_def peer_def)
  have F: "parse_sshd ip (''Failed '' @ m @ '' for '' @ u @ peer @ t) = fields_of ip ''auth_failure'' ?g"
    "parse_sshd ip (''Failed '' @ m @ '' for invalid user '' @ u @ peer @ t) = fields_of ip ''auth_failure'' ?g"
    using rule_hits(2) [OF entry(1)] rule_hits(2) [OF entry(2)] kept(2) [of "m @ '' for '' @ u @ ?peer"]
      kept(2) [of "m @ '' for invalid user '' @ u @ ?peer"] by (simp_all add: parse_sshd_def peer_def)
  have E: "parse_sshd ip (''error: maximum authentication attempts exceeded for '' @ u @ peer @ t) = fields_of ip ''auth_failure'' ?g"
    "parse_sshd ip (''error: maximum authentication attempts exceeded for invalid user '' @ u @ peer @ t) = fields_of ip ''auth_failure'' ?g"
    using rule_hits(3) [OF user(1)] rule_hits(3) [OF user(2)] kept(3) [of "u @ ?peer"] kept(3) [of "''invalid user '' @ u @ ?peer"]
    by (simp_all add: parse_sshd_def peer_def)
  have W: "parse_sshd ip (''Authentication '' @ w @ '' for '' @ u @ peer @ q) = fields_of ip ''auth_failure'' ?g"
    if "w = ''failure'' \<or> w = ''error'' \<or> w = ''failed''" for w
    using rule_hits(4) [OF word [OF that]] kept(9) [of "w @ '' for '' @ u @ ?peer"] by (simp add: parse_sshd_def peer_def)
  have I: "parse_sshd ip (''Invalid user '' @ u @ peer @ q) = fields_of ip ''invalid_user'' ?g"
    using rule_hits(5) [OF pre] kept(10) [of "u @ ?peer"] by (simp add: parse_sshd_def peer_def)
  show ?thesis
    unfolding A F E I fields list.pred_inject using W [of "''failure''"] W [of "''error''"] W [of "''failed''"] by (simp add: fields)
qed

theorem login_lines_parsed_witness:
  "parse_sshd Some (''Accepted publickey for root from 192.0.2.1 port 22 ssh2: ED25519 SHA256:x'') =
     \<lparr>sf_event_kind = ''auth_success'', sf_peer_ip = Some ''192.0.2.1'', sf_username = Some ''root''\<rparr>
   \<and> parse_sshd Some (''Failed publickey for  from 192.0.2.1 port 22 ssh2: ED25519 SHA256:x'') =
     \<lparr>sf_event_kind = ''auth_failure'', sf_peer_ip = Some ''192.0.2.1'', sf_username = None\<rparr>
   \<and> parse_sshd Some (''Invalid user root from 192.0.2.1 port 22 [preauth]'') =
     \<lparr>sf_event_kind = ''invalid_user'', sf_peer_ip = Some ''192.0.2.1'', sf_username = Some ''root''\<rparr>"
proof -
  have tokens: "token ''publickey''" "token ''root''" "token []" "token ''192.0.2.1''" by (simp_all add: token_def nonspace_def is_space_def)
  have port: "port_text ''22''" by code_simp
  have "list_all any_char ''ED25519 SHA256:x''" "nonspace (last ''ED25519 SHA256:x'')" by code_simp+
  then have tail: "auth_tail ('' ssh2: '' @ ''ED25519 SHA256:x'')" unfolding auth_tail_def by blast
  have pre: "preauth_tail '' [preauth]''" by (simp add: preauth_tail_def)
  from login_lines_parsed [OF tokens(1) _ tokens(2) tokens(4) _ _ _ _ _ port tail pre, of Some "''192.0.2.1''"]
    login_lines_parsed [OF tokens(1) _ tokens(3) tokens(4) _ _ _ _ _ port tail pre, of Some "''192.0.2.1''"]
  show ?thesis by simp
qed

section \<open>Where a peer comes from\<close>

text \<open>A peer is the canonical text of a piece of the message without brackets or a zone.\<close>

lemma peer_is_in_message:
  assumes "sf_peer_ip (parse_sshd ip message) = Some b"
  shows "\<exists>t. sublist t (strip message) \<and> ip t = Some b \<and> CHR ''%'' \<notin> set t \<and> CHR ''['' \<notin> set t \<and> CHR '']'' \<notin> set t"
proof -
  have "\<exists>t. sublist t line \<and> ip t = Some b \<and> CHR ''%'' \<notin> set t \<and> CHR ''['' \<notin> set t \<and> CHR '']'' \<notin> set t"
    if "sf_peer_ip (first_rule ip line rules) = Some b" for line rules
    using that
  proof (induction ip line rules rule: first_rule.induct)
    case (2 ip line kind r rules)
    show ?case
    proof (cases "fullmatch r line")
      case (Some g)
      with "2.prems" have "sf_peer_ip (fields_of ip kind g) = Some b" by simp
      then obtain t where "map_of g ''ip'' = Some t" "ip t = Some b" "CHR ''%'' \<notin> set t" "CHR ''['' \<notin> set t" "CHR '']'' \<notin> set t"
        by (auto simp: fields_of_def peer_of_def unknown_def split: option.splits if_splits)
      with fullmatch_pieces [OF Some] show ?thesis by blast
    qed (use 2 in simp)
  qed (simp add: unknown_def)
  with assms show ?thesis by (simp add: parse_sshd_def)
qed

text \<open>
  Which piece it is, a client can choose: a user name may contain spaces, and the free text a rule allows after the protocol swallows
  the address sshd wrote. The login below failed from \<open>198.51.100.7\<close>, under a user name that ends the line early.
\<close>

theorem peer_chosen_by_username:
  "parse_sshd Some (''Failed password for invalid user '' @ ''x from 192.0.2.9 port 22 ssh2: y'' @ '' from 198.51.100.7 port 5555 ssh2'') =
     \<lparr>sf_event_kind = ''auth_failure'', sf_peer_ip = Some ''192.0.2.9'', sf_username = Some ''x''\<rparr>"
  by code_simp

end
