(* ===== verification/Audit_Timeline.thy ===== *)
theory Audit_Timeline
  imports Storage
begin

text \<open>
  \<open>app/audit_timeline.py\<close>: a run's audit chain written as one JSON object per line, and checked from the file alone. The
  file is its text; reading it translates line ends to \<open>\n\<close>, which does not change where \<open>splitlines\<close> splits. \<open>loads\<close> is
  \<open>json.loads\<close>. A report carries the parts that vary of the message \<open>verify\<close> prints.
\<close>

section \<open>Writing, reading, checking\<close>

definition export_rows :: "row list \<Rightarrow> string" where
  "export_rows rows = concat (map (\<lambda>r. canonical_json (JObj r) @ [lf]) rows)"

definition export_events :: "AuditEvent list \<Rightarrow> string" where
  "export_events events = export_rows (map dump_audit_event events)"

fun load_lines :: "(string \<Rightarrow> json option) \<Rightarrow> string list \<Rightarrow> json list result" where
  "load_lines loads [] = Inr []"
| "load_lines loads (line # rest) =
     (if strip line = [] then load_lines loads rest
      else case loads line of
        None \<Rightarrow> Inl (ValueError ''invalid JSON'')
      | Some j \<Rightarrow> and_then (load_lines loads rest) (\<lambda>js. Inr (j # js)))"

definition load :: "(string \<Rightarrow> json option) \<Rightarrow> string \<Rightarrow> json list result" where
  "load loads content = load_lines loads (splitlines content)"

datatype chain_report =
    Chain_Broken nat nat "json option" "json option"
  | Chain_Intact nat string

definition head_of :: "row list \<Rightarrow> string" where
  "head_of rows = (if rows = [] then ''empty'' else case map_of (last rows) ''entry_hash'' of Some (JStr h) \<Rightarrow> h | _ \<Rightarrow> [])"

definition verify :: "py \<Rightarrow> row list \<Rightarrow> chain_report" where
  "verify P rows = (case first_break P rows of
     Some broken \<Rightarrow> Chain_Broken (broken + 1) (length rows) (map_of (rows ! broken) ''event_id'') (map_of (rows ! broken) ''event_type'')
   | None \<Rightarrow> Chain_Intact (length rows) (take 19 (head_of rows)))"

section \<open>Lines\<close>

lemma linebreak_low: "is_linebreak c \<Longrightarrow> c = CHR 0x85 \<or> of_char c < (32 :: nat)"
  unfolding char_code_iff [of c "CHR 0x85"] by (auto simp: is_linebreak_def Let_def)

lemma hex_char_high: "d < 16 \<Longrightarrow> \<not> of_char (hex_char d) < (32 :: nat)"
  by (auto simp: hex_char_def)

lemma esc_high: "c \<in> set (esc d) \<Longrightarrow> \<not> of_char c < (32 :: nat)"
  by (auto simp: esc_def hex_char_high less_imp_diff_less split: if_splits)

lemma quote_high: "c \<in> set (quote s) \<Longrightarrow> \<not> of_char c < (32 :: nat)"
  by (auto simp: quote_def dest: esc_high)

lemma join_chars: "c \<in> set (join_with sep xs) \<Longrightarrow> c \<in> set sep \<or> (\<exists>x \<in> set xs. c \<in> set x)"
  by (induction sep xs rule: join_with.induct) auto

text \<open>The encoding escapes every control character, so the only line break it can contain is the next-line character.\<close>

lemma dumps_high: "wf_json j \<Longrightarrow> c \<in> set (dumps j) \<Longrightarrow> \<not> of_char c < (32 :: nat)"
proof (induction j)
  case (JInt i)
  then show ?case using int_str_chars [of c i] by (auto simp: is_digit_def)
next
  case (JFloat s)
  then have "set s \<subseteq> set ''0123456789.e+-''" "c \<in> set s" by (simp_all add: float_token_def)
  then have "c \<in> set ''0123456789.e+-''" by (rule subsetD)
  moreover have "list_all (\<lambda>c. \<not> of_char c < (32 :: nat)) ''0123456789.e+-''" by simp
  ultimately show ?case by (simp only: list_all_iff) blast
next
  case (JList xs)
  then show ?case by (auto simp: list_all_iff dest!: join_chars)
next
  case (JObj kvs)
  then show ?case by (auto simp: list_all_iff dest!: join_chars) (blast dest: quote_high)+
qed (auto split: if_splits dest: quote_high)

lemma canonical_line:
  assumes "wf_json j" and "CHR 0x85 \<notin> set (canonical_json j)"
  shows "list_all (\<lambda>c. \<not> is_linebreak c) (canonical_json j)"
  using assms linebreak_low dumps_high [of "sort_keys j"] by (auto simp: canonical_json_def list_all_iff)

lemma splitlines_aux_line:
  "list_all (\<lambda>c. \<not> is_linebreak c) l \<Longrightarrow> splitlines_aux False cur (l @ lf # rest) = (cur @ l) # splitlines_aux False [] rest"
proof (induction l arbitrary: cur)
  case Nil
  then show ?case by (simp add: is_linebreak_def)
next
  case (Cons c l)
  have "is_linebreak cr" by (simp add: is_linebreak_def)
  with Cons.prems have "c \<noteq> cr" by auto
  with Cons show ?case by simp
qed

lemma splitlines_lines: "list_all (list_all (\<lambda>c. \<not> is_linebreak c)) ls \<Longrightarrow> splitlines (concat (map (\<lambda>l. l @ [lf]) ls)) = ls"
  unfolding splitlines_def by (induction ls) (simp_all add: splitlines_aux_line)

lemma load_lines_all:
  "list_all (\<lambda>l. strip l \<noteq> [] \<and> loads l = Some (f l)) ls \<Longrightarrow> load_lines loads ls = Inr (map f ls)"
  by (induction ls) simp_all

lemma canonical_nonblank: "strip (canonical_json (JObj r)) \<noteq> []"
proof -
  have "canonical_json (JObj r) \<noteq> [] \<and> \<not> is_space (hd (canonical_json (JObj r)))" by (simp add: canonical_json_def is_space_def)
  then obtain x xs where "canonical_json (JObj r) = x # xs" "\<not> is_space x" by (metis list.collapse)
  then show ?thesis by (auto simp: strip_def lstrip_def rstrip_def)
qed

section \<open>Key order does not matter to the check\<close>

definition sorted_row :: "row \<Rightarrow> row" where
  "sorted_row r = sort_key fst (map (\<lambda>(k, v). (k, sort_keys v)) r)"

lemma sort_keys_row: "sort_keys (JObj r) = JObj (sorted_row r)"
  by (simp add: sorted_row_def)

lemma map_of_sorted_row: "distinct (map fst r) \<Longrightarrow> map_of (sorted_row r) k = map_option sort_keys (map_of r k)"
  unfolding sorted_row_def
  by (subst map_of_sort_key) (simp_all add: map_fst_sort_keys map_of_map_sort_keys del: map_map)

lemma sort_keys_JStr [simp]: "sort_keys v = JStr s \<longleftrightarrow> v = JStr s"
  by (cases v) auto

lemma wf_sorted_row: "wf_json (JObj r) \<Longrightarrow> wf_json (JObj (sorted_row r))"
  using wf_json_sort_keys [of "JObj r"] by (simp only: sort_keys_row)

lemma sorted_row_body:
  assumes "wf_json (JObj r)"
  shows "canonical_json (JObj (dict_set k v (entry_body (sorted_row r)))) = canonical_json (JObj (dict_set k v (entry_body r)))"
proof -
  have d: "distinct (map fst r)" "distinct (map fst (sorted_row r))" using assms wf_sorted_row [OF assms] by simp_all
  have "sort_keys (JObj (dict_set k v (entry_body (sorted_row r)))) = sort_keys (JObj (dict_set k v (entry_body r)))"
  proof (rule sort_keys_eqI)
    show "distinct (map fst (dict_set k v (entry_body (sorted_row r))))" "distinct (map fst (dict_set k v (entry_body r)))"
      using wf_entry_body [OF assms] wf_entry_body [OF wf_sorted_row [OF assms]] by (simp_all add: distinct_update)
    show "map_option sort_keys (map_of (dict_set k v (entry_body (sorted_row r))) i) = map_option sort_keys (map_of (dict_set k v (entry_body r)) i)" for i
      by (simp add: map_of_entry_body map_of_sorted_row [OF d(1)] option.map_comp comp_def)
  qed
  then show ?thesis by (simp only: canonical_json_def)
qed

lemma break_from_sorted:
  "list_all (\<lambda>r. wf_json (JObj r)) rows \<Longrightarrow> break_from P prev k (map sorted_row rows) = break_from P prev k rows"
proof (induction rows arbitrary: prev k)
  case (Cons r rows)
  then have wf: "wf_json (JObj r)" and d: "distinct (map fst r)" by simp_all
  have eq: "map_of (sorted_row r) x = Some (JStr h) \<longleftrightarrow> map_of r x = Some (JStr h)" for x h
    unfolding map_of_sorted_row [OF d] by (cases "map_of r x") auto
  show ?case
    using Cons sorted_row_body [OF wf, of "''prev_hash''" "JStr prev"] eq by (simp add: Let_def entry_body_def)
qed simp

text \<open>
  C39: an audit chain that is exported and read back from the file alone is judged as it is in memory: reading gives one
  object per event, in order, with the fields of the event, and the check of what was read names the same first break, or none exactly if
  the chain holds. This needs that no text of an event contains the next-line character, and that reading inverts writing
  of one value.
\<close>

theorem timeline_roundtrip:
  assumes "\<forall>e \<in> set events. wf_json (JObj (dump_audit_event e)) \<and> CHR 0x85 \<notin> set (canonical_json (JObj (dump_audit_event e)))"
    and "\<forall>e \<in> set events. loads (canonical_json (JObj (dump_audit_event e))) = Some (sort_keys (JObj (dump_audit_event e)))"
  shows "\<exists>rows. load loads (export_events events) = Inr (map JObj rows) \<and>
    map JObj rows = map (\<lambda>e. sort_keys (JObj (dump_audit_event e))) events \<and>
    first_break P rows = first_break P (map dump_audit_event events) \<and>
    ((\<exists>n head. verify P rows = Chain_Intact n head) \<longleftrightarrow> verify_chain P events)"
proof -
  let ?rows = "map dump_audit_event events" and ?line = "\<lambda>r. canonical_json (JObj r)"
  have wf: "list_all (\<lambda>r. wf_json (JObj r)) ?rows" using assms(1) by (simp add: list_all_iff)
  have "list_all (\<lambda>c. \<not> is_linebreak c) (?line (dump_audit_event e))" if "e \<in> set events" for e
    using assms(1) that by (intro canonical_line) blast+
  then have "list_all (list_all (\<lambda>c. \<not> is_linebreak c)) (map ?line ?rows)" by (simp add: list_all_iff)
  from splitlines_lines [OF this] have lines: "splitlines (export_events events) = map ?line ?rows"
    by (simp add: export_events_def export_rows_def comp_def)
  have "load loads (export_events events) = Inr (map (\<lambda>l. the (loads l)) (map ?line ?rows))"
    unfolding load_def lines by (rule load_lines_all) (use assms(2) canonical_nonblank in \<open>simp add: list_all_iff\<close>)
  also have "map (\<lambda>l. the (loads l)) (map ?line ?rows) = map JObj (map sorted_row ?rows)"
    using assms(2) by (simp add: sort_keys_row del: sort_keys.simps)
  finally have "load loads (export_events events) = Inr (map JObj (map sorted_row ?rows))" .
  moreover have fb: "first_break P (map sorted_row ?rows) = first_break P ?rows"
    unfolding first_break_def by (rule break_from_sorted [OF wf])
  moreover have "(\<exists>n head. verify P (map sorted_row ?rows) = Chain_Intact n head) \<longleftrightarrow> verify_chain P events"
    unfolding verify_def fb by (auto simp: verify_chain_def split: option.splits)
  ultimately show ?thesis by (intro exI [of _ "map sorted_row ?rows"]) (simp add: sort_keys_row del: sort_keys.simps)
qed

definition plain_event :: "string \<Rightarrow> AuditEvent" where
  "plain_event actor = \<lparr>au_event_id = ''A'', au_event_type = ''t'', au_actor = actor, au_flow_id = None, au_subject_ref = None,
     au_payload = [], au_recorded_at = ''r'', au_prev_hash = ''p'', au_entry_hash = ''e''\<rparr>"

theorem timeline_roundtrip_witness:
  "\<exists>rows. load (\<lambda>s. Some (sort_keys (JObj (dump_audit_event (plain_event ''x''))))) (export_events [plain_event ''x'']) = Inr (map JObj rows) \<and>
     first_break sample_py rows = first_break sample_py (map dump_audit_event [plain_event ''x''])"
proof -
  have w: "wf_json (JObj (dump_audit_event (plain_event ''x'')))" by code_simp
  have n: "CHR 0x85 \<notin> set (canonical_json (JObj (dump_audit_event (plain_event ''x''))))" by code_simp
  from w n timeline_roundtrip [of "[plain_event ''x'']" "\<lambda>s. Some (sort_keys (JObj (dump_audit_event (plain_event ''x''))))" sample_py]
  show ?thesis by (simp del: wf_json.simps sort_keys.simps) blast
qed

text \<open>
  The next-line character is not escaped on writing but ends a line on reading: an event whose actor has it becomes two lines, which are
  no objects of the chain.
\<close>

theorem timeline_splits_event: "length (splitlines (export_events [plain_event (''a'' @ [CHR 0x85] @ ''b'')])) = 2"
  by code_simp

end
