(* ===== verification/Operator_Auth.thy ===== *)
theory Operator_Auth
  imports Py_Json
begin

text \<open>
  \<open>app/telemetry/operator_auth.py\<close> and the password part of \<open>app/telemetry/config.py\<close>: stored password hashes, and the cache that
  spares an operator the slow check for a minute. A request runs in two sections under the lock, with the slow check between them
  outside of it, so any number of requests may be in flight; \<open>auth_reachable\<close> are the caches their sections can produce in any order.

  The cryptographic functions are arguments: \<open>pbkdf2\<close> of a password, a salt and an iteration count, \<open>hmac\<close> under the key of the process, and
  the two directions of base 64. Bytes are characters, so the bound on a password's length counts the characters
  it is written with; for ASCII these are its code points, which the code counts.
\<close>

record crypto =
  pbkdf2 :: "string \<Rightarrow> string \<Rightarrow> int \<Rightarrow> string"
  hmac :: "string \<Rightarrow> string"
  b64encode :: "string \<Rightarrow> string"
  b64decode :: "string \<Rightarrow> string option"

section \<open>Password hashes\<close>

definition PASSWORD_ALGORITHM :: string where "PASSWORD_ALGORITHM = ''pbkdf2_sha256''"
definition PASSWORD_ITERATIONS :: int where "PASSWORD_ITERATIONS = 600000"

definition password_parts :: "crypto \<Rightarrow> string \<Rightarrow> (int \<times> string \<times> string) result" where
  "password_parts C encoded =
     (let invalid = Inl (ValueError ''Invalid operator password hash'') in
      case split_on (CHR ''$'') encoded of
        [algorithm, iterations_raw, salt_raw, digest_raw] \<Rightarrow>
          (case int_of_text iterations_raw of
             Inl _ \<Rightarrow> invalid
           | Inr iterations \<Rightarrow>
               (case (b64decode C salt_raw, b64decode C digest_raw) of
                  (Some salt, Some digest) \<Rightarrow>
                    if algorithm \<noteq> PASSWORD_ALGORITHM \<or> \<not> (310000 \<le> iterations \<and> iterations \<le> 2000000) then invalid
                    else if \<not> (16 \<le> length salt \<and> length salt \<le> 64) \<or> length digest \<noteq> 32 then invalid
                    else Inr (iterations, salt, digest)
                | _ \<Rightarrow> invalid))
      | _ \<Rightarrow> invalid)"

text \<open>The salt is the 24 bytes \<open>secrets.token_bytes\<close> gave.\<close>

definition hash_operator_password :: "crypto \<Rightarrow> string \<Rightarrow> string \<Rightarrow> string result" where
  "hash_operator_password C salt password =
     (if \<not> (16 \<le> length password \<and> int (length password) \<le> 1024)
      then Inl (ValueError ''Operator password must contain 16 to 1024 characters'')
      else Inr (join_with ''$'' [PASSWORD_ALGORITHM, int_str PASSWORD_ITERATIONS, b64encode C salt,
        b64encode C (pbkdf2 C password salt PASSWORD_ITERATIONS)]))"

definition verify_operator_password :: "crypto \<Rightarrow> string \<Rightarrow> string \<Rightarrow> bool result" where
  "verify_operator_password C password encoded =
     and_then (password_parts C encoded) (\<lambda>(iterations, salt, expected). Inr (pbkdf2 C password salt iterations = expected))"

section \<open>The cache\<close>

fun big_endian :: "nat \<Rightarrow> nat \<Rightarrow> string" where
  "big_endian 0 n = []"
| "big_endian (Suc k) n = big_endian k (n div 256) @ [char_of (n mod 256)]"

record credentials =
  cr_username :: string
  cr_password :: string
  cr_cfg_username :: string
  cr_cfg_hash :: string

definition framed :: "string list \<Rightarrow> string" where
  "framed values = concat (map (\<lambda>v. big_endian 8 (length v) @ v) values)"

text \<open>\<open>None\<close> is the \<open>OverflowError\<close> of a length that does not fit.\<close>

definition credential_digest :: "crypto \<Rightarrow> credentials \<Rightarrow> string option" where
  "credential_digest C r =
     (let values = [cr_username r, cr_password r, cr_cfg_username r, cr_cfg_hash r] in
      if list_all (\<lambda>v. int (length v) < 2 ^ 64) values then Some (hmac C (''riskops-operator-auth-v1'' @ framed values)) else None)"

definition SUCCESS_TTL :: rat where "SUCCESS_TTL = 60"

record auth_cache =
  oc_digest :: "string option"
  oc_expires_at :: rat

definition fresh_cache :: auth_cache where
  "fresh_cache = \<lparr>oc_digest = None, oc_expires_at = 0\<rparr>"

definition cache_hit :: "rat \<Rightarrow> string \<Rightarrow> auth_cache \<Rightarrow> bool" where
  "cache_hit now candidate c = (case oc_digest c of None \<Rightarrow> False | Some d \<Rightarrow> now < oc_expires_at c \<and> candidate = d)"

definition cache_store :: "rat \<Rightarrow> string \<Rightarrow> auth_cache" where
  "cache_store now candidate = \<lparr>oc_digest = Some candidate, oc_expires_at = now + SUCCESS_TTL\<rparr>"

definition password_ok :: "crypto \<Rightarrow> credentials \<Rightarrow> bool" where
  "password_ok C r = (case verify_operator_password C (cr_password r) (cr_cfg_hash r) of Inr b \<Rightarrow> b | Inl _ \<Rightarrow> False)"

text \<open>A whole request: \<open>now\<close> is the time of the lookup, \<open>later\<close> that of the store, with no other request between them.\<close>

definition verify_operator :: "crypto \<Rightarrow> rat \<Rightarrow> rat \<Rightarrow> credentials \<Rightarrow> auth_cache \<Rightarrow> bool \<times> auth_cache" where
  "verify_operator C now later r c =
     (if int (length (cr_password r)) > 1024 then (False, c)
      else case credential_digest C r of
        None \<Rightarrow> (False, c)
      | Some candidate \<Rightarrow>
          if cache_hit now candidate c then (True, c)
          else if \<not> (cr_username r = cr_cfg_username r \<and> password_ok C r) then (False, c)
          else (True, cache_store later candidate))"

section \<open>Hashes are verified\<close>

lemma iterations_text: "int_str PASSWORD_ITERATIONS = ''600000''"
  by (simp add: PASSWORD_ITERATIONS_def int_str_def nat_str.simps digit_char_def char_code_iff)

lemma iterations_read: "int_of_text ''600000'' = Inr PASSWORD_ITERATIONS"
  by (simp add: int_of_text_def PASSWORD_ITERATIONS_def strip_def lstrip_def rstrip_def is_space_def is_digit_def digits_val_def)

lemma hash_parts:
  assumes "hash_operator_password C salt password = Inr encoded" and "16 \<le> length salt" "length salt \<le> 64"
    and "\<And>x. b64decode C (b64encode C x) = Some x" and "\<And>x. CHR ''$'' \<notin> set (b64encode C x)" and "\<And>p s n. length (pbkdf2 C p s n) = 32"
  shows "password_parts C encoded = Inr (PASSWORD_ITERATIONS, salt, pbkdf2 C password salt PASSWORD_ITERATIONS)"
proof -
  let ?parts = "[PASSWORD_ALGORITHM, ''600000'', b64encode C salt, b64encode C (pbkdf2 C password salt PASSWORD_ITERATIONS)]"
  have "encoded = join_with [CHR ''$''] ?parts"
    using assms(1) by (simp add: hash_operator_password_def iterations_text split: if_splits)
  then have "split_on (CHR ''$'') encoded = ?parts"
    using assms(5) by (simp add: PASSWORD_ALGORITHM_def split_on_append_sep split_on_single)
  then show ?thesis
    using assms(2-4,6) by (simp add: password_parts_def iterations_read) (simp add: PASSWORD_ITERATIONS_def)
qed

text \<open>
  A stored hash verifies its password and no other. For a password of allowed length and a salt of 16 to 64 bytes, the hash
  that is stored is accepted with that password, and with another password exactly if the two have one key under the salt.
\<close>

theorem password_hash_verifies:
  assumes "hash_operator_password C salt password = Inr encoded" and "16 \<le> length salt" "length salt \<le> 64"
    and "\<And>x. b64decode C (b64encode C x) = Some x" and "\<And>x. CHR ''$'' \<notin> set (b64encode C x)" and "\<And>p s n. length (pbkdf2 C p s n) = 32"
  shows "verify_operator_password C password encoded = Inr True \<and>
    verify_operator_password C other encoded = Inr (pbkdf2 C other salt PASSWORD_ITERATIONS = pbkdf2 C password salt PASSWORD_ITERATIONS)"
  using hash_parts [OF assms] by (simp add: verify_operator_password_def)

text \<open>A concrete instance: sixteen letters for a digit of base 16.\<close>

fun letters_decode :: "string \<Rightarrow> string option" where
  "letters_decode [] = Some []"
| "letters_decode (a # b # s) = map_option (Cons (char_of (16 * (of_char a - 65) + (of_char b - 65 :: nat)))) (letters_decode s)"
| "letters_decode [a] = None"

definition letters_encode :: "string \<Rightarrow> string" where
  "letters_encode s = concat (map (\<lambda>c. [char_of (65 + of_char c div 16 :: nat), char_of (65 + of_char c mod 16 :: nat)]) s)"

definition letters_crypto :: crypto where
  "letters_crypto = \<lparr>pbkdf2 = (\<lambda>p s n. take 32 (p @ replicate 32 (CHR ''0''))), hmac = id, b64encode = letters_encode, b64decode = letters_decode\<rparr>"

lemma letter_value: "d < 16 \<Longrightarrow> of_char (char_of (65 + d) :: char) = (65 + d :: nat)"
  by (simp add: of_char_of)

lemma letter_digits: "of_char c div 16 < (16 :: nat)" "of_char c mod 16 < (16 :: nat)"
proof -
  have "of_char c < (256 :: nat)" by (rule nat_of_char_less_256)
  then show "of_char c div 16 < (16 :: nat)" by (intro less_mult_imp_div_less) simp
qed simp

lemma letters_roundtrip: "letters_decode (letters_encode s) = Some s"
proof (induction s)
  case (Cons c s)
  with letter_digits [of c] show ?case by (simp add: letters_encode_def letter_value)
qed (simp add: letters_encode_def)

lemma letter_not_dollar: "d < 16 \<Longrightarrow> CHR ''$'' \<noteq> char_of (65 + d :: nat)"
  using letter_value [of d] by (auto simp: char_code_iff)

lemma letters_no_dollar: "CHR ''$'' \<notin> set (letters_encode s)"
  using letter_not_dollar [OF letter_digits(1)] letter_not_dollar [OF letter_digits(2)] by (simp add: letters_encode_def)

theorem password_hash_verifies_witness:
  "\<exists>encoded. hash_operator_password letters_crypto (replicate 24 (CHR ''s'')) ''correct horse battery'' = Inr encoded \<and>
     verify_operator_password letters_crypto ''correct horse battery'' encoded = Inr True"
proof -
  obtain encoded where "hash_operator_password letters_crypto (replicate 24 (CHR ''s'')) ''correct horse battery'' = Inr encoded"
    by (simp add: hash_operator_password_def)
  moreover from password_hash_verifies [OF this] have "verify_operator_password letters_crypto ''correct horse battery'' encoded = Inr True"
    by (simp add: letters_crypto_def letters_roundtrip letters_no_dollar)
  ultimately show ?thesis by blast
qed

section \<open>The cache is transparent\<close>

lemma char_of_inject_byte: "n < 256 \<Longrightarrow> m < 256 \<Longrightarrow> char_of n = char_of m \<Longrightarrow> n = (m :: nat)"
  by (metis mod_less of_char_of)

lemma length_big_endian [simp]: "length (big_endian k n) = k"
  by (induction k n rule: big_endian.induct) simp_all

lemma big_endian_inject: "n < 256 ^ k \<Longrightarrow> m < 256 ^ k \<Longrightarrow> big_endian k n = big_endian k m \<Longrightarrow> n = m"
proof (induction k arbitrary: n m)
  case (Suc k)
  from Suc.prems(3) have "big_endian k (n div 256) = big_endian k (m div 256)" "char_of (n mod 256) = (char_of (m mod 256) :: char)" by simp_all
  moreover have "n div 256 < 256 ^ k" "m div 256 < 256 ^ k" using Suc.prems(1,2) by (simp_all add: less_mult_imp_div_less mult.commute)
  ultimately have "n div 256 = m div 256" "n mod 256 = m mod 256" using Suc.IH by (auto intro: char_of_inject_byte)
  then show ?case by (metis mod_div_mult_eq)
qed simp

text \<open>Length prefixes make the concatenation of the fields uniquely readable.\<close>

lemma framed_inject:
  assumes "list_all (\<lambda>v. length v < 256 ^ 8) vs" and "list_all (\<lambda>v. length v < 256 ^ 8) ws" and "length vs = length ws" and "framed vs = framed ws"
  shows "vs = ws"
  using assms(3,1,2,4)
proof (induction vs ws rule: list_induct2)
  case (Cons v vs w ws)
  from Cons.prems(3) have eq: "big_endian 8 (length v) @ v @ framed vs = big_endian 8 (length w) @ w @ framed ws" by (simp add: framed_def)
  then have "big_endian 8 (length v) = big_endian 8 (length w)" and rest: "v @ framed vs = w @ framed ws" by (simp_all add: append_eq_append_conv)
  then have "length v = length w" using Cons.prems(1,2) by (intro big_endian_inject [of _ 8]) simp_all
  with rest have "v = w" "framed vs = framed ws" by simp_all
  with Cons show ?case by simp
qed simp

definition hmac_collision :: "crypto \<Rightarrow> bool" where
  "hmac_collision C \<longleftrightarrow> (\<exists>a b. a \<noteq> b \<and> hmac C a = hmac C b)"

lemma credential_digest_inject:
  assumes "credential_digest C r = Some d" and "credential_digest C s = Some d" and "\<not> hmac_collision C"
  shows "r = s"
proof -
  let ?v = "\<lambda>r. [cr_username r, cr_password r, cr_cfg_username r, cr_cfg_hash r]"
  have len: "length v < 256 ^ 8" if "int (length v) < 2 ^ 64" for v :: string
  proof -
    from that have "int (length v) < int (256 ^ 8)" by simp
    then show ?thesis by (simp only: of_nat_less_iff)
  qed
  have "hmac C (''riskops-operator-auth-v1'' @ framed (?v r)) = hmac C (''riskops-operator-auth-v1'' @ framed (?v s))"
    using assms(1,2) by (simp add: credential_digest_def Let_def split: if_splits)
  then have "framed (?v r) = framed (?v s)" using assms(3) unfolding hmac_collision_def by (metis same_append_eq)
  moreover have "list_all (\<lambda>v. length v < 256 ^ 8) (?v r)" "list_all (\<lambda>v. length v < 256 ^ 8) (?v s)"
    using assms(1,2) len by (auto simp: credential_digest_def Let_def split: if_splits)
  ultimately have "?v r = ?v s" by (intro framed_inject) simp_all
  then show ?thesis by simp
qed

text \<open>What a request must show, and the steps of any number of requests in flight: a store comes only after the checks passed.\<close>

definition credentials_ok :: "crypto \<Rightarrow> credentials \<Rightarrow> bool" where
  "credentials_ok C r \<longleftrightarrow> int (length (cr_password r)) \<le> 1024 \<and> credential_digest C r \<noteq> None \<and>
     cr_username r = cr_cfg_username r \<and> verify_operator_password C (cr_password r) (cr_cfg_hash r) = Inr True"

inductive auth_reachable :: "crypto \<Rightarrow> auth_cache \<Rightarrow> bool" for C where
  started: "auth_reachable C fresh_cache"
| stored: "auth_reachable C c \<Longrightarrow> int (length (cr_password r)) \<le> 1024 \<Longrightarrow> credential_digest C r = Some candidate \<Longrightarrow>
    cr_username r = cr_cfg_username r \<Longrightarrow> password_ok C r \<Longrightarrow> auth_reachable C (cache_store now candidate)"

lemma password_ok_iff: "password_ok C r \<longleftrightarrow> verify_operator_password C (cr_password r) (cr_cfg_hash r) = Inr True"
  by (auto simp: password_ok_def split: sum.splits)

lemma reachable_digest: "auth_reachable C c \<Longrightarrow> oc_digest c = Some d \<Longrightarrow> \<exists>r. credentials_ok C r \<and> credential_digest C r = Some d"
  by (induction rule: auth_reachable.induct) (auto simp: fresh_cache_def cache_store_def credentials_ok_def password_ok_iff)

text \<open>
  C40: the cache of verified credentials never changes an answer. In every state that requests in flight can reach, in whatever order their
  sections run, a request is accepted exactly if its own credentials pass the full check, unless two inputs of the keyed digest collide; a hit
  does not extend the lifetime of an entry, and a refused request leaves the cache as it is.
\<close>

theorem operator_cache_transparent:
  assumes "auth_reachable C c" and "\<not> hmac_collision C"
  shows "fst (verify_operator C now later r c) = credentials_ok C r \<and>
    (snd (verify_operator C now later r c) = c \<or>
      (credentials_ok C r \<and> oc_expires_at (snd (verify_operator C now later r c)) = later + SUCCESS_TTL)) \<and>
    (\<forall>d. credential_digest C r = Some d \<and> cache_hit now d c \<longrightarrow> snd (verify_operator C now later r c) = c) \<and>
    auth_reachable C (snd (verify_operator C now later r c))"
proof (cases "credential_digest C r")
  case None
  then show ?thesis using assms(1) by (simp add: verify_operator_def credentials_ok_def)
next
  case (Some d)
  have hit: "credentials_ok C r" if "cache_hit now d c"
  proof -
    from that have "oc_digest c = Some d" by (auto simp: cache_hit_def split: option.splits)
    from reachable_digest [OF assms(1) this] obtain s where s: "credentials_ok C s" "credential_digest C s = Some d" by blast
    with credential_digest_inject [OF Some s(2) assms(2)] show ?thesis by simp
  qed
  show ?thesis
  proof (cases "cache_hit now d c")
    case True
    with hit Some assms(1) show ?thesis by (auto simp: verify_operator_def credentials_ok_def)
  next
    case False
    have "auth_reachable C (cache_store later d)" if "credentials_ok C r"
      using that Some by (intro stored [OF assms(1)]) (auto simp: credentials_ok_def password_ok_iff)
    moreover have "oc_expires_at (cache_store later d) = later + SUCCESS_TTL" by (simp add: cache_store_def)
    ultimately show ?thesis
      using False Some assms(1) by (auto simp: verify_operator_def credentials_ok_def password_ok_iff)
  qed
qed

definition operator_login :: "string \<Rightarrow> credentials" where
  "operator_login encoded = \<lparr>cr_username = ''op'', cr_password = ''correct horse battery'', cr_cfg_username = ''op'', cr_cfg_hash = encoded\<rparr>"

theorem operator_cache_transparent_witness:
  "auth_reachable letters_crypto fresh_cache \<and>
   fst (verify_operator letters_crypto 0 0 (operator_login ''x'') fresh_cache) = credentials_ok letters_crypto (operator_login ''x'')"
proof -
  have "\<not> hmac_collision letters_crypto" by (simp add: hmac_collision_def letters_crypto_def)
  with operator_cache_transparent [OF auth_reachable.started, of letters_crypto 0 0 "operator_login ''x''"] auth_reachable.started
  show ?thesis by blast
qed

end
