(* ===== verification/Network_Protocol.thy ===== *)
theory Network_Protocol
  imports Network_Parse
begin

text \<open>
  \<open>app/telemetry/network_protocol.py\<close>: the strict transport of observations between the firewall host, the collector and the
  platform. What comes from outside is a JSON value and every shape is checked; what has been accepted is kept as a record, the
  dictionary up to the order of its keys, and \<open>batch_json\<close> gives the dictionary back. \<open>json.loads\<close> is not modelled, the walk over
  its result is.
\<close>

section \<open>Constants\<close>

definition MAX_BATCH_BYTES :: int where "MAX_BATCH_BYTES = 1024 * 1024"
definition MAX_ENTRIES :: nat where "MAX_ENTRIES = 200"

definition REPORT_CODES :: "string list" where
  "REPORT_CODES = [''coverage_start'', ''journal_cursor_unavailable'', ''profile_drift'', ''catching_up'', ''profile_boundary'']"

definition REJECTION_CODES :: "string list" where
  "REJECTION_CODES = [''invalid_record'', ''profile_context_unavailable'']"

definition BATCH_FIELDS :: "string list" where
  "BATCH_FIELDS = [''version'', ''source_id'', ''profile_revision'', ''batch_id'', ''collected_at_us'', ''cursor_before'',
     ''cursor_after'', ''entries'', ''reports'', ''caught_up'']"

definition REJECTION_FIELDS :: "string list" where
  "REJECTION_FIELDS = [''event_id'', ''content_hash'', ''boot_id'', ''journal_cursor'', ''journal_realtime_us'',
     ''journal_monotonic_us'', ''code'']"

definition EVENT_FIELDS :: "string list" where
  "EVENT_FIELDS = [''source_id'', ''schema_version'', ''parser_version'', ''boot_id'', ''journal_cursor'', ''event_id'',
     ''content_hash'', ''journal_realtime_us'', ''journal_monotonic_us'', ''transport'', ''ip_family'', ''src_ip'', ''dst_ip'',
     ''protocol'', ''observed_protocol'', ''src_port'', ''dst_port'', ''tcp_flags'', ''ingress_interface'', ''egress_interface'',
     ''direction'', ''observation_point'', ''log_label'', ''final_outcome'', ''source_profile_revision'', ''coverage'',
     ''rejection_related'']"

definition invalid_payload :: "'a result" where
  "invalid_payload = failure ''invalid_network_payload''"

section \<open>Encoding\<close>

definition encode :: "json \<Rightarrow> string" where
  "encode v = concat (map ascii_escape (canonical_json v))"

definition fingerprint :: "py \<Rightarrow> json \<Rightarrow> string" where
  "fingerprint P v = hexdigest P (encode v)"

definition byte_count :: "string \<Rightarrow> int" where
  "byte_count s = int (length s)"

lemma byte_count_code [code]: "byte_count s = fold (\<lambda>c n. n + 1) s 0"
proof -
  have "fold (\<lambda>c n. n + 1) s k = k + int (length s)" for k by (induction s arbitrary: k) auto
  then show ?thesis by (simp add: byte_count_def)
qed

text \<open>The walk of \<open>decode\<close> over the value it has read: a stack of values with their depths and the number of values seen.\<close>

fun json_nodes :: "json \<Rightarrow> nat" where
  "json_nodes (JList xs) = Suc (sum_list (map json_nodes xs))"
| "json_nodes (JObj kvs) = Suc (sum_list (map (\<lambda>(k, v). json_nodes v) kvs))"
| "json_nodes j = 1"

definition children :: "json \<Rightarrow> json list" where
  "children v = (case v of JObj kvs \<Rightarrow> map snd kvs | JList xs \<Rightarrow> xs | _ \<Rightarrow> [])"

lemma json_nodes_children: "json_nodes v = Suc (sum_list (map json_nodes (children v)))"
  by (cases v) (simp_all add: children_def split_def comp_def)

lemma json_nodes_less: "sum_list (map json_nodes (children v)) < json_nodes v"
  using json_nodes_children [of v] by simp

function scan_structure :: "(json \<times> nat) list \<Rightarrow> int \<Rightarrow> unit result" where
  "scan_structure [] nodes = Inr ()"
| "scan_structure ((value, depth) # pending) nodes =
     (if depth > 16 \<or> nodes + 1 > 20000 then failure ''network_json_structure_limit''
      else scan_structure (rev (map (\<lambda>item. (item, depth + 1)) (children value)) @ pending) (nodes + 1))"
  by pat_completeness auto

termination
  by (relation "measure (\<lambda>(pending, nodes). sum_list (map (\<lambda>(v, d). json_nodes v) pending))")
    (auto simp: json_nodes_less comp_def split_def rev_map [symmetric] sum_list_rev)

definition check_structure :: "json \<Rightarrow> json result" where
  "check_structure v = and_then (scan_structure [(v, 0)] 0) (\<lambda>_. Inr v)"

section \<open>Reading typed fields\<close>

definition get_field :: "row \<Rightarrow> string \<Rightarrow> json" where
  "get_field r k = (case map_of r k of Some v \<Rightarrow> v | None \<Rightarrow> JNull)"

definition as_str :: "json \<Rightarrow> string option" where
  "as_str v = (case v of JStr s \<Rightarrow> Some s | _ \<Rightarrow> None)"

definition as_int :: "json \<Rightarrow> int option" where
  "as_int v = (case v of JInt i \<Rightarrow> Some i | _ \<Rightarrow> None)"

definition as_nat :: "json \<Rightarrow> nat option" where
  "as_nat v = (case v of JInt i \<Rightarrow> if 0 \<le> i then Some (nat i) else None | _ \<Rightarrow> None)"

definition as_bool :: "json \<Rightarrow> bool option" where
  "as_bool v = (case v of JBool b \<Rightarrow> Some b | _ \<Rightarrow> None)"

definition as_option :: "(json \<Rightarrow> 'a option) \<Rightarrow> json \<Rightarrow> 'a option option" where
  "as_option f v = (if v = JNull then Some None else map_option Some (f v))"

fun all_some :: "'a option list \<Rightarrow> 'a list option" where
  "all_some [] = Some []"
| "all_some (x # xs) = do { y \<leftarrow> x; ys \<leftarrow> all_some xs; Some (y # ys) }"

definition as_strs :: "json \<Rightarrow> string list option" where
  "as_strs v = (case v of JList xs \<Rightarrow> all_some (map as_str xs) | _ \<Rightarrow> None)"

fun map_result :: "('a \<Rightarrow> 'b result) \<Rightarrow> 'a list \<Rightarrow> 'b list result" where
  "map_result f [] = Inr []"
| "map_result f (x # xs) = and_then (f x) (\<lambda>y. and_then (map_result f xs) (\<lambda>ys. Inr (y # ys)))"

section \<open>Profiles and events\<close>

text \<open>Fields that are left out take the defaults of \<open>SourceProfile\<close>.\<close>

definition PROFILE_FIELDS :: "string list" where
  "PROFILE_FIELDS = [''source_id'', ''ruleset_sha256'', ''log_labels'', ''ip_families'', ''rejection_labels'', ''local_input_labels'',
     ''local_input_interfaces'', ''logging_limit'', ''retention'', ''logging_limit_context'', ''retention_context'', ''schema_version'',
     ''guard_version'', ''profile_valid_from_us'', ''dynamic_terminal_sets'']"

definition opt_field :: "row \<Rightarrow> string \<Rightarrow> 'a \<Rightarrow> (json \<Rightarrow> 'a option) \<Rightarrow> 'a option" where
  "opt_field r k d f = (case map_of r k of None \<Rightarrow> Some d | Some v \<Rightarrow> f v)"

definition as_nats :: "json \<Rightarrow> nat list option" where
  "as_nats v = (case v of JList xs \<Rightarrow> all_some (map as_nat xs) | _ \<Rightarrow> None)"

definition read_profile :: "row \<Rightarrow> profile option" where
  "read_profile r = do {
     source_id \<leftarrow> as_str (get_field r ''source_id'');
     ruleset \<leftarrow> as_str (get_field r ''ruleset_sha256'');
     log_labels \<leftarrow> as_strs (get_field r ''log_labels'');
     ip_families \<leftarrow> opt_field r ''ip_families'' [4, 6] as_nats;
     rejection_labels \<leftarrow> opt_field r ''rejection_labels'' [] as_strs;
     local_labels \<leftarrow> opt_field r ''local_input_labels'' [] as_strs;
     local_interfaces \<leftarrow> opt_field r ''local_input_interfaces'' [] as_strs;
     logging_limit \<leftarrow> opt_field r ''logging_limit'' ''unknown'' as_str;
     retention \<leftarrow> opt_field r ''retention'' ''unknown'' as_str;
     logging_context \<leftarrow> opt_field r ''logging_limit_context'' ''unspecified'' as_str;
     retention_context \<leftarrow> opt_field r ''retention_context'' ''unspecified'' as_str;
     schema_version \<leftarrow> opt_field r ''schema_version'' 1 as_nat;
     guard_version \<leftarrow> opt_field r ''guard_version'' LEGACY_GUARD as_str;
     valid_from \<leftarrow> opt_field r ''profile_valid_from_us'' None (as_option as_int);
     terminal_sets \<leftarrow> opt_field r ''dynamic_terminal_sets'' [] as_strs;
     Some \<lparr>sp_source_id = source_id, sp_ruleset_sha256 = ruleset, sp_log_labels = log_labels, sp_ip_families = ip_families,
       sp_rejection_labels = rejection_labels, sp_local_input_labels = local_labels, sp_local_input_interfaces = local_interfaces,
       sp_logging_limit = logging_limit, sp_retention = retention, sp_logging_limit_context = logging_context,
       sp_retention_context = retention_context, sp_schema_version = schema_version, sp_guard_version = guard_version,
       sp_profile_valid_from_us = valid_from, sp_dynamic_terminal_sets = terminal_sets\<rparr> }"

definition profile_from_dict :: "json \<Rightarrow> profile result" where
  "profile_from_dict j = (case j of
     JObj r \<Rightarrow>
       if \<not> set (map fst r) \<subseteq> set PROFILE_FIELDS then failure ''invalid_network_profile''
       else (case read_profile r of
         None \<Rightarrow> failure ''invalid_network_profile''
       | Some p \<Rightarrow> (case validate_profile p of Inl _ \<Rightarrow> failure ''invalid_network_profile'' | Inr _ \<Rightarrow> Inr p))
   | _ \<Rightarrow> failure ''invalid_network_profile'')"

definition event_row :: "network_event \<Rightarrow> row" where
  "event_row e =
     [(''source_id'', JStr (ne_source_id e)), (''schema_version'', JInt (int (ne_schema_version e))),
      (''parser_version'', JStr (ne_parser_version e)), (''boot_id'', JStr (ne_boot_id e)),
      (''journal_cursor'', JStr (ne_journal_cursor e)), (''event_id'', JStr (ne_event_id e)), (''content_hash'', JStr (ne_content_hash e)),
      (''journal_realtime_us'', JInt (ne_journal_realtime_us e)), (''journal_monotonic_us'', JInt (ne_journal_monotonic_us e)),
      (''transport'', JStr (ne_transport e)), (''ip_family'', JInt (int (ne_ip_family e))),
      (''src_ip'', JStr (ne_src_ip e)), (''dst_ip'', JStr (ne_dst_ip e)),
      (''protocol'', JStr (ne_protocol e)), (''observed_protocol'', JStr (ne_observed_protocol e)),
      (''src_port'', opt_json (JInt \<circ> int) (ne_src_port e)), (''dst_port'', opt_json (JInt \<circ> int) (ne_dst_port e)),
      (''tcp_flags'', opt_json (\<lambda>flags. jstrs (sorted_set flags)) (ne_tcp_flags e)),
      (''ingress_interface'', opt_json JStr (ne_ingress_interface e)), (''egress_interface'', opt_json JStr (ne_egress_interface e)),
      (''direction'', JStr (ne_direction e)), (''observation_point'', JStr (ne_observation_point e)),
      (''log_label'', JStr (ne_log_label e)), (''final_outcome'', JStr (ne_final_outcome e)),
      (''source_profile_revision'', JStr (ne_source_profile_revision e)), (''coverage'', jstrs (ne_coverage e)),
      (''rejection_related'', JBool (ne_rejection_related e))]"

definition event_to_dict :: "py \<Rightarrow> ip_reader \<Rightarrow> network_event \<Rightarrow> json result" where
  "event_to_dict P ip e = and_then (validate_event P ip e) (\<lambda>_. Inr (JObj (event_row e)))"

text \<open>The flags of an event are a set; on the wire they are its sorted list.\<close>

definition wire_event :: "network_event \<Rightarrow> network_event" where
  "wire_event e = e\<lparr>ne_tcp_flags := map_option sorted_set (ne_tcp_flags e)\<rparr>"

definition read_event :: "row \<Rightarrow> network_event option" where
  "read_event r = do {
     source_id \<leftarrow> as_str (get_field r ''source_id'');
     schema_version \<leftarrow> as_nat (get_field r ''schema_version'');
     parser_version \<leftarrow> as_str (get_field r ''parser_version'');
     boot_id \<leftarrow> as_str (get_field r ''boot_id'');
     journal_cursor \<leftarrow> as_str (get_field r ''journal_cursor'');
     event_id \<leftarrow> as_str (get_field r ''event_id'');
     content_hash \<leftarrow> as_str (get_field r ''content_hash'');
     realtime \<leftarrow> as_int (get_field r ''journal_realtime_us'');
     monotonic \<leftarrow> as_int (get_field r ''journal_monotonic_us'');
     transport \<leftarrow> as_str (get_field r ''transport'');
     ip_family \<leftarrow> as_nat (get_field r ''ip_family'');
     src_ip \<leftarrow> as_str (get_field r ''src_ip'');
     dst_ip \<leftarrow> as_str (get_field r ''dst_ip'');
     protocol \<leftarrow> as_str (get_field r ''protocol'');
     observed_protocol \<leftarrow> as_str (get_field r ''observed_protocol'');
     src_port \<leftarrow> as_option as_nat (get_field r ''src_port'');
     dst_port \<leftarrow> as_option as_nat (get_field r ''dst_port'');
     tcp_flags \<leftarrow> as_option as_strs (get_field r ''tcp_flags'');
     ingress \<leftarrow> as_option as_str (get_field r ''ingress_interface'');
     egress \<leftarrow> as_option as_str (get_field r ''egress_interface'');
     direction \<leftarrow> as_str (get_field r ''direction'');
     observation_point \<leftarrow> as_str (get_field r ''observation_point'');
     log_label \<leftarrow> as_str (get_field r ''log_label'');
     final_outcome \<leftarrow> as_str (get_field r ''final_outcome'');
     profile_revision \<leftarrow> as_str (get_field r ''source_profile_revision'');
     coverage \<leftarrow> as_strs (get_field r ''coverage'');
     rejection_related \<leftarrow> as_bool (get_field r ''rejection_related'');
     Some \<lparr>ne_source_id = source_id, ne_schema_version = schema_version, ne_parser_version = parser_version, ne_boot_id = boot_id,
       ne_journal_cursor = journal_cursor, ne_event_id = event_id, ne_content_hash = content_hash,
       ne_journal_realtime_us = realtime, ne_journal_monotonic_us = monotonic, ne_transport = transport, ne_ip_family = ip_family,
       ne_src_ip = src_ip, ne_dst_ip = dst_ip, ne_protocol = protocol, ne_observed_protocol = observed_protocol,
       ne_src_port = src_port, ne_dst_port = dst_port, ne_tcp_flags = tcp_flags, ne_ingress_interface = ingress,
       ne_egress_interface = egress, ne_direction = direction, ne_observation_point = observation_point, ne_log_label = log_label,
       ne_final_outcome = final_outcome, ne_source_profile_revision = profile_revision, ne_coverage = coverage,
       ne_rejection_related = rejection_related\<rparr> }"

definition wire_sets :: "network_event \<Rightarrow> bool" where
  "wire_sets e = (length (ne_coverage e) \<le> 16 \<and> (case ne_tcp_flags e of None \<Rightarrow> True
     | Some flags \<Rightarrow> length flags \<le> 8 \<and> flags = sorted_set flags))"

definition event_from_dict :: "py \<Rightarrow> ip_reader \<Rightarrow> json \<Rightarrow> network_event result" where
  "event_from_dict P ip j = (case j of
     JObj r \<Rightarrow>
       if \<not> keys_are r EVENT_FIELDS then failure ''invalid_network_event''
       else (case read_event r of
         None \<Rightarrow> failure ''invalid_network_event''
       | Some e \<Rightarrow>
           if \<not> wire_sets e then failure ''invalid_network_event''
           else (case validate_event P ip e of Inl _ \<Rightarrow> failure ''invalid_network_event'' | Inr _ \<Rightarrow> Inr e))
   | _ \<Rightarrow> failure ''invalid_network_event'')"

section \<open>Batches\<close>

record rejection =
  rj_event_id :: string
  rj_content_hash :: string
  rj_boot_id :: string
  rj_journal_cursor :: string
  rj_journal_realtime_us :: int
  rj_journal_monotonic_us :: int
  rj_code :: string

datatype transport_entry = Event network_event | Rejected rejection

record batch =
  bt_source_id :: string
  bt_profile_revision :: string
  bt_batch_id :: string
  bt_collected_at_us :: int
  bt_cursor_before :: "string option"
  bt_cursor_after :: "string option"
  bt_entries :: "transport_entry list"
  bt_reports :: "string list"
  bt_caught_up :: bool

definition rejection_row :: "rejection \<Rightarrow> row" where
  "rejection_row q =
     [(''event_id'', JStr (rj_event_id q)), (''content_hash'', JStr (rj_content_hash q)), (''boot_id'', JStr (rj_boot_id q)),
      (''journal_cursor'', JStr (rj_journal_cursor q)), (''journal_realtime_us'', JInt (rj_journal_realtime_us q)),
      (''journal_monotonic_us'', JInt (rj_journal_monotonic_us q)), (''code'', JStr (rj_code q))]"

fun entry_kind :: "transport_entry \<Rightarrow> string" where
  "entry_kind (Event e) = ''event''"
| "entry_kind (Rejected q) = ''rejection''"

fun entry_row :: "transport_entry \<Rightarrow> row" where
  "entry_row (Event e) = event_row e"
| "entry_row (Rejected q) = rejection_row q"

fun entry_cursor :: "transport_entry \<Rightarrow> string" where
  "entry_cursor (Event e) = ne_journal_cursor e"
| "entry_cursor (Rejected q) = rj_journal_cursor q"

definition entry_json :: "transport_entry \<Rightarrow> json" where
  "entry_json x = JObj [(entry_kind x, JObj (entry_row x))]"

definition batch_row :: "batch \<Rightarrow> row" where
  "batch_row b =
     [(''version'', JInt 1), (''source_id'', JStr (bt_source_id b)), (''profile_revision'', JStr (bt_profile_revision b)),
      (''batch_id'', JStr (bt_batch_id b)), (''collected_at_us'', JInt (bt_collected_at_us b)),
      (''cursor_before'', opt_json JStr (bt_cursor_before b)), (''cursor_after'', opt_json JStr (bt_cursor_after b)),
      (''entries'', JList (map entry_json (bt_entries b))), (''reports'', jstrs (bt_reports b)), (''caught_up'', JBool (bt_caught_up b))]"

definition batch_json :: "batch \<Rightarrow> json" where
  "batch_json b = JObj (batch_row b)"

definition check_cursor :: "json \<Rightarrow> string result" where
  "check_cursor v = (case v of
     JStr s \<Rightarrow> if ascii_text 2048 s then Inr s else failure ''invalid_network_cursor''
   | _ \<Rightarrow> failure ''invalid_network_cursor'')"

definition check_cursor_or_none :: "json \<Rightarrow> string option result" where
  "check_cursor_or_none v = (if v = JNull then Inr None else and_then (check_cursor v) (\<lambda>s. Inr (Some s)))"

definition check_number :: "int \<Rightarrow> json \<Rightarrow> int result" where
  "check_number maximum v = (case v of
     JInt i \<Rightarrow> if in_bounds maximum i then Inr i else failure ''invalid_network_timestamp''
   | _ \<Rightarrow> failure ''invalid_network_timestamp'')"

definition event_identity :: "py \<Rightarrow> string \<Rightarrow> string \<Rightarrow> string \<Rightarrow> string" where
  "event_identity P source boot cursor = fingerprint P (JObj
     [(''source_id'', JStr source), (''boot_id'', JStr boot), (''journal_cursor'', JStr cursor)])"

section \<open>What the exporter sends of one journal record\<close>

definition journal_timestamp :: "int \<Rightarrow> json \<Rightarrow> int result" where
  "journal_timestamp maximum v = (case v of
     JStr s \<Rightarrow> if s \<noteq> [] \<and> length s \<le> 19 \<and> list_all is_digit s then check_number maximum (JInt (int (digits_val s)))
       else check_number maximum v
   | _ \<Rightarrow> check_number maximum v)"

definition selected_fields :: "row \<Rightarrow> json" where
  "selected_fields r = JObj (map (\<lambda>name. (name, get_field r name))
     [''_TRANSPORT'', ''_BOOT_ID'', ''__CURSOR'', ''__REALTIME_TIMESTAMP'', ''__MONOTONIC_TIMESTAMP'', ''MESSAGE''])"

definition reject_entry :: "py \<Rightarrow> profile \<Rightarrow> row \<Rightarrow> string \<Rightarrow> string \<Rightarrow> int \<Rightarrow> int \<Rightarrow> string \<Rightarrow> transport_entry result" where
  "reject_entry P p r boot cursor realtime monotonic code =
     (let raw = encode (selected_fields r) in
      if byte_count raw > 65536 then failure ''network_journal_record_limit''
      else and_then (revision P p) (\<lambda>profile_revision. Inr (Rejected
        \<lparr>rj_event_id = event_identity P (sp_source_id p) boot cursor,
         rj_content_hash = fingerprint P (JObj [(''record_hash'', JStr (hexdigest P raw)),
           (''profile_revision'', JStr profile_revision), (''code'', JStr code)]),
         rj_boot_id = boot, rj_journal_cursor = cursor, rj_journal_realtime_us = realtime,
         rj_journal_monotonic_us = monotonic, rj_code = code\<rparr>)))"

definition entry_or_rejection :: "py \<Rightarrow> ip_reader \<Rightarrow> profile \<Rightarrow> string option \<Rightarrow> row \<Rightarrow> string \<Rightarrow> string \<Rightarrow> int \<Rightarrow> int
    \<Rightarrow> transport_entry result" where
  "entry_or_rejection P ip p rejection_code r boot cursor realtime monotonic = (case rejection_code of
     Some code \<Rightarrow>
       if code \<notin> set REJECTION_CODES then failure ''invalid_network_rejection''
       else reject_entry P p r boot cursor realtime monotonic code
   | None \<Rightarrow>
       (case and_then (parse_ufw P ip p r) (\<lambda>e. and_then (event_to_dict P ip e) (\<lambda>_. Inr e)) of
          Inr e \<Rightarrow> Inr (Event (wire_event e))
        | Inl (ValueError code) \<Rightarrow> reject_entry P p r boot cursor realtime monotonic ''invalid_record''
        | Inl other \<Rightarrow> Inl other))"

definition journal_entry_of :: "py \<Rightarrow> ip_reader \<Rightarrow> profile \<Rightarrow> string option \<Rightarrow> row \<Rightarrow> transport_entry result" where
  "journal_entry_of P ip p rejection_code r =
     (if get_field r ''_TRANSPORT'' \<noteq> JStr ''kernel'' then failure ''invalid_network_journal_identity''
      else case get_field r ''_BOOT_ID'' of
        JStr boot \<Rightarrow>
          if \<not> hex_text 32 boot then failure ''invalid_network_journal_identity''
          else and_then (check_cursor (get_field r ''__CURSOR'')) (\<lambda>cursor.
            and_then (journal_timestamp MAX_REALTIME_US (get_field r ''__REALTIME_TIMESTAMP'')) (\<lambda>realtime.
            and_then (journal_timestamp MAX_MONOTONIC_US (get_field r ''__MONOTONIC_TIMESTAMP'')) (\<lambda>monotonic.
              entry_or_rejection P ip p rejection_code r boot cursor realtime monotonic)))
      | _ \<Rightarrow> failure ''invalid_network_journal_identity'')"

section \<open>Validation of a batch\<close>

definition strong_guard :: "profile \<Rightarrow> bool" where
  "strong_guard p = (sp_guard_version p \<in> set STRONG_GUARDS)"

definition before_profile :: "profile \<Rightarrow> int \<Rightarrow> bool" where
  "before_profile p t = (case sp_profile_valid_from_us p of None \<Rightarrow> False | Some start \<Rightarrow> t < start)"

definition expected_coverage :: "profile \<Rightarrow> network_event \<Rightarrow> (string \<times> bool) list" where
  "expected_coverage p e =
     [(''dynamic_terminal_filtering'', sp_guard_version p = TERMINAL_GUARD),
      (''logging_rate_limited'', sp_logging_limit p = ''rate_limited''),
      (''logging_limits_unknown'', sp_logging_limit p = ''unknown''),
      (''journal_retention_unknown'', sp_retention p = ''unknown''),
      (''unsupported_protocol'', ne_protocol e = ''OTHER''),
      (''missing_transport_ports'', ne_protocol e \<in> set [''TCP'', ''UDP''] \<and> (ne_src_port e = None \<or> ne_dst_port e = None))]"

definition local_input_shape :: "profile \<Rightarrow> network_event \<Rightarrow> bool" where
  "local_input_shape p e =
     (ne_log_label e \<in> set (sp_local_input_labels p) \<and>
      (case ne_ingress_interface e of None \<Rightarrow> False | Some i \<Rightarrow> i \<in> set (sp_local_input_interfaces p)) \<and>
      ne_egress_interface e = None \<and> ''incomplete_interfaces'' \<notin> set (ne_coverage e))"

definition event_profile_conditions :: "profile \<Rightarrow> string \<Rightarrow> string \<Rightarrow> network_event \<Rightarrow> (bool \<times> string) list" where
  "event_profile_conditions p profile_revision version e =
     [(ne_source_id e = sp_source_id p \<and> ne_source_profile_revision e = profile_revision \<and> ne_parser_version e = version \<and>
       ne_log_label e \<in> set (sp_log_labels p) \<and> ne_ip_family e \<in> set (sp_ip_families p) \<and>
       ne_rejection_related e = (ne_log_label e \<in> set (sp_rejection_labels p)), ''network_profile_mismatch''),
      (\<not> (strong_guard p \<and> before_profile p (ne_journal_realtime_us e)), ''network_profile_mismatch''),
      (list_all (\<lambda>(code, required). (code \<in> set (ne_coverage e)) = required) (expected_coverage p e), ''network_profile_mismatch''),
      (\<not> (ne_protocol e = ''TCP'' \<and> ne_tcp_flags e \<noteq> None \<and>
          list_ex (\<lambda>code. code \<in> set (ne_coverage e)) [''truncated_transport_header'', ''fragmented_packet'']), ''invalid_network_event''),
      ((ne_direction e = ''local_input'') = local_input_shape p e, ''network_profile_mismatch'')]"

definition check_event :: "py \<Rightarrow> ip_reader \<Rightarrow> profile \<Rightarrow> string \<Rightarrow> json \<Rightarrow> transport_entry result" where
  "check_event P ip p profile_revision v =
     and_then (event_from_dict P ip v) (\<lambda>e.
     and_then (profile_parser_version p) (\<lambda>version.
     and_then (first_failure (event_profile_conditions p profile_revision version e)) (\<lambda>_. Inr (Event e))))"

definition read_rejection :: "row \<Rightarrow> (string \<times> string \<times> string \<times> string) option" where
  "read_rejection r = do {
     code \<leftarrow> as_str (get_field r ''code'');
     boot \<leftarrow> as_str (get_field r ''boot_id'');
     event_id \<leftarrow> as_str (get_field r ''event_id'');
     content_hash \<leftarrow> as_str (get_field r ''content_hash'');
     if code \<in> set REJECTION_CODES \<and> hex_text 32 boot \<and> hex_text 64 event_id \<and> hex_text 64 content_hash
     then Some (code, boot, event_id, content_hash) else None }"

definition check_rejection :: "py \<Rightarrow> profile \<Rightarrow> json \<Rightarrow> transport_entry result" where
  "check_rejection P p v = (case v of
     JObj r \<Rightarrow>
       if \<not> keys_are r REJECTION_FIELDS then failure ''invalid_network_rejection''
       else (case read_rejection r of
         None \<Rightarrow> failure ''invalid_network_rejection''
       | Some (code, boot, event_id, content_hash) \<Rightarrow>
           and_then (check_cursor (get_field r ''journal_cursor'')) (\<lambda>cursor.
           and_then (check_number MAX_REALTIME_US (get_field r ''journal_realtime_us'')) (\<lambda>realtime.
           and_then (check_number MAX_MONOTONIC_US (get_field r ''journal_monotonic_us'')) (\<lambda>monotonic.
             if event_id \<noteq> event_identity P (sp_source_id p) boot cursor then failure ''invalid_network_rejection''
             else Inr (Rejected \<lparr>rj_event_id = event_id, rj_content_hash = content_hash, rj_boot_id = boot,
               rj_journal_cursor = cursor, rj_journal_realtime_us = realtime, rj_journal_monotonic_us = monotonic, rj_code = code\<rparr>)))))
   | _ \<Rightarrow> failure ''invalid_network_rejection'')"

definition check_entry :: "py \<Rightarrow> ip_reader \<Rightarrow> profile \<Rightarrow> string \<Rightarrow> json \<Rightarrow> transport_entry result" where
  "check_entry P ip p profile_revision j = (case j of
     JObj [(k, v)] \<Rightarrow>
       if k = ''event'' then check_event P ip p profile_revision v
       else if k = ''rejection'' then check_rejection P p v
       else invalid_payload
   | _ \<Rightarrow> invalid_payload)"

definition check_reports :: "json \<Rightarrow> json \<Rightarrow> (string list \<times> bool) result" where
  "check_reports reports caught_up = (case (as_strs reports, as_bool caught_up) of
     (Some codes, Some flag) \<Rightarrow>
       if length codes \<le> length REPORT_CODES \<and> set codes \<subseteq> set REPORT_CODES \<and> distinct codes then Inr (codes, flag)
       else invalid_payload
   | _ \<Rightarrow> invalid_payload)"

definition incomplete_coverage :: "string list \<Rightarrow> bool" where
  "incomplete_coverage reports = list_ex (\<lambda>code. code \<in> set reports) [''catching_up'', ''profile_drift'', ''journal_cursor_unavailable'']"

definition check_batch_id :: "json \<Rightarrow> string result" where
  "check_batch_id v = (case v of
     JStr s \<Rightarrow> if is_id s then Inr s else failure ''invalid_network_batch_id''
   | _ \<Rightarrow> failure ''invalid_network_batch_id'')"

definition last_cursor :: "string option \<Rightarrow> transport_entry list \<Rightarrow> string option" where
  "last_cursor before entries = (if entries = [] then before else Some (entry_cursor (last entries)))"

definition check_entries :: "py \<Rightarrow> ip_reader \<Rightarrow> profile \<Rightarrow> string \<Rightarrow> bool \<Rightarrow> bool \<Rightarrow> json \<Rightarrow> transport_entry list result" where
  "check_entries P ip p profile_revision drift moved v = (case v of
     JList js \<Rightarrow>
       if length js > MAX_ENTRIES then failure ''network_batch_limit''
       else if drift \<and> (js \<noteq> [] \<or> moved) then failure ''network_profile_drift''
       else map_result (check_entry P ip p profile_revision) js
   | _ \<Rightarrow> failure ''network_batch_limit'')"

definition validate_batch :: "py \<Rightarrow> ip_reader \<Rightarrow> profile \<Rightarrow> json \<Rightarrow> batch result" where
  "validate_batch P ip p payload = (case payload of
     JObj r \<Rightarrow>
       if \<not> keys_are r BATCH_FIELDS then invalid_payload
       else if get_field r ''version'' \<noteq> JInt 1 then failure ''unsupported_network_version''
       else and_then (revision P p) (\<lambda>profile_revision.
         if get_field r ''source_id'' \<noteq> JStr (sp_source_id p) \<or> get_field r ''profile_revision'' \<noteq> JStr profile_revision
         then failure ''network_profile_mismatch''
         else and_then (check_batch_id (get_field r ''batch_id'')) (\<lambda>batch_id.
           and_then (check_number MAX_REALTIME_US (get_field r ''collected_at_us'')) (\<lambda>collected_at.
             if strong_guard p \<and> before_profile p collected_at then failure ''network_profile_mismatch''
             else and_then (check_cursor_or_none (get_field r ''cursor_before'')) (\<lambda>cursor_before.
               and_then (check_cursor_or_none (get_field r ''cursor_after'')) (\<lambda>cursor_after.
               and_then (check_reports (get_field r ''reports'') (get_field r ''caught_up'')) (\<lambda>(reports, caught_up).
                 if caught_up \<and> incomplete_coverage reports
                 then failure ''inconsistent_network_coverage''
                 else and_then (check_entries P ip p profile_revision (''profile_drift'' \<in> set reports) (cursor_after \<noteq> cursor_before)
                     (get_field r ''entries'')) (\<lambda>entries.
                   if cursor_after \<noteq> last_cursor cursor_before entries then failure ''network_checkpoint_mismatch''
                   else if byte_count (encode payload) > MAX_BATCH_BYTES then failure ''network_batch_limit''
                   else Inr \<lparr>bt_source_id = sp_source_id p, bt_profile_revision = profile_revision, bt_batch_id = batch_id,
                     bt_collected_at_us = collected_at, bt_cursor_before = cursor_before, bt_cursor_after = cursor_after,
                     bt_entries = entries, bt_reports = reports, bt_caught_up = caught_up\<rparr>)))))))
   | _ \<Rightarrow> invalid_payload)"

section \<open>Validation of an acknowledgement\<close>

definition echoed_fields :: "string list" where
  "echoed_fields = filter (\<lambda>k. k \<noteq> ''entries'') BATCH_FIELDS"

definition ack_fields :: "string list" where
  "ack_fields = echoed_fields @
     [''payload_hash'', ''durable'', ''received_at_us'', ''results'', ''accepted'', ''rejected'', ''duplicates'']"

fun entry_code :: "transport_entry \<Rightarrow> json" where
  "entry_code (Event e) = JNull"
| "entry_code (Rejected q) = JStr (rj_code q)"

definition entry_statuses :: "transport_entry \<Rightarrow> string list" where
  "entry_statuses x = (case x of Event e \<Rightarrow> [''accepted'', ''duplicate''] | Rejected q \<Rightarrow> [''rejected'', ''duplicate''])"

definition result_ok :: "transport_entry \<Rightarrow> json \<Rightarrow> bool" where
  "result_ok x result = (case result of
     JObj r \<Rightarrow> keys_are r [''event_id'', ''content_hash'', ''status'', ''code''] \<and>
       list_all (\<lambda>k. get_field r k = get_field (entry_row x) k) [''event_id'', ''content_hash''] \<and>
       get_field r ''code'' = entry_code x \<and> get_field r ''status'' \<in> set (map JStr (entry_statuses x))
   | _ \<Rightarrow> False)"

definition status_of :: "json \<Rightarrow> string" where
  "status_of result = (case result of JObj r \<Rightarrow> (case get_field r ''status'' of JStr s \<Rightarrow> s | _ \<Rightarrow> []) | _ \<Rightarrow> [])"

fun count_results :: "(json \<times> transport_entry) list \<Rightarrow> (string \<Rightarrow> int) \<Rightarrow> (string \<Rightarrow> int) result" where
  "count_results [] counts = Inr counts"
| "count_results ((result, x) # rest) counts =
     (if \<not> result_ok x result then failure ''invalid_network_ack''
      else let k = (if status_of result = ''duplicate'' then ''duplicates'' else status_of result)
        in count_results rest (counts(k := counts k + 1)))"

definition validate_ack :: "py \<Rightarrow> json \<Rightarrow> batch \<Rightarrow> unit result" where
  "validate_ack P ack b = (case ack of
     JObj r \<Rightarrow>
       if \<not> keys_are r ack_fields then failure ''invalid_network_ack''
       else if get_field r ''durable'' \<noteq> JBool True \<or> get_field r ''payload_hash'' \<noteq> JStr (fingerprint P (batch_json b)) \<or>
         \<not> list_all (\<lambda>k. get_field r k = get_field (batch_row b) k) echoed_fields
       then failure ''invalid_network_ack''
       else and_then (check_number MAX_REALTIME_US (get_field r ''received_at_us'')) (\<lambda>_.
         (case get_field r ''results'' of
            JList results \<Rightarrow>
              if length results \<noteq> length (bt_entries b) then failure ''invalid_network_ack''
              else and_then (count_results (zip results (bt_entries b)) (\<lambda>k. 0)) (\<lambda>counts.
                if list_all (\<lambda>k. get_field r k = JInt (counts k)) [''accepted'', ''rejected'', ''duplicates''] then Inr ()
                else failure ''invalid_network_ack'')
          | _ \<Rightarrow> failure ''invalid_network_ack''))
   | _ \<Rightarrow> failure ''invalid_network_ack'')"

section \<open>The encoding is uniquely readable\<close>

text \<open>
  Texts of \<open>json.dumps\<close>: a backslash starts one of the short escapes, or \<open>u00\<close> with a first digit 0 or 1. \<open>ascii_escape\<close> puts first
  digits from 7 on, so no two of them are confused.
\<close>

inductive json_text :: "string \<Rightarrow> bool" where
  json_text_Nil: "json_text []"
| json_text_char: "c \<noteq> CHR 0x5C \<Longrightarrow> json_text s \<Longrightarrow> json_text (c # s)"
| json_text_short: "d \<in> set [CHR 0x22, CHR 0x5C, CHR ''n'', CHR ''r'', CHR ''t'', CHR ''f'', CHR ''b''] \<Longrightarrow> json_text s \<Longrightarrow>
    json_text (CHR 0x5C # d # s)"
| json_text_unicode: "x \<in> set ''01'' \<Longrightarrow> (of_char y :: nat) \<le> 126 \<Longrightarrow> y \<noteq> CHR 0x5C \<Longrightarrow> json_text s \<Longrightarrow>
    json_text (CHR 0x5C # CHR ''u'' # CHR ''0'' # CHR ''0'' # x # y # s)"

lemma json_text_append: "json_text s \<Longrightarrow> json_text t \<Longrightarrow> json_text (s @ t)"
  by (induction rule: json_text.induct) (auto intro: json_text.intros)

lemma json_text_plain: "CHR 0x5C \<notin> set s \<Longrightarrow> json_text s"
  by (induction s) (auto intro: json_text.intros)

lemma hex_char_code: "d < 16 \<Longrightarrow> of_char (hex_char d) = (if d < 10 then 48 + d else 87 + d)"
  by (simp add: hex_char_def of_char_of)

lemma hex_char_plain: "d < 16 \<Longrightarrow> (of_char (hex_char d) :: nat) \<le> 126 \<and> hex_char d \<noteq> CHR 0x5C"
  using hex_char_code [of d] by (auto simp: char_code_iff)

lemma json_text_esc: "json_text (esc c)"
proof -
  let ?n = "of_char c :: nat"
  have "json_text (CHR 0x5C # CHR ''u'' # CHR ''0'' # CHR ''0'' # hex_char (?n div 16) # [hex_char (?n mod 16)])" if "?n < 32"
  proof (rule json_text_unicode)
    have "?n div 16 < 2" using that by simp
    then have "?n div 16 = 0 \<or> ?n div 16 = 1" by linarith
    moreover have "hex_char 0 = CHR ''0''" "hex_char 1 = CHR ''1''" by (simp_all add: char_code_iff hex_char_code)
    ultimately show "hex_char (?n div 16) \<in> set ''01''" by auto
  qed (use hex_char_plain [of "?n mod 16"] in \<open>auto intro: json_text.intros\<close>)
  then show ?thesis by (simp add: esc_def json_text_short json_text_char json_text_Nil)
qed

lemma json_text_concat: "(\<And>x. x \<in> set xs \<Longrightarrow> json_text (f x)) \<Longrightarrow> json_text (concat (map f xs))"
  by (induction xs) (auto intro: json_text_append json_text_Nil)

lemma json_text_quote: "json_text (quote s)"
  unfolding quote_def by (intro json_text_append json_text_concat json_text_esc) (simp_all add: json_text_plain)

lemma json_text_join: "(\<And>x. x \<in> set xs \<Longrightarrow> json_text x) \<Longrightarrow> json_text sep \<Longrightarrow> json_text (join_with sep xs)"
  by (induction sep xs rule: join_with.induct) (auto intro!: json_text_append json_text_Nil)

lemma json_text_dumps: "wf_json j \<Longrightarrow> json_text (dumps j)"
proof (induction j)
  case (JInt i)
  have "CHR 0x5C \<notin> set (int_str i)" using int_str_chars [of "CHR 0x5C" i] by (auto simp: is_digit_def)
  then show ?case by (simp add: json_text_plain)
next
  case (JFloat s)
  then have "CHR 0x5C \<notin> set s" by (auto simp: float_token_def)
  then show ?case by (simp add: json_text_plain)
next
  case (JList xs)
  then have "json_text (join_with '','' (map dumps xs))"
    by (intro json_text_join) (auto simp: list_all_iff json_text_plain)
  then show ?case by (simp add: json_text_append json_text_char json_text_Nil)
next
  case (JObj kvs)
  let ?f = "\<lambda>(k, v). quote k @ '':'' @ dumps v"
  have "json_text (?f kv)" if "kv \<in> set kvs" for kv
  proof -
    obtain k v where kv: "kv = (k, v)" by (cases kv)
    have "json_text (dumps v)" using JObj that by (auto simp: kv list_all_iff)
    then show ?thesis by (simp add: kv json_text_append json_text_quote json_text_char)
  qed
  then have "json_text (join_with '','' (map ?f kvs))" by (intro json_text_join) (auto simp: json_text_plain)
  then show ?case by (simp add: json_text_append json_text_char json_text_Nil)
qed (auto intro: json_text_plain json_text_quote)

definition to_ascii :: "string \<Rightarrow> string" where
  "to_ascii s = concat (map ascii_escape s)"

lemma to_ascii_simps [simp]: "to_ascii [] = []" "to_ascii (c # s) = ascii_escape c @ to_ascii s"
  by (simp_all add: to_ascii_def)

lemma ascii_escape_plain: "(of_char c :: nat) \<le> 126 \<Longrightarrow> ascii_escape c = [c]"
  by (simp add: ascii_escape_def)

lemma ascii_escape_high:
  assumes "\<not> (of_char c :: nat) \<le> 126"
  obtains x y where "ascii_escape c = [CHR 0x5C, CHR ''u'', CHR ''0'', CHR ''0'', x, y]" and "x \<notin> set ''01''"
    and "unesc ([CHR 0x5C, CHR ''u'', CHR ''0'', CHR ''0'', x, y] @ []) = (c, [])"
proof
  let ?n = "of_char c :: nat"
  show "ascii_escape c = [CHR 0x5C, CHR ''u'', CHR ''0'', CHR ''0'', hex_char (?n div 16), hex_char (?n mod 16)]"
    using assms by (simp add: ascii_escape_def Let_def)
  have "?n < 16 * 16" using nat_of_char_less_256 [of c] by simp
  then have n: "?n div 16 < 16" "7 \<le> ?n div 16" using assms by (auto intro: less_mult_imp_div_less)
  then have "48 + 7 \<le> (of_char (hex_char (?n div 16)) :: nat)" by (simp add: hex_char_code)
  then show "hex_char (?n div 16) \<notin> set ''01''" by (auto simp: char_code_iff)
  show "unesc ([CHR 0x5C, CHR ''u'', CHR ''0'', CHR ''0'', hex_char (?n div 16), hex_char (?n mod 16)] @ []) = (c, [])"
    by (rule unesc_unicode)
qed

text \<open>What a text starts with decides what its ASCII form starts with.\<close>

datatype piece = Plain char | High char | Short char | Unicode char char

fun piece_ascii :: "piece \<Rightarrow> string" where
  "piece_ascii (Plain c) = [c]"
| "piece_ascii (High c) = ascii_escape c"
| "piece_ascii (Short d) = [CHR 0x5C, d]"
| "piece_ascii (Unicode x y) = [CHR 0x5C, CHR ''u'', CHR ''0'', CHR ''0'', x, y]"

fun piece_text :: "piece \<Rightarrow> string" where
  "piece_text (Plain c) = [c]"
| "piece_text (High c) = [c]"
| "piece_text (Short d) = [CHR 0x5C, d]"
| "piece_text (Unicode x y) = [CHR 0x5C, CHR ''u'', CHR ''0'', CHR ''0'', x, y]"

fun piece_ok :: "piece \<Rightarrow> bool" where
  "piece_ok (Plain c) = (c \<noteq> CHR 0x5C)"
| "piece_ok (High c) = (\<not> (of_char c :: nat) \<le> 126)"
| "piece_ok (Short d) = (d \<noteq> CHR ''u'')"
| "piece_ok (Unicode x y) = (x \<in> set ''01'')"

definition read_piece :: "string \<Rightarrow> piece \<times> string" where
  "read_piece s = (if s ! 0 \<noteq> CHR 0x5C then (Plain (s ! 0), drop 1 s)
     else if s ! 1 \<noteq> CHR ''u'' then (Short (s ! 1), drop 2 s)
     else if s ! 4 \<in> set ''01'' then (Unicode (s ! 4) (s ! 5), drop 6 s)
     else (High (fst (unesc (take 6 s))), drop 6 s))"

lemma read_piece_ascii:
  assumes "piece_ok a"
  shows "read_piece (piece_ascii a @ s) = (a, s)"
proof (cases a)
  case (High c)
  with assms have "\<not> (of_char c :: nat) \<le> 126" by simp
  then obtain x y where "ascii_escape c = [CHR 0x5C, CHR ''u'', CHR ''0'', CHR ''0'', x, y]" "x \<notin> set ''01''"
    "unesc ([CHR 0x5C, CHR ''u'', CHR ''0'', CHR ''0'', x, y] @ []) = (c, [])"
    by (rule ascii_escape_high)
  with High show ?thesis by (simp add: read_piece_def)
qed (use assms in \<open>auto simp: read_piece_def\<close>)

lemma piece_inject:
  assumes "piece_ok a" "piece_ok b" "piece_ascii a @ s = piece_ascii b @ t"
  shows "a = b \<and> s = t"
proof -
  have "(a, s) = (b, t)"
    unfolding read_piece_ascii [OF assms(1), symmetric, of s] read_piece_ascii [OF assms(2), symmetric, of t] assms(3) ..
  then show ?thesis by simp
qed

lemma json_text_piece:
  assumes "json_text s" "s \<noteq> []"
  obtains a r where "piece_ok a" and "s = piece_text a @ r" and "to_ascii s = piece_ascii a @ to_ascii r" and "json_text r"
  using assms
proof cases
  case (json_text_char c r)
  show thesis
  proof (cases "(of_char c :: nat) \<le> 126")
    case True
    with json_text_char show thesis by (intro that [of "Plain c" r]) (simp_all add: ascii_escape_plain)
  next
    case False
    with json_text_char show thesis by (intro that [of "High c" r]) simp_all
  qed
next
  case (json_text_short d r)
  then have "(of_char d :: nat) \<le> 126" by auto
  with json_text_short show thesis by (intro that [of "Short d" r]) (auto simp: ascii_escape_plain)
next
  case (json_text_unicode x y r)
  then have "(of_char x :: nat) \<le> 126" by auto
  with json_text_unicode show thesis by (intro that [of "Unicode x y" r]) (simp_all add: ascii_escape_plain)
qed simp

lemma to_ascii_inject: "json_text s \<Longrightarrow> json_text t \<Longrightarrow> to_ascii s = to_ascii t \<Longrightarrow> s = t"
proof (induction "length s" arbitrary: s t rule: less_induct)
  case less
  have nonempty: "piece_ok a \<Longrightarrow> piece_ascii a \<noteq> []" "piece_text a \<noteq> []" for a
    by (cases a; simp add: ascii_escape_def Let_def)+
  show ?case
  proof (cases "s = [] \<or> t = []")
    case True
    then show ?thesis
      using less.prems nonempty by (metis Nil_is_append_conv json_text_piece to_ascii_simps(1))
  next
    case False
    obtain a r where s: "piece_ok a" "s = piece_text a @ r" "to_ascii s = piece_ascii a @ to_ascii r" "json_text r"
      using json_text_piece [OF less.prems(1)] False by blast
    obtain b q where t: "piece_ok b" "t = piece_text b @ q" "to_ascii t = piece_ascii b @ to_ascii q" "json_text q"
      using json_text_piece [OF less.prems(2)] False by blast
    have "a = b \<and> to_ascii r = to_ascii q" using s(3) t(3) less.prems(3) by (intro piece_inject [OF s(1) t(1)]) simp
    moreover have "r = q" using less.hyps [of r q] s t calculation nonempty(2) by simp
    ultimately show ?thesis using s t by simp
  qed
qed

text \<open>Equal bytes mean equal values up to the order of the keys, and so do equal fingerprints unless SHA-256 has a collision.\<close>

lemma encode_inject: "wf_json i \<Longrightarrow> wf_json j \<Longrightarrow> encode i = encode j \<longleftrightarrow> same_json i j"
  using to_ascii_inject [of "canonical_json i" "canonical_json j"] json_text_dumps [of "sort_keys i"] json_text_dumps [of "sort_keys j"]
    canonical_json_inject [of i j]
  by (auto simp: encode_def to_ascii_def same_json_def canonical_json_def)

lemma fingerprint_inject:
  "fingerprint P i = fingerprint P j \<Longrightarrow> wf_json i \<Longrightarrow> wf_json j \<Longrightarrow> \<not> digest_collision P \<Longrightarrow> same_json i j"
  by (metis digest_eqD encode_inject fingerprint_def)

section \<open>A dictionary up to the order of its keys\<close>

lemma get_field_simps [simp]:
  "get_field ((k, v) # r) k' = (if k = k' then v else get_field r k')" "get_field [] k = JNull"
  by (simp_all add: get_field_def)

lemma get_field_mem: "distinct (map fst r) \<Longrightarrow> (k, v) \<in> set r \<Longrightarrow> get_field r k = v"
  by (simp add: get_field_def)

lemma field_mem_iff: "distinct (map fst r) \<Longrightarrow> (k, v) \<in> set r \<longleftrightarrow> k \<in> fst ` set r \<and> get_field r k = v"
  using get_field_mem by force

lemma same_json_refl [simp]: "same_json v v"
  by (simp add: same_json_def)

lemma same_json_trans: "same_json u v \<Longrightarrow> same_json v w \<Longrightarrow> same_json u w"
  by (simp add: same_json_def)

lemma same_json_sym: "same_json u v \<Longrightarrow> same_json v u"
  by (simp add: same_json_def)

lemma same_json_list: "list_all2 same_json xs ys \<Longrightarrow> same_json (JList xs) (JList ys)"
  by (auto simp: same_json_def list_all2_conv_all_nth intro: nth_equalityI)

lemma same_json_obj:
  assumes "distinct (map fst r)" "distinct (map fst q)" "set (map fst r) = set (map fst q)"
    and "\<And>k. k \<in> set (map fst q) \<Longrightarrow> same_json (get_field r k) (get_field q k)"
  shows "same_json (JObj r) (JObj q)"
proof -
  let ?f = "\<lambda>(k, v). (k, sort_keys v)"
  have fsts: "map fst (map ?f s) = map fst s" for s by (induction s) auto
  have mem: "(k, w) \<in> set (map ?f s) \<longleftrightarrow> k \<in> fst ` set s \<and> w = sort_keys (get_field s k)" if "distinct (map fst s)" for s k w
    using field_mem_iff [OF that, of k] by force
  have "kv \<in> set (map ?f r) \<longleftrightarrow> kv \<in> set (map ?f q)" for kv
  proof (cases kv)
    case (Pair k w)
    have "k \<in> fst ` set r \<longleftrightarrow> k \<in> fst ` set q" using assms(3) by simp
    then have "k \<in> fst ` set r \<and> w = sort_keys (get_field r k) \<longleftrightarrow> k \<in> fst ` set q \<and> w = sort_keys (get_field q k)"
      using assms(4) [of k] unfolding same_json_def set_map by (cases "k \<in> fst ` set q") simp_all
    then show ?thesis unfolding Pair mem [OF assms(1)] mem [OF assms(2)] .
  qed
  then have "set (map ?f r) = set (map ?f q)" by blast
  moreover have "inj_on fst (set (map ?f q))"
    using assms(2) fsts [of q] by (metis distinct_map)
  moreover have "distinct (map fst (sort_key fst (map ?f s)))" if "distinct (map fst s)" for s
  proof -
    have "distinct (map fst (sort_key fst (map ?f s))) = distinct (map fst (map ?f s))"
      by (rule mset_eq_imp_distinct_iff) (simp only: mset_map mset_sort)
    with that show ?thesis by (simp only: fsts)
  qed
  ultimately have "sort_key fst (map ?f r) = sort_key fst (map ?f q)"
    using assms(1,2) by (intro map_sorted_distinct_set_unique [of fst]) (simp_all add: sorted_sort_key)
  then show ?thesis by (simp add: same_json_def)
qed

lemma encode_same: "same_json i j \<Longrightarrow> encode i = encode j"
  by (simp add: same_json_def encode_def canonical_json_def)

section \<open>Typed readers invert the printed forms\<close>

lemma as_atoms [simp]:
  "as_str v = Some s \<longleftrightarrow> v = JStr s" "as_int v = Some i \<longleftrightarrow> v = JInt i" "as_bool v = Some b \<longleftrightarrow> v = JBool b"
  "as_nat v = Some n \<longleftrightarrow> v = JInt (int n)"
  by (auto simp: as_str_def as_int_def as_bool_def as_nat_def split: json.splits)

lemma all_some_iff: "all_some (map f xs) = Some ys \<longleftrightarrow> list_all2 (\<lambda>x y. f x = Some y) xs ys"
proof (induction xs arbitrary: ys)
  case (Cons x xs)
  show ?case by (auto simp: Cons.IH Option.bind_eq_Some_conv list_all2_Cons1)
qed auto

lemma as_strs_iff [simp]: "as_strs v = Some xs \<longleftrightarrow> v = jstrs xs"
proof -
  have "list_all2 (\<lambda>x y. x = JStr y) ys xs \<longleftrightarrow> ys = map JStr xs" for ys
    by (induction xs arbitrary: ys) (auto simp: list_all2_Cons2)
  then show ?thesis by (cases v) (simp_all add: as_strs_def all_some_iff jstrs_def)
qed

lemma as_option_iff:
  assumes "\<And>y. f v = Some y \<longleftrightarrow> v = g y" and "\<And>y. g y \<noteq> JNull"
  shows "as_option f v = Some x \<longleftrightarrow> v = opt_json g x"
  using assms assms(2) [symmetric] by (cases x) (auto simp: as_option_def opt_json_def)

lemma as_options [simp]:
  "as_option as_str v = Some x \<longleftrightarrow> v = opt_json JStr x"
  "as_option as_nat v = Some y \<longleftrightarrow> v = opt_json (JInt \<circ> int) y"
  "as_option as_strs v = Some z \<longleftrightarrow> v = opt_json jstrs z"
  by (rule as_option_iff; simp add: jstrs_def)+

lemma read_event_fields:
  assumes "read_event r = Some e" "wire_sets e" "k \<in> set EVENT_FIELDS"
  shows "get_field r k = get_field (event_row e) k"
proof -
  have flags: "opt_json jstrs (ne_tcp_flags e) = opt_json (\<lambda>flags. jstrs (sorted_set flags)) (ne_tcp_flags e)"
    using assms(2) by (auto simp: wire_sets_def opt_json_def split: option.splits)
  have "list_all (\<lambda>k. get_field r k = get_field (event_row e) k) EVENT_FIELDS"
    using assms(1) flags unfolding read_event_def EVENT_FIELDS_def event_row_def
    by (simp add: Option.bind_eq_Some_conv, elim exE conjE, hypsubst) simp
  with assms(3) show ?thesis by (simp add: list_all_iff)
qed

section \<open>Events survive transport\<close>

lemma event_row_keys: "map fst (event_row e) = EVENT_FIELDS"
  by (simp add: event_row_def EVENT_FIELDS_def)

lemma fields_distinct: "distinct EVENT_FIELDS" "distinct REJECTION_FIELDS" "distinct BATCH_FIELDS"
  by (simp_all add: EVENT_FIELDS_def REJECTION_FIELDS_def BATCH_FIELDS_def)

lemma event_from_dict_ok:
  assumes "event_from_dict P ip j = Inr e"
  obtains r where "j = JObj r" and "keys_are r EVENT_FIELDS" and "read_event r = Some e" and "wire_sets e"
    and "validate_event P ip e = Inr ()"
  using assms by (auto simp: event_from_dict_def failure_def split: json.splits if_splits option.splits sum.splits)

lemma same_json_row:
  assumes "wf_json (JObj r)" "keys_are r ks" "map fst q = ks" "distinct ks"
    and "\<And>k. k \<in> set ks \<Longrightarrow> same_json (get_field r k) (get_field q k)"
  shows "same_json (JObj r) (JObj q)"
  using assms by (intro same_json_obj) (simp_all add: keys_are_def)

lemma event_from_dict_same:
  assumes "event_from_dict P ip j = Inr e" "wf_json j"
  shows "same_json j (JObj (event_row e))"
  using assms(1)
proof (rule event_from_dict_ok)
  fix r assume r: "j = JObj r" "keys_are r EVENT_FIELDS" "read_event r = Some e" "wire_sets e"
  show ?thesis
    unfolding r(1) using assms(2) r read_event_fields [OF r(3,4)]
    by (intro same_json_row [OF _ r(2) event_row_keys fields_distinct(1)]) simp_all
qed

lemma read_event_row: "read_event (event_row e) = Some (wire_event e)"
proof -
  have flags: "as_option as_strs (opt_json (\<lambda>flags. jstrs (sorted_set flags)) (ne_tcp_flags e)) = Some (map_option sorted_set (ne_tcp_flags e))"
    by (cases "ne_tcp_flags e") (simp_all add: opt_json_def)
  have atoms: "as_str (JStr s) = Some s" "as_int (JInt i) = Some i" "as_bool (JBool b) = Some b" "as_nat (JInt (int n)) = Some n"
    "as_strs (jstrs xs) = Some xs" "as_option as_str (opt_json JStr x) = Some x" "as_option as_nat (opt_json (JInt \<circ> int) y) = Some y"
    for s i b n xs x y
    by simp_all
  show ?thesis
    unfolding read_event_def event_row_def by (simp add: flags atoms wire_event_def del: as_atoms as_strs_iff as_options)
qed

lemma wire_event_sels [simp]:
  "ne_source_id (wire_event e) = ne_source_id e" "ne_schema_version (wire_event e) = ne_schema_version e"
  "ne_parser_version (wire_event e) = ne_parser_version e" "ne_boot_id (wire_event e) = ne_boot_id e"
  "ne_journal_cursor (wire_event e) = ne_journal_cursor e" "ne_event_id (wire_event e) = ne_event_id e"
  "ne_content_hash (wire_event e) = ne_content_hash e" "ne_journal_realtime_us (wire_event e) = ne_journal_realtime_us e"
  "ne_journal_monotonic_us (wire_event e) = ne_journal_monotonic_us e" "ne_transport (wire_event e) = ne_transport e"
  "ne_ip_family (wire_event e) = ne_ip_family e" "ne_src_ip (wire_event e) = ne_src_ip e"
  "ne_dst_ip (wire_event e) = ne_dst_ip e" "ne_protocol (wire_event e) = ne_protocol e"
  "ne_observed_protocol (wire_event e) = ne_observed_protocol e" "ne_src_port (wire_event e) = ne_src_port e"
  "ne_dst_port (wire_event e) = ne_dst_port e" "ne_ingress_interface (wire_event e) = ne_ingress_interface e"
  "ne_egress_interface (wire_event e) = ne_egress_interface e" "ne_direction (wire_event e) = ne_direction e"
  "ne_observation_point (wire_event e) = ne_observation_point e" "ne_log_label (wire_event e) = ne_log_label e"
  "ne_final_outcome (wire_event e) = ne_final_outcome e"
  "ne_source_profile_revision (wire_event e) = ne_source_profile_revision e" "ne_coverage (wire_event e) = ne_coverage e"
  "ne_rejection_related (wire_event e) = ne_rejection_related e"
  "ne_tcp_flags (wire_event e) = map_option sorted_set (ne_tcp_flags e)"
  by (simp_all add: wire_event_def)

lemma sorted_set_flags:
  "(case map_option sorted_set f of None \<Rightarrow> True | Some fs \<Rightarrow> set fs \<subseteq> A \<and> b) = (case f of None \<Rightarrow> True | Some fs \<Rightarrow> set fs \<subseteq> A \<and> b)"
  "opt_json (\<lambda>fs. jstrs (sorted_set fs)) (map_option sorted_set f) = opt_json (\<lambda>fs. jstrs (sorted_set fs)) f"
  by (cases f; simp add: opt_json_def)+

lemma validate_wire_event: "validate_event P ip (wire_event e) = validate_event P ip e"
proof -
  have "content_of (wire_event e) = content_of e" by (simp only: content_of_def wire_event_sels sorted_set_flags)
  then show ?thesis
    by (simp only: validate_event_def event_conditions_head_def event_conditions_def wire_event_sels sorted_set_flags
      option.map_disc_iff map_option_is_None)
qed

lemma event_conditions_of:
  assumes "validate_event P ip e = Inr ()"
  obtains src dst where "list_all fst (event_conditions_head e)" "list_all fst (event_conditions P e src dst)"
  using assms by (auto simp: validate_event_def first_failure_ok elim!: and_then_InrE)

lemma wire_sets_of_valid:
  assumes "validate_event P ip e = Inr ()"
  shows "wire_sets (wire_event e)"
proof -
  obtain src dst where "list_all fst (event_conditions P e src dst)" using assms by (rule event_conditions_of)
  then have "length (ne_coverage e) \<le> length COVERAGE"
    and flags: "case ne_tcp_flags e of None \<Rightarrow> True | Some flags \<Rightarrow> set flags \<subseteq> set TCP_FLAGS \<and> ne_protocol e = ''TCP''"
    by (simp_all add: event_conditions_def)
  then have "length (ne_coverage e) \<le> 16" by (simp add: COVERAGE_def)
  moreover have "length (sorted_set fs) \<le> 8" if "ne_tcp_flags e = Some fs" for fs
    using sorted_set_length [of fs TCP_FLAGS] flags that by (simp add: TCP_FLAGS_def)
  ultimately show ?thesis by (simp add: wire_sets_def wire_event_def split: option.splits)
qed

lemma event_roundtrip:
  "validate_event P ip e = Inr () \<Longrightarrow> event_from_dict P ip (JObj (event_row e)) = Inr (wire_event e)"
  by (simp add: event_from_dict_def keys_are_def event_row_keys read_event_row wire_sets_of_valid validate_wire_event del: set_map)

section \<open>Accepted entries\<close>

definition rejection_ok :: "py \<Rightarrow> profile \<Rightarrow> rejection \<Rightarrow> bool" where
  "rejection_ok P p q = (rj_code q \<in> set REJECTION_CODES \<and> hex_text 32 (rj_boot_id q) \<and> hex_text 64 (rj_event_id q) \<and>
     hex_text 64 (rj_content_hash q) \<and> ascii_text 2048 (rj_journal_cursor q) \<and> in_bounds MAX_REALTIME_US (rj_journal_realtime_us q) \<and>
     in_bounds MAX_MONOTONIC_US (rj_journal_monotonic_us q) \<and>
     rj_event_id q = event_identity P (sp_source_id p) (rj_boot_id q) (rj_journal_cursor q))"

definition event_ok :: "py \<Rightarrow> ip_reader \<Rightarrow> profile \<Rightarrow> string \<Rightarrow> network_event \<Rightarrow> bool" where
  "event_ok P ip p profile_revision e = (validate_event P ip e = Inr () \<and> wire_sets e \<and>
     (\<exists>version. profile_parser_version p = Inr version \<and>
        first_failure (event_profile_conditions p profile_revision version e) = Inr ()))"

fun entry_ok :: "py \<Rightarrow> ip_reader \<Rightarrow> profile \<Rightarrow> string \<Rightarrow> transport_entry \<Rightarrow> bool" where
  "entry_ok P ip p profile_revision (Event e) = event_ok P ip p profile_revision e"
| "entry_ok P ip p profile_revision (Rejected q) = rejection_ok P p q"

lemma check_cursor_iff: "check_cursor v = Inr s \<longleftrightarrow> v = JStr s \<and> ascii_text 2048 s"
  by (auto simp: check_cursor_def failure_def split: json.splits if_splits)

lemma check_cursor_or_none_iff:
  "check_cursor_or_none v = Inr c \<longleftrightarrow> v = opt_json JStr c \<and> (case c of None \<Rightarrow> True | Some s \<Rightarrow> ascii_text 2048 s)"
proof (cases "v = JNull")
  case False
  have "and_then (check_cursor v) (\<lambda>s. Inr (Some s)) = Inr c \<longleftrightarrow> (\<exists>s. c = Some s \<and> check_cursor v = Inr s)"
    by (cases "check_cursor v") auto
  with False show ?thesis by (cases c) (auto simp: check_cursor_or_none_def check_cursor_iff opt_json_def)
qed (cases c; auto simp: check_cursor_or_none_def opt_json_def)

lemma check_number_iff: "check_number m v = Inr i \<longleftrightarrow> v = JInt i \<and> in_bounds m i"
  by (auto simp: check_number_def failure_def split: json.splits if_splits)

lemma check_batch_id_iff: "check_batch_id v = Inr s \<longleftrightarrow> v = JStr s \<and> is_id s"
  by (auto simp: check_batch_id_def failure_def split: json.splits if_splits)

lemma check_reports_iff:
  "check_reports u v = Inr (codes, flag) \<longleftrightarrow> u = jstrs codes \<and> v = JBool flag \<and>
     length codes \<le> length REPORT_CODES \<and> set codes \<subseteq> set REPORT_CODES \<and> distinct codes"
proof -
  have "check_reports u v = Inr (codes, flag) \<longleftrightarrow> as_strs u = Some codes \<and> as_bool v = Some flag \<and>
      length codes \<le> length REPORT_CODES \<and> set codes \<subseteq> set REPORT_CODES \<and> distinct codes"
    by (auto simp: check_reports_def invalid_payload_def failure_def simp del: as_strs_iff as_atoms split: option.splits if_splits)
  then show ?thesis by simp
qed

lemmas check_iffs = check_cursor_iff check_cursor_or_none_iff check_number_iff check_batch_id_iff check_reports_iff

lemma read_rejection_iff:
  "read_rejection r = Some (code, boot, event_id, content_hash) \<longleftrightarrow>
     get_field r ''code'' = JStr code \<and> get_field r ''boot_id'' = JStr boot \<and> get_field r ''event_id'' = JStr event_id \<and>
     get_field r ''content_hash'' = JStr content_hash \<and> code \<in> set REJECTION_CODES \<and> hex_text 32 boot \<and> hex_text 64 event_id \<and>
     hex_text 64 content_hash"
  by (auto simp: read_rejection_def Option.bind_eq_Some_conv split: if_splits)

lemma rejection_row_keys: "map fst (rejection_row q) = REJECTION_FIELDS"
  by (simp add: rejection_row_def REJECTION_FIELDS_def)

lemma check_rejection_ok:
  assumes "check_rejection P p v = Inr x"
  obtains q r where "x = Rejected q" and "v = JObj r" and "keys_are r REJECTION_FIELDS"
    and "\<forall>k \<in> set REJECTION_FIELDS. get_field r k = get_field (rejection_row q) k" and "rejection_ok P p q"
proof -
  obtain r code boot event_id content_hash cursor realtime monotonic where v: "v = JObj r" "keys_are r REJECTION_FIELDS"
    and r: "read_rejection r = Some (code, boot, event_id, content_hash)"
    and c: "check_cursor (get_field r ''journal_cursor'') = Inr cursor"
      "check_number MAX_REALTIME_US (get_field r ''journal_realtime_us'') = Inr realtime"
      "check_number MAX_MONOTONIC_US (get_field r ''journal_monotonic_us'') = Inr monotonic"
    and i: "event_id = event_identity P (sp_source_id p) boot cursor"
    and x: "x = Rejected \<lparr>rj_event_id = event_id, rj_content_hash = content_hash, rj_boot_id = boot,
      rj_journal_cursor = cursor, rj_journal_realtime_us = realtime, rj_journal_monotonic_us = monotonic, rj_code = code\<rparr>"
    using assms by (auto simp: check_rejection_def failure_def split: json.splits if_splits option.splits elim!: and_then_InrE)
  show thesis
  proof (rule that [OF x v])
    show "\<forall>k \<in> set REJECTION_FIELDS. get_field r k = get_field (rejection_row \<lparr>rj_event_id = event_id, rj_content_hash = content_hash,
        rj_boot_id = boot, rj_journal_cursor = cursor, rj_journal_realtime_us = realtime, rj_journal_monotonic_us = monotonic,
        rj_code = code\<rparr>) k"
      using r c by (auto simp: REJECTION_FIELDS_def rejection_row_def read_rejection_iff check_iffs)
  qed (use r c i in \<open>simp add: rejection_ok_def read_rejection_iff check_iffs\<close>)
qed

lemma check_rejection_row: "rejection_ok P p q \<Longrightarrow> check_rejection P p (JObj (rejection_row q)) = Inr (Rejected q)"
proof -
  assume q: "rejection_ok P p q"
  then have "rj_code q \<in> set REJECTION_CODES" "hex_text 32 (rj_boot_id q)" "hex_text 64 (rj_event_id q)" "hex_text 64 (rj_content_hash q)"
    unfolding rejection_ok_def by blast+
  then have "read_rejection (rejection_row q) = Some (rj_code q, rj_boot_id q, rj_event_id q, rj_content_hash q)"
    unfolding read_rejection_iff by (simp add: rejection_row_def)
  moreover have "check_cursor (JStr (rj_journal_cursor q)) = Inr (rj_journal_cursor q)"
    "check_number MAX_REALTIME_US (JInt (rj_journal_realtime_us q)) = Inr (rj_journal_realtime_us q)"
    "check_number MAX_MONOTONIC_US (JInt (rj_journal_monotonic_us q)) = Inr (rj_journal_monotonic_us q)"
    using q by (simp_all add: check_iffs rejection_ok_def)
  moreover have "keys_are (rejection_row q) REJECTION_FIELDS" by (simp only: keys_are_def rejection_row_keys)
  ultimately show ?thesis using q by (simp add: check_rejection_def) (simp add: rejection_row_def rejection_ok_def)
qed

lemma wire_event_id: "wire_sets e \<Longrightarrow> wire_event e = e"
  by (cases "ne_tcp_flags e") (simp_all add: wire_sets_def wire_event_def)

lemma check_event_iff:
  "check_event P ip p profile_revision v = Inr x \<longleftrightarrow>
     (\<exists>e. x = Event e \<and> event_from_dict P ip v = Inr e \<and> event_ok P ip p profile_revision e)"
proof
  assume "check_event P ip p profile_revision v = Inr x"
  then obtain e version where e: "event_from_dict P ip v = Inr e" "profile_parser_version p = Inr version"
    "first_failure (event_profile_conditions p profile_revision version e) = Inr ()" "x = Event e"
    by (auto simp: check_event_def elim!: and_then_InrE)
  from e(1) have "validate_event P ip e = Inr ()" "wire_sets e" by (auto elim: event_from_dict_ok)
  with e show "\<exists>e. x = Event e \<and> event_from_dict P ip v = Inr e \<and> event_ok P ip p profile_revision e" by (auto simp: event_ok_def)
qed (auto simp: check_event_def event_ok_def)

lemma entry_json_same:
  assumes "check_entry P ip p profile_revision j = Inr x" "wf_json j"
  shows "same_json j (entry_json x)" and "entry_ok P ip p profile_revision x"
proof -
  have "\<exists>k v. j = JObj [(k, v)]"
    using assms(1) unfolding check_entry_def invalid_payload_def failure_def by (simp split: json.splits list.splits prod.splits)
  then obtain k v where "j = JObj [(k, v)]" by blast
  with assms have j: "j = JObj [(k, v)]" "wf_json v"
    and x: "k = ''event'' \<and> check_event P ip p profile_revision v = Inr x \<or> k = ''rejection'' \<and> check_rejection P p v = Inr x"
    by (simp_all add: check_entry_def invalid_payload_def failure_def split: if_splits)
  from x have "same_json v (JObj (entry_row x)) \<and> k = entry_kind x \<and> entry_ok P ip p profile_revision x"
  proof (elim disjE conjE)
    assume k: "k = ''event''" and "check_event P ip p profile_revision v = Inr x"
    then obtain e where "x = Event e" "event_from_dict P ip v = Inr e" "event_ok P ip p profile_revision e"
      unfolding check_event_iff by blast
    then show ?thesis using event_from_dict_same [of P ip v e] j(2) k by simp
  next
    assume k: "k = ''rejection''" and "check_rejection P p v = Inr x"
    from this(2) obtain q r where "x = Rejected q" "v = JObj r" "keys_are r REJECTION_FIELDS"
      "\<forall>k \<in> set REJECTION_FIELDS. get_field r k = get_field (rejection_row q) k" "rejection_ok P p q"
      by (rule check_rejection_ok)
    then show ?thesis
      using same_json_row [of r REJECTION_FIELDS "rejection_row q"] j(2) k rejection_row_keys fields_distinct(2) by simp
  qed
  then show "same_json j (entry_json x)" "entry_ok P ip p profile_revision x"
    using j by (simp_all add: entry_json_def same_json_def)
qed

lemma check_entry_json: "entry_ok P ip p profile_revision x \<Longrightarrow> check_entry P ip p profile_revision (entry_json x) = Inr x"
proof (cases x)
  case (Event e)
  assume "entry_ok P ip p profile_revision x"
  then have e: "event_ok P ip p profile_revision e" using Event by simp
  then have "validate_event P ip e = Inr ()" "wire_sets e" unfolding event_ok_def by blast+
  then have "event_from_dict P ip (JObj (event_row e)) = Inr e"
    by (simp only: event_roundtrip wire_event_id)
  with e have "check_event P ip p profile_revision (JObj (event_row e)) = Inr (Event e)" unfolding check_event_iff by blast
  then show ?thesis by (simp add: Event check_entry_def entry_json_def)
next
  case (Rejected q)
  assume "entry_ok P ip p profile_revision x"
  then have "check_rejection P p (JObj (rejection_row q)) = Inr (Rejected q)" using Rejected by (intro check_rejection_row) simp
  then show ?thesis by (simp add: Rejected check_entry_def entry_json_def)
qed

section \<open>Accepted batches\<close>

lemma map_result_iff: "map_result f xs = Inr ys \<longleftrightarrow> list_all2 (\<lambda>x y. f x = Inr y) xs ys"
proof (induction xs arbitrary: ys)
  case (Cons x xs)
  show ?case by (auto simp: Cons.IH list_all2_Cons1 elim!: and_then_InrE) (metis Cons.IH and_then_simps(2))
qed auto

definition batch_ok :: "py \<Rightarrow> ip_reader \<Rightarrow> profile \<Rightarrow> batch \<Rightarrow> bool" where
  "batch_ok P ip p b =
     (validate_profile p = Inr () \<and> bt_source_id b = sp_source_id p \<and> bt_profile_revision b = digest_of P (JObj (profile_payload p)) \<and>
      is_id (bt_batch_id b) \<and> in_bounds MAX_REALTIME_US (bt_collected_at_us b) \<and>
      \<not> (strong_guard p \<and> before_profile p (bt_collected_at_us b)) \<and>
      (case bt_cursor_before b of None \<Rightarrow> True | Some s \<Rightarrow> ascii_text 2048 s) \<and>
      (case bt_cursor_after b of None \<Rightarrow> True | Some s \<Rightarrow> ascii_text 2048 s) \<and>
      length (bt_reports b) \<le> length REPORT_CODES \<and> set (bt_reports b) \<subseteq> set REPORT_CODES \<and> distinct (bt_reports b) \<and>
      \<not> (bt_caught_up b \<and> incomplete_coverage (bt_reports b)) \<and>
      length (bt_entries b) \<le> MAX_ENTRIES \<and>
      \<not> (''profile_drift'' \<in> set (bt_reports b) \<and> (bt_entries b \<noteq> [] \<or> bt_cursor_after b \<noteq> bt_cursor_before b)) \<and>
      list_all (entry_ok P ip p (bt_profile_revision b)) (bt_entries b) \<and>
      bt_cursor_after b = last_cursor (bt_cursor_before b) (bt_entries b) \<and>
      byte_count (encode (batch_json b)) \<le> MAX_BATCH_BYTES)"

lemma revision_iff: "revision P p = Inr v \<longleftrightarrow> validate_profile p = Inr () \<and> v = digest_of P (JObj (profile_payload p))"
  by (auto simp: revision_def elim!: and_then_InrE)

lemma batch_row_keys: "map fst (batch_row b) = BATCH_FIELDS"
  by (simp add: batch_row_def BATCH_FIELDS_def)

lemma check_entries_iff:
  "check_entries P ip p profile_revision drift moved v = Inr entries \<longleftrightarrow>
     (\<exists>js. v = JList js \<and> length js \<le> MAX_ENTRIES \<and> \<not> (drift \<and> (js \<noteq> [] \<or> moved)) \<and>
       list_all2 (\<lambda>j x. check_entry P ip p profile_revision j = Inr x) js entries)"
  by (auto simp: check_entries_def failure_def map_result_iff split: json.splits if_splits)

lemma validate_batchE:
  assumes "validate_batch P ip p j = Inr b"
  obtains r js where "j = JObj r" and "keys_are r BATCH_FIELDS" and "get_field r ''entries'' = JList js"
    and "\<forall>k \<in> set BATCH_FIELDS. k \<noteq> ''entries'' \<longrightarrow> get_field r k = get_field (batch_row b) k"
    and "list_all2 (\<lambda>j x. check_entry P ip p (bt_profile_revision b) j = Inr x) js (bt_entries b)"
    and "list_all (entry_ok P ip p (bt_profile_revision b)) (bt_entries b) \<and> encode j = encode (batch_json b) \<longrightarrow> batch_ok P ip p b"
proof -
  obtain r profile_revision batch_id collected_at cursor_before cursor_after reports caught_up js entries where
    j: "j = JObj r" "keys_are r BATCH_FIELDS" "get_field r ''version'' = JInt 1"
    and rev: "revision P p = Inr profile_revision" "get_field r ''source_id'' = JStr (sp_source_id p)"
      "get_field r ''profile_revision'' = JStr profile_revision"
    and i: "check_batch_id (get_field r ''batch_id'') = Inr batch_id"
    and t: "check_number MAX_REALTIME_US (get_field r ''collected_at_us'') = Inr collected_at" "\<not> (strong_guard p \<and> before_profile p collected_at)"
    and c: "check_cursor_or_none (get_field r ''cursor_before'') = Inr cursor_before"
      "check_cursor_or_none (get_field r ''cursor_after'') = Inr cursor_after"
    and q: "check_reports (get_field r ''reports'') (get_field r ''caught_up'') = Inr (reports, caught_up)"
      "\<not> (caught_up \<and> incomplete_coverage reports)"
    and e: "check_entries P ip p profile_revision (''profile_drift'' \<in> set reports) (cursor_after \<noteq> cursor_before) (get_field r ''entries'')
        = Inr entries" "cursor_after = last_cursor cursor_before entries" "\<not> byte_count (encode j) > MAX_BATCH_BYTES"
    and b: "b = \<lparr>bt_source_id = sp_source_id p, bt_profile_revision = profile_revision, bt_batch_id = batch_id,
        bt_collected_at_us = collected_at, bt_cursor_before = cursor_before, bt_cursor_after = cursor_after,
        bt_entries = entries, bt_reports = reports, bt_caught_up = caught_up\<rparr>"
    using assms unfolding validate_batch_def invalid_payload_def failure_def
    by (cases j) (auto split: if_splits elim!: and_then_InrE)
  from e(1) obtain js where js: "get_field r ''entries'' = JList js" "length js \<le> MAX_ENTRIES"
    "\<not> (''profile_drift'' \<in> set reports \<and> (js \<noteq> [] \<or> cursor_after \<noteq> cursor_before))"
    "list_all2 (\<lambda>j x. check_entry P ip p profile_revision j = Inr x) js entries"
    unfolding check_entries_iff by blast
  show thesis
  proof (rule that [OF j(1,2) js(1)])
    show "\<forall>k \<in> set BATCH_FIELDS. k \<noteq> ''entries'' \<longrightarrow> get_field r k = get_field (batch_row b) k"
      using j rev i t c q by (auto simp: b batch_row_def BATCH_FIELDS_def check_iffs)
    show "list_all2 (\<lambda>j x. check_entry P ip p (bt_profile_revision b) j = Inr x) js (bt_entries b)" using js by (simp add: b)
    have "length js = length entries" using js(4) by (rule list_all2_lengthD)
    then have "js \<noteq> [] \<longleftrightarrow> entries \<noteq> []" "length entries \<le> MAX_ENTRIES" using js(2) by auto
    then show "list_all (entry_ok P ip p (bt_profile_revision b)) (bt_entries b) \<and> encode j = encode (batch_json b) \<longrightarrow> batch_ok P ip p b"
      using rev i t c q e(2,3) js(3) unfolding batch_ok_def check_iffs revision_iff by (clarsimp simp: b not_less)
  qed
qed

lemma validate_batch_same:
  assumes "validate_batch P ip p j = Inr b" "wf_json j"
  shows "same_json j (batch_json b)" and "batch_ok P ip p b"
proof -
  from assms(1) obtain r js where j: "j = JObj r" "keys_are r BATCH_FIELDS" "get_field r ''entries'' = JList js"
    and fields: "\<forall>k \<in> set BATCH_FIELDS. k \<noteq> ''entries'' \<longrightarrow> get_field r k = get_field (batch_row b) k"
    and js: "list_all2 (\<lambda>j x. check_entry P ip p (bt_profile_revision b) j = Inr x) js (bt_entries b)"
    and ok: "list_all (entry_ok P ip p (bt_profile_revision b)) (bt_entries b) \<and> encode j = encode (batch_json b) \<longrightarrow> batch_ok P ip p b"
    by (rule validate_batchE)
  have "''entries'' \<in> fst ` set r" using j(2) by (simp add: keys_are_def BATCH_FIELDS_def)
  then have "(''entries'', JList js) \<in> set r" using j assms(2) field_mem_iff [of r "''entries''" "JList js"] by simp
  then have wf: "\<forall>v \<in> set js. wf_json v" using assms(2) j by (force simp: list_all_iff)
  have "list_all2 (\<lambda>j x. same_json j (entry_json x) \<and> entry_ok P ip p (bt_profile_revision b) x) js (bt_entries b)"
  proof (rule list_all2_all_nthI)
    show "length js = length (bt_entries b)" using js by (rule list_all2_lengthD)
    show "same_json (js ! i) (entry_json (bt_entries b ! i)) \<and> entry_ok P ip p (bt_profile_revision b) (bt_entries b ! i)"
      if "i < length js" for i
      using entry_json_same [OF list_all2_nthD [OF js that]] wf that by simp
  qed
  then have "list_all2 same_json js (map entry_json (bt_entries b))" and entries: "list_all (entry_ok P ip p (bt_profile_revision b)) (bt_entries b)"
    by (auto simp: list_all2_conv_all_nth list_all_length)
  then have "same_json (get_field r k) (get_field (batch_row b) k)" if "k \<in> set BATCH_FIELDS" for k
    using that fields j(3) by (cases "k = ''entries''") (auto simp: batch_row_def intro: same_json_list)
  then show same: "same_json j (batch_json b)"
    using same_json_row [of r BATCH_FIELDS "batch_row b"] assms(2) j batch_row_keys fields_distinct(3) by (simp add: batch_json_def)
  show "batch_ok P ip p b" using ok entries encode_same [OF same] by blast
qed

lemma validate_batch_json: "batch_ok P ip p b \<Longrightarrow> validate_batch P ip p (batch_json b) = Inr b"
proof -
  assume b: "batch_ok P ip p b"
  have keys: "keys_are (batch_row b) BATCH_FIELDS" by (simp only: keys_are_def batch_row_keys)
  have "list_all2 (\<lambda>j x. check_entry P ip p (bt_profile_revision b) j = Inr x) (map entry_json (bt_entries b)) (bt_entries b)"
  proof -
    have "list_all (entry_ok P ip p (bt_profile_revision b)) (bt_entries b)" using b unfolding batch_ok_def by blast
    then show ?thesis by (simp add: list_all_length list_all2_conv_all_nth check_entry_json)
  qed
  then have "check_entries P ip p (bt_profile_revision b) (''profile_drift'' \<in> set (bt_reports b)) (bt_cursor_after b \<noteq> bt_cursor_before b)
      (JList (map entry_json (bt_entries b))) = Inr (bt_entries b)"
    using b unfolding check_entries_iff batch_ok_def by auto
  moreover have "last_cursor (bt_cursor_before b) (bt_entries b) = bt_cursor_after b"
    using b unfolding batch_ok_def by metis
  moreover have "bt_source_id b = sp_source_id p"
    "\<not> (strong_guard p \<and> before_profile p (bt_collected_at_us b))" "\<not> (bt_caught_up b \<and> incomplete_coverage (bt_reports b))"
    "\<not> byte_count (encode (JObj (batch_row b))) > MAX_BATCH_BYTES"
    using b unfolding batch_ok_def batch_json_def not_less by metis+
  moreover have "revision P p = Inr (bt_profile_revision b)" "check_batch_id (JStr (bt_batch_id b)) = Inr (bt_batch_id b)"
    "check_number MAX_REALTIME_US (JInt (bt_collected_at_us b)) = Inr (bt_collected_at_us b)"
    "check_cursor_or_none (opt_json JStr (bt_cursor_before b)) = Inr (bt_cursor_before b)"
    "check_cursor_or_none (opt_json JStr (bt_cursor_after b)) = Inr (bt_cursor_after b)"
    "check_reports (jstrs (bt_reports b)) (JBool (bt_caught_up b)) = Inr (bt_reports b, bt_caught_up b)"
    using b unfolding batch_ok_def check_iffs revision_iff by blast+
  moreover have "get_field (batch_row b) ''version'' = JInt 1" "get_field (batch_row b) ''source_id'' = JStr (bt_source_id b)"
    "get_field (batch_row b) ''profile_revision'' = JStr (bt_profile_revision b)" "get_field (batch_row b) ''batch_id'' = JStr (bt_batch_id b)"
    "get_field (batch_row b) ''collected_at_us'' = JInt (bt_collected_at_us b)"
    "get_field (batch_row b) ''cursor_before'' = opt_json JStr (bt_cursor_before b)"
    "get_field (batch_row b) ''cursor_after'' = opt_json JStr (bt_cursor_after b)"
    "get_field (batch_row b) ''entries'' = JList (map entry_json (bt_entries b))"
    "get_field (batch_row b) ''reports'' = jstrs (bt_reports b)" "get_field (batch_row b) ''caught_up'' = JBool (bt_caught_up b)"
    by (simp_all add: batch_row_def)
  ultimately show ?thesis
    using keys unfolding validate_batch_def batch_json_def by simp blast
qed

text \<open>
  An accepted payload and the batch that is kept of it have the same bytes, whatever the order of its keys, so nothing of it is
  dropped and both have one fingerprint; and the kept batch is accepted again, as the same batch, when it is read back.
\<close>

theorem accepted_batch_roundtrip:
  assumes "wf_json payload" and "validate_batch P ip p payload = Inr b"
  shows "encode (batch_json b) = encode payload \<and> validate_batch P ip p (batch_json b) = Inr b"
  using validate_batch_same [OF assms(2,1)] encode_same validate_batch_json by metis

definition sample_entry :: transport_entry where
  "sample_entry = (case journal_entry_of hex_py two_hosts sample_profile (Some ''invalid_record'') sample_journal of Inr x \<Rightarrow> x
     | Inl e \<Rightarrow> Rejected \<lparr>rj_event_id = [], rj_content_hash = [], rj_boot_id = [], rj_journal_cursor = [], rj_journal_realtime_us = 0,
         rj_journal_monotonic_us = 0, rj_code = []\<rparr>)"

definition sample_batch :: batch where
  "sample_batch = \<lparr>bt_source_id = ''s1'', bt_profile_revision = replicate 64 (CHR ''a''), bt_batch_id = ''b1'', bt_collected_at_us = 20,
     bt_cursor_before = None, bt_cursor_after = Some ''c'', bt_entries = [sample_entry], bt_reports = [''coverage_start''],
     bt_caught_up = True\<rparr>"

lemma sample_accepted:
  "is_ok (validate_batch hex_py two_hosts sample_profile (JObj (rev (batch_row sample_batch))))"
  "wf_json (JObj (rev (batch_row sample_batch)))"
  by code_simp+

theorem accepted_batch_roundtrip_witness:
  "\<exists>b. validate_batch hex_py two_hosts sample_profile (JObj (rev (batch_row sample_batch))) = Inr b \<and>
     validate_batch hex_py two_hosts sample_profile (batch_json b) = Inr b"
proof -
  obtain b where b: "validate_batch hex_py two_hosts sample_profile (JObj (rev (batch_row sample_batch))) = Inr b"
    using sample_accepted(1) by (auto simp: is_ok_def split: sum.splits)
  with accepted_batch_roundtrip [OF sample_accepted(2) b] show ?thesis by blast
qed

section \<open>The walk over decoded values\<close>

fun json_depth :: "json \<Rightarrow> nat" where
  "json_depth (JList xs) = fold max (map (\<lambda>v. Suc (json_depth v)) xs) 0"
| "json_depth (JObj kvs) = fold max (map (\<lambda>(k, v). Suc (json_depth v)) kvs) 0"
| "json_depth j = 0"

lemma fold_max_le: "fold max xs n \<le> m \<longleftrightarrow> n \<le> m \<and> (\<forall>x \<in> set xs. x \<le> (m :: nat))"
  by (induction xs arbitrary: n) auto

lemma json_depth_le: "json_depth v \<le> m \<longleftrightarrow> (\<forall>x \<in> set (children v). Suc (json_depth x) \<le> m)"
  by (cases v) (auto simp: fold_max_le children_def)

lemma json_nodes_pos: "1 \<le> json_nodes v"
  by (cases v) auto

lemma scan_structure_iff:
  "nodes \<le> 20000 \<Longrightarrow> scan_structure pending nodes = Inr () \<longleftrightarrow>
     (\<forall>(v, d) \<in> set pending. d + json_depth v \<le> 16) \<and> nodes + int (sum_list (map (\<lambda>(v, d). json_nodes v) pending)) \<le> 20000"
proof (induction pending nodes rule: scan_structure.induct)
  case (2 val depth pending nodes)
  let ?next = "rev (map (\<lambda>item. (item, depth + 1)) (children val)) @ pending"
  have sum: "sum_list (map (\<lambda>(v, d). json_nodes v) ?next) + 1 = sum_list (map (\<lambda>(v, d). json_nodes v) ((val, depth) # pending))"
    using json_nodes_children [of val] by (simp add: rev_map [symmetric] sum_list_rev comp_def)
  show ?case
  proof (cases "depth > 16 \<or> nodes + 1 > 20000")
    case True
    then show ?thesis using json_nodes_pos [of val] by (auto simp: failure_def)
  next
    case False
    have "depth + json_depth val \<le> 16 \<longleftrightarrow> json_depth val \<le> 16 - depth" using False by linarith
    also have "\<dots> \<longleftrightarrow> (\<forall>x \<in> set (children val). Suc (json_depth x) \<le> 16 - depth)" by (rule json_depth_le)
    also have "\<dots> \<longleftrightarrow> (\<forall>x \<in> set (children val). depth + 1 + json_depth x \<le> 16)" using False by (intro ball_cong) auto
    finally have depth: "(\<forall>(v, d) \<in> set ?next. d + json_depth v \<le> 16) \<longleftrightarrow>
        (\<forall>(v, d) \<in> set ((val, depth) # pending). d + json_depth v \<le> 16)" by (simp add: ball_Un)
    from False have "scan_structure ((val, depth) # pending) nodes = scan_structure ?next (nodes + 1)" by simp
    also have "\<dots> = Inr () \<longleftrightarrow> (\<forall>(v, d) \<in> set ?next. d + json_depth v \<le> 16) \<and>
        nodes + 1 + int (sum_list (map (\<lambda>(v, d). json_nodes v) ?next)) \<le> 20000"
      using False by (intro "2.IH") auto
    finally show ?thesis unfolding depth sum [symmetric] by simp
  qed
qed simp

lemma check_structure_iff: "check_structure v = Inr w \<longleftrightarrow> w = v \<and> json_depth v \<le> 16 \<and> json_nodes v \<le> 20000"
proof -
  have "scan_structure [(v, 0)] 0 = Inr () \<longleftrightarrow> json_depth v \<le> 16 \<and> json_nodes v \<le> 20000"
    using scan_structure_iff [of 0 "[(v, 0)]"] by (simp del: scan_structure.simps)
  then show ?thesis by (cases "scan_structure [(v, 0)] 0") (auto simp: check_structure_def)
qed

end
