(* ===== verification/Network_Export.thy ===== *)
theory Network_Export
  imports Network_Protocol
begin

text \<open>
  \<open>scripts/network_export.py\<close>: the page a firewall host hands out for one request, and the normal form of its nftables rules. What
  the page depends on outside the program (the rules read before and after, whether the journal still has the cursor, the journal
  records, the clock, the new batch id) is the record \<open>export_env\<close>. The result is that a page the exporter has put together is
  never refused by its own final check, and so neither by the collector nor by the platform, which repeat that check.
\<close>

section \<open>Requests and records\<close>

definition validate_request :: "profile \<Rightarrow> json \<Rightarrow> string option result" where
  "validate_request p v = (case v of
     JObj r \<Rightarrow>
       if \<not> keys_are r [''source_id'', ''cursor''] \<or> get_field r ''source_id'' \<noteq> JStr (sp_source_id p) then failure ''invalid_export_request''
       else (case get_field r ''cursor'' of
         JNull \<Rightarrow> Inr None
       | JStr cursor \<Rightarrow> if ascii_text 2048 cursor then Inr (Some cursor) else failure ''invalid_export_request''
       | _ \<Rightarrow> failure ''invalid_export_request'')
   | _ \<Rightarrow> failure ''invalid_export_request'')"

definition as_byte :: "json \<Rightarrow> char option" where
  "as_byte v = (case v of JInt i \<Rightarrow> if 0 \<le> i \<and> i \<le> 255 then Some (char_of (nat i)) else None | _ \<Rightarrow> None)"

definition enrolled_message :: "json \<Rightarrow> string list \<Rightarrow> bool" where
  "enrolled_message message labels = (case message of
     JStr s \<Rightarrow> list_ex (\<lambda>label. startswith s (label @ '' '')) labels
   | JList xs \<Rightarrow> (case all_some (map as_byte xs) of
       Some bytes \<Rightarrow> int (length xs) \<le> 65536 \<and> list_ex (\<lambda>label. take (length label + 1) bytes = label @ '' '') labels
     | None \<Rightarrow> False)
   | _ \<Rightarrow> False)"

section \<open>A page\<close>

record export_config =
  ec_profile :: json
  ec_valid_from_us :: int

record export_env =
  ev_now_us :: int
  ev_batch_id :: string
  ev_rules_before :: "string result"
  ev_rules_after :: "string result"
  ev_exists_before :: bool
  ev_exists_after :: bool
  ev_late :: "nat \<Rightarrow> bool"
  ev_records :: "json list"
  ev_read_error :: "err option"

definition add_report :: "string \<Rightarrow> string list \<Rightarrow> string list" where
  "add_report code reports = (if code \<in> set reports then reports else reports @ [code])"

text \<open>One record added to the page; \<open>True\<close> when the page is full.\<close>

definition export_record :: "py \<Rightarrow> ip_reader \<Rightarrow> profile \<Rightarrow> int \<Rightarrow> json \<Rightarrow> batch \<Rightarrow> (batch \<times> bool) result" where
  "export_record P ip p valid_from record b = (case record of
     JObj r \<Rightarrow>
       if get_field r ''_TRANSPORT'' \<noteq> JStr ''kernel'' \<or> \<not> enrolled_message (get_field r ''MESSAGE'') (sp_log_labels p)
       then failure ''unexpected_journal_record''
       else (case py_int P (get_field r ''__REALTIME_TIMESTAMP'') of
         Inl _ \<Rightarrow> failure ''invalid_journal_identity''
       | Inr timestamp \<Rightarrow>
           let too_old = timestamp < valid_from in
           and_then (journal_entry_of P ip p (if too_old then Some ''profile_context_unavailable'' else None) r) (\<lambda>entry.
             let b1 = (if too_old then b\<lparr>bt_reports := add_report ''profile_boundary'' (bt_reports b)\<rparr> else b);
                 b2 = b1\<lparr>bt_entries := bt_entries b @ [entry], bt_cursor_after := Some (entry_cursor entry)\<rparr>
             in if byte_count (encode (batch_json b2)) > MAX_BATCH_BYTES - 1024
                then if bt_entries b = [] then failure ''record_exceeds_batch_limit'' else Inr (b1, True)
                else Inr (b2, length (bt_entries b2) = MAX_ENTRIES)))
   | _ \<Rightarrow> failure ''unexpected_journal_record'')"

fun export_records :: "py \<Rightarrow> ip_reader \<Rightarrow> profile \<Rightarrow> int \<Rightarrow> (nat \<Rightarrow> bool) \<Rightarrow> err option \<Rightarrow> nat \<Rightarrow> json list \<Rightarrow> batch
    \<Rightarrow> (batch \<times> bool) result" where
  "export_records P ip p valid_from late read_error i [] b = (case read_error of Some e \<Rightarrow> Inl e | None \<Rightarrow> Inr (b, False))"
| "export_records P ip p valid_from late read_error i (record # records) b =
     (if late i then failure ''run_deadline''
      else and_then (export_record P ip p valid_from record b) (\<lambda>(b', full).
        if full then Inr (b', True) else export_records P ip p valid_from late read_error (Suc i) records b'))"

definition empty_page :: "py \<Rightarrow> profile \<Rightarrow> export_env \<Rightarrow> string option \<Rightarrow> batch result" where
  "empty_page P p env cursor = and_then (revision P p) (\<lambda>profile_revision.
     Inr \<lparr>bt_source_id = sp_source_id p, bt_profile_revision = profile_revision, bt_batch_id = ev_batch_id env,
       bt_collected_at_us = ev_now_us env, bt_cursor_before = cursor, bt_cursor_after = cursor, bt_entries = [], bt_reports = [],
       bt_caught_up = False\<rparr>)"

definition start_reports :: "export_config \<Rightarrow> export_env \<Rightarrow> string option \<Rightarrow> bool \<Rightarrow> string list" where
  "start_reports c env cursor valid =
     (if cursor = None then [''coverage_start''] else if \<not> valid then [''journal_cursor_unavailable''] else []) @
     (let since = max (max (ev_now_us env - 600000000) (ec_valid_from_us c)) 0 in
      if \<not> valid \<and> since = ec_valid_from_us c then [''profile_boundary''] else [])"

definition finish_page :: "export_env \<Rightarrow> profile \<Rightarrow> string option \<Rightarrow> bool \<Rightarrow> batch \<times> bool \<Rightarrow> batch result" where
  "finish_page env p cursor valid page = (case page of (b, limited) \<Rightarrow>
     and_then (ev_rules_after env) (\<lambda>rules.
       Inr (if rules \<noteq> sp_ruleset_sha256 p
         then b\<lparr>bt_entries := [], bt_cursor_after := cursor, bt_reports := [''profile_drift''], bt_caught_up := False\<rparr>
         else if valid \<and> \<not> ev_exists_after env
         then b\<lparr>bt_entries := [], bt_cursor_after := cursor, bt_reports := [''journal_cursor_unavailable''], bt_caught_up := False\<rparr>
         else let reports = (if limited then bt_reports b @ [''catching_up''] else bt_reports b)
           in b\<lparr>bt_reports := reports, bt_caught_up := (\<not> limited \<and> ''journal_cursor_unavailable'' \<notin> set reports)\<rparr>)))"

text \<open>Everything up to the final check.\<close>

definition assemble_page :: "py \<Rightarrow> ip_reader \<Rightarrow> export_config \<Rightarrow> export_env \<Rightarrow> profile \<Rightarrow> json \<Rightarrow> batch result" where
  "assemble_page P ip c env p request =
     and_then (validate_request p request) (\<lambda>cursor.
       if strong_guard p \<and> Some (ec_valid_from_us c) \<noteq> sp_profile_valid_from_us p then failure ''profile_validity_mismatch''
       else and_then (empty_page P p env cursor) (\<lambda>b.
         if ec_valid_from_us c > ev_now_us env then failure ''profile_not_yet_valid''
         else and_then (ev_rules_before env) (\<lambda>rules.
           if rules \<noteq> sp_ruleset_sha256 p then Inr (b\<lparr>bt_reports := [''profile_drift'']\<rparr>)
           else let valid = (cursor \<noteq> None \<and> ev_exists_before env) in
             and_then (export_records P ip p (ec_valid_from_us c) (ev_late env) (ev_read_error env) 0 (ev_records env)
                 (b\<lparr>bt_reports := start_reports c env cursor valid\<rparr>))
               (finish_page env p cursor valid))))"

definition export_page :: "py \<Rightarrow> ip_reader \<Rightarrow> export_config \<Rightarrow> export_env \<Rightarrow> json \<Rightarrow> batch result" where
  "export_page P ip c env request =
     and_then (profile_from_dict (ec_profile c)) (\<lambda>p.
     and_then (assemble_page P ip c env p request) (\<lambda>b. validate_batch P ip p (batch_json b)))"

section \<open>What a journal record becomes is accepted\<close>

lemma digit_class: "is_digit c \<Longrightarrow> \<not> is_space c \<and> c \<noteq> CHR ''-'' \<and> c \<noteq> CHR ''+'' \<and> c \<noteq> CHR ''_''"
  by (auto simp: is_digit_def is_space_def Let_def)

lemma strip_digits: "list_all is_digit s \<Longrightarrow> strip s = s"
proof -
  assume s: "list_all is_digit s"
  have drop: "dropWhile is_space t = t" if "set t = set s" for t
  proof (cases t)
    case (Cons c r)
    with that s have "is_digit c" by (auto simp: list_all_iff)
    with digit_class Cons show ?thesis by simp
  qed simp
  have "dropWhile is_space s = s" "dropWhile is_space (rev s) = rev s" by (rule drop; simp)+
  then show ?thesis by (simp add: strip_def lstrip_def rstrip_def)
qed

lemma int_of_digits: "s \<noteq> [] \<Longrightarrow> list_all is_digit s \<Longrightarrow> int_of_text s = Inr (int (digits_val s))"
proof -
  assume s: "s \<noteq> []" "list_all is_digit s"
  then have "CHR ''_'' \<notin> set s" using digit_class by (auto simp: list_all_iff)
  then have "split_on (CHR ''_'') s = [s]" by (rule split_on_single)
  then show ?thesis
    using s digit_class by (cases s) (auto simp: int_of_text_def strip_digits Let_def)
qed

lemma timestamp_of_int: "timestamp_of m v = Inr t \<Longrightarrow> py_int P v = Inr t"
  by (cases v) (auto simp: timestamp_of_def failure_def Let_def int_of_digits split: if_splits)

lemma journal_fields_realtime: "journal_fields r = Inr je \<Longrightarrow> py_int P (get_field r ''__REALTIME_TIMESTAMP'') = Inr (je_realtime je)"
  by (auto simp: journal_fields_def failure_def required_fields_def has_key_def get_field_def split: if_splits option.splits json.splits
      elim!: and_then_InrE dest!: timestamp_of_int [where P = P])

lemma packet_family: "packet_of ip p vs = Inr pk \<Longrightarrow> ip_version (pk_src pk) \<in> set (sp_ip_families p)"
  by (auto simp: packet_of_def failure_def split: option.splits if_splits elim!: and_then_InrE)

lemma packet_ingress: "packet_of ip p vs = Inr pk \<Longrightarrow> pk_ingress pk \<noteq> None \<Longrightarrow> map_of vs ''IN'' \<noteq> None"
  by (auto simp: packet_of_def failure_def interface_of_def split: option.splits if_splits elim!: and_then_InrE)

lemma tcp_view_complete: "tcp_view protocol st = Inr (Some fs, u) \<Longrightarrow> \<not> ts_truncated st \<and> \<not> ts_fragmented st"
  by (auto simp: tcp_view_def failure_def Let_def split: if_splits option.splits elim!: and_then_InrE)

lemma mem_only: "x \<in> set (if b then [y] else []) \<longleftrightarrow> b \<and> x = y"
  by auto

lemma coverage_profile_flags:
  "''logging_rate_limited'' \<in> set (coverage_of p d st pk) \<longleftrightarrow> sp_logging_limit p = ''rate_limited''"
  "''logging_limits_unknown'' \<in> set (coverage_of p d st pk) \<longleftrightarrow> sp_logging_limit p = ''unknown''"
  "''journal_retention_unknown'' \<in> set (coverage_of p d st pk) \<longleftrightarrow> sp_retention p = ''unknown''"
  "''unsupported_protocol'' \<in> set (coverage_of p d st pk) \<longleftrightarrow> protocol_class (pk_observed pk) = ''OTHER''"
  "''missing_transport_ports'' \<in> set (coverage_of p d st pk) \<longleftrightarrow>
     protocol_class (pk_observed pk) \<in> set [''TCP'', ''UDP''] \<and> (pk_src_port pk = None \<or> pk_dst_port pk = None)"
  "''truncated_transport_header'' \<in> set (coverage_of p d st pk) \<longleftrightarrow> ts_truncated st"
  "''fragmented_packet'' \<in> set (coverage_of p d st pk) \<longleftrightarrow> ts_fragmented st"
  "''incomplete_interfaces'' \<in> set (coverage_of p d st pk) \<longleftrightarrow> map_of (ts_values st) ''IN'' = None \<or> map_of (ts_values st) ''OUT'' = None"
  unfolding coverage_of_def Let_def by (simp_all only: set_append Un_iff mem_only) simp_all

lemma built_event_profile:
  assumes built: "build_event P ip p r = Inr e" and version: "profile_parser_version p = Inr version"
    and time: "\<not> (strong_guard p \<and> before_profile p (ne_journal_realtime_us e))"
  shows "first_failure (event_profile_conditions p (digest_of P (JObj (profile_payload p))) version e) = Inr ()"
proof -
  from built obtain je label tokens st pk flags unavailable version' where
    p: "validate_profile p = Inr ()" and je: "journal_fields r = Inr je"
    and label: "message_tokens p (je_message je) = Inr (label, tokens)" and st: "read_tokens 0 tokens no_tokens = Inr st"
    and pk: "packet_of ip p (ts_values st) = Inr pk"
    and tcp: "tcp_view (protocol_class (pk_observed pk)) st = Inr (flags, unavailable)"
    and v: "profile_parser_version p = Inr version'"
    and e: "e = seal P (event_of P p je label st pk (flags, unavailable) version' (digest_of P (JObj (profile_payload p))))"
    by (rule build_eventE)
  let ?d = "direction_of p label (ts_values st) pk"
  have sels: "ne_source_id e = sp_source_id p" "ne_source_profile_revision e = digest_of P (JObj (profile_payload p))"
    "ne_parser_version e = version" "ne_log_label e = label" "ne_ip_family e = ip_version (pk_src pk)"
    "ne_rejection_related e = (label \<in> set (sp_rejection_labels p))" "ne_protocol e = protocol_class (pk_observed pk)"
    "ne_src_port e = pk_src_port pk" "ne_dst_port e = pk_dst_port pk" "ne_tcp_flags e = flags" "ne_direction e = ?d"
    "ne_ingress_interface e = pk_ingress pk" "ne_egress_interface e = pk_egress pk"
    using v version by (simp_all add: e built_defs)
  have cov: "code \<in> set (ne_coverage e) \<longleftrightarrow> code \<in> set (coverage_of p ?d st pk)" if "code \<noteq> ''tcp_flags_unavailable''" for code
    using that by (auto simp: e built_defs)
  have codes: "list_all (\<lambda>(code, required). (code \<in> set (ne_coverage e)) = required) (expected_coverage p e)"
    unfolding expected_coverage_def by (simp add: cov coverage_profile_flags coverage_flags(1) sels)
  have complete: "\<not> (ne_protocol e = ''TCP'' \<and> ne_tcp_flags e \<noteq> None \<and>
      list_ex (\<lambda>code. code \<in> set (ne_coverage e)) [''truncated_transport_header'', ''fragmented_packet''])"
    using tcp_view_complete [of "protocol_class (pk_observed pk)" st] tcp by (auto simp: cov coverage_profile_flags sels)
  have shape: "(ne_direction e = ''local_input'') = local_input_shape p e"
    using packet_ingress [OF pk]
    by (auto simp: local_input_shape_def sels cov coverage_profile_flags direction_of_def split: option.splits)
  show ?thesis
    unfolding first_failure_ok event_profile_conditions_def
    using time codes complete shape message_tokens_label [OF label] packet_family [OF pk] by (simp add: sels)
qed

lemma wire_event_profile:
  "event_profile_conditions p profile_revision version (wire_event e) = event_profile_conditions p profile_revision version e"
  unfolding event_profile_conditions_def expected_coverage_def local_input_shape_def
  by (simp only: wire_event_sels option.map_disc_iff map_option_is_None)

lemma reject_entry_ok:
  assumes hex: "hex_digests P" and x: "reject_entry P p r boot cursor realtime monotonic code = Inr x"
    and "code \<in> set REJECTION_CODES" "hex_text 32 boot" "ascii_text 2048 cursor" "in_bounds MAX_REALTIME_US realtime"
    "in_bounds MAX_MONOTONIC_US monotonic"
  shows "entry_ok P ip p profile_revision x"
proof -
  have digests: "hex_text 64 (fingerprint P v)" for v using hex by (simp add: fingerprint_def hex_digests_def)
  then have "hex_text 64 (event_identity P (sp_source_id p) boot cursor)" by (simp add: event_identity_def)
  with x assms(3-) show ?thesis
    by (auto simp: reject_entry_def failure_def Let_def rejection_ok_def digests split: if_splits elim!: and_then_InrE)
qed

lemma journal_timestamp_bounds: "journal_timestamp m v = Inr t \<Longrightarrow> in_bounds m t"
  by (cases v) (auto simp: journal_timestamp_def check_number_iff split: if_splits)

lemma entry_or_rejectionE:
  assumes "entry_or_rejection P ip p rejection r boot cursor realtime monotonic = Inr x"
  shows "(\<exists>code. code \<in> set REJECTION_CODES \<and> reject_entry P p r boot cursor realtime monotonic code = Inr x) \<or>
    rejection = None \<and> (\<exists>e. parse_ufw P ip p r = Inr e \<and> validate_event P ip e = Inr () \<and> x = Event (wire_event e))"
proof (cases rejection)
  case (Some code)
  with assms show ?thesis by (auto simp: entry_or_rejection_def failure_def split: if_splits)
next
  case None
  let ?parsed = "and_then (parse_ufw P ip p r) (\<lambda>e. and_then (event_to_dict P ip e) (\<lambda>_. Inr e))"
  have "''invalid_record'' \<in> set REJECTION_CODES" by (simp add: REJECTION_CODES_def)
  moreover have "parse_ufw P ip p r = Inr e \<and> validate_event P ip e = Inr ()" if "?parsed = Inr e" for e
    using that by (auto simp: event_to_dict_def elim!: and_then_InrE)
  ultimately show ?thesis
    using assms None by (cases ?parsed) (auto simp: entry_or_rejection_def split: err.splits)
qed

lemma journal_entry_accepted:
  assumes hex: "hex_digests P" and p: "validate_profile p = Inr ()"
    and x: "journal_entry_of P ip p rejection r = Inr x"
    and time: "rejection = None \<Longrightarrow> strong_guard p \<Longrightarrow>
      (\<exists>t. py_int P (get_field r ''__REALTIME_TIMESTAMP'') = Inr t \<and> \<not> before_profile p t)"
  shows "entry_ok P ip p (digest_of P (JObj (profile_payload p))) x"
proof -
  obtain boot cursor realtime monotonic where ids: "hex_text 32 boot" "check_cursor (get_field r ''__CURSOR'') = Inr cursor"
      "journal_timestamp MAX_REALTIME_US (get_field r ''__REALTIME_TIMESTAMP'') = Inr realtime"
      "journal_timestamp MAX_MONOTONIC_US (get_field r ''__MONOTONIC_TIMESTAMP'') = Inr monotonic"
    and body: "entry_or_rejection P ip p rejection r boot cursor realtime monotonic = Inr x"
    using x unfolding journal_entry_of_def failure_def
    by (cases "get_field r ''_BOOT_ID''") (auto split: if_splits elim!: and_then_InrE)
  note bounds = journal_timestamp_bounds [OF ids(3)] journal_timestamp_bounds [OF ids(4)]
  from entry_or_rejectionE [OF body] show ?thesis
  proof (elim disjE exE conjE)
    fix code assume "code \<in> set REJECTION_CODES" "reject_entry P p r boot cursor realtime monotonic code = Inr x"
    then show ?thesis using reject_entry_ok [OF hex] ids bounds by (simp add: check_cursor_iff)
  next
    fix e assume e: "rejection = None" "parse_ufw P ip p r = Inr e" "validate_event P ip e = Inr ()" "x = Event (wire_event e)"
    then have built: "build_event P ip p r = Inr e" by (auto simp: parse_ufw_def elim!: and_then_InrE)
    then obtain version where version: "profile_parser_version p = Inr version" by (rule build_eventE)
    from built obtain je where je: "journal_fields r = Inr je" "ne_journal_realtime_us e = je_realtime je"
      by (rule build_eventE) (auto simp: built_defs)
    have "\<not> (strong_guard p \<and> before_profile p (ne_journal_realtime_us e))"
      using time [OF e(1)] journal_fields_realtime [OF je(1), of P] je(2) by auto
    then have "first_failure (event_profile_conditions p (digest_of P (JObj (profile_payload p))) version (wire_event e)) = Inr ()"
      unfolding wire_event_profile by (rule built_event_profile [OF built version])
    then show ?thesis
      using e version by (auto simp: event_ok_def validate_wire_event wire_sets_of_valid)
  qed
qed

section \<open>The size of a page\<close>

lemma to_ascii_append [simp]: "to_ascii (s @ t) = to_ascii s @ to_ascii t"
  by (simp add: to_ascii_def)

lemma to_ascii_plain: "(\<And>c. c \<in> set s \<Longrightarrow> (of_char c :: nat) \<le> 126) \<Longrightarrow> to_ascii s = s"
  by (induction s) (simp_all add: ascii_escape_plain)

lemma length_join: "xs \<noteq> [] \<Longrightarrow> length (to_ascii (join_with '','' xs)) + 1 = sum_list (map (\<lambda>x. length (to_ascii x) + 1) xs)"
  by (induction "'',''" xs rule: join_with.induct) (simp_all add: ascii_escape_plain)

lemma sum_list_sort_key: "sum_list (map f (sort_key g xs)) = sum_list (map f xs)" for f :: "'a \<Rightarrow> nat"
  by (metis mset_map mset_sort sum_mset_sum_list)

definition enc_size :: "json \<Rightarrow> nat" where
  "enc_size v = length (encode v)"

lemma enc_size_alt: "enc_size v = length (to_ascii (dumps (sort_keys v)))"
  by (simp add: enc_size_def encode_def to_ascii_def canonical_json_def)

lemma enc_size_list: "enc_size (JList xs) = (if xs = [] then 2 else 1 + sum_list (map (\<lambda>x. enc_size x + 1) xs))"
  using length_join [of "map (dumps \<circ> sort_keys) xs"]
  by (simp add: enc_size_alt ascii_escape_plain comp_def)

lemma enc_size_obj:
  assumes "r \<noteq> []"
  shows "enc_size (JObj r) = 1 + sum_list (map (\<lambda>(k, v). length (to_ascii (quote k)) + 2 + enc_size v) r)"
proof -
  let ?s = "sort_key fst (map (\<lambda>(k, v). (k, sort_keys v)) r)"
  let ?f = "\<lambda>(k, v). quote k @ '':'' @ dumps v"
  have "?s \<noteq> []" using assms by (metis length_0_conv length_map length_sort)
  then have "length (to_ascii (join_with '','' (map ?f ?s))) + 1 = sum_list (map (\<lambda>x. length (to_ascii (?f x)) + 1) ?s)"
    using length_join [of "map ?f ?s"] by (simp add: comp_def)
  also have "\<dots> = sum_list (map (\<lambda>x. length (to_ascii (?f x)) + 1) (map (\<lambda>(k, v). (k, sort_keys v)) r))"
    by (rule sum_list_sort_key)
  also have "\<dots> = sum_list (map (\<lambda>(k, v). length (to_ascii (quote k)) + 2 + enc_size v) r)"
    by (auto simp: enc_size_alt ascii_escape_plain comp_def split_def intro!: arg_cong [where f = sum_list])
  finally show ?thesis by (simp add: enc_size_alt ascii_escape_plain)
qed

lemma length_escaped: "length (to_ascii (esc c)) \<le> 6"
proof (cases "(of_char c :: nat) < 32 \<or> c \<in> {CHR 0x22, CHR 0x5C}")
  case True
  then have "\<forall>d \<in> set (esc c). (of_char d :: nat) \<le> 126"
    using hex_char_plain [of "of_char c div 16"] hex_char_plain [of "of_char c mod 16"] by (auto simp: esc_def)
  moreover have "length (esc c) \<le> 6" by (simp add: esc_def)
  ultimately show ?thesis by (metis to_ascii_plain)
next
  case False
  then have "esc c = [c]" by (auto simp: esc_def)
  then show ?thesis by (simp add: ascii_escape_def Let_def)
qed

lemma length_escapes: "length (to_ascii (concat (map esc s))) \<le> 6 * length s"
proof (induction s)
  case (Cons c s)
  then show ?case using length_escaped [of c] by simp
qed simp

lemma enc_size_str: "enc_size (JStr s) \<le> 2 + 6 * length s"
  using length_escapes [of s] by (simp add: enc_size_alt quote_def ascii_escape_plain)

lemma enc_size_small: "enc_size JNull = 4" "enc_size (JBool b) \<le> 5"
  by (simp_all add: enc_size_alt ascii_escape_plain)

lemma enc_size_int: "in_bounds MAX_REALTIME_US i \<Longrightarrow> enc_size (JInt i) \<le> 18"
proof -
  assume i: "in_bounds MAX_REALTIME_US i"
  then have "nat i < 10 ^ 18" by (simp add: in_bounds_def MAX_REALTIME_US_def nat_less_iff)
  then have "length (nat_str (nat i)) \<le> 18" by (rule length_nat_str) simp
  moreover have "to_ascii (nat_str (nat i)) = nat_str (nat i)"
    by (rule to_ascii_plain) (auto dest!: nat_str_digits simp: is_digit_def Let_def)
  ultimately show ?thesis using i by (simp add: enc_size_alt int_str_def in_bounds_def)
qed

lemma enc_size_cursor: "case c of None \<Rightarrow> True | Some s \<Rightarrow> ascii_text 2048 s \<Longrightarrow> enc_size (opt_json JStr c) \<le> 12290"
  using enc_size_str [of "the c"] by (cases c) (auto simp: opt_json_def enc_size_small ascii_text_def)

lemma length_is_id: "is_id s \<Longrightarrow> length s \<le> 128"
  by (auto simp: is_id_def class_match_def split: list.splits)

lemma enc_size_reports:
  assumes "set reports \<subseteq> set REPORT_CODES" "length reports \<le> 5"
  shows "2 \<le> enc_size (jstrs reports)" and "enc_size (jstrs reports) \<le> 800"
proof -
  have code: "enc_size (JStr code) + 1 \<le> 159" if "code \<in> set reports" for code
  proof -
    have "length code \<le> 26" using that assms(1) by (auto simp: REPORT_CODES_def)
    then show ?thesis using enc_size_str [of code] by simp
  qed
  have "sum_list (map (\<lambda>x. enc_size (JStr x) + 1) reports) \<le> 159 * length reports"
    using code by (induction reports) fastforce+
  then show "enc_size (jstrs reports) \<le> 800" using assms(2) by (auto simp: jstrs_def enc_size_list comp_def)
  show "2 \<le> enc_size (jstrs reports)" by (cases reports) (auto simp: jstrs_def enc_size_list)
qed

text \<open>The size of a page without its reports, which is what the loop bounds.\<close>

definition bare_size :: "batch \<Rightarrow> nat" where
  "bare_size b = enc_size (batch_json (b\<lparr>bt_reports := [], bt_caught_up := False\<rparr>))"

lemma batch_size:
  "enc_size (batch_json b) + enc_size (jstrs []) + enc_size (JBool False) =
     bare_size b + enc_size (jstrs (bt_reports b)) + enc_size (JBool (bt_caught_up b))"
  unfolding bare_size_def batch_json_def by (simp add: enc_size_obj batch_row_def)

lemma batch_size_le:
  assumes "set (bt_reports b) \<subseteq> set REPORT_CODES" "length (bt_reports b) \<le> 5"
  shows "enc_size (batch_json b) \<le> bare_size b + 798"
  using batch_size [of b] enc_size_reports [OF assms] enc_size_reports(1) [of "[]"] enc_size_small(2)
  by (cases "bt_caught_up b") (simp_all add: enc_size_alt ascii_escape_plain)

lemma bare_size_le: "\<not> bt_caught_up b \<Longrightarrow> bare_size b \<le> enc_size (batch_json b)"
proof -
  assume "\<not> bt_caught_up b"
  moreover have "enc_size (jstrs []) \<le> enc_size (jstrs (bt_reports b))" by (cases "bt_reports b") (auto simp: jstrs_def enc_size_list)
  ultimately show ?thesis using batch_size [of b] by simp
qed

lemma bare_size_empty:
  assumes "bt_entries b = []" "is_id (bt_source_id b)" "length (bt_profile_revision b) \<le> 64" "is_id (bt_batch_id b)"
    "in_bounds MAX_REALTIME_US (bt_collected_at_us b)"
    "case bt_cursor_before b of None \<Rightarrow> True | Some s \<Rightarrow> ascii_text 2048 s"
    "case bt_cursor_after b of None \<Rightarrow> True | Some s \<Rightarrow> ascii_text 2048 s"
  shows "bare_size b \<le> 30000"
proof -
  have one: "in_bounds MAX_REALTIME_US 1" by (simp add: in_bounds_def MAX_REALTIME_US_def)
  have strs: "enc_size (JStr (bt_source_id b)) \<le> 770" "enc_size (JStr (bt_batch_id b)) \<le> 770" "enc_size (JStr (bt_profile_revision b)) \<le> 386"
    using enc_size_str [of "bt_source_id b"] enc_size_str [of "bt_batch_id b"] enc_size_str [of "bt_profile_revision b"]
      length_is_id [OF assms(2)] length_is_id [OF assms(4)] assms(3) by linarith+
  have quotes: "length (to_ascii (quote k)) \<le> 2 + 6 * length k" for k
    using length_escapes [of k] by (simp add: quote_def ascii_escape_plain)
  have lists: "enc_size (JList []) = 2" by (simp add: enc_size_list)
  have keys: "list_all (\<lambda>k. length (to_ascii (quote k)) \<le> 98) BATCH_FIELDS"
    unfolding BATCH_FIELDS_def by (auto intro!: order_trans [OF quotes])
  show ?thesis
    using keys strs lists enc_size_int [OF one] enc_size_int [OF assms(5)] enc_size_cursor [OF assms(6)] enc_size_cursor [OF assms(7)]
      enc_size_small(2) [of False]
    unfolding bare_size_def batch_json_def BATCH_FIELDS_def by (simp add: enc_size_obj batch_row_def assms(1) jstrs_def)
qed

section \<open>The page is accepted\<close>

definition page_ok :: "py \<Rightarrow> ip_reader \<Rightarrow> profile \<Rightarrow> export_env \<Rightarrow> string option \<Rightarrow> batch \<Rightarrow> bool" where
  "page_ok P ip p env cursor b =
     (bt_source_id b = sp_source_id p \<and> bt_profile_revision b = digest_of P (JObj (profile_payload p)) \<and>
      bt_batch_id b = ev_batch_id env \<and> bt_collected_at_us b = ev_now_us env \<and> bt_cursor_before b = cursor \<and>
      \<not> bt_caught_up b \<and> distinct (bt_reports b) \<and>
      set (bt_reports b) \<subseteq> {''coverage_start'', ''journal_cursor_unavailable'', ''profile_boundary''} \<and>
      length (bt_entries b) \<le> MAX_ENTRIES \<and> list_all (entry_ok P ip p (bt_profile_revision b)) (bt_entries b) \<and>
      bt_cursor_after b = last_cursor cursor (bt_entries b) \<and>
      (bt_entries b \<noteq> [] \<longrightarrow> int (bare_size b) \<le> MAX_BATCH_BYTES - 1024))"

lemma bare_size_reports [simp]: "bare_size (b\<lparr>bt_reports := reports\<rparr>) = bare_size b" "bare_size (b\<lparr>bt_caught_up := flag\<rparr>) = bare_size b"
  by (simp_all add: bare_size_def)

lemma add_report_props:
  "distinct reports \<Longrightarrow> distinct (add_report code reports)" "set (add_report code reports) = insert code (set reports)"
  by (auto simp: add_report_def)

lemma page_ok_reports:
  "page_ok P ip p env cursor b \<Longrightarrow> page_ok P ip p env cursor (b\<lparr>bt_reports := add_report ''profile_boundary'' (bt_reports b)\<rparr>)"
  by (auto simp: page_ok_def add_report_props)

lemma page_ok_entry:
  assumes "page_ok P ip p env cursor b" "entry_ok P ip p (digest_of P (JObj (profile_payload p))) x" "length (bt_entries b) < MAX_ENTRIES"
    and "b' = b\<lparr>bt_entries := bt_entries b @ [x], bt_cursor_after := Some (entry_cursor x)\<rparr>"
    and "\<not> byte_count (encode (batch_json b')) > MAX_BATCH_BYTES - 1024"
  shows "page_ok P ip p env cursor b'"
proof -
  have "bare_size b' \<le> enc_size (batch_json b')" using assms(1,4) by (intro bare_size_le) (simp add: page_ok_def)
  then have "int (bare_size b') \<le> MAX_BATCH_BYTES - 1024" using assms(5) by (simp add: enc_size_def byte_count_def)
  then show ?thesis using assms(1-4) by (auto simp: page_ok_def last_cursor_def)
qed

lemma export_record_ok:
  assumes hex: "hex_digests P" and p: "validate_profile p = Inr ()"
    and valid_from: "strong_guard p \<Longrightarrow> sp_profile_valid_from_us p = Some valid_from"
    and b: "page_ok P ip p env cursor b" "length (bt_entries b) < MAX_ENTRIES"
    and step: "export_record P ip p valid_from j b = Inr (b', full)"
  shows "page_ok P ip p env cursor b'" and "\<not> full \<Longrightarrow> length (bt_entries b') < MAX_ENTRIES"
proof -
  obtain r timestamp x where r: "j = JObj r" "py_int P (get_field r ''__REALTIME_TIMESTAMP'') = Inr timestamp"
    and x: "journal_entry_of P ip p (if timestamp < valid_from then Some ''profile_context_unavailable'' else None) r = Inr x"
    and page: "let b1 = (if timestamp < valid_from then b\<lparr>bt_reports := add_report ''profile_boundary'' (bt_reports b)\<rparr> else b);
          b2 = b1\<lparr>bt_entries := bt_entries b @ [x], bt_cursor_after := Some (entry_cursor x)\<rparr>
      in (if byte_count (encode (batch_json b2)) > MAX_BATCH_BYTES - 1024
          then if bt_entries b = [] then failure ''record_exceeds_batch_limit'' else Inr (b1, True)
          else Inr (b2, length (bt_entries b2) = MAX_ENTRIES)) = Inr (b', full)"
    using step unfolding export_record_def Let_def failure_def
    by (cases j) (auto split: if_split_asm sum.splits elim!: and_then_InrE)
  define b1 where "b1 = (if timestamp < valid_from then b\<lparr>bt_reports := add_report ''profile_boundary'' (bt_reports b)\<rparr> else b)"
  define b2 where "b2 = b1\<lparr>bt_entries := bt_entries b @ [x], bt_cursor_after := Some (entry_cursor x)\<rparr>"
  have entries: "bt_entries b1 = bt_entries b" by (simp add: b1_def)
  have x_ok: "entry_ok P ip p (digest_of P (JObj (profile_payload p))) x"
    using r(2) valid_from by (intro journal_entry_accepted [OF hex p x]) (auto simp: before_profile_def split: if_splits)
  have b1: "page_ok P ip p env cursor b1" using b(1) page_ok_reports [OF b(1)] by (simp add: b1_def)
  have b2: "page_ok P ip p env cursor b2" if "\<not> byte_count (encode (batch_json b2)) > MAX_BATCH_BYTES - 1024"
  proof (rule page_ok_entry [OF b1 x_ok _ _ that])
    show "length (bt_entries b1) < MAX_ENTRIES" using b(2) by (simp only: entries)
    show "b2 = b1\<lparr>bt_entries := bt_entries b1 @ [x], bt_cursor_after := Some (entry_cursor x)\<rparr>" by (simp only: b2_def entries)
  qed
  have cases: "b' = b1 \<and> full \<or> \<not> byte_count (encode (batch_json b2)) > MAX_BATCH_BYTES - 1024 \<and> b' = b2 \<and>
      full = (length (bt_entries b2) = MAX_ENTRIES)"
    using page unfolding Let_def failure_def b1_def [symmetric] b2_def [symmetric] by (auto split: if_split_asm)
  then show "page_ok P ip p env cursor b'" using b1 b2 by blast
  have "length (bt_entries b2) \<le> MAX_ENTRIES" using b(2) by (simp add: b2_def)
  then show "length (bt_entries b') < MAX_ENTRIES" if "\<not> full"
    using cases that by auto
qed

lemma export_records_ok:
  assumes hex: "hex_digests P" and p: "validate_profile p = Inr ()"
    and valid_from: "strong_guard p \<Longrightarrow> sp_profile_valid_from_us p = Some valid_from"
  shows "export_records P ip p valid_from late read_error i records b = Inr (b', limited) \<Longrightarrow>
    page_ok P ip p env cursor b \<Longrightarrow> length (bt_entries b) < MAX_ENTRIES \<Longrightarrow> page_ok P ip p env cursor b'"
proof (induction records arbitrary: i b)
  case (Cons j records)
  from Cons.prems(1) obtain b1 full where step: "export_record P ip p valid_from j b = Inr (b1, full)"
    and rest: "(if full then Inr (b1, True) else export_records P ip p valid_from late read_error (Suc i) records b1) = Inr (b', limited)"
    by (auto simp: failure_def split: if_split_asm elim!: and_then_InrE)
  note b1 = export_record_ok [OF hex p valid_from Cons.prems(2,3) step]
  show ?case using rest b1 Cons.IH by (cases full) auto
qed (auto split: option.splits)

lemma entry_cursor_ok: "entry_ok P ip p profile_revision x \<Longrightarrow> ascii_text 2048 (entry_cursor x)"
proof (cases x)
  case (Event e)
  assume "entry_ok P ip p profile_revision x"
  then have "event_ok P ip p profile_revision e" using Event by simp
  then have "validate_event P ip e = Inr ()" unfolding event_ok_def by blast
  then have "list_all fst (event_conditions_head e)" by (rule event_conditions_of)
  then show ?thesis using Event by (simp add: event_conditions_head_def)
qed (simp add: rejection_ok_def)

lemma page_batch_ok:
  assumes hex: "hex_digests P" and p: "validate_profile p = Inr ()" and b: "page_ok P ip p env cursor b"
    and env: "is_id (ev_batch_id env)" "in_bounds MAX_REALTIME_US (ev_now_us env)" "\<not> (strong_guard p \<and> before_profile p (ev_now_us env))"
    and cursor: "case cursor of None \<Rightarrow> True | Some s \<Rightarrow> ascii_text 2048 s"
    and reports: "set reports \<subseteq> set REPORT_CODES" "distinct reports" "\<not> (flag \<and> incomplete_coverage reports)"
      "''profile_drift'' \<in> set reports \<Longrightarrow> bt_entries b = []"
  shows "batch_ok P ip p (b\<lparr>bt_reports := reports, bt_caught_up := flag\<rparr>)"
proof -
  let ?b = "b\<lparr>bt_reports := reports, bt_caught_up := flag\<rparr>"
  have len: "length reports \<le> 5"
    using card_mono [OF _ reports(1)] distinct_card [OF reports(2)] by (simp add: REPORT_CODES_def card_insert_if)
  have entries: "list_all (entry_ok P ip p (bt_profile_revision b)) (bt_entries b)" and after: "bt_cursor_after b = last_cursor cursor (bt_entries b)"
    and before: "bt_cursor_before b = cursor"
    using b unfolding page_ok_def by blast+
  have ascii: "case bt_cursor_after b of None \<Rightarrow> True | Some s \<Rightarrow> ascii_text 2048 s"
  proof (cases "bt_entries b = []")
    case False
    then have "entry_ok P ip p (bt_profile_revision b) (last (bt_entries b))" using entries by (simp add: list_all_iff)
    with False show ?thesis by (simp add: after last_cursor_def entry_cursor_ok)
  qed (simp add: after last_cursor_def cursor)
  have "int (bare_size b) \<le> MAX_BATCH_BYTES - 1024"
  proof (cases "bt_entries b = []")
    case True
    have "length (digest_of P v) = 64" for v using digest_hex [OF hex, of v] by (simp add: hex_text_def)
    then have "bare_size b \<le> 30000"
      using True b env cursor ascii profile_ok(1) [OF p] by (intro bare_size_empty) (simp_all add: page_ok_def)
    then show ?thesis by (simp add: MAX_BATCH_BYTES_def)
  qed (use b in \<open>simp add: page_ok_def\<close>)
  moreover have "enc_size (batch_json ?b) \<le> bare_size b + 798" using batch_size_le [of ?b] reports(1) len by simp
  ultimately have bytes: "byte_count (encode (batch_json ?b)) \<le> MAX_BATCH_BYTES" by (simp add: byte_count_def enc_size_def)
  have "''profile_drift'' \<in> set reports \<Longrightarrow> bt_cursor_after b = cursor" using reports(4) by (simp add: after last_cursor_def)
  then show ?thesis
    using p b env cursor ascii reports len entries after before bytes
    unfolding batch_ok_def page_ok_def by (simp add: REPORT_CODES_def)
qed

lemma start_reports_props:
  "distinct (start_reports c env cursor valid)"
  "set (start_reports c env cursor valid) \<subseteq> {''coverage_start'', ''journal_cursor_unavailable'', ''profile_boundary''}"
  by (auto simp: start_reports_def Let_def)

lemma validate_request_cursor:
  "validate_request p request = Inr cursor \<Longrightarrow> case cursor of None \<Rightarrow> True | Some s \<Rightarrow> ascii_text 2048 s"
  by (cases request; auto simp: validate_request_def failure_def split: if_splits json.splits)

lemma assembled_page_ok:
  assumes hex: "hex_digests P" and p: "validate_profile p = Inr ()"
    and env: "is_id (ev_batch_id env)" "in_bounds MAX_REALTIME_US (ev_now_us env)"
    and page: "assemble_page P ip c env p request = Inr b"
  shows "batch_ok P ip p b"
proof -
  from page obtain cursor b0 rules where request: "validate_request p request = Inr cursor"
    and valid_from: "strong_guard p \<Longrightarrow> sp_profile_valid_from_us p = Some (ec_valid_from_us c)"
    and b0: "empty_page P p env cursor = Inr b0" and now: "ec_valid_from_us c \<le> ev_now_us env"
    and body: "(if rules \<noteq> sp_ruleset_sha256 p then Inr (b0\<lparr>bt_reports := [''profile_drift'']\<rparr>)
      else let valid = (cursor \<noteq> None \<and> ev_exists_before env) in
        and_then (export_records P ip p (ec_valid_from_us c) (ev_late env) (ev_read_error env) 0 (ev_records env)
            (b0\<lparr>bt_reports := start_reports c env cursor valid\<rparr>))
          (finish_page env p cursor valid)) = Inr b"
    unfolding assemble_page_def failure_def by (auto split: if_split_asm elim!: and_then_InrE)
  have start: "\<not> (strong_guard p \<and> before_profile p (ev_now_us env))" using valid_from now by (auto simp: before_profile_def)
  note cursor = validate_request_cursor [OF request]
  note ok = page_batch_ok [OF hex p _ env start cursor]
  have fresh: "page_ok P ip p env cursor (b0\<lparr>bt_reports := reports\<rparr>)" "\<not> bt_caught_up b0"
    "bt_entries b0 = []" if "reports = [] \<or> reports = start_reports c env cursor valid" for reports valid
    using b0 start_reports_props [of c env cursor valid] that
    by (auto simp: empty_page_def page_ok_def revision_iff last_cursor_def elim!: and_then_InrE)
  show ?thesis
  proof (cases "rules = sp_ruleset_sha256 p")
    case False
    then have "b = b0\<lparr>bt_reports := [''profile_drift'']\<rparr>" using body by simp
    moreover have "bt_caught_up b0 = False" using fresh(2) [of "[]"] by simp
    ultimately have b: "b = b0\<lparr>bt_reports := [], bt_reports := [''profile_drift''], bt_caught_up := False\<rparr>" by (cases b0) simp
    show ?thesis
      unfolding b using ok [OF fresh(1) [OF disjI1 [OF refl]], of "[''profile_drift'']" False] fresh(3) [of "[]"] by (simp add: REPORT_CODES_def)
  next
    case True
    define valid where "valid = (cursor \<noteq> None \<and> ev_exists_before env)"
    have "and_then (export_records P ip p (ec_valid_from_us c) (ev_late env) (ev_read_error env) 0 (ev_records env)
        (b0\<lparr>bt_reports := start_reports c env cursor valid\<rparr>)) (finish_page env p cursor valid) = Inr b"
      using body True unfolding Let_def valid_def [symmetric] by simp
    then obtain b1 limited where b1: "export_records P ip p (ec_valid_from_us c) (ev_late env) (ev_read_error env) 0 (ev_records env)
        (b0\<lparr>bt_reports := start_reports c env cursor valid\<rparr>) = Inr (b1, limited)"
      and fin: "finish_page env p cursor valid (b1, limited) = Inr b"
      by (auto elim!: and_then_InrE)
    have b1_ok: "page_ok P ip p env cursor b1"
      by (rule export_records_ok [OF hex p valid_from b1 fresh(1) [OF disjI2 [OF refl]]]) (simp_all add: fresh(3) [of "[]"] MAX_ENTRIES_def)
    then have emptied: "page_ok P ip p env cursor (b1\<lparr>bt_entries := [], bt_cursor_after := cursor\<rparr>)"
      by (simp add: page_ok_def last_cursor_def)
    have reports: "set (bt_reports b1) \<subseteq> {''coverage_start'', ''journal_cursor_unavailable'', ''profile_boundary''}" "distinct (bt_reports b1)"
      using b1_ok by (simp_all add: page_ok_def)
    from fin consider
      (dropped) code where "b = b1\<lparr>bt_entries := [], bt_cursor_after := cursor, bt_reports := [code], bt_caught_up := False\<rparr>"
        "code \<in> {''profile_drift'', ''journal_cursor_unavailable''}"
    | (kept) "b = b1\<lparr>bt_reports := (if limited then bt_reports b1 @ [''catching_up''] else bt_reports b1),
        bt_caught_up := (\<not> limited \<and> ''journal_cursor_unavailable'' \<notin> set (bt_reports b1))\<rparr>"
      by (auto simp: finish_page_def Let_def split: if_split_asm elim!: and_then_InrE)
    then show ?thesis
    proof cases
      case dropped
      show ?thesis
        unfolding dropped(1) by (rule ok [OF emptied, of "[code]" False]) (use dropped(2) in \<open>auto simp: REPORT_CODES_def\<close>)
    next
      case kept
      have absent: "''catching_up'' \<notin> set (bt_reports b1)" "''profile_drift'' \<notin> set (bt_reports b1)"
        using subsetD [OF reports(1), of "''catching_up''"] subsetD [OF reports(1), of "''profile_drift''"] by auto
      have known: "set (bt_reports b1) \<subseteq> set REPORT_CODES"
        by (rule subset_trans [OF reports(1)]) (simp add: REPORT_CODES_def)
      have "''catching_up'' \<in> set REPORT_CODES" by (simp add: REPORT_CODES_def)
      then show ?thesis
        unfolding kept using reports(2) absent known
        by (intro ok [OF b1_ok]) (cases limited; simp add: incomplete_coverage_def)+
    qed
  qed
qed

text \<open>
  C17: a page the exporter has put together passes its own final check: whatever the journal holds, however the rules or the cursor
  change while it is read, and wherever the page was cut, the exporter answers with that page. Used of SHA-256 that digests are 64
  hexadecimal digits, and that the clock and the new batch id are in the range the protocol has for them.
\<close>

theorem exported_page_is_accepted:
  assumes "hex_digests P" and "profile_from_dict (ec_profile c) = Inr p"
    and "is_id (ev_batch_id env)" and "in_bounds MAX_REALTIME_US (ev_now_us env)"
    and "assemble_page P ip c env p request = Inr b"
  shows "export_page P ip c env request = Inr b \<and> validate_batch P ip p (batch_json b) = Inr b"
proof -
  have "validate_profile p = Inr ()"
    using assms(2) by (auto simp: profile_from_dict_def failure_def split: json.splits if_splits option.splits sum.splits)
  then have "validate_batch P ip p (batch_json b) = Inr b"
    using assembled_page_ok [OF assms(1) _ assms(3-5)] validate_batch_json by blast
  with assms show ?thesis by (simp add: export_page_def)
qed

definition sample_config :: export_config where
  "sample_config = \<lparr>ec_profile = JObj [(''source_id'', JStr ''s1''), (''ruleset_sha256'', JStr (replicate 64 (CHR ''0''))),
     (''log_labels'', jstrs [''[UFW BLOCK]''])], ec_valid_from_us = 15\<rparr>"

definition sample_env :: export_env where
  "sample_env = \<lparr>ev_now_us = 20, ev_batch_id = ''b1'', ev_rules_before = Inr (replicate 64 (CHR ''0'')),
     ev_rules_after = Inr (replicate 64 (CHR ''0'')), ev_exists_before = False, ev_exists_after = False, ev_late = (\<lambda>i. False),
     ev_records = [JObj sample_journal], ev_read_error = None\<rparr>"

definition sample_request :: json where
  "sample_request = JObj [(''cursor'', JNull), (''source_id'', JStr ''s1'')]"

lemma sample_page:
  "case profile_from_dict (ec_profile sample_config) of Inl e \<Rightarrow> False
   | Inr p \<Rightarrow> is_ok (assemble_page hex_py two_hosts sample_config sample_env p sample_request)"
  by code_simp

theorem exported_page_is_accepted_witness: "is_ok (export_page hex_py two_hosts sample_config sample_env sample_request)"
proof -
  obtain p b where "profile_from_dict (ec_profile sample_config) = Inr p"
    "assemble_page hex_py two_hosts sample_config sample_env p sample_request = Inr b"
    using sample_page by (auto simp: is_ok_def split: sum.splits)
  moreover have "is_id (ev_batch_id sample_env)" "in_bounds MAX_REALTIME_US (ev_now_us sample_env)" by code_simp+
  ultimately show ?thesis using exported_page_is_accepted [OF hex_py_digests] by (metis is_ok_simps(2))
qed

end
