(* ===== verification/Network_Store.thy ===== *)
theory Network_Store
  imports Network_Protocol Core
begin

text \<open>
  \<open>app/telemetry/network_store.py\<close>: durable observations and delivery receipts. Each table is a list of its rows in the order of
  insertion; a transaction gives the new tables or raises, and then the tables are as they were. What SQLite and the disk may answer is
  the record \<open>store_io\<close>: the code of an error before, at the start of, or in the transaction. A response is stored as the text of its JSON
  and read back from it, so it comes back with sorted keys.

  The result is that every response of \<open>network_ingest\<close> passes the check the collector makes on it, also when it repeats an earlier one.
\<close>

section \<open>Tables\<close>

record source_row =
  sr_profile_revision :: string
  sr_checkpoint :: "string option"
  sr_first_received_at_us :: int
  sr_received_at_us :: int
  sr_accepted_total :: int
  sr_rejected_total :: int
  sr_duplicate_total :: int
  sr_last_report :: json

record batch_row_db =
  br_source_id :: string
  br_batch_id :: string
  br_payload_hash :: string
  br_received_at_us :: int
  br_response :: json

record receipt_row =
  rr_content_hash :: string
  rr_kind :: string
  rr_code :: "string option"
  rr_record_hash :: string
  rr_boot_id :: string
  rr_journal_cursor :: string
  rr_journal_realtime_us :: int
  rr_journal_monotonic_us :: int
  rr_collected_at_us :: int
  rr_received_at_us :: int

record event_row_db =
  er_seq :: nat
  er_source_id :: string
  er_event_id :: string
  er_journal_realtime_us :: int
  er_collected_at_us :: int
  er_received_at_us :: int
  er_event :: json

record net_store =
  ns_sources :: "(string \<times> source_row) list"
  ns_batches :: "batch_row_db list"
  ns_receipts :: "((string \<times> string) \<times> receipt_row) list"
  ns_events :: "event_row_db list"
  ns_next_seq :: nat

record store_limits =
  sl_retention_days :: int
  sl_max_receipts :: nat
  sl_max_batches :: nat

record store_io =
  io_prepare :: "string option"
  io_begin :: "string option"
  io_commit :: "string option"

definition new_store :: net_store where
  "new_store = \<lparr>ns_sources = [], ns_batches = [], ns_receipts = [], ns_events = [], ns_next_seq = 1\<rparr>"

section \<open>Entries\<close>

fun entry_event_id :: "transport_entry \<Rightarrow> string" where
  "entry_event_id (Event e) = ne_event_id e"
| "entry_event_id (Rejected q) = rj_event_id q"

fun entry_content_hash :: "transport_entry \<Rightarrow> string" where
  "entry_content_hash (Event e) = ne_content_hash e"
| "entry_content_hash (Rejected q) = rj_content_hash q"

fun entry_reject_code :: "transport_entry \<Rightarrow> string option" where
  "entry_reject_code (Event e) = None"
| "entry_reject_code (Rejected q) = Some (rj_code q)"

fun entry_boot :: "transport_entry \<Rightarrow> string" where
  "entry_boot (Event e) = ne_boot_id e"
| "entry_boot (Rejected q) = rj_boot_id q"

fun entry_times :: "transport_entry \<Rightarrow> int \<times> int" where
  "entry_times (Event e) = (ne_journal_realtime_us e, ne_journal_monotonic_us e)"
| "entry_times (Rejected q) = (rj_journal_realtime_us q, rj_journal_monotonic_us q)"

definition record_json :: "transport_entry \<Rightarrow> json" where
  "record_json x = JObj [(''kind'', JStr (entry_kind x)), (''record'', JObj (entry_row x))]"

definition result_json :: "transport_entry \<Rightarrow> string \<Rightarrow> string option \<Rightarrow> json" where
  "result_json x status code = JObj [(''event_id'', JStr (entry_event_id x)), (''content_hash'', JStr (entry_content_hash x)),
     (''status'', JStr status), (''code'', opt_json JStr code)]"

record tally =
  ty_results :: "json list"
  ty_accepted :: int
  ty_rejected :: int
  ty_duplicates :: int

definition no_tally :: tally where
  "no_tally = \<lparr>ty_results = [], ty_accepted = 0, ty_rejected = 0, ty_duplicates = 0\<rparr>"

section \<open>One transaction\<close>

definition expire_events :: "store_limits \<Rightarrow> int \<Rightarrow> net_store \<Rightarrow> net_store" where
  "expire_events limits now st =
     (let cutoff = now - sl_retention_days limits * 86400000000;
          gone = map er_seq (take 1000 (sort_key (\<lambda>r. (er_received_at_us r, er_seq r))
            (filter (\<lambda>r. er_received_at_us r < cutoff) (ns_events st))))
      in st\<lparr>ns_events := filter (\<lambda>r. er_seq r \<notin> set gone) (ns_events st)\<rparr>)"

definition new_receipt :: "py \<Rightarrow> int \<Rightarrow> batch \<Rightarrow> transport_entry \<Rightarrow> receipt_row" where
  "new_receipt P now b x =
     \<lparr>rr_content_hash = entry_content_hash x, rr_kind = entry_kind x, rr_code = entry_reject_code x,
      rr_record_hash = fingerprint P (record_json x), rr_boot_id = entry_boot x, rr_journal_cursor = entry_cursor x,
      rr_journal_realtime_us = fst (entry_times x), rr_journal_monotonic_us = snd (entry_times x),
      rr_collected_at_us = bt_collected_at_us b, rr_received_at_us = now\<rparr>"

definition insert_event :: "int \<Rightarrow> batch \<Rightarrow> transport_entry \<Rightarrow> net_store \<Rightarrow> net_store" where
  "insert_event now b x st = (case x of
     Rejected q \<Rightarrow> st
   | Event e \<Rightarrow> st\<lparr>ns_events := ns_events st @
       [\<lparr>er_seq = ns_next_seq st, er_source_id = bt_source_id b, er_event_id = ne_event_id e,
         er_journal_realtime_us = ne_journal_realtime_us e, er_collected_at_us = bt_collected_at_us b, er_received_at_us = now,
         er_event = JObj (event_row e)\<rparr>], ns_next_seq := ns_next_seq st + 1\<rparr>)"

definition store_entry :: "py \<Rightarrow> store_limits \<Rightarrow> int \<Rightarrow> batch \<Rightarrow> transport_entry \<Rightarrow> net_store \<times> tally \<Rightarrow> (net_store \<times> tally) result" where
  "store_entry P limits now b x s = (case s of (st, t) \<Rightarrow>
     (let k = (bt_source_id b, entry_event_id x) in
      case map_of (ns_receipts st) k of
        Some previous \<Rightarrow>
          if rr_content_hash previous \<noteq> entry_content_hash x \<or> rr_kind previous \<noteq> entry_kind x \<or>
             rr_record_hash previous \<noteq> fingerprint P (record_json x)
          then failure ''network_event_conflict''
          else Inr (st, t\<lparr>ty_results := ty_results t @ [result_json x ''duplicate'' (rr_code previous)],
            ty_duplicates := ty_duplicates t + 1\<rparr>)
      | None \<Rightarrow>
          if length (ns_receipts st) \<ge> sl_max_receipts limits \<or>
             (entry_kind x = ''event'' \<and> length (ns_events st) \<ge> sl_max_receipts limits)
          then failure ''network_capacity_exceeded''
          else
            let st1 = insert_event now b x (st\<lparr>ns_receipts := ns_receipts st @ [(k, new_receipt P now b x)]\<rparr>);
                status = (if entry_kind x = ''event'' then ''accepted'' else ''rejected'')
            in Inr (st1, t\<lparr>ty_results := ty_results t @ [result_json x status (entry_reject_code x)],
                 ty_accepted := ty_accepted t + (if entry_kind x = ''event'' then 1 else 0),
                 ty_rejected := ty_rejected t + (if entry_kind x = ''event'' then 0 else 1)\<rparr>)))"

fun store_entries :: "py \<Rightarrow> store_limits \<Rightarrow> int \<Rightarrow> batch \<Rightarrow> transport_entry list \<Rightarrow> net_store \<times> tally \<Rightarrow> (net_store \<times> tally) result" where
  "store_entries P limits now b [] s = Inr s"
| "store_entries P limits now b (x # xs) s = and_then (store_entry P limits now b x s) (store_entries P limits now b xs)"

definition response_row :: "string \<Rightarrow> int \<Rightarrow> batch \<Rightarrow> tally \<Rightarrow> row" where
  "response_row payload_hash now b t =
     [(''version'', JInt 1), (''source_id'', JStr (bt_source_id b)), (''profile_revision'', JStr (bt_profile_revision b)),
      (''batch_id'', JStr (bt_batch_id b)), (''payload_hash'', JStr payload_hash), (''durable'', JBool True),
      (''cursor_before'', opt_json JStr (bt_cursor_before b)), (''cursor_after'', opt_json JStr (bt_cursor_after b)),
      (''collected_at_us'', JInt (bt_collected_at_us b)), (''received_at_us'', JInt now), (''results'', JList (ty_results t)),
      (''reports'', jstrs (bt_reports b)), (''caught_up'', JBool (bt_caught_up b)), (''accepted'', JInt (ty_accepted t)),
      (''rejected'', JInt (ty_rejected t)), (''duplicates'', JInt (ty_duplicates t))]"

definition checkpoint_of :: "net_store \<Rightarrow> string \<Rightarrow> string option" where
  "checkpoint_of st source = (case map_of (ns_sources st) source of None \<Rightarrow> None | Some r \<Rightarrow> sr_checkpoint r)"

definition upsert_source :: "int \<Rightarrow> batch \<Rightarrow> tally \<Rightarrow> json \<Rightarrow> (string \<times> source_row) list \<Rightarrow> (string \<times> source_row) list" where
  "upsert_source now b t response sources = dict_set (bt_source_id b) (case map_of sources (bt_source_id b) of
     None \<Rightarrow> \<lparr>sr_profile_revision = bt_profile_revision b, sr_checkpoint = bt_cursor_after b, sr_first_received_at_us = now,
       sr_received_at_us = now, sr_accepted_total = ty_accepted t, sr_rejected_total = ty_rejected t,
       sr_duplicate_total = ty_duplicates t, sr_last_report = response\<rparr>
   | Some r \<Rightarrow> r\<lparr>sr_profile_revision := bt_profile_revision b, sr_checkpoint := bt_cursor_after b, sr_received_at_us := now,
       sr_accepted_total := sr_accepted_total r + ty_accepted t, sr_rejected_total := sr_rejected_total r + ty_rejected t,
       sr_duplicate_total := sr_duplicate_total r + ty_duplicates t, sr_last_report := response\<rparr>) sources"

definition store_batch :: "py \<Rightarrow> store_limits \<Rightarrow> string \<Rightarrow> int \<Rightarrow> batch \<Rightarrow> net_store \<Rightarrow> (json \<times> net_store) result" where
  "store_batch P limits payload_hash now b st =
     (if bt_cursor_before b \<noteq> checkpoint_of st (bt_source_id b) then failure ''network_cursor_conflict''
      else let st0 = expire_events limits now st in
        if length (ns_batches st0) \<ge> sl_max_batches limits then failure ''network_capacity_exceeded''
        else and_then (store_entries P limits now b (bt_entries b) (st0, no_tally)) (\<lambda>(st1, t).
          let response = JObj (response_row payload_hash now b t) in
          Inr (response, st1\<lparr>
            ns_batches := ns_batches st1 @ [\<lparr>br_source_id = bt_source_id b, br_batch_id = bt_batch_id b, br_payload_hash = payload_hash,
              br_received_at_us = now, br_response = sort_keys response\<rparr>],
            ns_sources := upsert_source now b t (sort_keys response) (ns_sources st1)\<rparr>)))"

section \<open>Ingestion\<close>

definition same_batch_id :: "batch \<Rightarrow> batch_row_db \<Rightarrow> bool" where
  "same_batch_id b r = (br_source_id r = bt_source_id b \<and> br_batch_id r = bt_batch_id b)"

definition replay_of :: "net_store \<Rightarrow> batch \<Rightarrow> string \<Rightarrow> json option result" where
  "replay_of st b payload_hash = (case find (same_batch_id b) (ns_batches st) of
     None \<Rightarrow> Inr None
   | Some previous \<Rightarrow> if br_payload_hash previous \<noteq> payload_hash then failure ''network_batch_conflict'' else Inr (Some (br_response previous)))"

definition ingest_batch :: "py \<Rightarrow> store_limits \<Rightarrow> store_io \<Rightarrow> batch \<Rightarrow> string \<Rightarrow> int \<Rightarrow> net_store \<Rightarrow> json result \<times> net_store" where
  "ingest_batch P limits io b payload_hash now st =
     (let stop = (\<lambda>e. (Inl e, st)); fail = (\<lambda>code. (failure code, st)) in
      if \<not> in_bounds 253402300799999999 now then fail ''invalid_network_receive_time''
      else case replay_of st b payload_hash of
        Inl e \<Rightarrow> stop e
      | Inr (Some response) \<Rightarrow> (Inr response, st)
      | Inr None \<Rightarrow>
          if bt_collected_at_us b > now + 300000000 then fail ''network_collection_time_in_future''
          else case io_prepare io of Some code \<Rightarrow> fail code
          | None \<Rightarrow> (case io_begin io of Some code \<Rightarrow> fail code
          | None \<Rightarrow> (case store_batch P limits payload_hash now b st of
              Inl e \<Rightarrow> stop e
            | Inr (response, st') \<Rightarrow> (case io_commit io of Some code \<Rightarrow> fail code | None \<Rightarrow> (Inr response, st')))))"

definition network_ingest :: "py \<Rightarrow> ip_reader \<Rightarrow> store_limits \<Rightarrow> store_io \<Rightarrow> profile \<Rightarrow> json \<Rightarrow> int \<Rightarrow> net_store \<Rightarrow> json result \<times> net_store" where
  "network_ingest P ip limits io p payload now st = (case validate_batch P ip p payload of
     Inl e \<Rightarrow> (Inl e, st)
   | Inr b \<Rightarrow> ingest_batch P limits io b (fingerprint P payload) now st)"

section \<open>Values that agree up to the order of keys\<close>

lemma same_json_field:
  assumes "same_json (JObj r) (JObj q)" "distinct (map fst r)" "distinct (map fst q)"
  shows "same_json (get_field r k) (get_field q k)"
proof -
  have "map_option sort_keys (map_of r k) = map_option sort_keys (map_of q k)"
    using assms unfolding same_json_def by (rule sort_keys_fields)
  then show ?thesis by (cases "map_of r k"; cases "map_of q k") (simp_all add: get_field_def same_json_def)
qed

lemma same_json_lists: "same_json (JList xs) (JList ys) \<Longrightarrow> list_all2 same_json xs ys"
proof -
  assume "same_json (JList xs) (JList ys)"
  then have eq: "map sort_keys xs = map sort_keys ys" by (simp add: same_json_def)
  then have "length xs = length ys" by (metis length_map)
  moreover have "sort_keys (xs ! i) = sort_keys (ys ! i)" if "i < length xs" for i
    using eq that calculation by (metis nth_map)
  ultimately show ?thesis by (simp add: list_all2_conv_all_nth same_json_def)
qed

definition flat :: "json \<Rightarrow> bool" where
  "flat v \<longleftrightarrow> sort_keys v = v"

lemma flat_simps [simp]: "flat JNull" "flat (JStr s)" "flat (JInt i)" "flat (JBool b)" "flat (jstrs xs)" "flat (opt_json JStr c)"
  by (cases c; simp add: flat_def jstrs_def opt_json_def)+

lemma same_json_flat: "same_json u v \<Longrightarrow> flat u \<Longrightarrow> flat v \<Longrightarrow> u = v"
  by (simp add: same_json_def flat_def)

lemma entry_row_distinct: "distinct (map fst (entry_row x))"
  by (cases x) (simp_all add: event_row_keys rejection_row_keys fields_distinct)

lemma entry_fields [simp]:
  "get_field (entry_row x) ''event_id'' = JStr (entry_event_id x)"
  "get_field (entry_row x) ''content_hash'' = JStr (entry_content_hash x)"
  by (cases x; simp add: event_row_def rejection_row_def)+

lemma entry_code_reject: "entry_code x = opt_json JStr (entry_reject_code x)"
  by (cases x) (simp_all add: opt_json_def)

definition entry_view :: "transport_entry \<Rightarrow> string \<times> string \<times> string \<times> string option" where
  "entry_view x = (entry_kind x, entry_event_id x, entry_content_hash x, entry_reject_code x)"

lemma same_row_view:
  assumes "same_json (JObj (entry_row x)) (JObj (entry_row y))" "entry_kind x = entry_kind y"
  shows "entry_view x = entry_view y"
proof -
  have field: "same_json (get_field (entry_row x) k) (get_field (entry_row y) k)" for k
    using assms(1) entry_row_distinct entry_row_distinct by (rule same_json_field)
  have "entry_event_id x = entry_event_id y" "entry_content_hash x = entry_content_hash y"
    using field [of "''event_id''"] field [of "''content_hash''"] by (auto dest: same_json_flat)
  moreover have "entry_reject_code x = entry_reject_code y"
    using field [of "''code''"] assms(2) by (cases x; cases y) (auto simp: rejection_row_def dest: same_json_flat)
  ultimately show ?thesis using assms(2) by (simp add: entry_view_def)
qed

lemma same_record_view: "same_json (record_json x) (record_json y) \<Longrightarrow> entry_view x = entry_view y"
proof -
  assume same: "same_json (record_json x) (record_json y)"
  have field: "same_json (get_field [(''kind'', JStr (entry_kind x)), (''record'', JObj (entry_row x))] k)
      (get_field [(''kind'', JStr (entry_kind y)), (''record'', JObj (entry_row y))] k)" for k
    using same unfolding record_json_def by (rule same_json_field) simp_all
  have "entry_kind x = entry_kind y" using field [of "''kind''"] by (auto dest: same_json_flat)
  moreover have "same_json (JObj (entry_row x)) (JObj (entry_row y))" using field [of "''record''"] by simp
  ultimately show ?thesis by (rule same_row_view [rotated])
qed

lemma same_entry_view: "same_json (entry_json x) (entry_json y) \<Longrightarrow> entry_view x = entry_view y"
proof -
  assume same: "same_json (entry_json x) (entry_json y)"
  then have "entry_kind x = entry_kind y" "same_json (JObj (entry_row x)) (JObj (entry_row y))"
    by (simp_all add: entry_json_def same_json_def)
  then show ?thesis by (rule same_row_view [rotated])
qed

lemma entry_statuses_kind: "entry_statuses x = (if entry_kind x = ''event'' then [''accepted'', ''duplicate''] else [''rejected'', ''duplicate''])"
  by (cases x) (simp_all add: entry_statuses_def)

lemma result_ok_view: "entry_view x = entry_view y \<Longrightarrow> result_ok x result = result_ok y result"
  by (cases result) (simp_all add: result_ok_def entry_code_reject entry_statuses_kind entry_view_def)

lemma count_results_view:
  "list_all2 (\<lambda>x y. entry_view x = entry_view y) xs ys \<Longrightarrow> count_results (zip rs xs) c = count_results (zip rs ys) c"
proof (induction xs ys arbitrary: rs c rule: list_all2_induct)
  case step: (Cons x xs y ys)
  show ?case
  proof (cases rs)
    case (Cons r rs')
    show ?thesis by (simp add: Cons step.IH result_ok_view [OF step.hyps(1), of r] Let_def fun_upd_def)
  qed simp
qed simp

lemma echoed_list: "echoed_fields = [''version'', ''source_id'', ''profile_revision'', ''batch_id'', ''collected_at_us'', ''cursor_before'',
    ''cursor_after'', ''reports'', ''caught_up'']"
  by (simp add: echoed_fields_def BATCH_FIELDS_def)

lemma echoed_flat: "k \<in> set echoed_fields \<Longrightarrow> flat (get_field (batch_row b) k)"
proof -
  have "list_all (\<lambda>k. flat (get_field (batch_row b) k)) echoed_fields" by (simp add: echoed_list batch_row_def)
  then show "k \<in> set echoed_fields \<Longrightarrow> flat (get_field (batch_row b) k)" by (simp add: list_all_iff)
qed

text \<open>An acknowledgement is judged the same for batches that agree up to the order of keys.\<close>

lemma validate_ack_same:
  assumes "same_json (batch_json b) (batch_json b')"
  shows "validate_ack P ack b = validate_ack P ack b'"
proof -
  have field: "same_json (get_field (batch_row b) k) (get_field (batch_row b') k)" for k
    using assms unfolding batch_json_def by (rule same_json_field) (simp_all add: batch_row_keys fields_distinct)
  have echoed: "get_field (batch_row b) k = get_field (batch_row b') k" if "k \<in> set echoed_fields" for k
    using field that echoed_flat by (auto intro: same_json_flat)
  have "list_all2 same_json (map entry_json (bt_entries b)) (map entry_json (bt_entries b'))"
    using field [of "''entries''"] same_json_lists by (simp add: batch_row_def)
  then have views: "list_all2 (\<lambda>x y. entry_view x = entry_view y) (bt_entries b) (bt_entries b')"
    by (auto simp: list_all2_map1 list_all2_map2 elim!: list_all2_mono intro: same_entry_view)
  have "fingerprint P (batch_json b) = fingerprint P (batch_json b')" using encode_same [OF assms] by (simp add: fingerprint_def)
  moreover have "list_all (\<lambda>k. get_field r k = get_field (batch_row b) k) echoed_fields =
      list_all (\<lambda>k. get_field r k = get_field (batch_row b') k) echoed_fields" for r
    using echoed by (auto simp: list_all_iff)
  ultimately show ?thesis
    by (simp only: validate_ack_def list_all2_lengthD [OF views] count_results_view [OF views])
qed

section \<open>The response to a stored batch is accepted\<close>

definition count_label :: "string \<Rightarrow> string" where
  "count_label status = (if status = ''duplicate'' then ''duplicates'' else status)"

definition label_count :: "string \<Rightarrow> string list \<Rightarrow> int" where
  "label_count k ss = int (length (filter (\<lambda>s. count_label s = k) ss))"

lemma label_count_simps [simp]:
  "label_count k [] = 0" "label_count k (s # ss) = (if count_label s = k then 1 else 0) + label_count k ss"
  by (simp_all add: label_count_def)

lemma count_results_sum:
  assumes "list_all2 (\<lambda>j xs. result_ok (fst xs) j \<and> status_of j = snd xs) rs (zip xs ss)" "length xs = length ss"
  shows "count_results (zip rs xs) c = Inr (\<lambda>k. c k + label_count k ss)"
  using assms
proof (induction rs arbitrary: xs ss c)
  case (Cons j rs)
  then obtain x xs' s ss' where xs: "xs = x # xs'" "ss = s # ss'" by (cases xs; cases ss) auto
  with Cons.prems have j: "result_ok x j" "status_of j = s"
    and rest: "list_all2 (\<lambda>j xs. result_ok (fst xs) j \<and> status_of j = snd xs) rs (zip xs' ss')" "length xs' = length ss'" by simp_all
  have "count_results (zip (j # rs) xs) c = count_results (zip rs xs') (c(count_label s := c (count_label s) + 1))"
    using j by (simp add: xs count_label_def Let_def)
  also have "\<dots> = Inr (\<lambda>k. (c(count_label s := c (count_label s) + 1)) k + label_count k ss')" by (rule Cons.IH [OF rest])
  also have "\<dots> = Inr (\<lambda>k. c k + label_count k ss)" by (simp add: xs) (rule ext, simp)
  finally show ?case .
qed (cases xs; cases ss; auto)

lemma sort_keys_obj:
  assumes "distinct (map fst r)"
  obtains q where "sort_keys (JObj r) = JObj q" and "set (map fst q) = set (map fst r)" and "\<forall>k. get_field q k = sort_keys (get_field r k)"
proof
  let ?f = "\<lambda>(k, v). (k, sort_keys v)"
  have fsts: "map fst (map ?f r) = map fst r" by (rule map_fst_sort_keys)
  show "sort_keys (JObj r) = JObj (sort_key fst (map ?f r))" by simp
  have "set (map fst (sort_key fst (map ?f r))) = set (map fst (map ?f r))" by (simp only: set_map set_sort)
  then show "set (map fst (sort_key fst (map ?f r))) = set (map fst r)" by (simp only: fsts)
  have "map_of (sort_key fst (map ?f r)) = map_of (map ?f r)" using assms by (intro map_of_sort_key) (simp only: fsts)
  then show "\<forall>k. get_field (sort_key fst (map ?f r)) k = sort_keys (get_field r k)"
    by (simp add: get_field_def map_of_map_sort_keys split: option.split)
qed

lemma result_json_ok:
  assumes "status \<in> set (entry_statuses x)" "j = result_json x status (entry_reject_code x) \<or> j = sort_keys (result_json x status (entry_reject_code x))"
  shows "result_ok x j" and "status_of j = status"
proof -
  define r where "r = [(''event_id'', JStr (entry_event_id x)), (''content_hash'', JStr (entry_content_hash x)),
     (''status'', JStr status), (''code'', opt_json JStr (entry_reject_code x))]"
  have "distinct (map fst r)" by (simp add: r_def)
  then obtain q where q: "sort_keys (JObj r) = JObj q" "set (map fst q) = set (map fst r)" "\<forall>k. get_field q k = sort_keys (get_field r k)"
    by (rule sort_keys_obj)
  have flat: "sort_keys (opt_json JStr (entry_reject_code x)) = opt_json JStr (entry_reject_code x)" using flat_simps(6) unfolding flat_def .
  from assms(2) q(1) have "j = JObj r \<or> j = JObj q" by (simp add: result_json_def r_def)
  then obtain s where s: "j = JObj s" "keys_are s [''event_id'', ''content_hash'', ''status'', ''code'']"
    "get_field s ''event_id'' = JStr (entry_event_id x)" "get_field s ''content_hash'' = JStr (entry_content_hash x)"
    "get_field s ''status'' = JStr status" "get_field s ''code'' = opt_json JStr (entry_reject_code x)"
    using q(2,3) flat by (elim disjE) (simp_all add: r_def keys_are_def)
  then show "result_ok x j" "status_of j = status"
    using assms(1) by (simp_all add: result_ok_def entry_code_reject status_of_def)
qed

text \<open>What the loop over the entries leaves in its tally: one result per entry, with the statuses \<open>ss\<close>.\<close>

definition tallied :: "transport_entry list \<Rightarrow> string list \<Rightarrow> tally \<Rightarrow> tally \<Rightarrow> bool" where
  "tallied xs ss t t' \<longleftrightarrow> list_all2 (\<lambda>x s. s \<in> set (entry_statuses x)) xs ss \<and>
     ty_results t' = ty_results t @ map (\<lambda>(x, s). result_json x s (entry_reject_code x)) (zip xs ss) \<and>
     ty_accepted t' = ty_accepted t + label_count ''accepted'' ss \<and> ty_rejected t' = ty_rejected t + label_count ''rejected'' ss \<and>
     ty_duplicates t' = ty_duplicates t + label_count ''duplicates'' ss"

lemma response_keys: "set (map fst (response_row h now b t)) = set ack_fields" "distinct (map fst (response_row h now b t))"
proof -
  have keys: "map fst (response_row h now b t) = [''version'', ''source_id'', ''profile_revision'', ''batch_id'', ''payload_hash'', ''durable'',
      ''cursor_before'', ''cursor_after'', ''collected_at_us'', ''received_at_us'', ''results'', ''reports'', ''caught_up'', ''accepted'',
      ''rejected'', ''duplicates'']"
    by (simp add: response_row_def)
  show "set (map fst (response_row h now b t)) = set ack_fields" unfolding keys by code_simp
  show "distinct (map fst (response_row h now b t))" unfolding keys by code_simp
qed

lemma response_accepted:
  assumes t: "tallied (bt_entries b) ss no_tally t" and h: "h = fingerprint P (batch_json b)" and now: "in_bounds MAX_REALTIME_US now"
    and ack: "ack = JObj (response_row h now b t) \<or> ack = sort_keys (JObj (response_row h now b t))"
  shows "validate_ack P ack b = Inr ()"
proof -
  let ?r = "response_row h now b t"
  obtain q where q: "sort_keys (JObj ?r) = JObj q" "set (map fst q) = set (map fst ?r)" "\<forall>k. get_field q k = sort_keys (get_field ?r k)"
    using response_keys(2) by (rule sort_keys_obj)
  have echoed: "get_field ?r k = get_field (batch_row b) k" if "k \<in> set echoed_fields" for k
  proof -
    have "list_all (\<lambda>k. get_field ?r k = get_field (batch_row b) k) echoed_fields" by (simp add: echoed_list response_row_def batch_row_def)
    with that show ?thesis by (simp add: list_all_iff)
  qed
  have sorted: "sort_keys (get_field (batch_row b) k) = get_field (batch_row b) k" if "k \<in> set echoed_fields" for k
    using echoed_flat [OF that] by (simp add: flat_def)
  from ack q(1) have "ack = JObj ?r \<or> ack = JObj q" by simp
  then obtain s where s: "ack = JObj s" "keys_are s ack_fields" "\<forall>k \<in> set echoed_fields. get_field s k = get_field (batch_row b) k"
    "get_field s ''durable'' = JBool True" "get_field s ''payload_hash'' = JStr h" "get_field s ''received_at_us'' = JInt now"
    "get_field s ''accepted'' = JInt (ty_accepted t)" "get_field s ''rejected'' = JInt (ty_rejected t)"
    "get_field s ''duplicates'' = JInt (ty_duplicates t)"
    "get_field s ''results'' = JList (ty_results t) \<or> get_field s ''results'' = JList (map sort_keys (ty_results t))"
    using q(2,3) response_keys(1) [of h now b t] echoed sorted
    by (elim disjE) (simp_all add: keys_are_def, simp_all add: response_row_def)
  have lengths: "length (bt_entries b) = length ss" using t by (auto simp: tallied_def dest: list_all2_lengthD)
  have results: "ty_results t = map (\<lambda>(x, s). result_json x s (entry_reject_code x)) (zip (bt_entries b) ss)"
    using t by (simp add: tallied_def no_tally_def)
  have "list_all2 (\<lambda>j xs. result_ok (fst xs) j \<and> status_of j = snd xs) rs (zip (bt_entries b) ss)"
    if rs: "rs = ty_results t \<or> rs = map sort_keys (ty_results t)" for rs
  proof (rule list_all2_all_nthI)
    show "length rs = length (zip (bt_entries b) ss)" using rs by (auto simp: results)
    fix i assume i: "i < length rs"
    then have len: "i < length (bt_entries b)" "i < length ss" using rs lengths by (auto simp: results)
    then have "ss ! i \<in> set (entry_statuses (bt_entries b ! i))" using t by (auto simp: tallied_def dest: list_all2_nthD)
    from result_json_ok [OF this, of "rs ! i"] show "result_ok (fst (zip (bt_entries b) ss ! i)) (rs ! i) \<and> status_of (rs ! i) = snd (zip (bt_entries b) ss ! i)"
      using rs len by (auto simp: results)
  qed
  note counted = count_results_sum [OF this lengths]
  obtain rs where rs: "get_field s ''results'' = JList rs" "rs = ty_results t \<or> rs = map sort_keys (ty_results t)" using s(10) by blast
  then have "length rs = length (bt_entries b)" using lengths by (auto simp: results)
  with rs s h now counted [OF rs(2), of "\<lambda>k. 0"] t show ?thesis
    by (simp add: validate_ack_def list_all_iff check_number_def tallied_def no_tally_def)
qed

section \<open>What the tables promise\<close>

definition receipts_ok :: "py \<Rightarrow> net_store \<Rightarrow> bool" where
  "receipts_ok P st \<longleftrightarrow> (\<forall>(k, r) \<in> set (ns_receipts st). \<exists>x. rr_record_hash r = fingerprint P (record_json x) \<and> rr_code r = entry_reject_code x)"

definition batches_ok :: "py \<Rightarrow> net_store \<Rightarrow> bool" where
  "batches_ok P st \<longleftrightarrow> (\<forall>row \<in> set (ns_batches st). \<exists>b. br_payload_hash row = fingerprint P (batch_json b) \<and>
     validate_ack P (br_response row) b = Inr ()) \<and> (\<forall>row \<in> set (ns_batches st). wf_json (br_response row))"

definition store_ok :: "py \<Rightarrow> net_store \<Rightarrow> bool" where
  "store_ok P st \<longleftrightarrow> receipts_ok P st \<and> batches_ok P st"

lemma wf_atoms [simp]: "wf_json (jstrs xs)" "wf_json (opt_json JStr c)" "wf_json (opt_json (JInt \<circ> int) n)"
  "wf_json (opt_json (\<lambda>fs. jstrs (sorted_set fs)) f)"
  by (cases c; cases n; cases f; simp add: jstrs_def opt_json_def list_all_iff)+

lemma wf_entry: "wf_json (JObj (entry_row x))"
  using entry_row_distinct [of x] by (cases x) (simp_all add: event_row_def rejection_row_def)

lemma wf_record_json: "wf_json (record_json x)"
  using wf_entry [of x] by (simp add: record_json_def)

lemma wf_batch_json: "wf_json (batch_json b)"
proof -
  have "list_all wf_json (map entry_json (bt_entries b))" using wf_entry by (auto simp: list_all_iff entry_json_def)
  moreover have "distinct (map fst (batch_row b))" by (simp add: batch_row_keys fields_distinct)
  ultimately show ?thesis by (simp add: batch_json_def) (simp add: batch_row_def)
qed

lemma same_record_code:
  "fingerprint P (record_json x) = fingerprint P (record_json y) \<Longrightarrow> \<not> digest_collision P \<Longrightarrow> entry_reject_code x = entry_reject_code y"
  using same_record_view fingerprint_inject wf_record_json by (fastforce simp: entry_view_def)

lemma insert_event_tables [simp]:
  "ns_receipts (insert_event now b x st) = ns_receipts st" "ns_batches (insert_event now b x st) = ns_batches st"
  "ns_sources (insert_event now b x st) = ns_sources st"
  by (simp_all add: insert_event_def split: transport_entry.split)

lemma expire_events_tables [simp]:
  "ns_receipts (expire_events limits now st) = ns_receipts st" "ns_batches (expire_events limits now st) = ns_batches st"
  "ns_sources (expire_events limits now st) = ns_sources st"
  by (simp_all add: expire_events_def Let_def)

lemma tallied_append: "tallied xs ss t t1 \<Longrightarrow> tallied ys rs t1 t2 \<Longrightarrow> tallied (xs @ ys) (ss @ rs) t t2"
  by (auto simp: tallied_def label_count_def list_all2_lengthD intro: list_all2_appendI)

lemma entry_kind_cases: "entry_kind x = ''event'' \<and> entry_statuses x = [''accepted'', ''duplicate''] \<or>
    entry_kind x = ''rejection'' \<and> entry_statuses x = [''rejected'', ''duplicate'']"
  by (cases x) (simp_all add: entry_statuses_def)

lemma store_entry_ok:
  assumes step: "store_entry P limits now b x (st, t) = Inr (st', t')" and ok: "receipts_ok P st" and c: "\<not> digest_collision P"
  shows "receipts_ok P st'" and "\<exists>s. tallied [x] [s] t t'" and "ns_batches st' = ns_batches st" and "ns_sources st' = ns_sources st"
    and "map_of (ns_receipts st') (bt_source_id b, entry_event_id x) \<noteq> None" and "\<exists>new. ns_receipts st' = ns_receipts st @ new"
proof -
  let ?k = "(bt_source_id b, entry_event_id x)"
  have "receipts_ok P st' \<and> (\<exists>s. tallied [x] [s] t t') \<and> ns_batches st' = ns_batches st \<and> ns_sources st' = ns_sources st \<and>
    map_of (ns_receipts st') ?k \<noteq> None \<and> (\<exists>new. ns_receipts st' = ns_receipts st @ new)"
  proof (cases "map_of (ns_receipts st) ?k")
    case (Some previous)
    then have hash: "rr_record_hash previous = fingerprint P (record_json x)" and st: "st' = st"
      and t': "t' = t\<lparr>ty_results := ty_results t @ [result_json x ''duplicate'' (rr_code previous)], ty_duplicates := ty_duplicates t + 1\<rparr>"
      using step by (auto simp: store_entry_def failure_def Let_def split: if_splits)
    obtain y where y: "rr_record_hash previous = fingerprint P (record_json y)" "rr_code previous = entry_reject_code y"
      using ok map_of_SomeD [OF Some] by (auto simp: receipts_ok_def)
    then have "rr_code previous = entry_reject_code x" using hash same_record_code c by metis
    then have "tallied [x] [''duplicate''] t t'"
      using entry_kind_cases [of x] by (auto simp: tallied_def t' count_label_def)
    with Some st ok show ?thesis by auto
  next
    case None
    define status where "status = (if entry_kind x = ''event'' then ''accepted'' else ''rejected'')"
    from None step have st: "st' = insert_event now b x (st\<lparr>ns_receipts := ns_receipts st @ [(?k, new_receipt P now b x)]\<rparr>)"
      and t': "t' = t\<lparr>ty_results := ty_results t @ [result_json x status (entry_reject_code x)],
        ty_accepted := ty_accepted t + (if entry_kind x = ''event'' then 1 else 0),
        ty_rejected := ty_rejected t + (if entry_kind x = ''event'' then 0 else 1)\<rparr>"
      by (auto simp: store_entry_def failure_def Let_def status_def split: if_splits)
    have "tallied [x] [status] t t'" using entry_kind_cases [of x] by (auto simp: tallied_def t' count_label_def status_def)
    moreover have "receipts_ok P st'" using ok by (auto simp: receipts_ok_def st new_receipt_def)
    ultimately show ?thesis by (auto simp: st)
  qed
  then show "receipts_ok P st'" "\<exists>s. tallied [x] [s] t t'" "ns_batches st' = ns_batches st" "ns_sources st' = ns_sources st"
    "map_of (ns_receipts st') ?k \<noteq> None" "\<exists>new. ns_receipts st' = ns_receipts st @ new" by blast+
qed

lemma map_of_extended: "map_of xs k \<noteq> None \<Longrightarrow> map_of (xs @ ys) k = map_of xs k"
  by (auto simp: map_of_append map_add_def split: option.splits)

definition receipted :: "batch \<Rightarrow> transport_entry list \<Rightarrow> net_store \<Rightarrow> bool" where
  "receipted b xs st \<longleftrightarrow> (\<forall>x \<in> set xs. map_of (ns_receipts st) (bt_source_id b, entry_event_id x) \<noteq> None)"

lemma store_entries_ok:
  assumes "store_entries P limits now b xs (st, t) = Inr (st', t')" and "receipts_ok P st" and c: "\<not> digest_collision P"
  shows "receipts_ok P st' \<and> (\<exists>ss. tallied xs ss t t') \<and> ns_batches st' = ns_batches st \<and> ns_sources st' = ns_sources st \<and>
    receipted b xs st' \<and> (\<exists>new. ns_receipts st' = ns_receipts st @ new)"
  using assms(1,2)
proof (induction xs arbitrary: st t)
  case Nil
  then have "tallied [] [] t t'" by (simp add: tallied_def)
  with Nil show ?case by (auto simp: receipted_def)
next
  case (Cons x xs)
  from Cons.prems(1) obtain st1 t1 where step: "store_entry P limits now b x (st, t) = Inr (st1, t1)"
    and rest: "store_entries P limits now b xs (st1, t1) = Inr (st', t')"
    by (auto elim!: and_then_InrE)
  note one = store_entry_ok [OF step Cons.prems(2) c]
  obtain ss new where many: "receipts_ok P st'" "tallied xs ss t1 t'" "ns_batches st' = ns_batches st1" "ns_sources st' = ns_sources st1"
    "receipted b xs st'" "ns_receipts st' = ns_receipts st1 @ new"
    using Cons.IH [OF rest one(1)] by blast
  obtain s where "tallied [x] [s] t t1" using one(2) by blast
  from tallied_append [OF this many(2)] have "tallied (x # xs) (s # ss) t t'" by simp
  moreover have "receipted b (x # xs) st'" using many(5) map_of_extended [OF one(5), of new] one(5) by (simp add: receipted_def many(6))
  moreover obtain new' where "ns_receipts st1 = ns_receipts st @ new'" using one(6) by blast
  then have "\<exists>new. ns_receipts st' = ns_receipts st @ new" by (simp add: many(6))
  ultimately show ?case using many one(3,4) by auto
qed

lemma response_wf:
  assumes "tallied xs ss no_tally t"
  shows "wf_json (JObj (response_row h now b t))"
proof -
  have "wf_json (result_json x s code)" for x s code by (simp add: result_json_def)
  then have "list_all wf_json (ty_results t)" using assms by (auto simp: tallied_def no_tally_def list_all_iff)
  moreover have "distinct (map fst (response_row h now b t))" by (rule response_keys(2))
  ultimately show ?thesis by simp (simp add: response_row_def)
qed

lemma store_batch_ok:
  assumes step: "store_batch P limits h now b st = Inr (response, st')" and h: "h = fingerprint P (batch_json b)"
    and now: "in_bounds MAX_REALTIME_US now" and ok: "store_ok P st" and c: "\<not> digest_collision P"
  shows "validate_ack P response b = Inr ()" and "store_ok P st'" and "checkpoint_of st' (bt_source_id b) = bt_cursor_after b"
    and "\<And>s. s \<noteq> bt_source_id b \<Longrightarrow> checkpoint_of st' s = checkpoint_of st s"
    and "bt_cursor_before b = checkpoint_of st (bt_source_id b)"
    and "ns_batches st' = ns_batches st @ [\<lparr>br_source_id = bt_source_id b, br_batch_id = bt_batch_id b, br_payload_hash = h,
      br_received_at_us = now, br_response = sort_keys response\<rparr>]"
    and "receipted b (bt_entries b) st'" and "\<exists>new. ns_receipts st' = ns_receipts st @ new"
proof -
  from step obtain st1 t where cursor: "bt_cursor_before b = checkpoint_of st (bt_source_id b)"
    and loop: "store_entries P limits now b (bt_entries b) (expire_events limits now st, no_tally) = Inr (st1, t)"
    and response: "response = JObj (response_row h now b t)"
    and st': "st' = st1\<lparr>ns_batches := ns_batches st1 @ [\<lparr>br_source_id = bt_source_id b, br_batch_id = bt_batch_id b, br_payload_hash = h,
        br_received_at_us = now, br_response = sort_keys response\<rparr>],
      ns_sources := upsert_source now b t (sort_keys response) (ns_sources st1)\<rparr>"
    by (auto simp: store_batch_def failure_def Let_def split: if_split_asm elim!: and_then_InrE)
  have "receipts_ok P (expire_events limits now st)" using ok by (simp add: store_ok_def receipts_ok_def)
  from store_entries_ok [OF loop this c] obtain ss new where many: "receipts_ok P st1" "tallied (bt_entries b) ss no_tally t"
    "ns_batches st1 = ns_batches st" "ns_sources st1 = ns_sources st" "receipted b (bt_entries b) st1" "ns_receipts st1 = ns_receipts st @ new"
    by auto
  show ack: "validate_ack P response b = Inr ()" by (rule response_accepted [OF many(2) h now]) (simp add: response)
  have stored: "validate_ack P (sort_keys response) b = Inr ()" by (rule response_accepted [OF many(2) h now]) (simp add: response)
  show batches: "ns_batches st' = ns_batches st @ [\<lparr>br_source_id = bt_source_id b, br_batch_id = bt_batch_id b, br_payload_hash = h,
      br_received_at_us = now, br_response = sort_keys response\<rparr>]"
    by (simp add: st' many(3))
  have "wf_json (sort_keys response)" using response_wf [OF many(2)] by (simp only: response wf_json_sort_keys)
  then have "batches_ok P st'" using ok stored h unfolding store_ok_def batches_ok_def batches by auto
  moreover have "receipts_ok P st'" using many(1) by (simp add: receipts_ok_def st')
  ultimately show "store_ok P st'" by (simp add: store_ok_def)
  show "checkpoint_of st' (bt_source_id b) = bt_cursor_after b"
    by (simp add: checkpoint_of_def st' upsert_source_def split: option.split)
  show "checkpoint_of st' s = checkpoint_of st s" if "s \<noteq> bt_source_id b" for s
    using that by (simp add: checkpoint_of_def st' upsert_source_def many(4))
  show "bt_cursor_before b = checkpoint_of st (bt_source_id b)" by (rule cursor)
  show "receipted b (bt_entries b) st'" using many(5) by (simp add: receipted_def st')
  show "\<exists>new. ns_receipts st' = ns_receipts st @ new" using many(6) by (simp add: st')
qed

section \<open>Ingestion, also repeated\<close>

lemma ingest_batch_cases:
  assumes "ingest_batch P limits io b h now st = (result, st')"
  obtains (failed) e where "result = Inl e" and "st' = st"
  | (replayed) row where "find (same_batch_id b) (ns_batches st) = Some row" and "br_payload_hash row = h"
      and "result = Inr (br_response row)" and "st' = st"
  | (stored) response where "find (same_batch_id b) (ns_batches st) = None" and "in_bounds MAX_REALTIME_US now"
      and "store_batch P limits h now b st = Inr (response, st')" and "result = Inr response"
proof -
  note defs = ingest_batch_def replay_of_def failure_def MAX_REALTIME_US_def
  show thesis
  proof (cases "in_bounds 253402300799999999 now")
    case False
    with assms show thesis by (intro failed) (auto simp: defs)
  next
    case now: True
    show thesis
    proof (cases "find (same_batch_id b) (ns_batches st)")
      case (Some row)
      show thesis
      proof (cases "br_payload_hash row = h")
        case True
        with Some now assms show thesis by (intro replayed) (auto simp: defs)
      next
        case False
        with Some now assms show thesis by (intro failed) (auto simp: defs)
      qed
    next
      case None
      show thesis
      proof (cases "bt_collected_at_us b > now + 300000000 \<or> io_prepare io \<noteq> None \<or> io_begin io \<noteq> None \<or> io_commit io \<noteq> None")
        case True
        then have "\<exists>e. result = Inl e \<and> st' = st"
          using None now assms by (cases "store_batch P limits h now b st") (auto simp: defs Let_def split: option.splits if_splits)
        with failed show thesis by blast
      next
        case False
        then have "(result, st') = (case store_batch P limits h now b st of Inl e \<Rightarrow> (Inl e, st) | Inr (response, st') \<Rightarrow> (Inr response, st'))"
          using None now assms by (cases "store_batch P limits h now b st") (auto simp: defs split: prod.splits)
        then show thesis
          using failed stored [OF None] now by (cases "store_batch P limits h now b st") (auto simp: MAX_REALTIME_US_def split: prod.splits)
      qed
    qed
  qed
qed

lemma replayed_ack:
  assumes ok: "store_ok P st" and c: "\<not> digest_collision P" and row: "find (same_batch_id b) (ns_batches st) = Some row"
    "br_payload_hash row = fingerprint P (batch_json b)"
  shows "validate_ack P (br_response row) b = Inr ()"
proof -
  have "row \<in> set (ns_batches st)" using row(1) by (metis find_Some_iff nth_mem)
  then obtain b' where b': "br_payload_hash row = fingerprint P (batch_json b')" "validate_ack P (br_response row) b' = Inr ()"
    using ok by (auto simp: store_ok_def batches_ok_def)
  then have "same_json (batch_json b') (batch_json b)" using row(2) fingerprint_inject wf_batch_json c by metis
  with b'(2) show ?thesis using validate_ack_same by metis
qed

lemma ingest_batch_ok:
  assumes step: "ingest_batch P limits io b (fingerprint P (batch_json b)) now st = (result, st')"
    and ok: "store_ok P st" and c: "\<not> digest_collision P"
  shows "store_ok P st'" and "\<And>response. result = Inr response \<Longrightarrow> validate_ack P response b = Inr ()"
    and "\<And>e. result = Inl e \<Longrightarrow> st' = st"
  using step
  by (cases rule: ingest_batch_cases; use ok c replayed_ack store_batch_ok in blast)+

text \<open>
  C15: whatever the platform answers to a delivered batch, the collector accepts: every response of \<open>network_ingest\<close>, also one that repeats the
  answer to an earlier delivery and one with duplicates among the entries, passes \<open>validate_ack\<close> for that batch, unless SHA-256 has a
  collision. The tables keep what this rests on, and a delivery that raises leaves them as they were.
\<close>

theorem ingest_answer_is_accepted:
  assumes "wf_json payload" and "\<not> digest_collision P" and "store_ok P st" and "validate_batch P ip p payload = Inr b"
    and "network_ingest P ip limits io p payload now st = (result, st')"
  shows "store_ok P st' \<and> (case result of Inr response \<Rightarrow> validate_ack P response b = Inr () | Inl e \<Rightarrow> st' = st)"
proof -
  have "fingerprint P payload = fingerprint P (batch_json b)"
    using validate_batch_same(1) [OF assms(4,1)] encode_same by (simp add: fingerprint_def)
  then have step: "ingest_batch P limits io b (fingerprint P (batch_json b)) now st = (result, st')"
    using assms(4,5) by (simp add: network_ingest_def)
  show ?thesis using ingest_batch_ok [OF step assms(3,2)] by (auto split: sum.split)
qed

text \<open>A runtime without collisions, and a batch with one rejection that it lets pass.\<close>

definition clear_text :: string where
  "clear_text = encode (JObj [(''source_id'', JStr ''s1''), (''boot_id'', JStr (replicate 32 (CHR ''b''))), (''journal_cursor'', JStr ''c'')])"

definition clear_py :: py where
  "clear_py = \<lparr>hexdigest = (\<lambda>s. if s = clear_text then replicate 64 (CHR ''a'') else CHR ''z'' # s), fromisoformat = (\<lambda>s. None),
     repr_float = (\<lambda>q. []), trunc_float = (\<lambda>s. None)\<rparr>"

definition clear_batch :: batch where
  "clear_batch = \<lparr>bt_source_id = ''s1'', bt_profile_revision = digest_of clear_py (JObj (profile_payload sample_profile)),
     bt_batch_id = ''b1'', bt_collected_at_us = 20, bt_cursor_before = None, bt_cursor_after = Some ''c'',
     bt_entries = [Rejected \<lparr>rj_event_id = replicate 64 (CHR ''a''), rj_content_hash = replicate 64 (CHR ''a''),
       rj_boot_id = replicate 32 (CHR ''b''), rj_journal_cursor = ''c'', rj_journal_realtime_us = 12, rj_journal_monotonic_us = 3,
       rj_code = ''invalid_record''\<rparr>],
     bt_reports = [''coverage_start''], bt_caught_up = True\<rparr>"

definition small_limits :: store_limits where
  "small_limits = \<lparr>sl_retention_days = 14, sl_max_receipts = 9, sl_max_batches = 9\<rparr>"

definition calm_io :: store_io where
  "calm_io = \<lparr>io_prepare = None, io_begin = None, io_commit = None\<rparr>"

lemma clear_no_collision: "\<not> digest_collision clear_py"
proof -
  have neq: "replicate 64 (CHR ''a'') \<noteq> CHR ''z'' # s" for s
  proof
    assume "replicate 64 (CHR ''a'') = CHR ''z'' # s"
    then have "hd (replicate 64 (CHR ''a'')) = CHR ''z''" by simp
    then show False by simp
  qed
  have "a = b" if eq: "hexdigest clear_py a = hexdigest clear_py b" for a b
    using eq neq [of a] neq [of b] by (cases "a = clear_text"; cases "b = clear_text") (auto simp: clear_py_def)
  then show ?thesis by (auto simp: digest_collision_def)
qed

lemma new_store_ok: "store_ok P new_store"
  by (simp add: store_ok_def receipts_ok_def batches_ok_def new_store_def)

lemma clear_batch_accepted:
  "wf_json (JObj (rev (batch_row clear_batch)))"
  "is_ok (fst (network_ingest clear_py two_hosts small_limits calm_io sample_profile (JObj (rev (batch_row clear_batch))) 30 new_store))"
  by code_simp+

theorem ingest_answer_is_accepted_witness:
  "\<exists>b response st. network_ingest clear_py two_hosts small_limits calm_io sample_profile (JObj (rev (batch_row clear_batch))) 30 new_store = (Inr response, st) \<and>
     validate_batch clear_py two_hosts sample_profile (JObj (rev (batch_row clear_batch))) = Inr b \<and> validate_ack clear_py response b = Inr ()"
proof -
  obtain b where b: "validate_batch clear_py two_hosts sample_profile (JObj (rev (batch_row clear_batch))) = Inr b"
    using clear_batch_accepted(2) unfolding network_ingest_def by (cases "validate_batch clear_py two_hosts sample_profile (JObj (rev (batch_row clear_batch)))") simp_all
  obtain response st where i: "network_ingest clear_py two_hosts small_limits calm_io sample_profile (JObj (rev (batch_row clear_batch))) 30 new_store
      = (Inr response, st)"
    using clear_batch_accepted(2)
    by (cases "network_ingest clear_py two_hosts small_limits calm_io sample_profile (JObj (rev (batch_row clear_batch))) 30 new_store")
      (auto simp: is_ok_def split: sum.splits)
  from ingest_answer_is_accepted [OF clear_batch_accepted(1) clear_no_collision new_store_ok b i] i b show ?thesis by auto
qed

end
