(* ===== verification/Network_Ack.thy ===== *)
theory Network_Ack
  imports Network_Export Network_Store
begin

text \<open>
  What the collector reads of an answer (\<open>post_batch\<close> of \<open>scripts/telemetry_collector.py\<close>): at most 65536 bytes. Every acknowledgement it
  would accept is shorter, so this limit never turns an acknowledged page into a failure. An answer is a JSON value here and
  measured as the compact ASCII text of it; the code counts the bytes it received.
\<close>

definition MAX_ACK_BYTES :: int where "MAX_ACK_BYTES = 65536"

definition read_answer :: "json \<Rightarrow> json result" where
  "read_answer response = (if byte_count (encode response) > MAX_ACK_BYTES then failure ''invalid_ack'' else Inr response)"

section \<open>The size of a text\<close>

lemma length_printable: "is_printable c \<Longrightarrow> length (to_ascii (esc c)) \<le> 2"
  by (auto simp: is_printable_def esc_def Let_def ascii_escape_plain)

lemma enc_size_printable: "list_all is_printable s \<Longrightarrow> enc_size (JStr s) \<le> 2 + 2 * length s"
proof -
  assume "list_all is_printable s"
  then have "length (to_ascii (concat (map esc s))) \<le> 2 * length s"
  proof (induction s)
    case (Cons ch s)
    then show ?case using length_printable [of ch] by simp
  qed simp
  then show ?thesis by (simp add: enc_size_alt quote_def ascii_escape_plain)
qed

lemma hex_plain: "is_hex ch \<Longrightarrow> to_ascii (esc ch) = [ch]"
proof -
  assume hex: "is_hex ch"
  have letters: "list_all (\<lambda>d. 97 \<le> (of_char d :: nat) \<and> (of_char d :: nat) \<le> 102) ''abcdef''" by simp
  from hex have "(48 \<le> (of_char ch :: nat) \<and> (of_char ch :: nat) \<le> 57) \<or> (97 \<le> (of_char ch :: nat) \<and> (of_char ch :: nat) \<le> 102)"
    unfolding is_hex_def is_digit_def Let_def using letters [unfolded list_all_iff] by blast
  then have code: "\<not> ((of_char ch :: nat) < 32 \<or> (of_char ch :: nat) \<in> {34, 92}) \<and> (of_char ch :: nat) \<le> 126" by auto
  then have "ch \<noteq> CHR 0x22" "ch \<noteq> CHR 0x5C" by auto
  then have "esc ch = [ch]" using code by (auto simp: esc_def)
  then show ?thesis using code by (simp add: ascii_escape_plain)
qed

lemma enc_size_hex: "hex_text n s \<Longrightarrow> enc_size (JStr s) = 2 + n"
proof -
  assume s: "hex_text n s"
  have "list_all is_hex s \<Longrightarrow> length (to_ascii (concat (map esc s))) = length s" by (induction s) (simp_all add: hex_plain)
  with s show ?thesis by (simp add: enc_size_alt quote_def ascii_escape_plain hex_text_def)
qed

lemma enc_size_cursor_tight: "case cursor of None \<Rightarrow> True | Some s \<Rightarrow> ascii_text 2048 s \<Longrightarrow> enc_size (opt_json JStr cursor) \<le> 4098"
  using enc_size_printable [of "the cursor"] by (cases cursor) (auto simp: opt_json_def enc_size_small ascii_text_def)

text \<open>The size of an object from its keys, in any order.\<close>

definition key_size :: "string \<Rightarrow> nat" where
  "key_size k = enc_size (JStr k) + 2"

lemma sum_list_mset: "mset xs = mset ys \<Longrightarrow> sum_list (map f xs) = sum_list (map f ys)" for f :: "'a \<Rightarrow> nat"
  by (metis mset_map sum_mset_sum_list)

lemma enc_size_keys:
  assumes "wf_json (JObj r)" "keys_are r ks" "distinct ks" "ks \<noteq> []"
  shows "enc_size (JObj r) = 1 + sum_list (map (\<lambda>k. key_size k + enc_size (get_field r k)) ks)"
proof -
  have distinct: "distinct (map fst r)" using assms(1) by simp
  have "r \<noteq> []" using assms(2,4) by (auto simp: keys_are_def)
  have "length (to_ascii (quote k)) + 2 = key_size k" for k by (simp add: key_size_def enc_size_alt)
  then have "map (\<lambda>(k, v). length (to_ascii (quote k)) + 2 + enc_size v) r = map (\<lambda>k. key_size k + enc_size (get_field r k)) (map fst r)"
    using get_field_mem [OF distinct] by (auto split: prod.split)
  moreover have "mset (map fst r) = mset ks" using assms(2,3) distinct by (simp only: keys_are_def set_eq_iff_mset_eq_distinct)
  then have "sum_list (map (\<lambda>k. key_size k + enc_size (get_field r k)) (map fst r)) = sum_list (map (\<lambda>k. key_size k + enc_size (get_field r k)) ks)"
    by (rule sum_list_mset)
  ultimately show ?thesis using enc_size_obj [OF \<open>r \<noteq> []\<close>] by (simp only:)
qed

lemma enc_size_bytes: "byte_count (encode v) = int n \<Longrightarrow> enc_size v = n"
  by (simp add: enc_size_def byte_count_def)

lemma text_sizes:
  "enc_size (JStr ''event_id'') = 10" "enc_size (JStr ''content_hash'') = 14" "enc_size (JStr ''status'') = 8" "enc_size (JStr ''code'') = 6"
  "enc_size (JStr ''accepted'') = 10" "enc_size (JStr ''rejected'') = 10" "enc_size (JStr ''duplicate'') = 11"
  "enc_size (JStr ''invalid_record'') = 16" "enc_size (JStr ''profile_context_unavailable'') = 29"
  by (rule enc_size_bytes, code_simp)+

lemma entry_hashes:
  assumes "entry_ok P ip p profile_revision x"
  shows "hex_text 64 (entry_event_id x)" and "hex_text 64 (entry_content_hash x)"
proof -
  have "hex_text 64 (entry_event_id x) \<and> hex_text 64 (entry_content_hash x)"
  proof (cases x)
    case (Event e)
    then obtain src dst where "list_all fst (event_conditions P e src dst)"
      using assms by (auto simp: event_ok_def elim: event_conditions_of)
    then have "hex_text 64 (ne_event_id e) \<and> hex_text 64 (ne_content_hash e)"
      unfolding event_conditions_def list.pred_inject fst_conv by blast
    then show ?thesis using Event by simp
  next
    case (Rejected q)
    then show ?thesis using assms unfolding Rejected entry_ok.simps rejection_ok_def entry_event_id.simps entry_content_hash.simps by blast
  qed
  then show "hex_text 64 (entry_event_id x)" "hex_text 64 (entry_content_hash x)" by blast+
qed

lemma result_size:
  assumes "result_ok x j" "wf_json j" "entry_ok P ip p profile_revision x"
  shows "enc_size j \<le> 219"
proof -
  let ?ks = "[''event_id'', ''content_hash'', ''status'', ''code'']"
  obtain r where j: "j = JObj r" "keys_are r ?ks" "get_field r ''event_id'' = JStr (entry_event_id x)"
    "get_field r ''content_hash'' = JStr (entry_content_hash x)" "get_field r ''code'' = entry_code x"
    "get_field r ''status'' \<in> set (map JStr (entry_statuses x))"
    using assms(1) by (cases j) (auto simp: result_ok_def)
  have "enc_size (get_field r ''status'') \<le> 11" using j(6) text_sizes by (cases x) (auto simp: entry_statuses_def)
  moreover have "enc_size (entry_code x) \<le> 29"
  proof (cases x)
    case (Rejected q)
    then have "rj_code q \<in> set REJECTION_CODES" using assms(3) by (simp add: rejection_ok_def)
    then show ?thesis using text_sizes by (auto simp: Rejected REJECTION_CODES_def)
  qed (simp add: enc_size_small)
  moreover have "enc_size j = 1 + sum_list (map (\<lambda>k. key_size k + enc_size (get_field r k)) ?ks)"
    unfolding j(1) using assms(2) j(1,2) by (intro enc_size_keys) simp_all
  ultimately show ?thesis
    using enc_size_hex [OF entry_hashes(1) [OF assms(3)]] enc_size_hex [OF entry_hashes(2) [OF assms(3)]] by (simp add: key_size_def text_sizes j(3-5))
qed

lemma count_results_bounds:
  assumes "count_results rs counts = Inr counts'"
  shows "counts k \<le> counts' k \<and> counts' k \<le> counts k + int (length rs)"
  using assms
proof (induction rs counts rule: count_results.induct)
  case (2 result x rest counts)
  let ?k = "if status_of result = ''duplicate'' then ''duplicates'' else status_of result"
  let ?c = "counts(?k := counts ?k + 1)"
  have ok: "result_ok x result" and "count_results rest ?c = Inr counts'"
    using "2.prems" by (auto simp: failure_def Let_def split: if_splits)
  from "2.IH" [OF _ refl this(2)] ok have "?c k \<le> counts' k \<and> counts' k \<le> ?c k + int (length rest)" by simp
  then show ?case by (auto split: if_splits)
qed simp

lemma count_results_ok: "count_results rs counts = Inr counts' \<Longrightarrow> (j, x) \<in> set rs \<Longrightarrow> result_ok x j"
  by (induction rs counts rule: count_results.induct) (auto simp: failure_def Let_def split: if_splits)

lemma sum_list_bound: "(\<And>x. x \<in> set xs \<Longrightarrow> f x \<le> m) \<Longrightarrow> sum_list (map f xs) \<le> length xs * m" for f :: "'a \<Rightarrow> nat"
  by (induction xs) fastforce+

lemma batch_ids:
  assumes "batch_ok P ip p b"
  shows "is_id (bt_source_id b)" and "is_id (bt_batch_id b)"
proof -
  have p: "validate_profile p = Inr ()" "bt_source_id b = sp_source_id p" and b: "is_id (bt_batch_id b)" using assms unfolding batch_ok_def by blast+
  from p show "is_id (bt_source_id b)" by (simp add: profile_ok)
  show "is_id (bt_batch_id b)" by (rule b)
qed

lemma batch_reports:
  assumes "batch_ok P ip p b"
  shows "set (bt_reports b) \<subseteq> set REPORT_CODES" and "length (bt_reports b) \<le> 5"
proof -
  have "length REPORT_CODES = 5" by (simp add: REPORT_CODES_def)
  then show "set (bt_reports b) \<subseteq> set REPORT_CODES" "length (bt_reports b) \<le> 5" using assms unfolding batch_ok_def by metis+
qed

lemma ack_size:
  assumes "wf_json ack" and "batch_ok P ip p b" and "validate_ack P ack b = Inr ()"
    and "length (fingerprint P (batch_json b)) \<le> 64" and "length (bt_profile_revision b) \<le> 64"
  shows "byte_count (encode ack) \<le> MAX_ACK_BYTES"
proof -
  obtain r results counts where r: "ack = JObj r" "keys_are r ack_fields" "get_field r ''durable'' = JBool True"
    "get_field r ''payload_hash'' = JStr (fingerprint P (batch_json b))"
    "list_all (\<lambda>k. get_field r k = get_field (batch_row b) k) echoed_fields"
    "get_field r ''results'' = JList results" "length results = length (bt_entries b)"
    "count_results (zip results (bt_entries b)) (\<lambda>k. 0) = Inr counts"
    "list_all (\<lambda>k. get_field r k = JInt (counts k)) [''accepted'', ''rejected'', ''duplicates'']"
    and t: "\<exists>t. get_field r ''received_at_us'' = JInt t \<and> in_bounds MAX_REALTIME_US t"
    using assms(3) by (cases ack) (auto simp: validate_ack_def failure_def check_number_iff split: if_splits json.splits elim!: and_then_InrE)
  have entries: "length (bt_entries b) \<le> 200" "list_all (entry_ok P ip p (bt_profile_revision b)) (bt_entries b)"
    using assms(2) unfolding batch_ok_def MAX_ENTRIES_def by blast+
  have wf: "wf_json j" if "j \<in> set results" for j
  proof -
    have "''results'' \<in> fst ` set r" using r(2) by (simp add: keys_are_def ack_fields_def)
    then have "(''results'', JList results) \<in> set r" using r(1,6) assms(1) field_mem_iff [of r "''results''" "JList results"] by simp
    then show ?thesis using assms(1) r(1) that by (force simp: list_all_iff)
  qed
  have "enc_size j + 1 \<le> 220" if j: "j \<in> set results" for j
  proof -
    obtain i where i: "i < length results" "j = results ! i" using j by (auto simp: in_set_conv_nth)
    then have "(j, bt_entries b ! i) \<in> set (zip results (bt_entries b))" using r(7) by (force simp: in_set_zip)
    then have "result_ok (bt_entries b ! i) j" by (rule count_results_ok [OF r(8)])
    moreover have "entry_ok P ip p (bt_profile_revision b) (bt_entries b ! i)" using entries(2) i r(7) by (simp add: list_all_length)
    ultimately show ?thesis using result_size [OF _ wf [OF j]] by simp
  qed
  then have "sum_list (map (\<lambda>j. enc_size j + 1) results) \<le> length results * 220" by (rule sum_list_bound)
  then have results: "enc_size (JList results) \<le> 44001" using entries(1) r(7) by (auto simp: enc_size_list)
  have numbers: "enc_size (JInt (counts k)) \<le> 18" for k
    using count_results_bounds [OF r(8), of k] entries(1) r(7) by (intro enc_size_int) (simp add: in_bounds_def MAX_REALTIME_US_def)
  have keys: "list_all (\<lambda>k. key_size k \<le> 40) ack_fields"
  proof -
    have "list_all (\<lambda>k. list_all is_printable k \<and> length k \<le> 18) ack_fields" by (simp add: ack_fields_def echoed_list is_printable_def)
    then show ?thesis by (rule list.pred_mono_strong) (auto simp: key_size_def dest: enc_size_printable)
  qed
  have echoed: "get_field r ''version'' = JInt 1" "get_field r ''source_id'' = JStr (bt_source_id b)"
    "get_field r ''profile_revision'' = JStr (bt_profile_revision b)" "get_field r ''batch_id'' = JStr (bt_batch_id b)"
    "get_field r ''collected_at_us'' = JInt (bt_collected_at_us b)" "get_field r ''cursor_before'' = opt_json JStr (bt_cursor_before b)"
    "get_field r ''cursor_after'' = opt_json JStr (bt_cursor_after b)" "get_field r ''reports'' = jstrs (bt_reports b)"
    "get_field r ''caught_up'' = JBool (bt_caught_up b)"
    using r(5) by (simp_all add: echoed_list batch_row_def)
  have sizes: "enc_size (JInt 1) \<le> 18" "enc_size (JStr (bt_source_id b)) \<le> 770" "enc_size (JStr (bt_profile_revision b)) \<le> 386"
    "enc_size (JStr (bt_batch_id b)) \<le> 770" "enc_size (JInt (bt_collected_at_us b)) \<le> 18"
    "enc_size (opt_json JStr (bt_cursor_before b)) \<le> 4098" "enc_size (opt_json JStr (bt_cursor_after b)) \<le> 4098"
    "enc_size (jstrs (bt_reports b)) \<le> 800" "enc_size (JBool (bt_caught_up b)) \<le> 5"
    "enc_size (JStr (fingerprint P (batch_json b))) \<le> 386" "enc_size (JBool True) \<le> 5" "enc_size (get_field r ''received_at_us'') \<le> 18"
  proof -
    have one: "in_bounds MAX_REALTIME_US 1" by (simp add: in_bounds_def MAX_REALTIME_US_def)
    have "is_id (bt_source_id b)" "is_id (bt_batch_id b)" using batch_ids [OF assms(2)] .
    then show "enc_size (JStr (bt_source_id b)) \<le> 770" "enc_size (JStr (bt_batch_id b)) \<le> 770"
      using enc_size_str [of "bt_source_id b"] enc_size_str [of "bt_batch_id b"] length_is_id by fastforce+
    show "enc_size (JStr (bt_profile_revision b)) \<le> 386" "enc_size (JStr (fingerprint P (batch_json b))) \<le> 386"
      using enc_size_str [of "bt_profile_revision b"] enc_size_str [of "fingerprint P (batch_json b)"] assms(4,5) by linarith+
    show "enc_size (JInt 1) \<le> 18" "enc_size (get_field r ''received_at_us'') \<le> 18" using enc_size_int one t by auto
    show "enc_size (JInt (bt_collected_at_us b)) \<le> 18" using assms(2) enc_size_int unfolding batch_ok_def by blast
    show "enc_size (opt_json JStr (bt_cursor_before b)) \<le> 4098" "enc_size (opt_json JStr (bt_cursor_after b)) \<le> 4098"
      using assms(2) enc_size_cursor_tight unfolding batch_ok_def by blast+
    show "enc_size (jstrs (bt_reports b)) \<le> 800" using batch_reports [OF assms(2)] by (rule enc_size_reports(2))
    show "enc_size (JBool (bt_caught_up b)) \<le> 5" "enc_size (JBool True) \<le> 5" by (rule enc_size_small(2))+
  qed
  have distinct: "distinct ack_fields" "ack_fields \<noteq> []" by (simp_all add: ack_fields_def echoed_list)
  have "enc_size ack = 1 + sum_list (map (\<lambda>k. key_size k + enc_size (get_field r k)) ack_fields)"
    unfolding r(1) using assms(1) r(1,2) distinct by (intro enc_size_keys) simp_all
  then have "enc_size ack \<le> 65536"
    using keys sizes results numbers [of "''accepted''"] numbers [of "''rejected''"] numbers [of "''duplicates''"] r(9)
    unfolding ack_fields_def echoed_list by (simp add: echoed r(3,4,6))
  then show ?thesis by (simp add: enc_size_def byte_count_def MAX_ACK_BYTES_def)
qed

text \<open>
  C16: an acknowledgement that the collector accepts never exceeds the 65536 bytes it reads of an answer, however long the cursors and
  however many the entries of the batch; the digests of the batch have 64 characters.
\<close>

theorem accepted_ack_fits:
  assumes "wf_json ack" and "batch_ok P ip p b" and "validate_ack P ack b = Inr ()"
    and "length (fingerprint P (batch_json b)) \<le> 64" and "length (bt_profile_revision b) \<le> 64"
  shows "read_answer ack = Inr ack"
  using ack_size [OF assms] by (simp add: read_answer_def)

definition plain_batch :: batch where
  "plain_batch = clear_batch\<lparr>bt_profile_revision := replicate 64 (CHR ''a'')\<rparr>"

definition plain_ack :: json where
  "plain_ack = JObj (response_row (replicate 64 (CHR ''a'')) 30 plain_batch
     \<lparr>ty_results = map (\<lambda>x. result_json x ''rejected'' (entry_reject_code x)) (bt_entries plain_batch), ty_accepted = 0, ty_rejected = 1,
      ty_duplicates = 0\<rparr>)"

lemma plain_batch_accepted: "validate_batch hex_py two_hosts sample_profile (batch_json plain_batch) = Inr plain_batch"
  by code_simp

lemma plain_ack_accepted: "wf_json plain_ack" "validate_ack hex_py plain_ack plain_batch = Inr ()"
  by code_simp+

theorem accepted_ack_fits_witness: "read_answer plain_ack = Inr plain_ack"
proof (rule accepted_ack_fits [OF plain_ack_accepted(1) _ plain_ack_accepted(2)])
  show "batch_ok hex_py two_hosts sample_profile plain_batch" by (rule validate_batch_same(2) [OF plain_batch_accepted wf_batch_json])
  show "length (fingerprint hex_py (batch_json plain_batch)) \<le> 64" by (simp add: fingerprint_def hex_py_def)
  show "length (bt_profile_revision plain_batch) \<le> 64" by (simp add: plain_batch_def)
qed

end
