(* ===== verification/Network_Collector.thy ===== *)
theory Network_Collector
  imports Network_Ack
begin

text \<open>
  \<open>scripts/network_collector.py\<close>: one page is fetched from the exporter, written to the spool, delivered to the platform, and only when
  the platform has acknowledged it is the cursor advanced. The directory of the collector is the record \<open>spool\<close>: its two files, as the
  values that are read back from what \<open>atomic_write\<close> has written, and the bytes of everything else in it. The clock, the SSH
  configuration and the answer of the exporter are the record \<open>page_io\<close>; the delivery is a function on the state of the platform.

  A batch is judged the same whatever the order of its keys (\<open>validate_batch_sorted\<close>), so a page read back from the spool is the page
  that was written.
\<close>

section \<open>Configuration\<close>

definition MAX_SPOOL_BYTES :: int where "MAX_SPOOL_BYTES = 16 * 1024 * 1024"
definition MAX_PENDING_BYTES :: int where "MAX_PENDING_BYTES = MAX_BATCH_BYTES + 4096"

definition REQUIRED_CONFIG :: "string list" where
  "REQUIRED_CONFIG = [''version'', ''endpoint'', ''state_dir'', ''profile'', ''ssh_config'', ''ssh_host'', ''token'']"

definition COLLECTOR_DEFAULTS :: "(string \<times> int) list" where
  "COLLECTOR_DEFAULTS = [(''ssh_timeout_seconds'', 10), (''http_timeout_seconds'', 10), (''max_pages_per_run'', 5),
     (''max_seconds_per_run'', 20), (''max_spool_bytes'', MAX_SPOOL_BYTES)]"

definition is_alias :: "string \<Rightarrow> bool" where
  "is_alias = class_match is_alnum (\<lambda>c. is_alnum c \<or> c \<in> set ''_.-'') 127"

text \<open>The parts of a URL as \<open>urlsplit\<close> gives them, an absent one being empty.\<close>

record url_parts =
  up_scheme :: string
  up_hostname :: string
  up_username :: string
  up_password :: string
  up_path :: string
  up_query :: string
  up_fragment :: string

record collector_config =
  cc_endpoint :: string
  cc_state_dir :: string
  cc_profile :: profile
  cc_ssh_config :: string
  cc_ssh_host :: string
  cc_token :: string
  cc_ssh_timeout_seconds :: int
  cc_http_timeout_seconds :: int
  cc_max_pages_per_run :: int
  cc_max_seconds_per_run :: int
  cc_max_spool_bytes :: int

definition absolute_path :: "string \<Rightarrow> bool" where
  "absolute_path s = (1 \<le> length s \<and> byte_count s \<le> 4096 \<and> CHR 0x00 \<notin> set s \<and> startswith s ''/'')"

definition endpoint_ok :: "url_parts \<Rightarrow> bool" where
  "endpoint_ok u = (up_scheme u \<in> set [''http'', ''https''] \<and> up_hostname u \<noteq> [] \<and> up_username u = [] \<and> up_password u = [] \<and>
     up_query u = [] \<and> up_fragment u = [] \<and> up_path u = ''/api/network/batches'' \<and>
     (up_scheme u = ''http'' \<longrightarrow> up_hostname u \<in> set [''127.0.0.1'', ''localhost'', ''::1'']))"

definition token_ok :: "string \<Rightarrow> bool" where
  "token_ok s = (24 \<le> byte_count s \<and> byte_count s \<le> 512 \<and> list_all (\<lambda>c. let n = of_char c :: nat in 33 \<le> n \<and> n \<le> 126) s)"

definition config_limit :: "row \<Rightarrow> string \<Rightarrow> int option" where
  "config_limit r k = (case map_of COLLECTOR_DEFAULTS k of
     None \<Rightarrow> None
   | Some maximum \<Rightarrow> (case map_of r k of
       None \<Rightarrow> Some maximum
     | Some (JInt i) \<Rightarrow> if (if k = ''max_spool_bytes'' then 1024 else 1) \<le> i \<and> i \<le> maximum then Some i else None
     | Some _ \<Rightarrow> None))"

definition config_profile :: "json \<Rightarrow> profile option" where
  "config_profile j = (case profile_from_dict j of Inl _ \<Rightarrow> None | Inr p \<Rightarrow> Some p)"

definition read_collector_config :: "(string \<Rightarrow> url_parts option) \<Rightarrow> row \<Rightarrow> collector_config option" where
  "read_collector_config urlsplit r = do {
     endpoint \<leftarrow> as_str (get_field r ''endpoint'');
     u \<leftarrow> urlsplit endpoint;
     state_dir \<leftarrow> as_str (get_field r ''state_dir'');
     ssh_config \<leftarrow> as_str (get_field r ''ssh_config'');
     ssh_host \<leftarrow> as_str (get_field r ''ssh_host'');
     token \<leftarrow> as_str (get_field r ''token'');
     p \<leftarrow> config_profile (get_field r ''profile'');
     ssh_timeout \<leftarrow> config_limit r ''ssh_timeout_seconds'';
     http_timeout \<leftarrow> config_limit r ''http_timeout_seconds'';
     max_pages \<leftarrow> config_limit r ''max_pages_per_run'';
     max_seconds \<leftarrow> config_limit r ''max_seconds_per_run'';
     max_spool \<leftarrow> config_limit r ''max_spool_bytes'';
     if endpoint_ok u \<and> absolute_path state_dir \<and> absolute_path ssh_config \<and> is_alias ssh_host \<and> token_ok token
     then Some \<lparr>cc_endpoint = endpoint, cc_state_dir = state_dir, cc_profile = p, cc_ssh_config = ssh_config, cc_ssh_host = ssh_host,
       cc_token = token, cc_ssh_timeout_seconds = ssh_timeout, cc_http_timeout_seconds = http_timeout,
       cc_max_pages_per_run = max_pages, cc_max_seconds_per_run = max_seconds, cc_max_spool_bytes = max_spool\<rparr>
     else None }"

definition validate_config :: "(string \<Rightarrow> url_parts option) \<Rightarrow> json \<Rightarrow> collector_config result" where
  "validate_config urlsplit j = (case j of
     JObj r \<Rightarrow>
       if \<not> set REQUIRED_CONFIG \<subseteq> set (map fst r) \<or> \<not> set (map fst r) \<subseteq> set (REQUIRED_CONFIG @ map fst COLLECTOR_DEFAULTS) \<or>
          get_field r ''version'' \<noteq> JInt 1
       then failure ''invalid_network_config''
       else (case read_collector_config urlsplit r of None \<Rightarrow> failure ''invalid_network_config'' | Some c \<Rightarrow> Inr c)
   | _ \<Rightarrow> failure ''invalid_network_config'')"

definition FORBIDDEN_SSH :: "string list" where
  "FORBIDDEN_SSH = [''include'', ''match'', ''proxycommand'', ''localcommand'', ''remotecommand'', ''knownhostscommand'']"

definition ssh_keyword :: "string \<Rightarrow> string" where
  "ssh_keyword line = lower (takeWhile (\<lambda>c. \<not> is_space c \<and> c \<noteq> CHR ''='') line)"

definition forbidden_line :: "string \<Rightarrow> bool" where
  "forbidden_line raw = (let line = strip raw in line \<noteq> [] \<and> \<not> startswith line ''#'' \<and> ssh_keyword line \<in> set FORBIDDEN_SSH)"

text \<open>The content of the SSH configuration is \<open>None\<close> if the file is unsafe or unreadable.\<close>

definition ssh_config_digest :: "py \<Rightarrow> string option \<Rightarrow> string result" where
  "ssh_config_digest P content = (case content of
     None \<Rightarrow> failure ''unsafe_network_ssh_config''
   | Some s \<Rightarrow> if list_ex forbidden_line (splitlines s) then failure ''unsafe_network_ssh_config'' else Inr (fingerprint P (JStr s)))"

definition identity :: "py \<Rightarrow> collector_config \<Rightarrow> string option \<Rightarrow> string result" where
  "identity P c content =
     and_then (revision P (cc_profile c)) (\<lambda>profile_revision.
     and_then (ssh_config_digest P content) (\<lambda>digest.
       Inr (fingerprint P (JObj [(''endpoint'', JStr (cc_endpoint c)), (''source_id'', JStr (sp_source_id (cc_profile c))),
         (''profile_revision'', JStr profile_revision), (''ssh_config'', JStr (cc_ssh_config c)), (''ssh_host'', JStr (cc_ssh_host c)),
         (''ssh_config_sha256'', JStr digest)]))))"

section \<open>The spool\<close>

record spool =
  sp_state_file :: "json option"
  sp_pending_file :: "json option"
  sp_other_bytes :: int
  sp_problem :: "string option"

definition file_bytes :: "json option \<Rightarrow> int" where
  "file_bytes f = (case f of None \<Rightarrow> 0 | Some v \<Rightarrow> byte_count (encode v))"

definition spool_usage :: "spool \<Rightarrow> int result" where
  "spool_usage sp = (case sp_problem sp of
     Some code \<Rightarrow> failure code
   | None \<Rightarrow> Inr (file_bytes (sp_state_file sp) + file_bytes (sp_pending_file sp) + sp_other_bytes sp))"

definition reserve_spool :: "spool \<Rightarrow> int \<Rightarrow> int \<Rightarrow> unit result" where
  "reserve_spool sp maximum additional = and_then (spool_usage sp) (\<lambda>used.
     if used + additional > maximum then failure ''network_spool_capacity'' else Inr ())"

definition read_state_file :: "json \<Rightarrow> int \<Rightarrow> string \<Rightarrow> json result" where
  "read_state_file v maximum code = (if byte_count (encode v) > maximum then failure code else Inr v)"

record saved_state =
  sv_cursor :: "string option"
  sv_last_batch_id :: "string option"
  sv_last_payload_hash :: "string option"

definition STATE_FIELDS :: "string list" where
  "STATE_FIELDS = [''version'', ''identity'', ''cursor'', ''last_batch_id'', ''last_payload_hash'', ''received_at_us'']"

definition is_cursor :: "string option \<Rightarrow> bool" where
  "is_cursor c = (case c of None \<Rightarrow> True | Some s \<Rightarrow> ascii_text 2048 s)"

definition read_saved :: "string \<Rightarrow> row \<Rightarrow> saved_state option" where
  "read_saved mapping r = do {
     cursor \<leftarrow> as_option as_str (get_field r ''cursor'');
     batch_id \<leftarrow> as_str (get_field r ''last_batch_id'');
     payload_hash \<leftarrow> as_str (get_field r ''last_payload_hash'');
     received \<leftarrow> as_int (get_field r ''received_at_us'');
     if keys_are r STATE_FIELDS \<and> get_field r ''version'' = JInt 1 \<and> get_field r ''identity'' = JStr mapping \<and> is_cursor cursor \<and>
        is_alias batch_id \<and> hex_text 64 payload_hash \<and> 0 \<le> received
     then Some \<lparr>sv_cursor = cursor, sv_last_batch_id = Some batch_id, sv_last_payload_hash = Some payload_hash\<rparr> else None }"

definition load_state :: "string \<Rightarrow> spool \<Rightarrow> saved_state result" where
  "load_state mapping sp = (case sp_state_file sp of
     None \<Rightarrow> Inr \<lparr>sv_cursor = None, sv_last_batch_id = None, sv_last_payload_hash = None\<rparr>
   | Some v \<Rightarrow> and_then (read_state_file v 8192 ''invalid_network_state'') (\<lambda>v. case v of
       JObj r \<Rightarrow> (case read_saved mapping r of None \<Rightarrow> failure ''network_state_identity_mismatch'' | Some state \<Rightarrow> Inr state)
     | _ \<Rightarrow> failure ''network_state_identity_mismatch''))"

definition pending_json :: "py \<Rightarrow> string \<Rightarrow> json \<Rightarrow> json" where
  "pending_json P mapping body = JObj [(''version'', JInt 1), (''identity'', JStr mapping), (''payload_hash'', JStr (fingerprint P body)),
     (''batch'', body)]"

definition next_state :: "py \<Rightarrow> string \<Rightarrow> json \<Rightarrow> batch \<Rightarrow> int \<Rightarrow> json" where
  "next_state P mapping body b received_at = JObj [(''version'', JInt 1), (''identity'', JStr mapping),
     (''cursor'', opt_json JStr (bt_cursor_after b)), (''last_batch_id'', JStr (bt_batch_id b)),
     (''last_payload_hash'', JStr (fingerprint P body)), (''received_at_us'', JInt received_at)]"

definition after_state_commit :: "saved_state \<Rightarrow> batch \<Rightarrow> string \<Rightarrow> bool" where
  "after_state_commit state b payload_hash = (sv_last_batch_id state = Some (bt_batch_id b) \<and>
     sv_last_payload_hash state = Some payload_hash \<and> sv_cursor state = bt_cursor_after b)"

definition validate_pending :: "py \<Rightarrow> ip_reader \<Rightarrow> profile \<Rightarrow> string \<Rightarrow> saved_state \<Rightarrow> json \<Rightarrow> (json \<times> batch) result" where
  "validate_pending P ip p mapping state v = (case v of
     JObj r \<Rightarrow>
       let body = get_field r ''batch'' in
       if \<not> keys_are r [''version'', ''identity'', ''payload_hash'', ''batch''] \<or> get_field r ''version'' \<noteq> JInt 1 \<or>
          get_field r ''identity'' \<noteq> JStr mapping \<or> get_field r ''payload_hash'' \<noteq> JStr (fingerprint P body)
       then failure ''invalid_network_spool''
       else (case validate_batch P ip p body of
         Inl _ \<Rightarrow> failure ''invalid_network_spool''
       | Inr b \<Rightarrow>
           if sv_cursor state \<noteq> bt_cursor_before b \<and> \<not> after_state_commit state b (fingerprint P body)
           then failure ''invalid_network_spool'' else Inr (body, b))
   | _ \<Rightarrow> failure ''invalid_network_spool'')"

section \<open>One page\<close>

record page_io =
  pg_ssh_config :: "string option"
  pg_ssh_config_after :: "string option"
  pg_clock_fetch :: rat
  pg_clock_send :: rat
  pg_clock_next :: rat
  pg_fetch :: "string option \<Rightarrow> rat \<Rightarrow> json option result"

definition remaining :: "rat \<Rightarrow> int \<Rightarrow> rat \<Rightarrow> rat result" where
  "remaining deadline maximum now = (if deadline - now \<le> 0 then failure ''run_deadline'' else Inr (min (of_int maximum) (deadline - now)))"

text \<open>
  The exporter's bytes are \<open>None\<close> if they are too many or no JSON; \<open>unique_fields\<close> refuses a repeated key, so a decoded value is well
  formed.
\<close>

definition read_export :: "py \<Rightarrow> ip_reader \<Rightarrow> profile \<Rightarrow> saved_state \<Rightarrow> json option \<Rightarrow> (json \<times> batch) result" where
  "read_export P ip p state raw = (case raw of
     None \<Rightarrow> failure ''invalid_network_export''
   | Some body \<Rightarrow>
       if \<not> wf_json body then failure ''invalid_network_export''
       else (case validate_batch P ip p body of
         Inl _ \<Rightarrow> failure ''invalid_network_export''
       | Inr b \<Rightarrow> if bt_cursor_before b \<noteq> sv_cursor state then failure ''invalid_network_export'' else Inr (body, b)))"

definition state_reserve :: "py \<Rightarrow> string \<Rightarrow> json \<Rightarrow> batch \<Rightarrow> int" where
  "state_reserve P mapping body b = byte_count (encode (next_state P mapping body b MAX_REALTIME_US))"

text \<open>The first half of \<open>collect_page\<close>: the page is resumed from the spool or fetched and written there.\<close>

definition take_page :: "py \<Rightarrow> ip_reader \<Rightarrow> collector_config \<Rightarrow> rat \<Rightarrow> page_io \<Rightarrow> spool \<Rightarrow> (string \<times> json \<times> batch \<times> spool) result" where
  "take_page P ip c deadline io sp =
     and_then (identity P c (pg_ssh_config io)) (\<lambda>mapping.
     and_then (reserve_spool sp (cc_max_spool_bytes c) 0) (\<lambda>_.
     and_then (load_state mapping sp) (\<lambda>state.
       case sp_pending_file sp of
         Some v \<Rightarrow>
           and_then (read_state_file v MAX_PENDING_BYTES ''invalid_network_spool'') (\<lambda>v.
           and_then (validate_pending P ip (cc_profile c) mapping state v) (\<lambda>(body, b). Inr (mapping, body, b, sp)))
       | None \<Rightarrow>
           and_then (remaining deadline (cc_ssh_timeout_seconds c) (pg_clock_fetch io)) (\<lambda>timeout.
           and_then (pg_fetch io (sv_cursor state) timeout) (\<lambda>raw.
           and_then (read_export P ip (cc_profile c) state raw) (\<lambda>(body, b).
           and_then (identity P c (pg_ssh_config_after io)) (\<lambda>again.
             if again \<noteq> mapping then failure ''network_ssh_mapping_changed''
             else let pending = pending_json P mapping body in
               and_then (reserve_spool sp (cc_max_spool_bytes c) (byte_count (encode pending) + state_reserve P mapping body b)) (\<lambda>_.
                 Inr (mapping, body, b, sp\<lparr>sp_pending_file := Some (sort_keys pending)\<rparr>)))))))))"

record page_report =
  pr_records :: nat
  pr_caught_up :: bool
  pr_report_codes :: "string list"
  pr_rejected_records :: nat
  pr_rejection_codes :: "string list"
  pr_more :: bool

definition report_page :: "batch \<Rightarrow> page_report" where
  "report_page b =
     \<lparr>pr_records = length (bt_entries b), pr_caught_up = bt_caught_up b, pr_report_codes = bt_reports b,
      pr_rejected_records = length (filter (\<lambda>x. entry_kind x = ''rejection'') (bt_entries b)),
      pr_rejection_codes = sorted_set (List.map_filter entry_reject_code (bt_entries b)),
      pr_more = (''catching_up'' \<in> set (bt_reports b) \<and> ''profile_drift'' \<notin> set (bt_reports b))\<rparr>"

definition ack_time :: "json \<Rightarrow> int" where
  "ack_time ack = (case ack of JObj r \<Rightarrow> (case get_field r ''received_at_us'' of JInt t \<Rightarrow> t | _ \<Rightarrow> 0) | _ \<Rightarrow> 0)"

definition check_ack :: "py \<Rightarrow> json \<Rightarrow> batch \<Rightarrow> int result" where
  "check_ack P ack b = (case validate_ack P ack b of Inl _ \<Rightarrow> failure ''invalid_network_ack'' | Inr _ \<Rightarrow> Inr (ack_time ack))"

definition save_state :: "json \<Rightarrow> spool \<Rightarrow> spool" where
  "save_state v sp = sp\<lparr>sp_state_file := Some (sort_keys v)\<rparr>"

definition collect_page :: "py \<Rightarrow> ip_reader \<Rightarrow> collector_config \<Rightarrow> rat \<Rightarrow> page_io \<Rightarrow> (json \<Rightarrow> 's \<Rightarrow> json result \<times> 's) \<Rightarrow> spool \<Rightarrow> 's
    \<Rightarrow> page_report result \<times> spool \<times> 's" where
  "collect_page P ip c deadline io send sp s = (case take_page P ip c deadline io sp of
     Inl e \<Rightarrow> (Inl e, sp, s)
   | Inr (mapping, body, b, sp1) \<Rightarrow>
       (case and_then (reserve_spool sp1 (cc_max_spool_bytes c) (state_reserve P mapping body b)) (\<lambda>_.
           remaining deadline (cc_http_timeout_seconds c) (pg_clock_send io)) of
         Inl e \<Rightarrow> (Inl e, sp1, s)
       | Inr _ \<Rightarrow> (case send body s of (answer, s1) \<Rightarrow>
           (case and_then answer (\<lambda>ack. check_ack P ack b) of
             Inl e \<Rightarrow> (Inl e, sp1, s1)
           | Inr received_at \<Rightarrow>
               (Inr (report_page b), (save_state (next_state P mapping body b received_at) sp1)\<lparr>sp_pending_file := None\<rparr>, s1)))))"

section \<open>A run\<close>

record run_totals =
  rt_pages :: nat
  rt_records :: nat
  rt_rejected :: nat
  rt_rejection_codes :: "string list"
  rt_reports :: "string list"
  rt_caught_up :: bool

definition add_page :: "run_totals \<Rightarrow> page_report \<Rightarrow> run_totals" where
  "add_page t page =
     \<lparr>rt_pages = rt_pages t + 1, rt_records = rt_records t + pr_records page, rt_rejected = rt_rejected t + pr_rejected_records page,
      rt_rejection_codes = rt_rejection_codes t @ pr_rejection_codes page, rt_reports = rt_reports t @ pr_report_codes page,
      rt_caught_up = pr_caught_up page\<rparr>"

fun run_pages :: "py \<Rightarrow> ip_reader \<Rightarrow> collector_config \<Rightarrow> rat \<Rightarrow> (nat \<Rightarrow> page_io) \<Rightarrow> (nat \<Rightarrow> json \<Rightarrow> 's \<Rightarrow> json result \<times> 's) \<Rightarrow> nat \<Rightarrow>
    run_totals \<Rightarrow> spool \<Rightarrow> 's \<Rightarrow> err option \<times> run_totals \<times> spool \<times> 's" where
  "run_pages P ip c deadline ios sends 0 t sp s = (None, t, sp, s)"
| "run_pages P ip c deadline ios sends (Suc n) t sp s =
     (case collect_page P ip c deadline (ios (rt_pages t)) (sends (rt_pages t)) sp s of
       (Inl e, sp1, s1) \<Rightarrow> (Some e, t, sp1, s1)
     | (Inr page, sp1, s1) \<Rightarrow>
         let t1 = add_page t page in
         if \<not> pr_more page then (None, t1, sp1, s1)
         else (case remaining deadline (cc_max_seconds_per_run c) (pg_clock_next (ios (rt_pages t))) of
           Inl e \<Rightarrow> (Some e, t1, sp1, s1)
         | Inr _ \<Rightarrow> run_pages P ip c deadline ios sends n t1 sp1 s1))"

record run_report =
  ru_status :: string
  ru_code :: "string option"
  ru_totals :: run_totals
  ru_caught_up :: bool

definition error_code :: "err \<Rightarrow> string" where
  "error_code e = (case e of ValueError code \<Rightarrow> code | _ \<Rightarrow> ''local_network_storage_failed'')"

definition run_outcome :: "err option \<Rightarrow> run_totals \<Rightarrow> run_report" where
  "run_outcome e t = (case e of
     Some e \<Rightarrow> \<lparr>ru_status = ''error'', ru_code = Some (error_code e), ru_totals = t, ru_caught_up = False\<rparr>
   | None \<Rightarrow>
       let code = (if ''profile_drift'' \<in> set (rt_reports t) then Some ''profile_drift''
         else if ''journal_cursor_unavailable'' \<in> set (rt_reports t) then Some ''journal_cursor_unavailable''
         else if rt_rejected t \<noteq> 0 then Some ''network_records_rejected'' else None)
       in \<lparr>ru_status = (if code = None then ''acknowledged'' else ''degraded''), ru_code = code, ru_totals = t, ru_caught_up = rt_caught_up t\<rparr>)"

definition no_totals :: run_totals where
  "no_totals = \<lparr>rt_pages = 0, rt_records = 0, rt_rejected = 0, rt_rejection_codes = [], rt_reports = [], rt_caught_up = False\<rparr>"

definition run_once :: "py \<Rightarrow> ip_reader \<Rightarrow> collector_config \<Rightarrow> rat \<Rightarrow> (nat \<Rightarrow> page_io) \<Rightarrow> (nat \<Rightarrow> json \<Rightarrow> 's \<Rightarrow> json result \<times> 's) \<Rightarrow> spool \<Rightarrow> 's
    \<Rightarrow> run_report \<times> spool \<times> 's" where
  "run_once P ip c started ios sends sp s =
     (case run_pages P ip c (started + of_int (cc_max_seconds_per_run c)) ios sends (nat (cc_max_pages_per_run c)) no_totals sp s of
       (e, t, sp1, s1) \<Rightarrow> (run_outcome e t, sp1, s1))"

section \<open>The order of keys does not matter\<close>

lemma sort_keys_simps:
  "sort_keys v = JNull \<longleftrightarrow> v = JNull" "sort_keys v = JStr s \<longleftrightarrow> v = JStr s" "sort_keys v = JInt i \<longleftrightarrow> v = JInt i"
  "sort_keys v = JBool f \<longleftrightarrow> v = JBool f"
  by (cases v; simp)+

lemma as_sorted [simp]:
  "as_str (sort_keys v) = as_str v" "as_int (sort_keys v) = as_int v" "as_nat (sort_keys v) = as_nat v"
  "as_bool (sort_keys v) = as_bool v" "as_strs (sort_keys v) = as_strs v"
proof -
  show str: "as_str (sort_keys v) = as_str v" for v by (cases v) (simp_all add: as_str_def)
  show "as_int (sort_keys v) = as_int v" by (cases v) (simp_all add: as_int_def)
  show "as_nat (sort_keys v) = as_nat v" by (cases v) (simp_all add: as_nat_def)
  show "as_bool (sort_keys v) = as_bool v" by (cases v) (simp_all add: as_bool_def)
  show "as_strs (sort_keys v) = as_strs v" by (cases v) (simp_all add: as_strs_def comp_def str)
qed

lemma as_option_sorted: "(\<And>v. f (sort_keys v) = f v) \<Longrightarrow> as_option f (sort_keys v) = as_option f v"
  by (simp add: as_option_def sort_keys_simps)

lemmas as_options_sorted [simp] = as_option_sorted [of as_str, OF as_sorted(1)] as_option_sorted [of as_nat, OF as_sorted(3)]
  as_option_sorted [of as_strs, OF as_sorted(5)]

lemma checks_sorted [simp]:
  "check_cursor (sort_keys v) = check_cursor v" "check_number m (sort_keys v) = check_number m v"
  "check_batch_id (sort_keys v) = check_batch_id v"
  by (cases v; simp add: check_cursor_def check_number_def check_batch_id_def)+

lemma checks_sorted_more [simp]:
  "check_cursor_or_none (sort_keys v) = check_cursor_or_none v" "check_reports (sort_keys u) (sort_keys v) = check_reports u v"
  by (simp_all only: check_cursor_or_none_def check_reports_def sort_keys_simps checks_sorted as_sorted)

lemma sort_keys_same: "same_json (sort_keys v) v"
  by (simp add: same_json_def)

lemma event_sorted:
  assumes "distinct (map fst r)"
  shows "event_from_dict P ip (sort_keys (JObj r)) = event_from_dict P ip (JObj r)"
proof -
  obtain q where q: "sort_keys (JObj r) = JObj q" "set (map fst q) = set (map fst r)" "\<forall>k. get_field q k = sort_keys (get_field r k)"
    using assms by (rule sort_keys_obj)
  have "keys_are q EVENT_FIELDS = keys_are r EVENT_FIELDS" by (simp only: keys_are_def q(2))
  moreover have "read_event q = read_event r" unfolding read_event_def by (simp only: q(3) [rule_format] as_sorted as_options_sorted)
  ultimately show ?thesis by (simp add: event_from_dict_def q(1) del: sort_keys.simps)
qed

lemma rejection_sorted:
  assumes "distinct (map fst r)"
  shows "check_rejection P p (sort_keys (JObj r)) = check_rejection P p (JObj r)"
proof -
  obtain q where q: "sort_keys (JObj r) = JObj q" "set (map fst q) = set (map fst r)" "\<forall>k. get_field q k = sort_keys (get_field r k)"
    using assms by (rule sort_keys_obj)
  have "keys_are q REJECTION_FIELDS = keys_are r REJECTION_FIELDS" by (simp only: keys_are_def q(2))
  moreover have "read_rejection q = read_rejection r" unfolding read_rejection_def by (simp only: q(3) [rule_format] as_sorted)
  ultimately show ?thesis unfolding q(1) check_rejection_def json.case by (simp only: q(3) [rule_format] checks_sorted)
qed

lemma not_object_fails:
  "\<forall>r. v \<noteq> JObj r \<Longrightarrow> event_from_dict P ip (sort_keys v) = event_from_dict P ip v \<and> check_rejection P p (sort_keys v) = check_rejection P p v"
  by (cases v) (simp_all add: event_from_dict_def check_rejection_def)

lemma entry_sorted:
  assumes "wf_json j"
  shows "check_entry P ip p profile_revision (sort_keys j) = check_entry P ip p profile_revision j"
proof (cases "\<exists>k v. j = JObj [(k, v)]")
  case True
  then obtain k v where j: "j = JObj [(k, v)]" by blast
  have "event_from_dict P ip (sort_keys v) = event_from_dict P ip v \<and> check_rejection P p (sort_keys v) = check_rejection P p v"
  proof (cases "\<exists>r. v = JObj r")
    case True
    then show ?thesis using assms j event_sorted rejection_sorted by (auto simp del: sort_keys.simps)
  qed (simp add: not_object_fails)
  then show ?thesis by (simp add: j check_entry_def check_event_def)
next
  case False
  have other: "check_entry P ip p profile_revision v = invalid_payload" if "\<And>k w. v \<noteq> JObj [(k, w)]" for v
    using that by (cases v) (auto simp: check_entry_def split: list.splits)
  have "sort_keys j \<noteq> JObj [(k, w)]" for k w
  proof
    assume eq: "sort_keys j = JObj [(k, w)]"
    then obtain r where r: "j = JObj r" by (cases j) simp_all
    have "length (sort_key fst (map (\<lambda>(k, v). (k, sort_keys v)) r)) = 1" using eq by (simp add: r)
    then have "length r = 1" by simp
    then show False using False r by (cases r) auto
  qed
  with False show ?thesis by (simp add: other)
qed

lemma entries_sorted:
  assumes "wf_json v"
  shows "check_entries P ip p profile_revision drift moved (sort_keys v) = check_entries P ip p profile_revision drift moved v"
proof (cases v)
  case (JList js)
  have "map_result (check_entry P ip p profile_revision) (map sort_keys js) = map_result (check_entry P ip p profile_revision) js"
    if "list_all wf_json js" for js
    using that by (induction js) (simp_all add: entry_sorted)
  then have "map_result (check_entry P ip p profile_revision) (map sort_keys js) = map_result (check_entry P ip p profile_revision) js"
    using assms JList by simp
  then show ?thesis unfolding JList sort_keys.simps check_entries_def json.case by (simp only: length_map map_is_Nil_conv)
qed (simp_all add: check_entries_def)

text \<open>A batch is judged the same, and read as the same batch, with its keys in any order.\<close>

lemma validate_batch_sorted:
  assumes "wf_json payload"
  shows "validate_batch P ip p (sort_keys payload) = validate_batch P ip p payload"
proof (cases payload)
  case (JObj r)
  obtain q where q: "sort_keys (JObj r) = JObj q" "set (map fst q) = set (map fst r)" "\<forall>k. get_field q k = sort_keys (get_field r k)"
  proof (rule sort_keys_obj)
    show "distinct (map fst r)" using assms JObj by simp
  qed
  have wf: "wf_json (get_field r k)" for k
  proof (cases "map_of r k")
    case (Some v)
    then show ?thesis using assms map_of_SomeD [OF Some] by (auto simp: JObj get_field_def list_all_iff)
  qed (simp add: get_field_def)
  have "encode (JObj q) = encode (JObj r)" using encode_same [OF sort_keys_same [of "JObj r"]] by (simp only: q(1))
  moreover have "keys_are q BATCH_FIELDS = keys_are r BATCH_FIELDS" by (simp only: keys_are_def q(2))
  ultimately show ?thesis
    unfolding JObj q(1) validate_batch_def json.case
    by (simp only: q(3) [rule_format] sort_keys_simps checks_sorted checks_sorted_more entries_sorted [OF wf])
qed (simp_all add: validate_batch_def)

lemma validate_batch_any_order:
  assumes "wf_json payload" "same_json payload (batch_json b)" "batch_ok P ip p b"
  shows "validate_batch P ip p payload = Inr b"
proof -
  have "validate_batch P ip p payload = validate_batch P ip p (sort_keys payload)" using validate_batch_sorted [OF assms(1)] by simp
  also have "\<dots> = validate_batch P ip p (sort_keys (batch_json b))" using assms(2) by (simp add: same_json_def)
  also have "\<dots> = Inr b" using validate_batch_sorted [OF wf_batch_json] validate_batch_json [OF assms(3)] by simp
  finally show ?thesis .
qed

lemma fingerprint_same: "same_json i j \<Longrightarrow> fingerprint P i = fingerprint P j"
  by (simp add: fingerprint_def encode_same)

end
