(* ===== verification/Network_Delivery.thy ===== *)
theory Network_Delivery
  imports Network_Collector
begin

text \<open>
  The collector of \<open>scripts/network_collector.py\<close> and the store of \<open>telemetry/network_store.py\<close> together. The relation \<open>delivery_step\<close>
  splits a page at its durable writes, lets the process die between any two of them, and lets the network deliver what was sent late,
  repeatedly or not at all. The locale \<open>receiver\<close> states what a platform must promise; it is interpreted on the store. The results:
  every page is filed exactly once and in order, a call of \<open>collect_page\<close> is a run of these steps, and a page that is on file is finished
  by the next call that gets through.
\<close>

section \<open>Delivery\<close>

text \<open>
  \<open>post_batch\<close>: what the platform does with the delivered bytes and what the collector reads of its answer, which may be lost after the
  platform has acted.
\<close>

definition post_batch :: "py \<Rightarrow> ip_reader \<Rightarrow> store_limits \<Rightarrow> store_io \<Rightarrow> profile \<Rightarrow> int \<Rightarrow> bool \<Rightarrow> json \<Rightarrow> net_store \<Rightarrow> json result \<times> net_store" where
  "post_batch P ip limits io p now lost body st = (case network_ingest P ip limits io p body now st of
     (Inl e, st') \<Rightarrow> (failure (if lost then ''http_timeout'' else ''http_rejected''), st')
   | (Inr response, st') \<Rightarrow> (if lost then failure ''http_timeout'' else read_answer response, st'))"

text \<open>
  The durable steps of a collector and the platform it delivers to. \<open>serve b s r s'\<close> says that the platform, given the batch \<open>b\<close> in
  state \<open>s\<close>, may answer \<open>r\<close> and go to \<open>s'\<close>; \<open>other\<close> is what it does for other sources. What was sent stays with the network, which may
  deliver it at any time and more than once; an answer reaches the collector only while it waits. \<open>wd_fetched\<close> records the pages
  fetched so far, and a fetched page has a new identifier (\<open>uuid4\<close>).
\<close>

datatype phase =
    Stopped
  | Holding json batch
  | Waiting json batch
  | Answered json batch int
  | Saved

record 's world =
  wd_spool :: spool
  wd_store :: 's
  wd_phase :: phase
  wd_fetched :: "batch list"
  wd_sent :: "batch list"
  wd_answers :: "(batch \<times> json) list"

definition has_pending :: "'s world \<Rightarrow> bool" where
  "has_pending w = (sp_pending_file (wd_spool w) \<noteq> None)"

inductive delivery_step :: "py \<Rightarrow> ip_reader \<Rightarrow> collector_config \<Rightarrow> string \<Rightarrow> (batch \<Rightarrow> 's \<Rightarrow> json result \<Rightarrow> 's \<Rightarrow> bool) \<Rightarrow> ('s \<Rightarrow> 's \<Rightarrow> bool)
    \<Rightarrow> 's world \<Rightarrow> 's world \<Rightarrow> bool" for P ip c mapping serve other where
  Take: "wd_phase w = Stopped \<Longrightarrow> take_page P ip c deadline io (wd_spool w) = Inr (mapping, body, b, sp) \<Longrightarrow>
    has_pending w \<or> bt_batch_id b \<notin> bt_batch_id ` set (wd_fetched w) \<Longrightarrow>
    delivery_step P ip c mapping serve other w (w\<lparr>wd_spool := sp, wd_phase := Holding body b,
      wd_fetched := (if has_pending w then wd_fetched w else wd_fetched w @ [b])\<rparr>)"
| Send: "wd_phase w = Holding body b \<Longrightarrow>
    delivery_step P ip c mapping serve other w (w\<lparr>wd_phase := Waiting body b, wd_sent := b # wd_sent w\<rparr>)"
| Serve: "b \<in> set (wd_sent w) \<Longrightarrow> serve b (wd_store w) r s \<Longrightarrow>
    delivery_step P ip c mapping serve other w (w\<lparr>wd_store := s,
      wd_answers := (case r of Inl e \<Rightarrow> wd_answers w | Inr response \<Rightarrow> (b, response) # wd_answers w)\<rparr>)"
| Answer: "wd_phase w = Waiting body b \<Longrightarrow> (b, response) \<in> set (wd_answers w) \<Longrightarrow> and_then (read_answer response) (\<lambda>ack. check_ack P ack b) = Inr t \<Longrightarrow>
    delivery_step P ip c mapping serve other w (w\<lparr>wd_phase := Answered body b t\<rparr>)"
| Save: "wd_phase w = Answered body b t \<Longrightarrow>
    delivery_step P ip c mapping serve other w (w\<lparr>wd_spool := save_state (next_state P mapping body b t) (wd_spool w), wd_phase := Saved\<rparr>)"
| Unlink: "wd_phase w = Saved \<Longrightarrow>
    delivery_step P ip c mapping serve other w (w\<lparr>wd_spool := (wd_spool w)\<lparr>sp_pending_file := None\<rparr>, wd_phase := Stopped\<rparr>)"
| Crash: "delivery_step P ip c mapping serve other w (w\<lparr>wd_spool := (wd_spool w)\<lparr>sp_other_bytes := n\<rparr>, wd_phase := Stopped\<rparr>)"
| Other: "other (wd_store w) s \<Longrightarrow> delivery_step P ip c mapping serve other w (w\<lparr>wd_store := s\<rparr>)"

definition fresh_world :: "'s \<Rightarrow> int \<Rightarrow> 's world" where
  "fresh_world s n = \<lparr>wd_spool = \<lparr>sp_state_file = None, sp_pending_file = None, sp_other_bytes = n, sp_problem = None\<rparr>,
     wd_store = s, wd_phase = Stopped, wd_fetched = [], wd_sent = [], wd_answers = []\<rparr>"

section \<open>What the files say\<close>

text \<open>The key under which the platform files a page, the cursors of successive pages, and the last of them.\<close>

definition page_key :: "py \<Rightarrow> batch \<Rightarrow> string \<times> string" where
  "page_key P b = (bt_batch_id b, fingerprint P (batch_json b))"

fun chained :: "string option \<Rightarrow> batch list \<Rightarrow> bool" where
  "chained cursor [] = True"
| "chained cursor (b # bs) = (bt_cursor_before b = cursor \<and> chained (bt_cursor_after b) bs)"

definition final_cursor :: "batch list \<Rightarrow> string option" where
  "final_cursor bs = (if bs = [] then None else bt_cursor_after (last bs))"

lemma chained_snoc: "chained cursor (bs @ [b]) \<longleftrightarrow> chained cursor bs \<and> bt_cursor_before b = (if bs = [] then cursor else bt_cursor_after (last bs))"
  by (induction bs arbitrary: cursor) auto

lemma final_cursor_snoc [simp]: "final_cursor (bs @ [b]) = bt_cursor_after b"
  by (simp add: final_cursor_def)

text \<open>The state file of a collector that has finished the pages \<open>bs\<close>.\<close>

definition state_of :: "py \<Rightarrow> string \<Rightarrow> batch list \<Rightarrow> json option \<Rightarrow> bool" where
  "state_of P mapping bs f \<longleftrightarrow> (if bs = [] then f = None
     else \<exists>t. in_bounds MAX_REALTIME_US t \<and> f = Some (sort_keys (next_state P mapping (batch_json (last bs)) (last bs) t)))"

definition pending_of :: "py \<Rightarrow> string \<Rightarrow> batch \<Rightarrow> json option \<Rightarrow> bool" where
  "pending_of P mapping b f \<longleftrightarrow> f = Some (sort_keys (pending_json P mapping (batch_json b)))"

lemma sort_keys_fields_of:
  assumes "distinct (map fst r)"
  obtains q where "sort_keys (JObj r) = JObj q" and "keys_are q (map fst r)" and "\<forall>k. get_field q k = sort_keys (get_field r k)"
proof -
  obtain q where "sort_keys (JObj r) = JObj q" "set (map fst q) = set (map fst r)" "\<forall>k. get_field q k = sort_keys (get_field r k)"
    using assms by (rule sort_keys_obj)
  then show thesis by (intro that) (simp_all add: keys_are_def)
qed

lemma next_state_fields:
  obtains q where "sort_keys (next_state P mapping body b t) = JObj q" and "keys_are q STATE_FIELDS" and "get_field q ''version'' = JInt 1"
    and "get_field q ''identity'' = JStr mapping" and "get_field q ''cursor'' = opt_json JStr (bt_cursor_after b)"
    and "get_field q ''last_batch_id'' = JStr (bt_batch_id b)" and "get_field q ''last_payload_hash'' = JStr (fingerprint P body)"
    and "get_field q ''received_at_us'' = JInt t"
proof -
  have flat: "sort_keys (opt_json JStr (bt_cursor_after b)) = opt_json JStr (bt_cursor_after b)" using flat_simps(6) unfolding flat_def .
  let ?r = "[(''version'', JInt 1), (''identity'', JStr mapping), (''cursor'', opt_json JStr (bt_cursor_after b)), (''last_batch_id'', JStr (bt_batch_id b)),
     (''last_payload_hash'', JStr (fingerprint P body)), (''received_at_us'', JInt t)]"
  have "distinct (map fst ?r)" by simp
  then obtain q where q: "sort_keys (JObj ?r) = JObj q" "keys_are q (map fst ?r)" "\<forall>k. get_field q k = sort_keys (get_field ?r k)"
    by (rule sort_keys_fields_of)
  show thesis
    by (rule that [of q]) (use q flat in \<open>simp_all add: next_state_def STATE_FIELDS_def\<close>)
qed

lemma pending_fields:
  obtains q where "sort_keys (pending_json P mapping body) = JObj q" and "keys_are q [''version'', ''identity'', ''payload_hash'', ''batch'']"
    and "get_field q ''version'' = JInt 1" and "get_field q ''identity'' = JStr mapping" and "get_field q ''payload_hash'' = JStr (fingerprint P body)"
    and "get_field q ''batch'' = sort_keys body"
proof -
  let ?r = "[(''version'', JInt 1), (''identity'', JStr mapping), (''payload_hash'', JStr (fingerprint P body)), (''batch'', body)]"
  have "distinct (map fst ?r)" by simp
  then obtain q where q: "sort_keys (JObj ?r) = JObj q" "keys_are q (map fst ?r)" "\<forall>k. get_field q k = sort_keys (get_field ?r k)"
    by (rule sort_keys_fields_of)
  show thesis by (rule that [of q]) (use q in \<open>simp_all add: pending_json_def\<close>)
qed

text \<open>A state that loads has the cursor that was saved.\<close>

lemma load_state_cursor:
  assumes "load_state mapping sp = Inr state" "state_of P m bs (sp_state_file sp)"
  shows "sv_cursor state = final_cursor bs"
proof (cases "bs = []")
  case True
  with assms show ?thesis by (auto simp: load_state_def state_of_def final_cursor_def)
next
  case False
  then obtain t where f: "sp_state_file sp = Some (sort_keys (next_state P m (batch_json (last bs)) (last bs) t))"
    using assms(2) by (auto simp: state_of_def)
  obtain q where q: "sort_keys (next_state P m (batch_json (last bs)) (last bs) t) = JObj q"
    "get_field q ''cursor'' = opt_json JStr (bt_cursor_after (last bs))"
    by (rule next_state_fields)
  have "read_saved mapping q = Some state"
    using assms(1) by (auto simp: load_state_def f q(1) read_state_file_def failure_def split: option.splits if_splits)
  then have "opt_json JStr (sv_cursor state) = opt_json JStr (bt_cursor_after (last bs))"
    using q(2) by (auto simp: read_saved_def Option.bind_eq_Some_conv split: if_splits)
  then show ?thesis using False by (cases "sv_cursor state"; cases "bt_cursor_after (last bs)") (simp_all add: opt_json_def final_cursor_def)
qed

lemma take_pageE:
  assumes "take_page P ip c deadline io sp = Inr (mapping, body, b, sp')"
  obtains (resumed) state v where "load_state mapping sp = Inr state" and "sp_pending_file sp = Some v"
      and "validate_pending P ip (cc_profile c) mapping state v = Inr (body, b)" and "sp' = sp"
  | (fetched) state where "load_state mapping sp = Inr state" and "sp_pending_file sp = None" and "wf_json body"
      and "validate_batch P ip (cc_profile c) body = Inr b" and "bt_cursor_before b = sv_cursor state"
      and "sp' = sp\<lparr>sp_pending_file := Some (sort_keys (pending_json P mapping body))\<rparr>"
proof -
  obtain state where state: "load_state mapping sp = Inr state"
    using assms unfolding take_page_def
    by (auto simp: failure_def Let_def split: option.splits if_splits elim!: and_then_InrE)
  show thesis
  proof (cases "sp_pending_file sp")
    case (Some v)
    then show thesis
      using assms resumed [OF state Some] state unfolding take_page_def
      by (auto simp: read_state_file_def failure_def split: if_splits elim!: and_then_InrE)
  next
    case None
    then obtain raw where raw: "read_export P ip (cc_profile c) state raw = Inr (body, b)"
      and sp': "sp' = sp\<lparr>sp_pending_file := Some (sort_keys (pending_json P mapping body))\<rparr>"
      using assms state unfolding take_page_def
      by (auto simp: failure_def Let_def split: if_splits elim!: and_then_InrE)
    from raw have "wf_json body" "validate_batch P ip (cc_profile c) body = Inr b" "bt_cursor_before b = sv_cursor state"
      by (auto simp: read_export_def failure_def split: option.splits if_splits sum.splits)
    with fetched [OF state None] sp' show thesis by blast
  qed
qed

lemma pending_of_any_order:
  "same_json body (batch_json b) \<Longrightarrow> pending_of P mapping b (Some (sort_keys (pending_json P mapping body)))"
  by (simp add: pending_of_def pending_json_def fingerprint_same) (simp add: same_json_def)

lemma next_state_any_order: "same_json body (batch_json b) \<Longrightarrow> next_state P mapping body b t = next_state P mapping (batch_json b) b t"
  by (simp add: next_state_def fingerprint_same)

lemma take_fetched:
  assumes "take_page P ip c deadline io sp = Inr (mapping, body, b, sp')" "sp_pending_file sp = None" "state_of P m bs (sp_state_file sp)"
  shows "batch_ok P ip (cc_profile c) b \<and> same_json body (batch_json b) \<and> bt_cursor_before b = final_cursor bs \<and>
    pending_of P mapping b (sp_pending_file sp') \<and> sp_state_file sp' = sp_state_file sp"
  using assms(1)
proof (cases rule: take_pageE)
  case (fetched state)
  have ok: "batch_ok P ip (cc_profile c) b" and same: "same_json body (batch_json b)"
    using validate_batch_same [OF fetched(4,3)] by blast+
  have "bt_cursor_before b = final_cursor bs" using load_state_cursor [OF fetched(1) assms(3)] fetched(5) by simp
  with ok same pending_of_any_order [OF same] show ?thesis by (simp add: fetched(6))
qed (simp add: assms(2))

lemma take_resumed:
  assumes "take_page P ip c deadline io sp = Inr (mapping, body, b', sp')" "pending_of P m b (sp_pending_file sp)" "batch_ok P ip (cc_profile c) b"
  shows "b' = b \<and> same_json body (batch_json b) \<and> sp' = sp"
  using assms(1)
proof (cases rule: take_pageE)
  case (resumed state v)
  obtain q where q: "sort_keys (pending_json P m (batch_json b)) = JObj q" "get_field q ''batch'' = sort_keys (batch_json b)"
    by (rule pending_fields)
  have v: "v = JObj q" using resumed(2) assms(2) q(1) by (simp add: pending_of_def)
  have "validate_batch P ip (cc_profile c) (sort_keys (batch_json b)) = Inr b"
    using validate_batch_sorted [OF wf_batch_json] validate_batch_json [OF assms(3)] by simp
  then have "body = sort_keys (batch_json b)" "b' = b"
    using resumed(3) by (auto simp: validate_pending_def v q(2) failure_def Let_def split: if_splits)
  then show ?thesis using resumed(4) sort_keys_same by auto
qed (use assms(2) in \<open>simp add: pending_of_def\<close>)

section \<open>What a platform must promise\<close>

text \<open>
  A refused delivery changes nothing. An answered one has an answer the collector accepts, and either the page was on file before, or it is
  filed now, once, behind the pages on file and only if it starts where the last of them ended. Other sources leave these pages alone.
\<close>

locale receiver =
  fixes P :: py and ip :: ip_reader and c :: collector_config and serve :: "batch \<Rightarrow> 's \<Rightarrow> json result \<Rightarrow> 's \<Rightarrow> bool" and other :: "'s \<Rightarrow> 's \<Rightarrow> bool"
    and ok :: "'s \<Rightarrow> bool" and stored :: "'s \<Rightarrow> (string \<times> string) list" and checkpoint :: "'s \<Rightarrow> string option"
    and receipts :: "'s \<Rightarrow> batch \<Rightarrow> bool"
  assumes refused: "ok s \<Longrightarrow> batch_ok P ip (cc_profile c) b \<Longrightarrow> serve b s (Inl e) s' \<Longrightarrow> s' = s"
    and answered_ok: "ok s \<Longrightarrow> batch_ok P ip (cc_profile c) b \<Longrightarrow> serve b s (Inr response) s' \<Longrightarrow> ok s' \<and> validate_ack P response b = Inr ()"
    and answered: "ok s \<Longrightarrow> batch_ok P ip (cc_profile c) b \<Longrightarrow> serve b s (Inr response) s' \<Longrightarrow>
      s' = s \<and> page_key P b \<in> set (stored s) \<or>
      bt_batch_id b \<notin> fst ` set (stored s) \<and> stored s' = stored s @ [page_key P b] \<and> bt_cursor_before b = checkpoint s \<and>
      checkpoint s' = bt_cursor_after b \<and> receipts s' b \<and> (\<forall>b'. receipts s b' \<longrightarrow> receipts s' b')"
    and others: "ok s \<Longrightarrow> other s s' \<Longrightarrow> ok s' \<and> stored s' = stored s \<and> checkpoint s' = checkpoint s \<and> (\<forall>b. receipts s b \<longrightarrow> receipts s' b)"
begin

text \<open>The pages \<open>bs\<close> are on file, in this order and nothing else.\<close>

definition on_file :: "batch list \<Rightarrow> 's \<Rightarrow> bool" where
  "on_file bs s \<longleftrightarrow> stored s = map (page_key P) bs \<and> checkpoint s = final_cursor bs \<and> (\<forall>b \<in> set bs. receipts s b)"

lemma serve_on_file:
  assumes "ok s" "batch_ok P ip (cc_profile c) b" "serve b s r s'" "on_file bs s"
  shows "ok s'" and "on_file bs s' \<or> bt_batch_id b \<notin> bt_batch_id ` set bs \<and> on_file (bs @ [b]) s'"
    and "\<And>response. r = Inr response \<Longrightarrow> validate_ack P response b = Inr () \<and> page_key P b \<in> set (stored s')"
    and "set (stored s) \<subseteq> set (stored s')"
proof -
  have ids: "fst ` set (stored s) = bt_batch_id ` set bs" using assms(4) by (force simp: on_file_def page_key_def)
  have "ok s' \<and> (on_file bs s' \<or> bt_batch_id b \<notin> bt_batch_id ` set bs \<and> on_file (bs @ [b]) s') \<and>
    (\<forall>response. r = Inr response \<longrightarrow> validate_ack P response b = Inr () \<and> page_key P b \<in> set (stored s')) \<and>
    set (stored s) \<subseteq> set (stored s')"
  proof (cases r)
    case (Inl e)
    then have "s' = s" using refused assms by simp
    with Inl assms show ?thesis by simp
  next
    case (Inr response)
    note a = answered_ok [OF assms(1,2) assms(3) [unfolded Inr]] answered [OF assms(1,2) assms(3) [unfolded Inr]]
    from a(2) have "(on_file bs s' \<or> bt_batch_id b \<notin> bt_batch_id ` set bs \<and> on_file (bs @ [b]) s') \<and> page_key P b \<in> set (stored s') \<and>
        set (stored s) \<subseteq> set (stored s')"
      unfolding ids using assms(4) by (elim disjE) (auto simp: on_file_def)
    with a(1) Inr show ?thesis by simp
  qed
  then show "ok s'" "on_file bs s' \<or> bt_batch_id b \<notin> bt_batch_id ` set bs \<and> on_file (bs @ [b]) s'"
    "\<And>response. r = Inr response \<Longrightarrow> validate_ack P response b = Inr () \<and> page_key P b \<in> set (stored s')"
    "set (stored s) \<subseteq> set (stored s')" by blast+
qed

lemma other_on_file: "ok s \<Longrightarrow> other s s' \<Longrightarrow> on_file bs s \<Longrightarrow> ok s' \<and> on_file bs s'"
  using others by (auto simp: on_file_def)

text \<open>The page the process works on, and the three situations between two steps: no page in the spool, one that is not on file, one that is.\<close>

definition works_on :: "batch \<Rightarrow> phase \<Rightarrow> bool" where
  "works_on b ph \<longleftrightarrow> (case ph of
     Holding body b' \<Rightarrow> b' = b \<and> same_json body (batch_json b)
   | Waiting body b' \<Rightarrow> b' = b \<and> same_json body (batch_json b)
   | Answered body b' t \<Rightarrow> b' = b \<and> same_json body (batch_json b) \<and> in_bounds MAX_REALTIME_US t
   | _ \<Rightarrow> True)"

definition unanswered :: "phase \<Rightarrow> bool" where
  "unanswered ph \<longleftrightarrow> (case ph of Answered body b t \<Rightarrow> False | Saved \<Rightarrow> False | _ \<Rightarrow> True)"

definition idle :: "string \<Rightarrow> 's world \<Rightarrow> bool" where
  "idle mapping w \<longleftrightarrow> wd_phase w = Stopped \<and> sp_pending_file (wd_spool w) = None \<and> on_file (wd_fetched w) (wd_store w) \<and>
     state_of P mapping (wd_fetched w) (sp_state_file (wd_spool w))"

definition in_spool :: "string \<Rightarrow> batch list \<Rightarrow> batch \<Rightarrow> 's world \<Rightarrow> bool" where
  "in_spool mapping bs b w \<longleftrightarrow> wd_fetched w = bs @ [b] \<and> pending_of P mapping b (sp_pending_file (wd_spool w)) \<and> works_on b (wd_phase w)"

definition not_filed :: "string \<Rightarrow> batch list \<Rightarrow> batch \<Rightarrow> 's world \<Rightarrow> bool" where
  "not_filed mapping bs b w \<longleftrightarrow> in_spool mapping bs b w \<and> unanswered (wd_phase w) \<and> on_file bs (wd_store w) \<and>
     state_of P mapping bs (sp_state_file (wd_spool w))"

definition filed :: "string \<Rightarrow> batch list \<Rightarrow> batch \<Rightarrow> 's world \<Rightarrow> bool" where
  "filed mapping bs b w \<longleftrightarrow> in_spool mapping bs b w \<and> on_file (bs @ [b]) (wd_store w) \<and>
     (state_of P mapping (bs @ [b]) (sp_state_file (wd_spool w)) \<or> wd_phase w \<noteq> Saved \<and> state_of P mapping bs (sp_state_file (wd_spool w)))"

definition history_ok :: "'s world \<Rightarrow> bool" where
  "history_ok w \<longleftrightarrow> ok (wd_store w) \<and> distinct (map bt_batch_id (wd_fetched w)) \<and> chained None (wd_fetched w) \<and>
     (\<forall>b \<in> set (wd_fetched w). batch_ok P ip (cc_profile c) b) \<and> set (wd_sent w) \<subseteq> set (wd_fetched w) \<and>
     (\<forall>(b, response) \<in> set (wd_answers w). page_key P b \<in> set (stored (wd_store w)) \<and> validate_ack P response b = Inr ())"

definition delivering :: "string \<Rightarrow> 's world \<Rightarrow> bool" where
  "delivering mapping w \<longleftrightarrow> history_ok w \<and> (idle mapping w \<or> (\<exists>bs b. not_filed mapping bs b w \<or> filed mapping bs b w))"

lemma delivering_cases:
  assumes "delivering mapping w"
  obtains (idle) "history_ok w" "idle mapping w"
  | (not_filed) bs b where "history_ok w" "not_filed mapping bs b w"
  | (filed) bs b where "history_ok w" "filed mapping bs b w"
  using assms unfolding delivering_def by blast

lemma pending_iff:
  "idle mapping w \<Longrightarrow> \<not> has_pending w" "not_filed mapping bs b w \<Longrightarrow> has_pending w" "filed mapping bs b w \<Longrightarrow> has_pending w"
  by (auto simp: has_pending_def idle_def not_filed_def filed_def in_spool_def pending_of_def)

lemma take_kept:
  assumes "delivering mapping w" "wd_phase w = Stopped" "take_page P ip c deadline io (wd_spool w) = Inr (mapping, body, b, sp)"
    "has_pending w \<or> bt_batch_id b \<notin> bt_batch_id ` set (wd_fetched w)"
  shows "delivering mapping (w\<lparr>wd_spool := sp, wd_phase := Holding body b,
    wd_fetched := (if has_pending w then wd_fetched w else wd_fetched w @ [b])\<rparr>)"
  using assms(1)
proof (cases rule: delivering_cases)
  case idle
  note no = pending_iff(1) [OF idle(2)]
  then have "sp_pending_file (wd_spool w) = None" by (simp add: has_pending_def)
  from take_fetched [OF assms(3) this] idle(2) have new: "batch_ok P ip (cc_profile c) b" "same_json body (batch_json b)"
    "bt_cursor_before b = final_cursor (wd_fetched w)" "pending_of P mapping b (sp_pending_file sp)" "sp_state_file sp = sp_state_file (wd_spool w)"
    unfolding idle_def by blast+
  let ?w = "w\<lparr>wd_spool := sp, wd_phase := Holding body b, wd_fetched := wd_fetched w @ [b]\<rparr>"
  have "not_filed mapping (wd_fetched w) b ?w"
    using idle(2) new by (simp add: not_filed_def in_spool_def idle_def works_on_def unanswered_def)
  moreover have "history_ok ?w" using idle(1) new assms(4) no by (auto simp: history_ok_def chained_snoc final_cursor_def)
  ultimately show ?thesis using no by (auto simp: delivering_def)
next
  case (not_filed bs b1)
  have "batch_ok P ip (cc_profile c) b1" using not_filed by (auto simp: history_ok_def not_filed_def in_spool_def)
  then have "b = b1" "same_json body (batch_json b1)" "sp = wd_spool w"
    using take_resumed [OF assms(3)] not_filed(2) by (auto simp: not_filed_def in_spool_def)
  then have "not_filed mapping bs b1 (w\<lparr>wd_spool := sp, wd_phase := Holding body b\<rparr>)" "history_ok (w\<lparr>wd_spool := sp, wd_phase := Holding body b\<rparr>)"
    using not_filed by (simp_all add: not_filed_def in_spool_def works_on_def unanswered_def history_ok_def)
  then show ?thesis using pending_iff(2) [OF not_filed(2)] by (auto simp: delivering_def)
next
  case (filed bs b1)
  have "batch_ok P ip (cc_profile c) b1" using filed by (auto simp: history_ok_def filed_def in_spool_def)
  then have "b = b1" "same_json body (batch_json b1)" "sp = wd_spool w"
    using take_resumed [OF assms(3)] filed(2) by (auto simp: filed_def in_spool_def)
  then have "filed mapping bs b1 (w\<lparr>wd_spool := sp, wd_phase := Holding body b\<rparr>)" "history_ok (w\<lparr>wd_spool := sp, wd_phase := Holding body b\<rparr>)"
    using filed assms(2) by (auto simp: filed_def in_spool_def works_on_def history_ok_def)
  then show ?thesis using pending_iff(3) [OF filed(2)] by (auto simp: delivering_def)
qed

lemma serve_kept:
  assumes "delivering mapping w" "b \<in> set (wd_sent w)" "serve b (wd_store w) r s"
  shows "delivering mapping (w\<lparr>wd_store := s, wd_answers := (case r of Inl e \<Rightarrow> wd_answers w | Inr response \<Rightarrow> (b, response) # wd_answers w)\<rparr>)"
    (is "delivering mapping ?w")
proof -
  have hist: "history_ok w" using assms(1) by (simp add: delivering_def)
  then have b: "b \<in> set (wd_fetched w)" "batch_ok P ip (cc_profile c) b" and ok: "ok (wd_store w)"
    using assms(2) by (auto simp: history_ok_def)
  note served = serve_on_file [OF ok b(2) assms(3)]
  have history: "history_ok ?w" if "on_file bs (wd_store w)" for bs
    using hist served(1,3,4) [OF that] by (auto simp: history_ok_def split: sum.split)
  from assms(1) show ?thesis
  proof (cases rule: delivering_cases)
    case idle
    then have f: "on_file (wd_fetched w) (wd_store w)" by (simp add: idle_def)
    then have "on_file (wd_fetched w) s" using served(2) b(1) by auto
    with idle history [OF f] show ?thesis by (simp add: delivering_def idle_def)
  next
    case (not_filed bs b1)
    then have f: "on_file bs (wd_store w)" and F: "wd_fetched w = bs @ [b1]" by (simp_all add: not_filed_def in_spool_def)
    from served(2) [OF f] b(1) F consider "on_file bs s" | "b = b1" "on_file (bs @ [b1]) s" by auto
    then have "not_filed mapping bs b1 ?w \<or> filed mapping bs b1 ?w"
      using not_filed(2) by cases (auto simp: not_filed_def filed_def in_spool_def unanswered_def)
    with history [OF f] show ?thesis by (auto simp: delivering_def)
  next
    case (filed bs b1)
    then have f: "on_file (bs @ [b1]) (wd_store w)" and F: "wd_fetched w = bs @ [b1]" by (simp_all add: filed_def in_spool_def)
    then have "on_file (bs @ [b1]) s" using served(2) [OF f] b(1) by (auto simp: F)
    with filed history [OF f] have "filed mapping bs b1 ?w" by (simp add: filed_def in_spool_def)
    with history [OF f] show ?thesis by (auto simp: delivering_def)
  qed
qed

lemmas situations = not_filed_def filed_def in_spool_def idle_def

lemma answer_filed:
  assumes "delivering mapping w" "wd_phase w = Waiting body b" "(b, response) \<in> set (wd_answers w)"
  obtains bs where "history_ok w" "filed mapping bs b w"
  using assms(1)
proof (cases rule: delivering_cases)
  case (not_filed bs b1)
  then have "b1 = b" using assms(2) by (simp add: situations works_on_def)
  moreover have "page_key P b \<in> set (map (page_key P) bs)" using not_filed assms(3) by (auto simp: history_ok_def situations on_file_def)
  moreover have "bt_batch_id b1 \<notin> bt_batch_id ` set bs" using not_filed by (auto simp: history_ok_def situations)
  ultimately show thesis by (auto simp: page_key_def)
next
  case (filed bs b1)
  then have "b1 = b" using assms(2) by (simp add: situations works_on_def)
  with filed that show thesis by blast
qed (use assms(2) in \<open>simp add: idle_def\<close>)

lemma check_ack_time:
  assumes "check_ack P ack b = Inr t"
  shows "in_bounds MAX_REALTIME_US t"
proof -
  obtain r t' where "ack = JObj r" "get_field r ''received_at_us'' = JInt t'" "in_bounds MAX_REALTIME_US t'"
    using assms by (cases ack) (auto simp: check_ack_def validate_ack_def failure_def check_number_iff split: sum.splits if_splits elim!: and_then_InrE)
  with assms show ?thesis by (auto simp: check_ack_def ack_time_def failure_def split: sum.splits)
qed

lemma answer_kept:
  assumes "delivering mapping w" "wd_phase w = Waiting body b" "(b, response) \<in> set (wd_answers w)"
    "and_then (read_answer response) (\<lambda>ack. check_ack P ack b) = Inr t"
  shows "delivering mapping (w\<lparr>wd_phase := Answered body b t\<rparr>)"
proof -
  obtain bs where f: "history_ok w" "filed mapping bs b w" using assms(1-3) by (rule answer_filed)
  have "in_bounds MAX_REALTIME_US t" using assms(4) by (auto intro: check_ack_time elim!: and_then_InrE)
  then have "filed mapping bs b (w\<lparr>wd_phase := Answered body b t\<rparr>)" using f(2) assms(2) by (simp add: situations works_on_def)
  then show ?thesis using f(1) by (auto simp: delivering_def history_ok_def)
qed

lemma save_kept:
  assumes "delivering mapping w" "wd_phase w = Answered body b t"
  shows "delivering mapping (w\<lparr>wd_spool := save_state (next_state P mapping body b t) (wd_spool w), wd_phase := Saved\<rparr>)"
  using assms(1)
proof (cases rule: delivering_cases)
  case (filed bs b1)
  then have "b1 = b" "same_json body (batch_json b)" "in_bounds MAX_REALTIME_US t" using assms(2) by (simp_all add: situations works_on_def)
  then have "filed mapping bs b (w\<lparr>wd_spool := save_state (next_state P mapping body b t) (wd_spool w), wd_phase := Saved\<rparr>)"
    using filed(2) next_state_any_order [of body b P mapping t] by (auto simp: situations works_on_def save_state_def state_of_def)
  then show ?thesis using filed(1) by (auto simp: delivering_def history_ok_def)
qed (use assms(2) in \<open>simp_all add: situations unanswered_def\<close>)

lemma unlink_kept:
  assumes "delivering mapping w" "wd_phase w = Saved"
  shows "delivering mapping (w\<lparr>wd_spool := (wd_spool w)\<lparr>sp_pending_file := None\<rparr>, wd_phase := Stopped\<rparr>)"
  using assms(1)
proof (cases rule: delivering_cases)
  case (filed bs b)
  then have "idle mapping (w\<lparr>wd_spool := (wd_spool w)\<lparr>sp_pending_file := None\<rparr>, wd_phase := Stopped\<rparr>)"
    using assms(2) by (simp add: situations)
  then show ?thesis using filed(1) by (simp add: delivering_def history_ok_def)
qed (use assms(2) in \<open>simp_all add: situations unanswered_def\<close>)

lemma send_kept:
  assumes "delivering mapping w" "wd_phase w = Holding body b"
  shows "delivering mapping (w\<lparr>wd_phase := Waiting body b, wd_sent := b # wd_sent w\<rparr>)"
  using assms(1)
proof (cases rule: delivering_cases)
  case (not_filed bs b1)
  then have "not_filed mapping bs b1 (w\<lparr>wd_phase := Waiting body b, wd_sent := b # wd_sent w\<rparr>)" "b \<in> set (wd_fetched w)"
    using assms(2) by (simp_all add: situations works_on_def unanswered_def)
  then show ?thesis using not_filed(1) by (auto simp: delivering_def history_ok_def)
next
  case (filed bs b1)
  then have "filed mapping bs b1 (w\<lparr>wd_phase := Waiting body b, wd_sent := b # wd_sent w\<rparr>)" "b \<in> set (wd_fetched w)"
    using assms(2) by (simp_all add: situations works_on_def)
  then show ?thesis using filed(1) by (auto simp: delivering_def history_ok_def)
qed (use assms(2) in \<open>simp add: idle_def\<close>)

lemma crash_kept:
  assumes "delivering mapping w"
  shows "delivering mapping (w\<lparr>wd_spool := (wd_spool w)\<lparr>sp_other_bytes := n\<rparr>, wd_phase := Stopped\<rparr>)" (is "delivering mapping ?w")
proof -
  have "idle mapping w \<Longrightarrow> idle mapping ?w" "not_filed mapping bs b w \<Longrightarrow> not_filed mapping bs b ?w" "filed mapping bs b w \<Longrightarrow> filed mapping bs b ?w" for bs b
    by (auto simp: situations works_on_def unanswered_def)
  moreover have "history_ok w \<Longrightarrow> history_ok ?w" by (simp add: history_ok_def)
  ultimately show ?thesis using assms unfolding delivering_def by metis
qed

lemma others_kept:
  assumes "delivering mapping w" "other (wd_store w) s"
  shows "delivering mapping (w\<lparr>wd_store := s\<rparr>)"
proof -
  have hist: "history_ok w" using assms(1) by (simp add: delivering_def)
  then have ok: "ok (wd_store w)" by (simp add: history_ok_def)
  have "on_file bs (wd_store w) \<Longrightarrow> on_file bs s" for bs using other_on_file [OF ok assms(2)] by blast
  then have "idle mapping w \<Longrightarrow> idle mapping (w\<lparr>wd_store := s\<rparr>)" "not_filed mapping bs b w \<Longrightarrow> not_filed mapping bs b (w\<lparr>wd_store := s\<rparr>)"
    "filed mapping bs b w \<Longrightarrow> filed mapping bs b (w\<lparr>wd_store := s\<rparr>)" for bs b
    by (auto simp: situations)
  moreover have "history_ok (w\<lparr>wd_store := s\<rparr>)" using hist others [OF ok assms(2)] by (simp add: history_ok_def)
  ultimately show ?thesis using assms(1) unfolding delivering_def by metis
qed

lemma step_kept:
  assumes "delivery_step P ip c mapping serve other w w'" "delivering mapping w"
  shows "delivering mapping w'"
  using assms(1)
proof cases
  case (Take deadline io body b sp)
  show ?thesis unfolding Take(1) by (rule take_kept [OF assms(2) Take(2-4)])
next
  case (Serve b r s)
  show ?thesis unfolding Serve(1) by (rule serve_kept [OF assms(2) Serve(2,3)])
next
  case (Answer body b response t)
  show ?thesis unfolding Answer(1) by (rule answer_kept [OF assms(2) Answer(2-4)])
qed (simp_all add: assms(2) send_kept save_kept unlink_kept crash_kept others_kept)

lemma fresh_delivering: "ok s \<Longrightarrow> stored s = [] \<Longrightarrow> checkpoint s = None \<Longrightarrow> delivering mapping (fresh_world s n)"
  by (simp add: delivering_def history_ok_def idle_def on_file_def fresh_world_def state_of_def final_cursor_def)

theorem reachable_delivering:
  assumes "(delivery_step P ip c mapping serve other)\<^sup>*\<^sup>* (fresh_world s n) w" "ok s" "stored s = []" "checkpoint s = None"
  shows "delivering mapping w"
  using assms(1) by (induction rule: rtranclp_induct) (simp_all add: fresh_delivering assms step_kept)

text \<open>In every reachable world the pages on file are the fetched ones, each once and in order, except that the page in the spool may be missing.\<close>

lemma filed_pages:
  assumes "delivering mapping w"
  obtains bs where "on_file bs (wd_store w)" and "chained None (wd_fetched w)" and "distinct (map bt_batch_id (wd_fetched w))"
    and "wd_fetched w = bs \<or> (\<exists>b. wd_fetched w = bs @ [b] \<and> pending_of P mapping b (sp_pending_file (wd_spool w)))"
    and "has_pending w \<or> wd_fetched w = bs \<and> state_of P mapping bs (sp_state_file (wd_spool w))"
  using assms
proof (cases rule: delivering_cases)
  case idle
  then show thesis by (intro that [of "wd_fetched w"]) (simp_all add: situations history_ok_def)
next
  case (not_filed bs b)
  then show thesis using pending_iff(2) [OF not_filed(2)] by (intro that [of bs]) (auto simp: situations history_ok_def)
next
  case (filed bs b)
  then show thesis using pending_iff(3) [OF filed(2)] by (intro that [of "bs @ [b]"]) (auto simp: situations history_ok_def)
qed

end

section \<open>The platform keeps the promise\<close>

definition platform_serves :: "py \<Rightarrow> ip_reader \<Rightarrow> store_limits \<Rightarrow> profile \<Rightarrow> batch \<Rightarrow> net_store \<Rightarrow> json result \<Rightarrow> net_store \<Rightarrow> bool" where
  "platform_serves P ip limits p b st r st' \<longleftrightarrow> (\<exists>payload io now. wf_json payload \<and> same_json payload (batch_json b) \<and>
     network_ingest P ip limits io p payload now st = (r, st'))"

definition platform_other :: "py \<Rightarrow> ip_reader \<Rightarrow> store_limits \<Rightarrow> string \<Rightarrow> net_store \<Rightarrow> net_store \<Rightarrow> bool" where
  "platform_other P ip limits source st st' \<longleftrightarrow> (\<exists>p payload io now r. wf_json payload \<and> sp_source_id p \<noteq> source \<and>
     network_ingest P ip limits io p payload now st = (r, st'))"

definition filed_keys :: "string \<Rightarrow> net_store \<Rightarrow> (string \<times> string) list" where
  "filed_keys source st = map (\<lambda>row. (br_batch_id row, br_payload_hash row)) (filter (\<lambda>row. br_source_id row = source) (ns_batches st))"

lemma ingest_as_batch:
  assumes "wf_json payload" "same_json payload (batch_json b)" "batch_ok P ip p b" "network_ingest P ip limits io p payload now st = (r, st')"
  shows "ingest_batch P limits io b (fingerprint P (batch_json b)) now st = (r, st')"
  using assms validate_batch_any_order [OF assms(1-3)] fingerprint_same [OF assms(2)] by (simp add: network_ingest_def)

lemma found_key:
  assumes "find (same_batch_id b) (ns_batches st) = Some row"
  shows "(bt_batch_id b, br_payload_hash row) \<in> set (filed_keys (bt_source_id b) st)"
proof -
  have "row \<in> set (ns_batches st)" "same_batch_id b row" using assms by (metis find_Some_iff nth_mem)+
  then show ?thesis by (force simp: filed_keys_def same_batch_id_def)
qed

lemma not_found_id: "find (same_batch_id b) (ns_batches st) = None \<Longrightarrow> bt_batch_id b \<notin> fst ` set (filed_keys (bt_source_id b) st)"
  by (auto simp: find_None_iff filed_keys_def same_batch_id_def)

lemma receipted_more: "\<exists>new. ns_receipts st' = ns_receipts st @ new \<Longrightarrow> receipted b xs st \<Longrightarrow> receipted b xs st'"
  by (auto simp: receipted_def map_of_extended)

lemma platform_answers:
  assumes ok: "store_ok P st" "\<not> digest_collision P" and b: "batch_ok P ip p b" "sp_source_id p = source"
    and step: "platform_serves P ip limits p b st (Inr response) st'"
  shows "st' = st \<and> page_key P b \<in> set (filed_keys source st) \<or>
    bt_batch_id b \<notin> fst ` set (filed_keys source st) \<and> filed_keys source st' = filed_keys source st @ [page_key P b] \<and>
    bt_cursor_before b = checkpoint_of st source \<and> checkpoint_of st' source = bt_cursor_after b \<and> receipted b (bt_entries b) st' \<and>
    (\<forall>b'. receipted b' (bt_entries b') st \<longrightarrow> receipted b' (bt_entries b') st')"
proof -
  have source: "bt_source_id b = source" using b by (simp add: batch_ok_def)
  from step obtain io now where "ingest_batch P limits io b (fingerprint P (batch_json b)) now st = (Inr response, st')"
    unfolding platform_serves_def using ingest_as_batch [OF _ _ b(1)] by blast
  then show ?thesis
  proof (cases rule: ingest_batch_cases)
    case (replayed row)
    then show ?thesis using found_key [OF replayed(1)] by (simp add: page_key_def source)
  next
    case (stored response')
    note s = store_batch_ok [OF stored(3) refl stored(2) ok]
    show ?thesis
      using not_found_id [OF stored(1)] s(3,5,6,7) receipted_more [OF s(8)] by (auto simp: source page_key_def filed_keys_def)
  qed simp
qed

lemma platform_others:
  assumes ok: "store_ok P st" "\<not> digest_collision P" and step: "platform_other P ip limits source st st'"
  shows "store_ok P st' \<and> filed_keys source st' = filed_keys source st \<and> checkpoint_of st' source = checkpoint_of st source \<and>
    (\<forall>b. receipted b (bt_entries b) st \<longrightarrow> receipted b (bt_entries b) st')"
proof -
  obtain p payload io now r where p: "wf_json payload" "sp_source_id p \<noteq> source"
    and i: "network_ingest P ip limits io p payload now st = (r, st')"
    using step unfolding platform_other_def by blast
  show ?thesis
  proof (cases "validate_batch P ip p payload")
    case (Inl e)
    then show ?thesis using i ok by (simp add: network_ingest_def)
  next
    case (Inr b)
    note same = validate_batch_same [OF Inr p(1)]
    have b: "bt_source_id b \<noteq> source" using same(2) p(2) by (simp add: batch_ok_def)
    have step: "ingest_batch P limits io b (fingerprint P (batch_json b)) now st = (r, st')" by (rule ingest_as_batch [OF p(1) same i])
    then show ?thesis
    proof (cases rule: ingest_batch_cases)
      case (stored response)
      note s = store_batch_ok [OF stored(3) refl stored(2) ok]
      show ?thesis using s(2,6) s(4) [of source] b receipted_more [OF s(8)] by (auto simp: filed_keys_def)
    qed (simp_all add: ok)
  qed
qed

interpretation platform: receiver P ip c "platform_serves P ip limits (cc_profile c)"
    "platform_other P ip limits (sp_source_id (cc_profile c))" "\<lambda>st. store_ok P st \<and> \<not> digest_collision P"
    "filed_keys (sp_source_id (cc_profile c))" "\<lambda>st. checkpoint_of st (sp_source_id (cc_profile c))"
    "\<lambda>st b. receipted b (bt_entries b) st" for P ip c limits
proof unfold_locales
  fix st b e st'
  assume "batch_ok P ip (cc_profile c) b" "platform_serves P ip limits (cc_profile c) b st (Inl e) st'"
  then obtain io now where "ingest_batch P limits io b (fingerprint P (batch_json b)) now st = (Inl e, st')"
    unfolding platform_serves_def using ingest_as_batch by blast
  then show "st' = st" by (cases rule: ingest_batch_cases) simp_all
next
  fix st b response st'
  assume ok: "store_ok P st \<and> \<not> digest_collision P" and b: "batch_ok P ip (cc_profile c) b"
    and step: "platform_serves P ip limits (cc_profile c) b st (Inr response) st'"
  then obtain io now where "ingest_batch P limits io b (fingerprint P (batch_json b)) now st = (Inr response, st')"
    unfolding platform_serves_def using ingest_as_batch by blast
  then show "(store_ok P st' \<and> \<not> digest_collision P) \<and> validate_ack P response b = Inr ()" using ingest_batch_ok ok by blast
next
  fix st b response st'
  assume "store_ok P st \<and> \<not> digest_collision P" "batch_ok P ip (cc_profile c) b" "platform_serves P ip limits (cc_profile c) b st (Inr response) st'"
  then show "st' = st \<and> page_key P b \<in> set (filed_keys (sp_source_id (cc_profile c)) st) \<or>
      bt_batch_id b \<notin> fst ` set (filed_keys (sp_source_id (cc_profile c)) st) \<and>
      filed_keys (sp_source_id (cc_profile c)) st' = filed_keys (sp_source_id (cc_profile c)) st @ [page_key P b] \<and>
      bt_cursor_before b = checkpoint_of st (sp_source_id (cc_profile c)) \<and> checkpoint_of st' (sp_source_id (cc_profile c)) = bt_cursor_after b \<and>
      receipted b (bt_entries b) st' \<and> (\<forall>b'. receipted b' (bt_entries b') st \<longrightarrow> receipted b' (bt_entries b') st')"
    using platform_answers by blast
next
  fix st st'
  assume "store_ok P st \<and> \<not> digest_collision P" "platform_other P ip limits (sp_source_id (cc_profile c)) st st'"
  then show "(store_ok P st' \<and> \<not> digest_collision P) \<and> filed_keys (sp_source_id (cc_profile c)) st' = filed_keys (sp_source_id (cc_profile c)) st \<and>
      checkpoint_of st' (sp_source_id (cc_profile c)) = checkpoint_of st (sp_source_id (cc_profile c)) \<and>
      (\<forall>b. receipted b (bt_entries b) st \<longrightarrow> receipted b (bt_entries b) st')"
    using platform_others by blast
qed

section \<open>Every page exactly once\<close>

definition delivery_run :: "py \<Rightarrow> ip_reader \<Rightarrow> store_limits \<Rightarrow> collector_config \<Rightarrow> string \<Rightarrow> net_store world \<Rightarrow> net_store world \<Rightarrow> bool" where
  "delivery_run P ip limits c mapping = (delivery_step P ip c mapping (platform_serves P ip limits (cc_profile c))
     (platform_other P ip limits (sp_source_id (cc_profile c))))\<^sup>*\<^sup>*"

text \<open>
  C12: whenever the collector is stopped and restarted, whatever the network loses, repeats or delays, and whatever other sources deliver
  meanwhile, the platform has filed exactly the fetched pages, each once and in the order of their cursors, with a receipt for every
  entry; only the page in the spool may still be missing. When the spool is empty nothing is missing, and the saved cursor is that of the
  platform. The batch identifiers are fresh and SHA-256 has no collision.
\<close>

theorem pages_filed_exactly_once:
  assumes "\<not> digest_collision P" and "delivery_run P ip limits c mapping (fresh_world st n) w" and "store_ok P st"
    and "filed_keys (sp_source_id (cc_profile c)) st = []" and "checkpoint_of st (sp_source_id (cc_profile c)) = None"
  shows "\<exists>bs. filed_keys (sp_source_id (cc_profile c)) (wd_store w) = map (page_key P) bs \<and>
    checkpoint_of (wd_store w) (sp_source_id (cc_profile c)) = final_cursor bs \<and> (\<forall>b \<in> set bs. receipted b (bt_entries b) (wd_store w)) \<and>
    chained None (wd_fetched w) \<and> distinct (map bt_batch_id (wd_fetched w)) \<and>
    (wd_fetched w = bs \<or> (\<exists>b. wd_fetched w = bs @ [b] \<and> pending_of P mapping b (sp_pending_file (wd_spool w)))) \<and>
    (has_pending w \<or> wd_fetched w = bs \<and> state_of P mapping bs (sp_state_file (wd_spool w)))"
proof -
  have "platform.delivering P ip c mapping w"
    using platform.reachable_delivering assms unfolding delivery_run_def by blast
  then obtain bs where "platform.on_file P c bs (wd_store w)" "chained None (wd_fetched w)" "distinct (map bt_batch_id (wd_fetched w))"
    "wd_fetched w = bs \<or> (\<exists>b. wd_fetched w = bs @ [b] \<and> pending_of P mapping b (sp_pending_file (wd_spool w)))"
    "has_pending w \<or> wd_fetched w = bs \<and> state_of P mapping bs (sp_state_file (wd_spool w))"
    by (rule platform.filed_pages)
  then show ?thesis unfolding platform.on_file_def by blast
qed

section \<open>A call of the collector is such a run\<close>

definition fresh_export :: "py \<Rightarrow> ip_reader \<Rightarrow> collector_config \<Rightarrow> page_io \<Rightarrow> 's world \<Rightarrow> bool" where
  "fresh_export P ip c io w \<longleftrightarrow> (\<forall>cursor timeout body b. pg_fetch io cursor timeout = Inr (Some body) \<longrightarrow>
     validate_batch P ip (cc_profile c) body = Inr b \<longrightarrow> bt_batch_id b \<notin> bt_batch_id ` set (wd_fetched w))"

lemma take_fresh:
  assumes "take_page P ip c deadline io (wd_spool w) = Inr (mapping, body, b, sp)" "fresh_export P ip c io w"
  shows "has_pending w \<or> bt_batch_id b \<notin> bt_batch_id ` set (wd_fetched w)"
proof (cases "has_pending w")
  case False
  then obtain state raw timeout where raw: "pg_fetch io (sv_cursor state) timeout = Inr raw" "read_export P ip (cc_profile c) state raw = Inr (body, b)"
    using assms(1) unfolding take_page_def has_pending_def
    by (auto simp: failure_def Let_def split: option.splits if_splits elim!: and_then_InrE)
  then have "raw = Some body" "validate_batch P ip (cc_profile c) body = Inr b"
    by (auto simp: read_export_def failure_def split: option.splits if_splits sum.splits)
  then show ?thesis using raw(1) assms(2) unfolding fresh_export_def by blast
qed simp

lemma take_page_mapping: "take_page P ip c deadline io sp = Inr (mapping, body, b, sp') \<Longrightarrow> identity P c (pg_ssh_config io) = Inr mapping"
  unfolding take_page_def by (auto simp: failure_def Let_def split: option.splits if_splits elim!: and_then_InrE)

lemma run_step:
  "delivery_run P ip limits c mapping w w1 \<Longrightarrow> delivery_step P ip c mapping (platform_serves P ip limits (cc_profile c))
     (platform_other P ip limits (sp_source_id (cc_profile c))) w1 w2 \<Longrightarrow> delivery_run P ip limits c mapping w w2"
  unfolding delivery_run_def by (rule rtranclp.rtrancl_into_rtrancl)

lemma run_refl: "delivery_run P ip limits c mapping w w"
  by (simp add: delivery_run_def)

lemma run_kept: "delivery_run P ip limits c mapping w w1 \<Longrightarrow> platform.delivering P ip c mapping w \<Longrightarrow> platform.delivering P ip c mapping w1"
  unfolding delivery_run_def by (induction rule: rtranclp_induct) (auto intro: platform.step_kept)

lemma same_wf: "same_json body (batch_json b) \<Longrightarrow> wf_json body"
  by (metis same_json_def wf_batch_json wf_json_sort_keys)

lemma taken_page:
  assumes "platform.delivering P ip c mapping w" "wd_phase w = Stopped" "take_page P ip c deadline io (wd_spool w) = Inr (mapping, body, b, sp)"
    "fresh_export P ip c io w"
  obtains w1 where "delivery_run P ip limits c mapping w w1" "wd_spool w1 = sp" "wd_store w1 = wd_store w" "wd_phase w1 = Holding body b"
    "same_json body (batch_json b)" "batch_ok P ip (cc_profile c) b"
proof -
  let ?w = "w\<lparr>wd_spool := sp, wd_phase := Holding body b, wd_fetched := (if has_pending w then wd_fetched w else wd_fetched w @ [b])\<rparr>"
  have run: "delivery_run P ip limits c mapping w ?w"
    by (rule run_step [OF run_refl]) (rule delivery_step.Take [OF assms(2,3) take_fresh [OF assms(3,4)]])
  have "platform.delivering P ip c mapping ?w" by (rule run_kept [OF run assms(1)])
  then have "same_json body (batch_json b) \<and> batch_ok P ip (cc_profile c) b"
    by (cases rule: platform.delivering_cases) (auto simp: platform.situations platform.works_on_def platform.history_ok_def)
  with run show thesis by (intro that [of ?w]) auto
qed

lemma stopped_here:
  assumes "delivery_run P ip limits c mapping w w1"
  obtains w2 where "delivery_run P ip limits c mapping w w2" "wd_spool w2 = wd_spool w1" "wd_store w2 = wd_store w1" "wd_phase w2 = Stopped"
proof -
  let ?w = "w1\<lparr>wd_spool := (wd_spool w1)\<lparr>sp_other_bytes := sp_other_bytes (wd_spool w1)\<rparr>, wd_phase := Stopped\<rparr>"
  have "delivery_run P ip limits c mapping w ?w" by (rule run_step [OF assms delivery_step.Crash])
  then show thesis by (rule that) simp_all
qed

lemma served_page:
  assumes "delivery_run P ip limits c mapping w w1" "wd_phase w1 = Holding body b" "same_json body (batch_json b)"
    "network_ingest P ip limits sio (cc_profile c) body now (wd_store w1) = (r, s)"
  obtains w2 where "delivery_run P ip limits c mapping w w2" "wd_spool w2 = wd_spool w1" "wd_store w2 = s" "wd_phase w2 = Waiting body b"
    "\<forall>response. r = Inr response \<longrightarrow> (b, response) \<in> set (wd_answers w2)"
proof -
  let ?w = "w1\<lparr>wd_phase := Waiting body b, wd_sent := b # wd_sent w1\<rparr>"
  let ?v = "?w\<lparr>wd_store := s, wd_answers := (case r of Inl e \<Rightarrow> wd_answers ?w | Inr response \<Rightarrow> (b, response) # wd_answers ?w)\<rparr>"
  have "platform_serves P ip limits (cc_profile c) b (wd_store ?w) r s"
    unfolding platform_serves_def using assms(3,4) same_wf by (intro exI [of _ body] exI [of _ sio] exI [of _ now]) simp
  then have "delivery_run P ip limits c mapping w ?v"
    by (intro run_step [OF run_step [OF assms(1) delivery_step.Send [OF assms(2)]]] delivery_step.Serve) simp_all
  then show thesis by (rule that) simp_all
qed

lemma finished_page:
  assumes "delivery_run P ip limits c mapping w w1" "wd_phase w1 = Waiting body b" "(b, response) \<in> set (wd_answers w1)"
    "and_then (read_answer response) (\<lambda>ack. check_ack P ack b) = Inr t"
  obtains w2 where "delivery_run P ip limits c mapping w w2" "wd_store w2 = wd_store w1" "wd_phase w2 = Stopped"
    "wd_spool w2 = (save_state (next_state P mapping body b t) (wd_spool w1))\<lparr>sp_pending_file := None\<rparr>"
proof -
  let ?a = "w1\<lparr>wd_phase := Answered body b t\<rparr>"
  let ?s = "?a\<lparr>wd_spool := save_state (next_state P mapping body b t) (wd_spool ?a), wd_phase := Saved\<rparr>"
  let ?u = "?s\<lparr>wd_spool := (wd_spool ?s)\<lparr>sp_pending_file := None\<rparr>, wd_phase := Stopped\<rparr>"
  have "delivery_run P ip limits c mapping w ?a" by (rule run_step [OF assms(1) delivery_step.Answer [OF assms(2-4)]])
  then have "delivery_run P ip limits c mapping w ?s" by (rule run_step) (rule delivery_step.Save, simp)
  then have "delivery_run P ip limits c mapping w ?u" by (rule run_step) (rule delivery_step.Unlink, simp)
  then show thesis by (rule that) simp_all
qed

lemma collect_page_run:
  assumes "platform.delivering P ip c mapping w" and "wd_phase w = Stopped" and "identity P c (pg_ssh_config io) = Inr mapping"
    and "fresh_export P ip c io w"
    and "collect_page P ip c deadline io (post_batch P ip limits sio (cc_profile c) now lost) (wd_spool w) (wd_store w) = (result, sp, s)"
  obtains w' where "delivery_run P ip limits c mapping w w'" "wd_spool w' = sp" "wd_store w' = s" "wd_phase w' = Stopped"
    "is_ok result \<longrightarrow> \<not> has_pending w'"
proof (cases "take_page P ip c deadline io (wd_spool w)")
  case (Inl e)
  then have "sp = wd_spool w" "s = wd_store w" "\<not> is_ok result" using assms(5) by (auto simp: collect_page_def is_ok_def)
  then show thesis using that [OF run_refl] assms(2) by simp
next
  case (Inr page)
  obtain m body b sp1 where page: "page = (m, body, b, sp1)" by (cases page)
  then have take: "take_page P ip c deadline io (wd_spool w) = Inr (mapping, body, b, sp1)"
    using Inr assms(3) take_page_mapping [of P ip c deadline io "wd_spool w" m body b sp1] by simp
  obtain w1 where w1: "delivery_run P ip limits c mapping w w1" "wd_spool w1 = sp1" "wd_store w1 = wd_store w" "wd_phase w1 = Holding body b"
    "same_json body (batch_json b)"
    using taken_page [OF assms(1,2) take assms(4)] by metis
  let ?go = "and_then (reserve_spool sp1 (cc_max_spool_bytes c) (state_reserve P mapping body b)) (\<lambda>_.
    remaining deadline (cc_http_timeout_seconds c) (pg_clock_send io))"
  obtain r s1 where i: "network_ingest P ip limits sio (cc_profile c) body now (wd_store w1) = (r, s1)" by fastforce
  obtain w2 where w2: "delivery_run P ip limits c mapping w w2" "wd_spool w2 = sp1" "wd_store w2 = s1" "wd_phase w2 = Waiting body b"
    "\<forall>response. r = Inr response \<longrightarrow> (b, response) \<in> set (wd_answers w2)"
    using served_page [OF w1(1,4,5) i] w1(2) by metis
  consider (early) e where "?go = Inl e" "result = Inl e" "sp = sp1" "s = wd_store w"
    | (late) e where "result = Inl e" "sp = sp1" "s = s1"
    | (finished) response t where "r = Inr response" "and_then (read_answer response) (\<lambda>ack. check_ack P ack b) = Inr t" "s = s1"
        "sp = (save_state (next_state P mapping body b t) sp1)\<lparr>sp_pending_file := None\<rparr>"
    using assms(5) i w1(3)
    by (cases ?go; cases r; cases lost) (auto simp: collect_page_def take post_batch_def failure_def split: sum.splits)
  then show thesis
  proof cases
    case early
    obtain w3 where "delivery_run P ip limits c mapping w w3" "wd_spool w3 = wd_spool w1" "wd_store w3 = wd_store w1" "wd_phase w3 = Stopped"
      using w1(1) by (rule stopped_here)
    then show thesis using early w1 by (intro that [of w3]) (simp_all add: is_ok_def)
  next
    case late
    obtain w3 where "delivery_run P ip limits c mapping w w3" "wd_spool w3 = wd_spool w2" "wd_store w3 = wd_store w2" "wd_phase w3 = Stopped"
      using w2(1) by (rule stopped_here)
    then show thesis using late w2 by (intro that [of w3]) (simp_all add: is_ok_def)
  next
    case finished
    have "(b, response) \<in> set (wd_answers w2)" using w2(5) finished(1) by blast
    then obtain w3 where "delivery_run P ip limits c mapping w w3" "wd_store w3 = wd_store w2" "wd_phase w3 = Stopped"
      "wd_spool w3 = (save_state (next_state P mapping body b t) (wd_spool w2))\<lparr>sp_pending_file := None\<rparr>"
      using finished_page [OF w2(1,4) _ finished(2)] by metis
    then show thesis using finished w2 by (intro that [of w3]) (simp_all add: has_pending_def)
  qed
qed

text \<open>
  C13: a call of \<open>collect_page\<close> against the platform, whatever fails in it, is a run of these steps and stops; when it reports a page, the
  spool is empty. So what holds after every run holds before and after every call.
\<close>

theorem collect_page_is_delivery_run:
  assumes "\<not> digest_collision P" and "delivery_run P ip limits c mapping (fresh_world st n) w" and "store_ok P st"
    and "filed_keys (sp_source_id (cc_profile c)) st = []" and "checkpoint_of st (sp_source_id (cc_profile c)) = None"
    and "wd_phase w = Stopped" and "identity P c (pg_ssh_config io) = Inr mapping" and "fresh_export P ip c io w"
    and "collect_page P ip c deadline io (post_batch P ip limits sio (cc_profile c) now lost) (wd_spool w) (wd_store w) = (result, sp, s)"
  shows "\<exists>w'. delivery_run P ip limits c mapping (fresh_world st n) w' \<and> wd_spool w' = sp \<and> wd_store w' = s \<and> wd_phase w' = Stopped \<and>
    (is_ok result \<longrightarrow> \<not> has_pending w')"
proof -
  have "platform.delivering P ip c mapping w"
    using platform.reachable_delivering assms(1-5) unfolding delivery_run_def by blast
  then obtain w' where "delivery_run P ip limits c mapping w w'" "wd_spool w' = sp" "wd_store w' = s" "wd_phase w' = Stopped"
    "is_ok result \<longrightarrow> \<not> has_pending w'"
    using assms(6-9) by (rule collect_page_run)
  moreover from this(1) have "delivery_run P ip limits c mapping (fresh_world st n) w'"
    using assms(2) unfolding delivery_run_def by (rule rtranclp_trans [rotated])
  ultimately show ?thesis by blast
qed

section \<open>A filed page is finished\<close>

text \<open>
  What a page needs so that the collector can read its own files again: digests in hexadecimal, and an identifier within the pattern that
  \<open>_load_state\<close> checks.
\<close>

definition presentable :: "py \<Rightarrow> batch \<Rightarrow> bool" where
  "presentable P b = (is_alias (bt_batch_id b) \<and> hex_text 64 (fingerprint P (batch_json b)) \<and> length (bt_profile_revision b) \<le> 64)"

lemma encode_sort_keys: "encode (sort_keys v) = encode v"
  by (rule encode_same) (rule sort_keys_same)

lemma byte_count_enc_size: "byte_count (encode v) = int (enc_size v)"
  by (simp add: byte_count_def enc_size_def)

lemma key_size_le: "list_all is_printable k \<Longrightarrow> length k \<le> 18 \<Longrightarrow> key_size k \<le> 40"
  using enc_size_printable [of k] by (simp add: key_size_def)

lemma small_numbers: "enc_size (JInt 1) \<le> 18"
  by (rule enc_size_int) (simp add: in_bounds_def MAX_REALTIME_US_def)

lemma next_state_size:
  assumes "batch_ok P ip p b" "hex_text 64 mapping" "hex_text 64 (fingerprint P body)" "in_bounds MAX_REALTIME_US t"
  shows "byte_count (encode (next_state P mapping body b t)) \<le> 8192"
proof -
  let ?r = "[(''version'', JInt 1), (''identity'', JStr mapping), (''cursor'', opt_json JStr (bt_cursor_after b)), (''last_batch_id'', JStr (bt_batch_id b)),
     (''last_payload_hash'', JStr (fingerprint P body)), (''received_at_us'', JInt t)]"
  have keys: "list_all (\<lambda>k. key_size k \<le> 40) STATE_FIELDS"
    unfolding STATE_FIELDS_def by (simp, intro conjI key_size_le) (simp_all add: is_printable_def)
  have fields: "enc_size (JObj ?r) = 1 + sum_list (map (\<lambda>k. key_size k + enc_size (get_field ?r k)) STATE_FIELDS)"
    by (rule enc_size_keys) (simp_all add: keys_are_def STATE_FIELDS_def)
  have "enc_size (JStr (bt_batch_id b)) \<le> 770"
    using enc_size_str [of "bt_batch_id b"] length_is_id [OF batch_ids(2) [OF assms(1)]] by linarith
  moreover have "enc_size (opt_json JStr (bt_cursor_after b)) \<le> 4098" using assms(1) enc_size_cursor_tight unfolding batch_ok_def by blast
  ultimately have "enc_size (JObj ?r) \<le> 8192"
    using keys small_numbers enc_size_hex [OF assms(2)] enc_size_hex [OF assms(3)] enc_size_int [OF assms(4)]
    unfolding fields STATE_FIELDS_def by simp
  then show ?thesis by (simp add: byte_count_enc_size next_state_def)
qed

lemma pending_size:
  assumes "batch_ok P ip p b" "hex_text 64 mapping" "hex_text 64 (fingerprint P (batch_json b))"
  shows "byte_count (encode (pending_json P mapping (batch_json b))) \<le> MAX_PENDING_BYTES"
proof -
  let ?ks = "[''version'', ''identity'', ''payload_hash'', ''batch'']"
  let ?r = "[(''version'', JInt 1), (''identity'', JStr mapping), (''payload_hash'', JStr (fingerprint P (batch_json b))), (''batch'', batch_json b)]"
  have keys: "list_all (\<lambda>k. key_size k \<le> 40) ?ks" by (simp, intro conjI key_size_le) (simp_all add: is_printable_def)
  have fields: "enc_size (JObj ?r) = 1 + sum_list (map (\<lambda>k. key_size k + enc_size (get_field ?r k)) ?ks)"
    by (rule enc_size_keys) (simp_all add: keys_are_def wf_batch_json)
  have "byte_count (encode (batch_json b)) \<le> MAX_BATCH_BYTES" using assms(1) unfolding batch_ok_def by blast
  then have "int (enc_size (JObj ?r)) \<le> MAX_PENDING_BYTES"
    using keys small_numbers enc_size_hex [OF assms(2)] enc_size_hex [OF assms(3)]
    unfolding fields MAX_PENDING_BYTES_def byte_count_enc_size by simp
  then show ?thesis by (simp add: byte_count_enc_size pending_json_def)
qed

lemma load_saved:
  assumes "state_of P mapping bs (sp_state_file sp)" "hex_text 64 mapping" "\<forall>b \<in> set bs. batch_ok P ip p b \<and> presentable P b"
  obtains state where "load_state mapping sp = Inr state" and "sv_cursor state = final_cursor bs"
    and "bs \<noteq> [] \<Longrightarrow> sv_last_batch_id state = Some (bt_batch_id (last bs)) \<and> sv_last_payload_hash state = Some (fingerprint P (batch_json (last bs)))"
proof (cases "bs = []")
  case True
  with assms(1) show thesis by (intro that) (auto simp: state_of_def load_state_def final_cursor_def)
next
  case False
  let ?b = "last bs"
  obtain t where t: "in_bounds MAX_REALTIME_US t" and f: "sp_state_file sp = Some (sort_keys (next_state P mapping (batch_json ?b) ?b t))"
    using assms(1) False by (auto simp: state_of_def)
  have b: "batch_ok P ip p ?b" "presentable P ?b" using assms(3) False by simp_all
  then have p: "is_alias (bt_batch_id ?b)" "hex_text 64 (fingerprint P (batch_json ?b))" by (simp_all add: presentable_def)
  have cursor: "is_cursor (bt_cursor_after ?b)" using b(1) unfolding batch_ok_def is_cursor_def by blast
  obtain q where q: "sort_keys (next_state P mapping (batch_json ?b) ?b t) = JObj q" "keys_are q STATE_FIELDS" "get_field q ''version'' = JInt 1"
    "get_field q ''identity'' = JStr mapping" "get_field q ''cursor'' = opt_json JStr (bt_cursor_after ?b)"
    "get_field q ''last_batch_id'' = JStr (bt_batch_id ?b)" "get_field q ''last_payload_hash'' = JStr (fingerprint P (batch_json ?b))"
    "get_field q ''received_at_us'' = JInt t"
    by (rule next_state_fields)
  have size: "byte_count (encode (JObj q)) \<le> 8192"
    using next_state_size [OF b(1) assms(2) p(2) t] encode_sort_keys [of "next_state P mapping (batch_json ?b) ?b t"] by (simp add: q(1))
  have field: "as_option as_str (opt_json JStr (bt_cursor_after ?b)) = Some (bt_cursor_after ?b)" by simp
  have "read_saved mapping q = Some \<lparr>sv_cursor = bt_cursor_after ?b, sv_last_batch_id = Some (bt_batch_id ?b),
      sv_last_payload_hash = Some (fingerprint P (batch_json ?b))\<rparr>"
    using q(2-8) cursor p t by (simp add: read_saved_def in_bounds_def field del: as_options) (simp add: as_str_def as_int_def)
  then have "load_state mapping sp = Inr \<lparr>sv_cursor = bt_cursor_after ?b, sv_last_batch_id = Some (bt_batch_id ?b),
      sv_last_payload_hash = Some (fingerprint P (batch_json ?b))\<rparr>"
    using size by (simp add: load_state_def f q(1) read_state_file_def)
  then show thesis using False by (intro that) (auto simp: final_cursor_def)
qed

lemma filed_row:
  assumes "filed_keys (bt_source_id b) st = map (page_key P) bs" "b \<in> set bs" "distinct (map bt_batch_id bs)"
  obtains row where "find (same_batch_id b) (ns_batches st) = Some row" and "br_payload_hash row = fingerprint P (batch_json b)"
proof (cases "find (same_batch_id b) (ns_batches st)")
  case None
  have "page_key P b \<in> set (filed_keys (bt_source_id b) st)" using assms(1,2) by simp
  then show thesis using not_found_id [OF None] by (force simp: page_key_def)
next
  case (Some row)
  have "(bt_batch_id b, br_payload_hash row) \<in> page_key P ` set bs" using found_key [OF Some] assms(1) by simp
  then obtain b' where b': "b' \<in> set bs" "bt_batch_id b' = bt_batch_id b" "br_payload_hash row = fingerprint P (batch_json b')"
    by (auto simp: page_key_def)
  then have "b' = b" using assms(2,3) by (auto simp: distinct_map dest: inj_onD)
  with Some b'(3) that show thesis by blast
qed

lemma replay_filed:
  assumes ok: "store_ok P st" "\<not> digest_collision P" and b: "batch_ok P ip p b" "presentable P b" and body: "same_json body (batch_json b)"
    and keys: "filed_keys (sp_source_id p) st = map (page_key P) bs" "b \<in> set bs" "distinct (map bt_batch_id bs)"
    and now: "in_bounds MAX_REALTIME_US now"
  obtains response where "post_batch P ip limits sio p now False body st = (Inr response, st)" and "validate_ack P response b = Inr ()"
proof -
  have "bt_source_id b = sp_source_id p" using b(1) unfolding batch_ok_def by blast
  then obtain row where row: "find (same_batch_id b) (ns_batches st) = Some row" "br_payload_hash row = fingerprint P (batch_json b)"
    using filed_row [of b st P bs] keys by metis
  note ack = replayed_ack [OF ok row]
  have "row \<in> set (ns_batches st)" using row(1) by (metis find_Some_iff nth_mem)
  then have "wf_json (br_response row)" using ok(1) by (simp add: store_ok_def batches_ok_def)
  then have "read_answer (br_response row) = Inr (br_response row)"
    using ack_size [OF _ b(1) ack] b(2) by (simp add: read_answer_def presentable_def hex_text_def)
  moreover have "network_ingest P ip limits sio p body now st = (Inr (br_response row), st)"
    using validate_batch_any_order [OF same_wf [OF body] body b(1)] fingerprint_same [OF body] row now
    by (simp add: network_ingest_def ingest_batch_def replay_of_def MAX_REALTIME_US_def)
  ultimately have "post_batch P ip limits sio p now False body st = (Inr (br_response row), st)" by (simp add: post_batch_def)
  then show thesis using that ack by blast
qed

lemma resume_filed:
  assumes ok: "platform.history_ok P ip c w" and filed: "platform.filed P c mapping bs b w"
    and io: "identity P c (pg_ssh_config io) = Inr mapping" and hex: "hex_text 64 mapping" "\<forall>b \<in> set (wd_fetched w). presentable P b"
    and room: "spool_usage (wd_spool w) = Inr used" "used + state_reserve P mapping (batch_json b) b \<le> cc_max_spool_bytes c"
  shows "take_page P ip c deadline io (wd_spool w) = Inr (mapping, sort_keys (batch_json b), b, wd_spool w)"
proof -
  let ?sp = "wd_spool w" and ?body = "sort_keys (batch_json b)"
  have F: "wd_fetched w = bs @ [b]" and pending: "pending_of P mapping b (sp_pending_file ?sp)"
    and state: "state_of P mapping (bs @ [b]) (sp_state_file ?sp) \<or> state_of P mapping bs (sp_state_file ?sp)"
    using filed by (auto simp: platform.situations)
  have ready: "\<forall>b \<in> set (bs @ [b]). batch_ok P ip (cc_profile c) b \<and> presentable P b"
    using ok hex(2) by (auto simp: platform.history_ok_def F)
  then have b: "batch_ok P ip (cc_profile c) b" "presentable P b" by simp_all
  have chain: "bt_cursor_before b = final_cursor bs" using ok by (auto simp: platform.history_ok_def F chained_snoc final_cursor_def)
  have hash: "fingerprint P ?body = fingerprint P (batch_json b)" by (rule fingerprint_same) (rule sort_keys_same)
  obtain state where load: "load_state mapping ?sp = Inr state"
    and cursor: "sv_cursor state = bt_cursor_before b \<or> after_state_commit state b (fingerprint P ?body)"
  proof (cases "state_of P mapping (bs @ [b]) (sp_state_file ?sp)")
    case True
    from load_saved [OF True hex(1) ready] obtain state where "load_state mapping ?sp = Inr state" "sv_cursor state = final_cursor (bs @ [b])"
      "sv_last_batch_id state = Some (bt_batch_id b) \<and> sv_last_payload_hash state = Some (fingerprint P (batch_json b))" by auto
    then show thesis by (intro that) (auto simp: after_state_commit_def hash)
  next
    case False
    then have "state_of P mapping bs (sp_state_file ?sp)" "\<forall>b \<in> set bs. batch_ok P ip (cc_profile c) b \<and> presentable P b" using state ready by auto
    then obtain state where "load_state mapping ?sp = Inr state" "sv_cursor state = final_cursor bs" using load_saved [OF _ hex(1)] by metis
    then show thesis by (intro that) (auto simp: chain)
  qed
  obtain q where q: "sort_keys (pending_json P mapping (batch_json b)) = JObj q" "keys_are q [''version'', ''identity'', ''payload_hash'', ''batch'']"
    "get_field q ''version'' = JInt 1" "get_field q ''identity'' = JStr mapping" "get_field q ''payload_hash'' = JStr (fingerprint P (batch_json b))"
    "get_field q ''batch'' = ?body"
    by (rule pending_fields)
  have on_disk: "sp_pending_file ?sp = Some (JObj q)" using pending q(1) by (simp add: pending_of_def)
  have "byte_count (encode (JObj q)) \<le> MAX_PENDING_BYTES"
    using pending_size [OF b(1) hex(1)] b(2) encode_sort_keys [of "pending_json P mapping (batch_json b)"] by (simp add: q(1) presentable_def)
  then have read: "read_state_file (JObj q) MAX_PENDING_BYTES ''invalid_network_spool'' = Inr (JObj q)" by (simp add: read_state_file_def)
  have "validate_batch P ip (cc_profile c) ?body = Inr b"
    by (rule validate_batch_any_order [OF _ sort_keys_same b(1)]) (simp add: wf_batch_json)
  then have "validate_pending P ip (cc_profile c) mapping state (JObj q) = Inr (?body, b)"
    using cursor by (auto simp: validate_pending_def q(2-6) hash Let_def)
  moreover have "reserve_spool ?sp (cc_max_spool_bytes c) 0 = Inr ()"
    using room by (simp add: reserve_spool_def state_reserve_def byte_count_def)
  ultimately show ?thesis by (simp add: take_page_def io load on_disk read)
qed

text \<open>
  C14: a page that the platform has filed, but whose acknowledgement never reached the collector or whose cursor was not saved, is finished
  by the next call that reaches the platform: the page is delivered again, the platform repeats its answer and changes nothing, the
  cursor is saved and the spool emptied. This needs room for the state file, time to send, and identifiers the collector can read back.
\<close>

theorem filed_page_is_finished:
  assumes "\<not> digest_collision P" and "delivery_run P ip limits c mapping (fresh_world st n) w" and "store_ok P st"
    and "filed_keys (sp_source_id (cc_profile c)) st = []" and "checkpoint_of st (sp_source_id (cc_profile c)) = None"
    and "wd_phase w = Stopped" and "has_pending w"
    and "filed_keys (sp_source_id (cc_profile c)) (wd_store w) = map (page_key P) (wd_fetched w)"
    and "identity P c (pg_ssh_config io) = Inr mapping" and "hex_text 64 mapping" and "\<forall>b \<in> set (wd_fetched w). presentable P b"
    and "spool_usage (wd_spool w) = Inr used"
    and "used + state_reserve P mapping (batch_json (last (wd_fetched w))) (last (wd_fetched w)) \<le> cc_max_spool_bytes c"
    and "pg_clock_send io < deadline" and "in_bounds MAX_REALTIME_US now"
  shows "\<exists>sp. collect_page P ip c deadline io (post_batch P ip limits sio (cc_profile c) now False) (wd_spool w) (wd_store w) =
      (Inr (report_page (last (wd_fetched w))), sp, wd_store w) \<and>
    sp_pending_file sp = None \<and> state_of P mapping (wd_fetched w) (sp_state_file sp)"
proof -
  have inv: "platform.delivering P ip c mapping w"
    using platform.reachable_delivering assms(1-5) unfolding delivery_run_def by blast
  then obtain bs b where ok: "platform.history_ok P ip c w" and filed: "platform.filed P c mapping bs b w"
  proof (cases rule: platform.delivering_cases)
    case idle
    then show ?thesis using assms(7) platform.pending_iff(1) by blast
  next
    case (not_filed bs b)
    then have "map (page_key P) bs = map (page_key P) (wd_fetched w)" "wd_fetched w = bs @ [b]"
      using assms(8) unfolding platform.situations platform.on_file_def by metis+
    then show ?thesis by simp
  qed blast
  have F: "wd_fetched w = bs @ [b]" using filed by (simp add: platform.situations)
  let ?body = "sort_keys (batch_json b)" and ?sp = "wd_spool w"
  have take: "take_page P ip c deadline io ?sp = Inr (mapping, ?body, b, ?sp)"
    using resume_filed [OF ok filed assms(9-12)] assms(13) F by simp
  have b: "batch_ok P ip (cc_profile c) b" "presentable P b" and s: "store_ok P (wd_store w)" "distinct (map bt_batch_id (wd_fetched w))"
    using ok assms(11) by (auto simp: platform.history_ok_def F)
  obtain response where post: "post_batch P ip limits sio (cc_profile c) now False ?body (wd_store w) = (Inr response, wd_store w)"
    and ack: "validate_ack P response b = Inr ()"
    using replay_filed [OF s(1) assms(1) b sort_keys_same assms(8) _ s(2) assms(15), of limits sio] F by auto
  have reserve: "state_reserve P mapping ?body b = state_reserve P mapping (batch_json b) b"
    by (simp add: state_reserve_def next_state_any_order [OF sort_keys_same])
  have time: "in_bounds MAX_REALTIME_US (ack_time response)"
    by (rule platform.check_ack_time [of P response b]) (simp add: check_ack_def ack)
  have "collect_page P ip c deadline io (post_batch P ip limits sio (cc_profile c) now False) ?sp (wd_store w) =
      (Inr (report_page b), (save_state (next_state P mapping ?body b (ack_time response)) ?sp)\<lparr>sp_pending_file := None\<rparr>, wd_store w)"
    using assms(12-14) F by (simp add: collect_page_def take post check_ack_def ack reserve reserve_spool_def remaining_def)
  moreover have "state_of P mapping (wd_fetched w) (sp_state_file (save_state (next_state P mapping ?body b (ack_time response)) ?sp))"
    using time next_state_any_order [OF sort_keys_same, of P mapping b] by (auto simp: state_of_def F save_state_def)
  ultimately show ?thesis by (simp add: F)
qed

text \<open>
  The identifier of a page may contain a colon (\<open>_ID\<close> of the protocol), but \<open>_load_state\<close> does not read one back (\<open>_ALIAS\<close>): once such a page
  is acknowledged and its state saved, every later call fails before it does anything.
\<close>

lemma colon_is_no_alias: "is_id ''net:1''" "\<not> is_alias ''net:1''"
  by code_simp+

theorem colon_identifier_stops_collector:
  assumes "\<not> digest_collision P" and "delivery_run P ip limits c mapping (fresh_world st n) w" and "store_ok P st"
    and "filed_keys (sp_source_id (cc_profile c)) st = []" and "checkpoint_of st (sp_source_id (cc_profile c)) = None"
    and "\<not> has_pending w" and "wd_fetched w \<noteq> []" and "\<not> is_alias (bt_batch_id (last (wd_fetched w)))"
  shows "\<exists>e. collect_page P ip c deadline io send (wd_spool w) s = (Inl e, wd_spool w, s)"
proof -
  have "platform.delivering P ip c mapping w"
    using platform.reachable_delivering assms(1-5) unfolding delivery_run_def by blast
  then have "state_of P mapping (wd_fetched w) (sp_state_file (wd_spool w))"
    using assms(6) by (cases rule: platform.delivering_cases) (auto simp: platform.situations has_pending_def pending_of_def)
  then obtain t where f: "sp_state_file (wd_spool w) = Some (sort_keys (next_state P mapping (batch_json (last (wd_fetched w))) (last (wd_fetched w)) t))"
    using assms(7) by (auto simp: state_of_def)
  obtain q where q: "sort_keys (next_state P mapping (batch_json (last (wd_fetched w))) (last (wd_fetched w)) t) = JObj q"
    "get_field q ''last_batch_id'' = JStr (bt_batch_id (last (wd_fetched w)))"
    by (rule next_state_fields)
  have "read_saved m q = None" for m
    using assms(8) q(2) by (auto simp: read_saved_def as_str_def split: bind_splits if_splits)
  then have "\<exists>e. load_state m (wd_spool w) = Inl e" for m
    by (simp add: load_state_def f q(1) read_state_file_def failure_def)
  then have "\<exists>e. take_page P ip c deadline io (wd_spool w) = Inl e"
    by (cases "identity P c (pg_ssh_config io)"; cases "reserve_spool (wd_spool w) (cc_max_spool_bytes c) 0")
      (auto simp: take_page_def, metis and_then_simps(1))
  then show ?thesis by (auto simp: collect_page_def)
qed

section \<open>A concrete run\<close>

text \<open>A runtime without collisions whose digests of the texts at hand are hexadecimal, and a world in which the answer to a filed page was lost.\<close>

definition steady_batch :: batch where
  "steady_batch = clear_batch\<lparr>bt_profile_revision := replicate 64 (CHR ''b'')\<rparr>"

definition steady_ssh :: string where
  "steady_ssh = ''Host probe''"

definition steady_config :: collector_config where
  "steady_config = \<lparr>cc_endpoint = ''https://ops/api/network/batches'', cc_state_dir = ''/state'', cc_profile = sample_profile,
     cc_ssh_config = ''/ssh'', cc_ssh_host = ''probe'', cc_token = replicate 24 (CHR ''t''), cc_ssh_timeout_seconds = 10,
     cc_http_timeout_seconds = 10, cc_max_pages_per_run = 5, cc_max_seconds_per_run = 20, cc_max_spool_bytes = MAX_SPOOL_BYTES\<rparr>"

definition steady_identity :: string where
  "steady_identity = encode (JObj [(''endpoint'', JStr (cc_endpoint steady_config)), (''source_id'', JStr (sp_source_id sample_profile)),
     (''profile_revision'', JStr (replicate 64 (CHR ''b''))), (''ssh_config'', JStr (cc_ssh_config steady_config)),
     (''ssh_host'', JStr (cc_ssh_host steady_config)), (''ssh_config_sha256'', JStr (CHR ''z'' # encode (JStr steady_ssh)))])"

definition digest_table :: "(string \<times> string) list" where
  "digest_table = [(clear_text, replicate 64 (CHR ''a'')), (encode (JObj (profile_payload sample_profile)), replicate 64 (CHR ''b'')),
     (steady_identity, replicate 64 (CHR ''c'')), (encode (batch_json steady_batch), replicate 64 (CHR ''d''))]"

definition steady_py :: py where
  "steady_py = \<lparr>hexdigest = (\<lambda>s. case map_of digest_table s of Some d \<Rightarrow> d | None \<Rightarrow> CHR ''z'' # s), fromisoformat = (\<lambda>s. None),
     repr_float = (\<lambda>q. []), trunc_float = (\<lambda>s. None)\<rparr>"

definition steady_io :: page_io where
  "steady_io = \<lparr>pg_ssh_config = Some steady_ssh, pg_ssh_config_after = Some steady_ssh, pg_clock_fetch = 0, pg_clock_send = 0, pg_clock_next = 0,
     pg_fetch = (\<lambda>cursor timeout. Inr (Some (batch_json steady_batch)))\<rparr>"

abbreviation steady_mapping :: string where
  "steady_mapping \<equiv> replicate 64 (CHR ''c'')"

lemma steady_digests:
  "list_all (\<lambda>(s, d). hd d \<noteq> CHR ''z'' \<and> d \<noteq> []) digest_table" "distinct (map snd digest_table)"
  by (simp_all add: digest_table_def)

lemma steady_no_collision: "\<not> digest_collision steady_py"
proof -
  have z: "d \<noteq> CHR ''z'' # s" if "map_of digest_table r = Some d" for r s d
    using map_of_SomeD [OF that] steady_digests(1) by (auto simp: list_all_iff)
  have "a = b" if eq: "hexdigest steady_py a = hexdigest steady_py b" for a b
  proof (cases "map_of digest_table a"; cases "map_of digest_table b")
    fix d e assume d: "map_of digest_table a = Some d" "map_of digest_table b = Some e"
    then have "d = e" using eq by (simp add: steady_py_def)
    then have "(a, d) \<in> set digest_table" "(b, d) \<in> set digest_table" using d by (simp_all add: map_of_SomeD)
    then show "a = b" using steady_digests(2) by (metis eq_snd_iff inj_on_def distinct_map prod.inject)
  qed (use eq z in \<open>auto simp: steady_py_def\<close>)
  then show ?thesis by (auto simp: digest_collision_def)
qed

lemma steady_accepted: "validate_batch steady_py two_hosts sample_profile (batch_json steady_batch) = Inr steady_batch"
  by code_simp

lemma steady_mapped: "identity steady_py steady_config (Some steady_ssh) = Inr steady_mapping"
  by code_simp

lemma steady_hash: "fingerprint steady_py (batch_json steady_batch) = replicate 64 (CHR ''d'')"
  by code_simp

lemma steady_hex: "hex_text 64 (replicate 64 (CHR ''c''))" "hex_text 64 (replicate 64 (CHR ''d''))"
  by code_simp+

lemma steady_ok: "batch_ok steady_py two_hosts (cc_profile steady_config) steady_batch" "presentable steady_py steady_batch"
proof -
  show "batch_ok steady_py two_hosts (cc_profile steady_config) steady_batch"
    using validate_batch_same(2) [OF steady_accepted wf_batch_json] by (simp add: steady_config_def)
  have "is_alias (bt_batch_id steady_batch)" by code_simp
  then show "presentable steady_py steady_batch" using steady_hex by (simp add: presentable_def steady_hash) (simp add: steady_batch_def)
qed

definition steady_spool :: spool where
  "steady_spool = \<lparr>sp_state_file = None, sp_pending_file = Some (sort_keys (pending_json steady_py steady_mapping (batch_json steady_batch))),
     sp_other_bytes = 0, sp_problem = None\<rparr>"

definition steady_delivery :: "json result \<times> net_store" where
  "steady_delivery = network_ingest steady_py two_hosts small_limits calm_io sample_profile (batch_json steady_batch) 30 new_store"

definition steady_world :: "net_store world" where
  "steady_world = \<lparr>wd_spool = steady_spool, wd_store = snd steady_delivery, wd_phase = Stopped, wd_fetched = [steady_batch],
     wd_sent = [steady_batch], wd_answers = (case fst steady_delivery of Inl e \<Rightarrow> [] | Inr response \<Rightarrow> [(steady_batch, response)])\<rparr>"

lemma steady_room:
  "byte_count (encode (pending_json steady_py steady_mapping (batch_json steady_batch))) \<le> MAX_PENDING_BYTES"
  "state_reserve steady_py steady_mapping (batch_json steady_batch) steady_batch \<le> 8192"
proof -
  have hash: "hex_text 64 (fingerprint steady_py (batch_json steady_batch))" using steady_hex by (simp only: steady_hash)
  show "byte_count (encode (pending_json steady_py steady_mapping (batch_json steady_batch))) \<le> MAX_PENDING_BYTES"
    by (rule pending_size [OF steady_ok(1) steady_hex(1) hash])
  have "in_bounds MAX_REALTIME_US MAX_REALTIME_US" by (simp add: in_bounds_def MAX_REALTIME_US_def)
  then show "state_reserve steady_py steady_mapping (batch_json steady_batch) steady_batch \<le> 8192"
    unfolding state_reserve_def by (rule next_state_size [OF steady_ok(1) steady_hex(1) hash])
qed

lemma steady_taken:
  "take_page steady_py two_hosts steady_config 10 steady_io (wd_spool (fresh_world new_store 0)) =
     Inr (steady_mapping, batch_json steady_batch, steady_batch, steady_spool)"
proof -
  have [simp]: "cc_profile steady_config = sample_profile" "cc_max_spool_bytes steady_config = MAX_SPOOL_BYTES"
    "pg_ssh_config steady_io = Some steady_ssh" "pg_ssh_config_after steady_io = Some steady_ssh" "pg_clock_fetch steady_io = 0"
    "pg_fetch steady_io x y = Inr (Some (batch_json steady_batch))" "bt_cursor_before steady_batch = None" for x y
    by (simp_all add: steady_config_def steady_io_def steady_batch_def clear_batch_def)
  show ?thesis
    using steady_room
    by (simp add: take_page_def steady_mapped fresh_world_def reserve_spool_def spool_usage_def file_bytes_def load_state_def remaining_def
      read_export_def wf_batch_json steady_accepted MAX_SPOOL_BYTES_def MAX_PENDING_BYTES_def MAX_BATCH_BYTES_def steady_spool_def Let_def)
qed

lemma steady_run: "delivery_run steady_py two_hosts small_limits steady_config steady_mapping (fresh_world new_store 0) steady_world"
proof -
  let ?w0 = "fresh_world new_store 0" and ?body = "batch_json steady_batch"
  let ?w1 = "?w0\<lparr>wd_spool := steady_spool, wd_phase := Holding ?body steady_batch,
    wd_fetched := (if has_pending ?w0 then wd_fetched ?w0 else wd_fetched ?w0 @ [steady_batch])\<rparr>"
  let ?w2 = "?w1\<lparr>wd_phase := Waiting ?body steady_batch, wd_sent := steady_batch # wd_sent ?w1\<rparr>"
  let ?w3 = "?w2\<lparr>wd_store := snd steady_delivery,
    wd_answers := (case fst steady_delivery of Inl e \<Rightarrow> wd_answers ?w2 | Inr response \<Rightarrow> (steady_batch, response) # wd_answers ?w2)\<rparr>"
  have "delivery_run steady_py two_hosts small_limits steady_config steady_mapping ?w0 ?w1"
    by (rule run_step [OF run_refl delivery_step.Take [OF _ steady_taken]]) (simp_all add: fresh_world_def)
  then have sent: "delivery_run steady_py two_hosts small_limits steady_config steady_mapping ?w0 ?w2"
    by (rule run_step) (rule delivery_step.Send, simp)
  have serves: "platform_serves steady_py two_hosts small_limits (cc_profile steady_config) steady_batch (wd_store ?w2) (fst steady_delivery) (snd steady_delivery)"
    unfolding platform_serves_def steady_delivery_def
    by (intro exI [of _ ?body] exI [of _ calm_io] exI [of _ 30]) (simp add: wf_batch_json steady_config_def fresh_world_def)
  have "delivery_run steady_py two_hosts small_limits steady_config steady_mapping ?w0 ?w3"
    by (rule run_step [OF sent], rule delivery_step.Serve, simp) (rule serves)
  then have "delivery_run steady_py two_hosts small_limits steady_config steady_mapping ?w0
      (?w3\<lparr>wd_spool := (wd_spool ?w3)\<lparr>sp_other_bytes := 0\<rparr>, wd_phase := Stopped\<rparr>)"
    by (rule run_step) (rule delivery_step.Crash)
  moreover have "?w3\<lparr>wd_spool := (wd_spool ?w3)\<lparr>sp_other_bytes := 0\<rparr>, wd_phase := Stopped\<rparr> = steady_world"
    by (simp add: steady_world_def fresh_world_def has_pending_def steady_spool_def split: sum.split)
  ultimately show ?thesis by simp
qed

lemma new_store_empty: "filed_keys source new_store = []" "checkpoint_of new_store source = None"
  by (simp_all add: filed_keys_def checkpoint_of_def new_store_def)

lemma steady_fields:
  "bt_cursor_before steady_batch = None" "bt_collected_at_us steady_batch = 20" "bt_entries steady_batch = bt_entries clear_batch"
  "\<exists>q. bt_entries clear_batch = [Rejected q]"
  by (simp_all add: steady_batch_def clear_batch_def)

lemma steady_filed: "filed_keys (sp_source_id (cc_profile steady_config)) (wd_store steady_world) = map (page_key steady_py) (wd_fetched steady_world)"
proof -
  have eq: "steady_delivery = ingest_batch steady_py small_limits calm_io steady_batch (fingerprint steady_py (batch_json steady_batch)) 30 new_store"
    by (simp add: steady_delivery_def network_ingest_def steady_accepted)
  obtain q where q: "bt_entries steady_batch = [Rejected q]" using steady_fields(3,4) by auto
  have "is_ok (fst steady_delivery)"
    unfolding eq
    by (simp add: ingest_batch_def replay_of_def new_store_def calm_io_def store_batch_def checkpoint_of_def small_limits_def
      expire_events_def steady_fields(1,2) q store_entry_def insert_event_def is_ok_def in_bounds_def Let_def)
  then obtain response where "fst steady_delivery = Inr response" by (cases "fst steady_delivery") (auto simp: is_ok_def)
  then have "platform_serves steady_py two_hosts small_limits (cc_profile steady_config) steady_batch new_store (Inr response) (wd_store steady_world)"
    unfolding platform_serves_def steady_world_def steady_delivery_def
    by (intro exI [of _ "batch_json steady_batch"] exI [of _ calm_io] exI [of _ 30]) (auto simp: wf_batch_json steady_config_def prod_eq_iff)
  from platform_answers [OF new_store_ok steady_no_collision steady_ok(1) refl this] show ?thesis
    by (simp add: new_store_empty steady_world_def)
qed

theorem pages_filed_exactly_once_witness:
  "\<exists>w bs. delivery_run steady_py two_hosts small_limits steady_config steady_mapping (fresh_world new_store 0) w \<and> has_pending w \<and>
     filed_keys (sp_source_id (cc_profile steady_config)) (wd_store w) = map (page_key steady_py) bs \<and>
     (\<forall>b \<in> set bs. receipted b (bt_entries b) (wd_store w))"
proof -
  have "has_pending steady_world" by (simp add: has_pending_def steady_world_def steady_spool_def)
  with pages_filed_exactly_once [OF steady_no_collision steady_run new_store_ok new_store_empty] steady_run show ?thesis by blast
qed

theorem collect_page_is_delivery_run_witness:
  "\<exists>result sp s w. collect_page steady_py two_hosts steady_config 10 steady_io (post_batch steady_py two_hosts small_limits calm_io
       (cc_profile steady_config) 30 False) (wd_spool (fresh_world new_store 0)) new_store = (result, sp, s) \<and>
     delivery_run steady_py two_hosts small_limits steady_config steady_mapping (fresh_world new_store 0) w \<and> wd_store w = s"
proof -
  have start: "wd_phase (fresh_world new_store 0) = Stopped" "identity steady_py steady_config (pg_ssh_config steady_io) = Inr steady_mapping"
    "fresh_export steady_py two_hosts steady_config steady_io (fresh_world new_store 0)" "wd_store (fresh_world new_store 0) = new_store"
    by (simp_all add: fresh_world_def steady_io_def steady_mapped fresh_export_def)
  obtain result sp s where call: "collect_page steady_py two_hosts steady_config 10 steady_io (post_batch steady_py two_hosts small_limits calm_io
      (cc_profile steady_config) 30 False) (wd_spool (fresh_world new_store 0)) (wd_store (fresh_world new_store 0)) = (result, sp, s)"
    by (rule prod_cases3)
  from collect_page_is_delivery_run [OF steady_no_collision run_refl new_store_ok new_store_empty start(1-3) call] call show ?thesis
    unfolding start(4) by blast
qed

theorem filed_page_is_finished_witness:
  "\<exists>sp. collect_page steady_py two_hosts steady_config 10 steady_io (post_batch steady_py two_hosts small_limits calm_io
       (cc_profile steady_config) 40 False) (wd_spool steady_world) (wd_store steady_world) = (Inr (report_page steady_batch), sp, wd_store steady_world) \<and>
     sp_pending_file sp = None"
proof -
  have world: "wd_phase steady_world = Stopped" "has_pending steady_world" "wd_fetched steady_world = [steady_batch]"
    "pg_clock_send steady_io < 10" "in_bounds MAX_REALTIME_US 40" "identity steady_py steady_config (pg_ssh_config steady_io) = Inr steady_mapping"
    by (simp_all add: has_pending_def steady_world_def steady_spool_def steady_io_def in_bounds_def MAX_REALTIME_US_def steady_mapped)
  define used where "used = byte_count (encode (pending_json steady_py steady_mapping (batch_json steady_batch)))"
  have used: "spool_usage (wd_spool steady_world) = Inr used"
    by (simp add: spool_usage_def steady_world_def steady_spool_def file_bytes_def encode_sort_keys used_def)
  have room: "used + state_reserve steady_py steady_mapping (batch_json (last (wd_fetched steady_world))) (last (wd_fetched steady_world))
      \<le> cc_max_spool_bytes steady_config"
    using steady_room by (simp add: used_def world(3) steady_config_def MAX_SPOOL_BYTES_def MAX_PENDING_BYTES_def MAX_BATCH_BYTES_def)
  have fetched: "\<forall>b \<in> set (wd_fetched steady_world). presentable steady_py b" using steady_ok(2) by (simp add: world(3))
  from filed_page_is_finished [OF steady_no_collision steady_run new_store_ok new_store_empty world(1,2) steady_filed world(6) steady_hex(1)
      fetched used room world(4,5), of calm_io]
  show ?thesis unfolding world(3) last.simps by auto
qed

end
