(* ===== verification/Spec2Isabelle.thy ===== *)
theory Spec2Isabelle
  imports Orchestrator Reduction Network_Detection Detection Triage_Api Web_Detection Sshd_Parse Audit_Timeline Operator_Auth
    Network_Delivery
begin

text \<open>
  A verification development for a security-operations platform (\<open>src/backend/app\<close>, written in Python): it ingests logs, groups
  and triages alerts, derives risks, gates remediation by policy and approval, executes one kind of change on a host with
  verification and rollback, and keeps a hash-chained audit log of everything. Beside this flow the platform observes SSH, firewall and
  HTTP records with rolling-window detectors, reduces alerts to incidents, and pays for model calls out of a shared budget.

  \<^bold>\<open>The parts and their theories\<close>

  The flow, in the order the code calls it:
  \<^item> \<open>Core\<close>, \<open>Schemas\<close> for \<open>core/\<close>, \<open>schemas/\<close>: content and policy hashes, sequential ids, clocks; one record per model of the
    code with its \<open>model_dump\<close>, one datatype per enumeration.
  \<^item> \<open>Policy\<close> for \<open>policy/\<close>, \<open>authorization.py\<close>: the gates of \<open>PolicyEngine\<close> in their order, scopes bound by hash. The specification \<open>permits\<close>
    is what a scope means; ALLOW is shown to be exactly it.
  \<^item> \<open>Storage\<close> for \<open>storage/\<close>: the evidence vault, the two repository backends and the audit log. The locale \<open>repository\<close> is the contract of a
    backend, interpreted on both.
  \<^item> \<open>Services\<close> for \<open>services.py\<close>, \<open>agents/contract.py\<close>, \<open>runtime/workflow.py\<close>: the state every stage shares and the operations of the
    runtime, as state-passing code.
  \<^item> \<open>Reference\<close>, \<open>Ingest\<close>, \<open>Soc\<close> for \<open>reference.py\<close>, \<open>pipeline/ingest.py\<close>, \<open>pipeline/soc.py\<close>, \<open>pipeline/grc.py\<close>, \<open>agents/triage.py\<close>: from raw
    logs to alerts, groups, incidents, control mappings and risks.
  \<^item> \<open>Harden\<close> for \<open>tools/\<close>: reading \<open>sshd_config\<close> with includes and conditional blocks, the edit with its backup, verification, rollback.
  \<^item> \<open>Remediation\<close>, \<open>Orchestrator\<close> for \<open>pipeline/remediation.py\<close>, \<open>orchestrator.py\<close>, \<open>replay.py\<close>: plans, approvals, gated execution; the whole
    flow and its replay from retained evidence.
  \<^item> \<open>Audit_Timeline\<close> for \<open>audit_timeline.py\<close>: the chain exported as a file and checked from it.

  Observation and reduction:
  \<^item> \<open>Union_Find\<close>, \<open>Reduction\<close> for \<open>reduction/\<close>: deduplication, correlation and scoring of alerts.
  \<^item> \<open>Windows\<close>: the rolling-window scan that three detectors share in the source by repeating it. The locale \<open>sliding_window\<close> states what
    counters must promise to follow a window; it is interpreted in \<open>Network_Detection\<close>, \<open>Detection\<close> and \<open>Web_Detection\<close>.
  \<^item> \<open>Network_Guard\<close>, \<open>Network_Parse\<close>, \<open>Network_Detection\<close> for \<open>telemetry/network_guard.py\<close>, \<open>network_parse.py\<close>, \<open>network_detection.py\<close>.
  \<^item> \<open>Network_Protocol\<close>, \<open>Network_Export\<close>, \<open>Network_Store\<close>, \<open>Network_Ack\<close>, \<open>Network_Collector\<close>, \<open>Network_Delivery\<close> for
    \<open>telemetry/network_protocol.py\<close>, \<open>scripts/network_export.py\<close>, \<open>telemetry/network_store.py\<close>, \<open>scripts/network_collector.py\<close>: how
    observations reach the platform. The exporter cuts the journal into pages, the collector spools and delivers them, the store files
    them in one transaction each and acknowledges. The relation \<open>delivery_step\<close> has the durable steps of all of them, with crashes and an
    unreliable network; the locale \<open>receiver\<close> is what the collector relies on, interpreted on the store.
  \<^item> \<open>Sshd_Parse\<close>, \<open>Detection\<close> for \<open>telemetry/sshd_parse.py\<close>, \<open>detection.py\<close>.
  \<^item> \<open>Http_Parse\<close>, \<open>Web_Detection\<close> for \<open>telemetry/http_parse.py\<close>, \<open>web_detection.py\<close>.

  Operators:
  \<^item> \<open>Operator_Auth\<close> for \<open>telemetry/operator_auth.py\<close> and the password functions of \<open>telemetry/config.py\<close>.

  Paid model calls:
  \<^item> \<open>Budget\<close> for \<open>agents/triage_budget.py\<close>: the ledger and the relation \<open>ledger_step\<close> of all operations that any process may commit.
  \<^item> \<open>Triage_Api\<close> for \<open>agents/triage_api.py\<close>: what is done with the response of a model.

  Shared by all: \<open>Prelude\<close> (the runtime taken as an argument, exceptions as values, rules for state-passing code), \<open>Py_Text\<close>,
  \<open>Py_Dict\<close>, \<open>Py_Json\<close> (Python's strings, insertion-ordered dictionaries, and \<open>json.dumps\<close> with the proof that its texts are
  uniquely readable).

  \<^bold>\<open>How code becomes definitions\<close>

  A class with fields is a record, an enumeration a datatype, a dictionary an association list in insertion order, an exception a value of
  \<open>err\<close> on the left of a sum. Code that mutates the shared services or a host runs in the state monad, so that what it has done before it
  raises is in the final state; pure code that raises is sequenced by \<open>and_then\<close>. Loops are recursions on the list they walk. A validator
  that tests conditions in order is a list of conditions with their codes (\<open>first_failure\<close>).

  Two loops do not follow a list. Reading \<open>sshd_config\<close> recurses into included files; the source stops at a depth of sixteen, so the model
  counts seventeen levels down and never runs out. Substitution in a text (\<open>replace_fuel\<close>, \<open>sub_incomplete\<close>) uses the length of the text as
  fuel, and every step consumes a character. Finding the representative of a set is a partial function; that it returns on
  every state the program reaches is proved (\<open>reduction_loses_no_alert\<close>).

  \<^bold>\<open>What is taken as an argument\<close>

  The record \<open>py\<close>: SHA-256 (any function; where a statement needs it, \<open>digest_collision\<close> names the exception), \<open>datetime.fromisoformat\<close>, the
  printed form of a float and the integer part of one. Further \<open>json.loads\<close>, the \<open>ipaddress\<close> module, \<open>str.casefold\<close>, conversion of a decoded
  value to a float, path resolution and globbing, \<open>difflib\<close>,
  PBKDF2, HMAC and base 64. A statement that relies on one of them says on what, and has a witness with a
  concrete function. For the delivery of pages, the errors of SQLite and the disk, the clock, the exporter's answer and \<open>urlsplit\<close>. A file that
  the collector has written is the value that is read back from it.

  Text is a list of characters, exact for code points below 256, and writing it to bytes is the identity. Times that the code keeps as
  floats are exact rationals or integers of microseconds. Integers are unbounded, as in Python; SQLite's limit of 64 bits is not reached
  by the amounts of the ledger under a ceiling within it.

  \<^bold>\<open>What is shown\<close>

  \<^item> Authorization: ALLOW is exactly what the scope permits; a host changes only when the gate permits this plan, actor and host with the
    approval on record; an approval covers exactly the plans that agree with the approved one in all hashed fields, under the policy it was
    given for; a permitted plan ends verified or rolled back.
  \<^item> Accountability: the audit chain is tamper evident up to its end, kept by every operation also when it raises, and judged the same from
    its exported file; a flow is reproduced by replay.
  \<^item> Pipeline: groups partition alerts, evidence is retained, incidents need a grounded escalation whatever agent is registered; a flow
    gates every plan it proposes and marks approved exactly what its scope permits.
  \<^item> Detection: each incremental scan finds exactly the windows that qualify; parsers build only what validators accept; no alert is lost
    by reduction; no sensitive request is missed.
  \<^item> Delivery: pages the exporter assembles are accepted; across crashes, lost, repeated and delayed messages the store holds every page
    exactly once and in order; its answers are always accepted and fit the bytes that are read; a page on file is finished by the next
    call that gets through.
  \<^item> Operators: the cache of verified credentials never changes an answer, and a stored hash verifies its password.
  \<^item> Budget: what reservations cover stays within the ceiling under every interleaving, a call is paid once, a reservation covers the charge
    of a response within its limits, a verdict cites only evidence it was shown.

  Where the code does not do what its documentation says, that is proved as well: \<open>late_rejection_is_ignored\<close>, \<open>truncation_undetected\<close>,
  \<open>repositories_list_differently\<close>, \<open>peer_chosen_by_username\<close>, \<open>timeline_splits_event\<close>, \<open>colon_identifier_stops_collector\<close>.

  \<^bold>\<open>Not modelled\<close>

  The other stores, queues and dashboards under \<open>telemetry/\<close> and the joint cases: their logic is SQL, and a model would be one of the
  database engine; of \<open>network_store.py\<close> the ingestion is modelled, its file, migrations and queries are not. Requests over HTTP, the demo
  and live APIs, \<open>evaluation/\<close> and the other files of \<open>scripts/\<close>: effects on processes, files and networks, or generated data. The
  versioned dossiers of \<open>agents/triage_evidence.py\<close>, and the formatting of \<open>audit_timeline.py\<close>. Failures of the file system during a
  change of a host, and permissions, locks and symbolic links of the collector's directory, are not modelled; files in it that it has not
  written itself are not either. The targets of symbolic links on a host, and a \<open>RecursionError\<close> of \<open>json.loads\<close>, are not modelled;
  the size of an answer is that of its compact encoding.
\<close>

end
